(* ===== verification/Prelude.thy ===== *)
theory Prelude
  imports Main "HOL-Library.Word"
begin

text \<open>
  What every component of the model shares: bytes and strings, the C++ integer types with their
  wrap-around, exceptions as values of a sum type, and generic lemmas on lists.

  \<^item> \<^verbatim>\<open>uint8_t\<close>, \<^verbatim>\<open>uint16_t\<close> and \<^verbatim>\<open>uint32_t\<close> header fields are \<open>8 word\<close>, \<open>16 word\<close>, \<open>32 word\<close>.
  \<^item> \<^verbatim>\<open>size_t\<close> and \<^verbatim>\<open>uint64_t\<close> counters are natural numbers below \<open>2 ^ 64\<close>; every addition,
    subtraction and multiplication of the code on them is \<open>add64\<close>, \<open>sub64\<close>, \<open>mul32\<close> below,
    with the wrap-around written out.
  \<^item> a thrown exception is the left side of \<open>exn + 'a\<close>; reaching code whose behaviour the C++
    standard leaves undefined is the value \<open>Inl (Undefined_behaviour what)\<close>.
\<close>

section \<open>Bytes and exceptions\<close>

type_synonym byte = "8 word"
type_synonym bytes = "byte list"
type_synonym u16 = "16 word"
type_synonym u32 = "32 word"
type_synonym size_t = nat

datatype exn =
    Out_of_range string
  | Runtime_error string
  | Unix_error string
  | Undefined_behaviour string

definition bindE :: "'e + 'a \<Rightarrow> ('a \<Rightarrow> 'e + 'b) \<Rightarrow> 'e + 'b" where
  "bindE m f = (case m of Inl e \<Rightarrow> Inl e | Inr x \<Rightarrow> f x)"

lemma bindE_simps [simp]:
  "bindE (Inl e) f = Inl e"
  "bindE (Inr x) f = f x"
  by (simp_all add: bindE_def)

lemma bindE_cong:
  "m = m' \<Longrightarrow> (\<And>x. m' = Inr x \<Longrightarrow> f x = f' x) \<Longrightarrow> bindE m f = bindE m' f'"
  by (cases m') simp_all

lemma bindE_eq_Inr_iff: "bindE m f = Inr y \<longleftrightarrow> (\<exists>x. m = Inr x \<and> f x = Inr y)"
  by (cases m) auto

section \<open>64-bit unsigned arithmetic on natural numbers\<close>

definition add64 :: "nat \<Rightarrow> nat \<Rightarrow> nat" where
  "add64 a b = (a + b) mod 2 ^ 64"

definition sub64 :: "nat \<Rightarrow> nat \<Rightarrow> nat" where
  "sub64 a b = (a + (2 ^ 64 - b mod 2 ^ 64)) mod 2 ^ 64"

definition mul32 :: "nat \<Rightarrow> nat \<Rightarrow> nat" where
  "mul32 a b = (a * b) mod 2 ^ 32"

definition inc32 :: "nat \<Rightarrow> nat" where
  "inc32 a = (a + 1) mod 2 ^ 32"

text \<open>The largest \<^verbatim>\<open>size_t\<close>, which is also what \<open>-1\<close> becomes when stored in one.\<close>

definition size_max :: nat where
  "size_max = 2 ^ 64 - 1"

named_theorems no_wrap \<open>64-bit operations that do not wrap around\<close>

lemma add64_no_wrap [no_wrap]: "a + b < 2 ^ 64 \<Longrightarrow> add64 a b = a + b"
  by (simp add: add64_def)

lemma sub64_no_wrap [no_wrap]: "b \<le> a \<Longrightarrow> a < 2 ^ 64 \<Longrightarrow> sub64 a b = a - b"
  by (simp add: sub64_def mod_if)

text \<open>The bounds are stated with \<open>2 ^ 64\<close> evaluated, the form the simplifier brings goals to.\<close>

lemma add64_less [simp, intro]: "add64 a b < 18446744073709551616"
  by (simp add: add64_def)

lemma sub64_less [simp, intro]: "sub64 a b < 18446744073709551616"
  by (simp add: sub64_def)

lemma sub64_zero [simp]: "a < 2 ^ 64 \<Longrightarrow> sub64 a 0 = a"
  by (simp add: sub64_def)

lemma sub64_self [simp]: "sub64 a a = 0" if "a < 2 ^ 64"
  using that by (simp add: no_wrap)

lemma add64_zero [simp]: "a < 2 ^ 64 \<Longrightarrow> add64 a 0 = a"
  by (simp add: add64_def)

lemma add64_assoc: "add64 (add64 a b) c = add64 a (b + c)"
  by (simp add: add64_def mod_simps add.assoc)

lemma int_add64: "int (add64 a b) = (int a + int b) mod 2 ^ 64"
  by (simp add: add64_def zmod_int)

lemma int_sub64: "int (sub64 a b) = (int a - int b) mod 2 ^ 64"
proof -
  have "int (sub64 a b) = (int a + (2 ^ 64 - int b mod 2 ^ 64)) mod 2 ^ 64"
    by (simp add: sub64_def zmod_int of_nat_diff less_imp_le add_diff_eq)
  also have "\<dots> = ((int a - int b mod 2 ^ 64) + 2 ^ 64) mod 2 ^ 64"
    by (simp only: algebra_simps)
  also have "\<dots> = (int a - int b) mod 2 ^ 64"
    by (simp only: mod_add_self2 mod_diff_right_eq)
  finally show ?thesis .
qed

section \<open>Lists\<close>

text \<open>\<^verbatim>\<open>s.substr(pos, len)\<close> for a position inside the string.\<close>

definition substr :: "nat \<Rightarrow> nat \<Rightarrow> 'a list \<Rightarrow> 'a list" where
  "substr pos len s = take len (drop pos s)"

lemma length_substr [simp]: "length (substr pos len s) = min len (length s - pos)"
  by (simp add: substr_def)

lemma substr_0 [simp]: "substr 0 len s = take len s"
  by (simp add: substr_def)

text \<open>The cut of an infinite byte stream \<open>S\<close> between two positions.\<close>

definition cut :: "(nat \<Rightarrow> 'a) \<Rightarrow> nat \<Rightarrow> nat \<Rightarrow> 'a list" where
  "cut S a b = map S [a..<b]"

lemma length_cut [simp]: "length (cut S a b) = b - a"
  by (simp add: cut_def)

lemma cut_empty [simp]: "b \<le> a \<Longrightarrow> cut S a b = []"
  by (simp add: cut_def)

lemma cut_append: "a \<le> b \<Longrightarrow> b \<le> c \<Longrightarrow> cut S a b @ cut S b c = cut S a c"
  by (metis le_Suc_ex map_append cut_def upt_add_eq_append)

lemma take_cut: "take n (cut S a b) = cut S a (min b (a + n))"
  by (simp add: cut_def take_map take_upt min_def)

lemma drop_cut: "drop n (cut S a b) = cut S (a + n) b"
  by (simp add: cut_def drop_map)

lemma substr_cut: "substr pos len (cut S a b) = cut S (a + pos) (min b (a + pos + len))"
  by (simp add: substr_def drop_cut take_cut)

lemma cut_nth [simp]: "i < b - a \<Longrightarrow> cut S a b ! i = S (a + i)"
  by (simp add: cut_def)

section \<open>Ordered multimaps\<close>

text \<open>
  A \<^verbatim>\<open>std::multimap\<close> is the list of its entries in iteration order; \<^verbatim>\<open>insert\<close> puts an entry behind
  the entries with the same key.
\<close>

fun multimap_insert :: "'k::linorder \<Rightarrow> 'v \<Rightarrow> ('k \<times> 'v) list \<Rightarrow> ('k \<times> 'v) list" where
  "multimap_insert k v [] = [(k, v)]"
| "multimap_insert k v ((k', v') # m) =
     (if k < k' then (k, v) # (k', v') # m else (k', v') # multimap_insert k v m)"

lemma set_multimap_insert [simp]: "set (multimap_insert k v m) = insert (k, v) (set m)"
  by (induction m rule: multimap_insert.induct) auto

lemma sorted_multimap_insert: "sorted (map fst m) \<Longrightarrow> sorted (map fst (multimap_insert k v m))"
  by (induction k v m rule: multimap_insert.induct) (auto simp: not_less)

section \<open>Numbers as text\<close>

text \<open>What an output stream prints for an unsigned number in the given base.\<close>

definition digit_char :: "nat \<Rightarrow> char" where
  "digit_char d = ''0123456789abcdef'' ! d"

fun number_string :: "nat \<Rightarrow> nat \<Rightarrow> string" where
  "number_string base n =
     (if base < 2 \<or> n < base then [digit_char n]
      else number_string base (n div base) @ [digit_char (n mod base)])"

declare number_string.simps [simp del]

definition dec_string :: "nat \<Rightarrow> string" where
  "dec_string n = number_string 10 n"

definition hex_string :: "nat \<Rightarrow> string" where
  "hex_string n = number_string 16 n"

definition bool_string :: "bool \<Rightarrow> string" where
  "bool_string b = (if b then ''true'' else ''false'')"

text \<open>\<^verbatim>\<open>setfill('0')\<close> with a width.\<close>

definition zero_fill :: "nat \<Rightarrow> string \<Rightarrow> string" where
  "zero_fill width s = replicate (width - length s) (CHR ''0'') @ s"

end
