(* ===== verification/Byte_Stream.thy ===== *)
theory Byte_Stream
  imports Prelude
begin

text \<open>
  \<^verbatim>\<open>ByteStream\<close> (\<^verbatim>\<open>libsponge/byte_stream.hh\<close>, \<^verbatim>\<open>byte_stream.cc\<close>): a flow-controlled in-memory
  byte stream. The record has the class's private members; each method is a definition of the
  same name with the class name in front. A method that changes the object returns it updated,
  after its result when it has one.
\<close>

section \<open>State and operations\<close>

record byte_stream =
  bs_cap :: size_t
  bs_rem :: size_t
  bs_totRead :: size_t
  bs_totWrite :: size_t
  bs_eof2 :: bool
  bs_buf :: bytes
  bs_error :: bool

definition ByteStream :: "size_t \<Rightarrow> byte_stream" where
  "ByteStream capacity =
     \<lparr>bs_cap = capacity, bs_rem = capacity, bs_totRead = 0, bs_totWrite = 0,
      bs_eof2 = False, bs_buf = [], bs_error = False\<rparr>"

definition ByteStream_write :: "bytes \<Rightarrow> byte_stream \<Rightarrow> size_t \<times> byte_stream" where
  "ByteStream_write data s =
     (let len = length data;
          writable = min len (bs_rem s)
      in (writable,
          s\<lparr>bs_buf := bs_buf s @ substr 0 writable data,
            bs_rem := sub64 (bs_rem s) writable,
            bs_totWrite := add64 (bs_totWrite s) writable\<rparr>))"

definition ByteStream_peek_output :: "size_t \<Rightarrow> byte_stream \<Rightarrow> bytes" where
  "ByteStream_peek_output len s = substr 0 len (bs_buf s)"

definition ByteStream_pop_output :: "size_t \<Rightarrow> byte_stream \<Rightarrow> byte_stream" where
  "ByteStream_pop_output len s =
     s\<lparr>bs_buf := drop len (bs_buf s),
       bs_rem := add64 (bs_rem s) len,
       bs_totRead := add64 (bs_totRead s) len\<rparr>"

definition ByteStream_read :: "size_t \<Rightarrow> byte_stream \<Rightarrow> bytes \<times> byte_stream" where
  "ByteStream_read len s =
     (let res = substr 0 len (bs_buf s)
      in (res,
          s\<lparr>bs_buf := drop len (bs_buf s),
            bs_rem := add64 (bs_rem s) len,
            bs_totRead := add64 (bs_totRead s) len\<rparr>))"

definition ByteStream_end_input :: "byte_stream \<Rightarrow> byte_stream" where
  "ByteStream_end_input s = s\<lparr>bs_eof2 := True\<rparr>"

definition ByteStream_set_error :: "byte_stream \<Rightarrow> byte_stream" where
  "ByteStream_set_error s = s\<lparr>bs_error := True\<rparr>"

definition ByteStream_error :: "byte_stream \<Rightarrow> bool" where
  "ByteStream_error s = bs_error s"

definition ByteStream_input_ended :: "byte_stream \<Rightarrow> bool" where
  "ByteStream_input_ended s = bs_eof2 s"

definition ByteStream_buffer_size :: "byte_stream \<Rightarrow> size_t" where
  "ByteStream_buffer_size s = sub64 (bs_cap s) (bs_rem s)"

definition ByteStream_buffer_empty :: "byte_stream \<Rightarrow> bool" where
  "ByteStream_buffer_empty s \<longleftrightarrow> bs_rem s = bs_cap s"

definition ByteStream_eof :: "byte_stream \<Rightarrow> bool" where
  "ByteStream_eof s \<longleftrightarrow> bs_rem s = bs_cap s \<and> bs_eof2 s"

definition ByteStream_bytes_written :: "byte_stream \<Rightarrow> size_t" where
  "ByteStream_bytes_written s = bs_totWrite s"

definition ByteStream_bytes_read :: "byte_stream \<Rightarrow> size_t" where
  "ByteStream_bytes_read s = bs_totRead s"

definition ByteStream_remaining_capacity :: "byte_stream \<Rightarrow> size_t" where
  "ByteStream_remaining_capacity s = bs_rem s"

lemmas ByteStream_defs =
  ByteStream_write_def ByteStream_peek_output_def ByteStream_pop_output_def ByteStream_read_def
  ByteStream_end_input_def ByteStream_set_error_def ByteStream_error_def
  ByteStream_input_ended_def ByteStream_buffer_size_def ByteStream_buffer_empty_def
  ByteStream_eof_def ByteStream_bytes_written_def ByteStream_bytes_read_def
  ByteStream_remaining_capacity_def

text \<open>What each operation leaves alone.\<close>

lemma write_frame [simp]:
  "bs_totRead (snd (ByteStream_write d s)) = bs_totRead s"
  "bs_cap (snd (ByteStream_write d s)) = bs_cap s"
  "bs_eof2 (snd (ByteStream_write d s)) = bs_eof2 s"
  "bs_error (snd (ByteStream_write d s)) = bs_error s"
  by (simp_all add: ByteStream_write_def Let_def)

lemma pop_frame [simp]:
  "bs_totWrite (ByteStream_pop_output n s) = bs_totWrite s"
  "bs_cap (ByteStream_pop_output n s) = bs_cap s"
  "bs_eof2 (ByteStream_pop_output n s) = bs_eof2 s"
  "bs_error (ByteStream_pop_output n s) = bs_error s"
  by (simp_all add: ByteStream_pop_output_def)

lemma end_input_frame [simp]:
  "bs_buf (ByteStream_end_input s) = bs_buf s" "bs_rem (ByteStream_end_input s) = bs_rem s"
  "bs_totRead (ByteStream_end_input s) = bs_totRead s"
  "bs_totWrite (ByteStream_end_input s) = bs_totWrite s"
  "bs_cap (ByteStream_end_input s) = bs_cap s" "bs_eof2 (ByteStream_end_input s)"
  "bs_error (ByteStream_end_input s) = bs_error s"
  by (simp_all add: ByteStream_end_input_def)

section \<open>Accounting invariant\<close>

text \<open>
  The three counters agree with the buffer: what is free and what is buffered make up the
  capacity, and what was written is what was popped plus what is buffered. The second equation
  is modulo \<open>2 ^ 64\<close>, as the counters are.
\<close>

definition bs_inv :: "byte_stream \<Rightarrow> bool" where
  "bs_inv s \<longleftrightarrow> bs_cap s < 2 ^ 64 \<and> bs_rem s + length (bs_buf s) = bs_cap s \<and>
     bs_totRead s < 2 ^ 64 \<and> bs_totWrite s = add64 (bs_totRead s) (length (bs_buf s))"

lemma bs_inv_new [intro]: "c < 2 ^ 64 \<Longrightarrow> bs_inv (ByteStream c)"
  by (simp add: bs_inv_def ByteStream_def)

lemma bs_inv_write [intro]: "bs_inv s \<Longrightarrow> bs_inv (snd (ByteStream_write d s))"
  by (auto simp: bs_inv_def ByteStream_write_def Let_def no_wrap add64_assoc)

lemma bs_inv_pop [intro]:
  "bs_inv s \<Longrightarrow> n \<le> length (bs_buf s) \<Longrightarrow> bs_inv (ByteStream_pop_output n s)"
  by (auto simp: bs_inv_def ByteStream_pop_output_def no_wrap add64_assoc)

lemma bs_inv_read [intro]:
  "bs_inv s \<Longrightarrow> n \<le> length (bs_buf s) \<Longrightarrow> bs_inv (snd (ByteStream_read n s))"
  by (auto simp: bs_inv_def ByteStream_read_def no_wrap add64_assoc)

lemma bs_inv_flags [simp]:
  "bs_inv (ByteStream_end_input s) = bs_inv s"
  "bs_inv (ByteStream_set_error s) = bs_inv s"
  by (simp_all add: bs_inv_def ByteStream_end_input_def ByteStream_set_error_def)

text \<open>Under the invariant the accessors say what their comments say.\<close>

lemma buffer_size_length: "bs_inv s \<Longrightarrow> ByteStream_buffer_size s = length (bs_buf s)"
  by (auto simp: bs_inv_def ByteStream_buffer_size_def no_wrap)

lemma buffer_empty_iff: "bs_inv s \<Longrightarrow> ByteStream_buffer_empty s \<longleftrightarrow> bs_buf s = []"
  by (auto simp: bs_inv_def ByteStream_buffer_empty_def)

lemma eof_iff: "bs_inv s \<Longrightarrow> ByteStream_eof s \<longleftrightarrow> bs_buf s = [] \<and> bs_eof2 s"
  by (auto simp: bs_inv_def ByteStream_eof_def)

section \<open>The interface its users rely on\<close>

text \<open>
  The reassembler, the sender and the socket use a byte stream as a bounded first-in first-out
  queue. The locale states that contract over any implementation: what a write accepts, what a
  pop removes, how much room is left, and the stable count of bytes popped so far.
\<close>

locale byte_queue =
  fixes put :: "bytes \<Rightarrow> 's \<Rightarrow> nat \<times> 's"
    and pop :: "nat \<Rightarrow> 's \<Rightarrow> 's"
    and peek :: "nat \<Rightarrow> 's \<Rightarrow> bytes"
    and room :: "'s \<Rightarrow> nat"
    and content :: "'s \<Rightarrow> bytes"
    and inv :: "'s \<Rightarrow> bool"
  assumes inv_write: "inv s \<Longrightarrow> inv (snd (put d s))"
    and inv_pop: "inv s \<Longrightarrow> n \<le> length (content s) \<Longrightarrow> inv (pop n s)"
    and fst_write: "inv s \<Longrightarrow> fst (put d s) = min (length d) (room s)"
    and content_write: "inv s \<Longrightarrow> content (snd (put d s)) = content s @ take (room s) d"
    and room_write: "inv s \<Longrightarrow> room (snd (put d s)) = room s - length d"
    and content_pop: "inv s \<Longrightarrow> n \<le> length (content s) \<Longrightarrow> content (pop n s) = drop n (content s)"
    and room_pop: "inv s \<Longrightarrow> n \<le> length (content s) \<Longrightarrow> room (pop n s) = room s + n"
    and peek: "inv s \<Longrightarrow> peek n s = take n (content s)"
begin

lemma write_fits:
  assumes "inv s" "length d \<le> room s"
  shows "fst (put d s) = length d" "content (snd (put d s)) = content s @ d"
  using assms by (simp_all add: fst_write content_write)

lemma conservation: "inv s \<Longrightarrow> length (content (snd (put d s))) + room (snd (put d s))
    = length (content s) + room s"
  by (simp add: content_write room_write)

lemma conservation_pop:
  "inv s \<Longrightarrow> n \<le> length (content s) \<Longrightarrow>
   length (content (pop n s)) + room (pop n s) = length (content s) + room s"
  by (simp add: content_pop room_pop)

text \<open>Peeking \<open>n\<close> bytes and popping them splits the content.\<close>

lemma peek_pop: "inv s \<Longrightarrow> n \<le> length (content s) \<Longrightarrow> peek n s @ content (pop n s) = content s"
  by (simp add: peek content_pop)

text \<open>Writing a list of chunks that fit is writing their concatenation.\<close>

lemma write_chunks:
  assumes "inv s" "length (concat ds) \<le> room s"
  shows "inv (foldl (\<lambda>s d. snd (put d s)) s ds) \<and>
         content (foldl (\<lambda>s d. snd (put d s)) s ds) = content s @ concat ds \<and>
         room (foldl (\<lambda>s d. snd (put d s)) s ds) = room s - length (concat ds)"
  using assms
proof (induction ds arbitrary: s)
  case Nil
  then show ?case by simp
next
  case (Cons d ds)
  have "inv (snd (put d s))" "length (concat ds) \<le> room (snd (put d s))"
    using Cons.prems by (auto intro: inv_write simp: room_write)
  from Cons.IH [OF this] Cons.prems show ?case
    by (simp add: write_fits room_write)
qed

end

interpretation bs: byte_queue ByteStream_write ByteStream_pop_output ByteStream_peek_output
    bs_rem bs_buf bs_inv
proof (unfold_locales, goal_cases)
  case (1 s d) then show ?case by (rule bs_inv_write)
next
  case (2 s n) then show ?case by (rule bs_inv_pop)
next
  case (5 s d) then show ?case by (auto simp: ByteStream_write_def Let_def bs_inv_def no_wrap)
next
  case (7 s n) then show ?case by (auto simp: ByteStream_pop_output_def bs_inv_def no_wrap)
qed (auto simp: ByteStream_peek_output_def ByteStream_write_def ByteStream_pop_output_def
    Let_def min_def)

lemma read_is_peek_pop:
  "ByteStream_read n s = (ByteStream_peek_output n s, ByteStream_pop_output n s)"
  by (simp add: ByteStream_read_def ByteStream_peek_output_def ByteStream_pop_output_def)

section \<open>Runs: first in, first out\<close>

text \<open>
  Any interleaving of the writer's and the reader's calls. A step also returns the bytes the
  stream accepted and the bytes the reader got. A well-behaved reader pops no more than it can
  peek (\<open>bs_ok\<close>), as every caller in the repository does.
\<close>

datatype bs_op = Write bytes | Pop nat | Read nat | End_input | Set_error

fun bs_step :: "bs_op \<Rightarrow> byte_stream \<Rightarrow> bytes \<times> bytes \<times> byte_stream" where
  "bs_step (Write d) s = (case ByteStream_write d s of (n, s') \<Rightarrow> (take n d, [], s'))"
| "bs_step (Pop n) s = ([], ByteStream_peek_output n s, ByteStream_pop_output n s)"
| "bs_step (Read n) s = (case ByteStream_read n s of (r, s') \<Rightarrow> ([], r, s'))"
| "bs_step End_input s = ([], [], ByteStream_end_input s)"
| "bs_step Set_error s = ([], [], ByteStream_set_error s)"

fun bs_op_ok :: "bs_op \<Rightarrow> byte_stream \<Rightarrow> bool" where
  "bs_op_ok (Pop n) s \<longleftrightarrow> n \<le> ByteStream_buffer_size s"
| "bs_op_ok (Read n) s \<longleftrightarrow> n \<le> ByteStream_buffer_size s"
| "bs_op_ok _ s \<longleftrightarrow> True"

fun bs_run :: "bs_op list \<Rightarrow> byte_stream \<Rightarrow> bytes \<times> bytes \<times> byte_stream" where
  "bs_run [] s = ([], [], s)"
| "bs_run (x # xs) s =
     (case bs_step x s of (a, d, s') \<Rightarrow>
      case bs_run xs s' of (as, ds, s'') \<Rightarrow> (a @ as, d @ ds, s''))"

fun bs_ok :: "bs_op list \<Rightarrow> byte_stream \<Rightarrow> bool" where
  "bs_ok [] s \<longleftrightarrow> True"
| "bs_ok (x # xs) s \<longleftrightarrow> bs_op_ok x s \<and> bs_ok xs (snd (snd (bs_step x s)))"

lemma bs_step_fifo:
  assumes "bs_inv s" "bs_op_ok x s" "bs_step x s = (a, d, s')"
  shows "bs_inv s' \<and> bs_buf s @ a = d @ bs_buf s' \<and> bs_cap s' = bs_cap s"
proof (cases x)
  case (Write w)
  have "bs_inv s'" using assms Write bs.inv_write [of s w] by (auto split: prod.splits)
  with assms Write show ?thesis by (auto simp: ByteStream_write_def Let_def)
next
  case (Pop n)
  with assms show ?thesis
    by (auto simp: buffer_size_length ByteStream_pop_output_def ByteStream_peek_output_def
        intro: bs_inv_pop [unfolded ByteStream_pop_output_def])
next
  case (Read n)
  with assms show ?thesis
    by (auto simp: buffer_size_length read_is_peek_pop ByteStream_pop_output_def
        ByteStream_peek_output_def intro: bs_inv_pop [unfolded ByteStream_pop_output_def])
qed (use assms in \<open>auto simp: ByteStream_end_input_def ByteStream_set_error_def bs_inv_def\<close>)

lemma bs_run_fifo:
  assumes "bs_inv s" "bs_ok xs s" "bs_run xs s = (a, d, s')"
  shows "bs_inv s' \<and> bs_buf s @ a = d @ bs_buf s' \<and> bs_cap s' = bs_cap s"
  using assms
proof (induction xs arbitrary: s a d s')
  case Nil
  then show ?case by simp
next
  case (Cons x xs)
  obtain a1 d1 s1 where 1: "bs_step x s = (a1, d1, s1)" by (cases "bs_step x s") auto
  obtain a2 d2 s2 where 2: "bs_run xs s1 = (a2, d2, s2)" by (cases "bs_run xs s1") auto
  have r: "a = a1 @ a2" "d = d1 @ d2" "s' = s2" using Cons.prems(3) 1 2 by simp_all
  have s1: "bs_inv s1 \<and> bs_buf s @ a1 = d1 @ bs_buf s1 \<and> bs_cap s1 = bs_cap s"
    using bs_step_fifo [OF Cons.prems(1) _ 1] Cons.prems(2) by simp
  have "bs_inv s2 \<and> bs_buf s1 @ a2 = d2 @ bs_buf s2 \<and> bs_cap s2 = bs_cap s1"
    using Cons.IH [of s1 a2 d2 s2] s1 1 2 Cons.prems(2) by simp
  with s1 r show ?case by (metis append.assoc)
qed



section \<open>What the class does not guard against\<close>

text \<open>
  \<^verbatim>\<open>end_input\<close> does not stop later writes: writing after the end of the input has the same
  effect on the buffer and the counters as before it (\<^verbatim>\<open>byte_stream.hh\<close> says that no more bytes
  can be written then).
\<close>

theorem ByteStream_write_after_end:
  "ByteStream_write d (ByteStream_end_input s) =
     (fst (ByteStream_write d s), ByteStream_end_input (snd (ByteStream_write d s)))"
  by (simp add: ByteStream_write_def ByteStream_end_input_def Let_def)

text \<open>
  Popping more than is buffered breaks the accounting: \<^verbatim>\<open>buf.erase\<close> removes what there is, but
  the counters move by the amount asked for. Here a stream of capacity 3 with two bytes buffered
  reports, after \<^verbatim>\<open>pop_output(5)\<close>, a free capacity of 6 and a buffer of \<open>2 ^ 64 - 3\<close> bytes.
\<close>

lemma ByteStream_pop_too_much:
  "let s = ByteStream_pop_output 5 (snd (ByteStream_write [1, 2] (ByteStream 3)))
   in ByteStream_remaining_capacity s = 6 \<and> ByteStream_buffer_size s = 2 ^ 64 - 3 \<and> bs_buf s = []"
  by (simp add: ByteStream_defs ByteStream_def substr_def add64_def sub64_def Let_def)

end
