(* ===== verification/Stream_Reassembler.thy ===== *)
theory Stream_Reassembler
  imports Byte_Stream
begin

text \<open>
  \<^verbatim>\<open>StreamReassembler\<close> (\<^verbatim>\<open>libsponge/stream_reassembler.hh\<close>, \<^verbatim>\<open>stream_reassembler.cc\<close>): puts
  substrings that arrive in any order, overlapping or not, back together. The model has the
  class's state, its interval map with the comparator of the code, and \<^verbatim>\<open>push_substring\<close> loop by
  loop; the theorems say which bytes it holds after any sequence of pushes.
\<close>

section \<open>The interval map\<close>

text \<open>
  \<^verbatim>\<open>std::map<pair<size_t, size_t>, string, comp>\<close> is the list of its entries in iteration order.
  The comparator takes \<^verbatim>\<open>pair<int, int>\<close>, so every key is converted to 32-bit signed numbers
  before it is compared.
\<close>

type_synonym interval = "size_t \<times> size_t"
type_synonym interval_map = "(interval \<times> bytes) list"

definition to_int :: "size_t \<Rightarrow> int" where
  "to_int n = (let r = n mod 2 ^ 32 in if r < 2 ^ 31 then int r else int r - 2 ^ 32)"

definition comp :: "interval \<Rightarrow> interval \<Rightarrow> bool" where
  "comp a b \<longleftrightarrow> to_int (fst a) < to_int (fst b) \<and> to_int (snd a) < to_int (snd b)"

text \<open>
  \<^verbatim>\<open>t[key] = value\<close>: the first entry that is not less than the key is overwritten when the key
  is not less than it either, and the new entry goes in front of it otherwise.
\<close>

fun map_assign :: "interval \<Rightarrow> bytes \<Rightarrow> interval_map \<Rightarrow> interval_map" where
  "map_assign k v [] = [(k, v)]"
| "map_assign k v ((k', v') # m) =
     (if comp k' k then (k', v') # map_assign k v m
      else if comp k k' then (k, v) # (k', v') # m
      else (k', v) # m)"

section \<open>State and operations\<close>

record stream_reassembler =
  sr_output :: byte_stream
  sr_capacity :: size_t
  sr_szUnasb :: size_t
  sr_unread :: size_t
  sr_unasb :: size_t
  sr_eof2 :: size_t
  sr_t :: interval_map

definition StreamReassembler :: "size_t \<Rightarrow> stream_reassembler" where
  "StreamReassembler capacity =
     \<lparr>sr_output = ByteStream capacity, sr_capacity = capacity, sr_szUnasb = 0, sr_unread = 0,
      sr_unasb = 0, sr_eof2 = size_max, sr_t = []\<rparr>"

text \<open>
  The loop over the map that collects the gaps of \<open>[idx, endidx)\<close>; it returns them and the
  final \<open>idx\<close>. It stops at the first entry that reaches \<open>endidx\<close>. The positions given to
  \<^verbatim>\<open>substr\<close> lie inside \<open>data\<close>: the loop runs only when \<open>index \<le> idx < endidx \<le> index + length data\<close>.
\<close>

fun find_gaps :: "interval_map \<Rightarrow> bytes \<Rightarrow> size_t \<Rightarrow> size_t \<Rightarrow> size_t \<Rightarrow> interval_map \<times> size_t" where
  "find_gaps [] data index idx endidx = ([], idx)"
| "find_gaps (((a, b), s) # m) data index idx endidx =
     (let ins = (if idx < a then
                   let start = idx; fin = min a endidx; len = sub64 fin start
                   in [((start, fin), substr (sub64 idx index) len data)]
                 else []);
          idx' = max idx b
      in if b \<ge> endidx then (ins, idx')
         else case find_gaps m data index idx' endidx of (r, i) \<Rightarrow> (ins @ r, i))"

fun insert_gaps :: "interval_map \<Rightarrow> interval_map \<times> size_t \<Rightarrow> interval_map \<times> size_t" where
  "insert_gaps [] (t, sz) = (t, sz)"
| "insert_gaps ((k, v) # ins) (t, sz) = insert_gaps ins (map_assign k v t, add64 sz (length v))"

text \<open>The loop that moves the entries that continue the assembled prefix to the output.\<close>

fun assemble :: "interval_map \<Rightarrow> byte_stream \<Rightarrow> size_t \<Rightarrow> size_t
    \<Rightarrow> interval_map \<times> byte_stream \<times> size_t \<times> size_t" where
  "assemble [] out unasb sz = ([], out, unasb, sz)"
| "assemble (((a, b), s) # m) out unasb sz =
     (if a = unasb
      then assemble m (snd (ByteStream_write s out)) (add64 unasb (length s)) (sub64 sz (length s))
      else (((a, b), s) # m, out, unasb, sz))"

definition check_eof :: "stream_reassembler \<Rightarrow> stream_reassembler" where
  "check_eof s =
     (if sr_unasb s = sr_eof2 s
      then s\<lparr>sr_eof2 := size_max, sr_output := ByteStream_end_input (sr_output s)\<rparr> else s)"

definition push_substring :: "bytes \<Rightarrow> size_t \<Rightarrow> bool \<Rightarrow> stream_reassembler \<Rightarrow> stream_reassembler" where
  "push_substring data index eof s =
     (let unread = ByteStream_bytes_read (sr_output s);
          idx = max (sr_unasb s) index;
          endidx = min (add64 index (length data)) (add64 unread (sr_capacity s));
          s1 = s\<lparr>sr_unread := unread,
                 sr_eof2 := (if eof then add64 index (length data) else sr_eof2 s)\<rparr>
      in if endidx \<le> idx then check_eof s1
         else
           let (gaps, idx') = find_gaps (sr_t s) data index idx endidx;
               toInsert = gaps @ (if idx' < endidx
                  then [((idx', endidx), substr (sub64 idx' index) (sub64 endidx idx') data)]
                  else []);
               (t1, sz1) = insert_gaps toInsert (sr_t s, sr_szUnasb s);
               (t2, out2, unasb2, sz2) = assemble t1 (sr_output s) (sr_unasb s) sz1
           in check_eof (s1\<lparr>sr_t := t2, sr_output := out2, sr_unasb := unasb2, sr_szUnasb := sz2\<rparr>))"

definition unassembled_bytes :: "stream_reassembler \<Rightarrow> size_t" where
  "unassembled_bytes s = sr_szUnasb s"

definition StreamReassembler_empty :: "stream_reassembler \<Rightarrow> bool" where
  "StreamReassembler_empty s \<longleftrightarrow> sr_t s = []"

definition firstUnasb :: "stream_reassembler \<Rightarrow> size_t" where
  "firstUnasb s = sr_unasb s"

text \<open>The reader's side: \<^verbatim>\<open>stream_out()\<close> gives the output stream, which the owner pops from.\<close>

definition pop_stream_out :: "size_t \<Rightarrow> stream_reassembler \<Rightarrow> stream_reassembler" where
  "pop_stream_out n s = s\<lparr>sr_output := ByteStream_pop_output n (sr_output s)\<rparr>"

section \<open>Sorted disjoint intervals\<close>

text \<open>
  \<open>ivs lo m\<close>: the entries are non-empty, start at \<open>lo\<close> or later, and each ends before the next
  starts; each holds as many bytes as its key says.
\<close>

fun ivs :: "nat \<Rightarrow> interval_map \<Rightarrow> bool" where
  "ivs lo [] \<longleftrightarrow> True"
| "ivs lo (((a, b), s) # m) \<longleftrightarrow> lo \<le> a \<and> a < b \<and> length s = b - a \<and> ivs b m"

fun covers :: "interval_map \<Rightarrow> nat set" where
  "covers [] = {}"
| "covers (((a, b), s) # m) = {a..<b} \<union> covers m"

definition ends_below :: "nat \<Rightarrow> interval_map \<Rightarrow> bool" where
  "ends_below n m \<longleftrightarrow> (\<forall>((a, b), s) \<in> set m. b \<le> n)"

definition holds :: "(nat \<Rightarrow> byte) \<Rightarrow> interval_map \<Rightarrow> bool" where
  "holds S m \<longleftrightarrow> (\<forall>((a, b), s) \<in> set m. s = cut S a b)"

definition sizes :: "interval_map \<Rightarrow> nat" where
  "sizes m = sum_list (map (length \<circ> snd) m)"

lemma ends_below_simps [simp]:
  "ends_below n []"
  "ends_below n (((a, b), s) # m) \<longleftrightarrow> b \<le> n \<and> ends_below n m"
  "ends_below n (m @ m') \<longleftrightarrow> ends_below n m \<and> ends_below n m'"
  by (simp_all add: ends_below_def ball_Un)

lemma holds_simps [simp]:
  "holds S []"
  "holds S (((a, b), s) # m) \<longleftrightarrow> s = cut S a b \<and> holds S m"
  "holds S (m @ m') \<longleftrightarrow> holds S m \<and> holds S m'"
  by (simp_all add: holds_def ball_Un)

lemma sizes_simps [simp]:
  "sizes [] = 0"
  "sizes ((k, s) # m) = length s + sizes m"
  by (simp_all add: sizes_def)

lemma covers_append [simp]: "covers (m @ m') = covers m \<union> covers m'"
  by (induction m rule: covers.induct) auto

lemma ivs_mono: "ivs lo m \<Longrightarrow> lo' \<le> lo \<Longrightarrow> ivs lo' m"
  by (cases m rule: covers.cases) auto

lemma ivs_covers: "ivs lo m \<Longrightarrow> x \<in> covers m \<Longrightarrow> lo \<le> x"
  by (induction lo m rule: ivs.induct) fastforce+

lemma ends_below_covers: "ends_below n m \<Longrightarrow> x \<in> covers m \<Longrightarrow> x < n"
  by (induction m rule: covers.induct) auto

lemma ivs_sizes: "ivs lo m \<Longrightarrow> ends_below n m \<Longrightarrow> lo \<le> n \<Longrightarrow> lo + sizes m \<le> n"
  by (induction lo m rule: ivs.induct) auto

lemma ivs_sizes_le: "ivs lo m \<Longrightarrow> ends_below n m \<Longrightarrow> sizes m \<le> n"
  by (induction lo m rule: ivs.induct) (auto dest: ivs_sizes)

lemma sizes_card: "ivs lo m \<Longrightarrow> sizes m = card (covers m) \<and> finite (covers m)"
proof (induction lo m rule: ivs.induct)
  case (2 lo a b s m)
  then have "{a..<b} \<inter> covers m = {}" by (auto dest: ivs_covers)
  with 2 show ?case by (simp add: card_Un_disjoint)
qed simp

subsection \<open>Insertion keeps the order while the positions fit in an \<^verbatim>\<open>int\<close>\<close>

lemma to_int_small: "n < 2 ^ 31 \<Longrightarrow> to_int n = int n"
  by (simp add: to_int_def)

lemma map_assign_ivs:
  assumes "ivs lo m" "lo \<le> a" "a < b" "length v = b - a" "b < 2 ^ 31" "ends_below (2 ^ 31 - 1) m"
    "{a..<b} \<inter> covers m = {}"
  shows "ivs lo (map_assign (a, b) v m) \<and> covers (map_assign (a, b) v m) = {a..<b} \<union> covers m \<and>
         sizes (map_assign (a, b) v m) = length v + sizes m \<and>
         set (map_assign (a, b) v m) = insert ((a, b), v) (set m)"
  using assms
proof (induction lo m rule: ivs.induct)
  case (2 lo p q s m)
  have pq: "p < q" "q < 2 ^ 31" "lo \<le> p" "ivs q m" "length s = q - p"
    and dis: "{a..<b} \<inter> {p..<q} = {}" "{a..<b} \<inter> covers m = {}"
    using "2.prems" by (simp_all add: Int_Un_distrib)
  have sep: "q \<le> a \<or> b \<le> p"
  proof (rule ccontr)
    assume "\<not> ?thesis"
    with pq(1) \<open>a < b\<close> have "max a p \<in> {a..<b} \<inter> {p..<q}" by auto
    with dis(1) show False by blast
  qed
  have c: "comp (p, q) (a, b) \<longleftrightarrow> q \<le> a" "comp (a, b) (p, q) \<longleftrightarrow> b \<le> p"
    using pq sep \<open>a < b\<close> \<open>b < 2 ^ 31\<close> by (auto simp: comp_def to_int_small)
  show ?case
  proof (cases "q \<le> a")
    case True
    with "2.IH" "2.prems" dis have IH: "ivs q (map_assign (a, b) v m)"
      "covers (map_assign (a, b) v m) = {a..<b} \<union> covers m"
      "sizes (map_assign (a, b) v m) = length v + sizes m"
      "set (map_assign (a, b) v m) = insert ((a, b), v) (set m)"
      by simp_all
    with True c pq show ?thesis by auto
  next
    case False
    with sep have "b \<le> p" by simp
    with False pq "2.prems"(2-4) c show ?thesis by auto
  qed
qed auto

lemma insert_gaps_ivs:
  assumes "ivs lo m" "ends_below (2 ^ 31 - 1) m" "ivs lo' ins" "lo \<le> lo'"
    "ends_below (2 ^ 31 - 1) ins" "covers ins \<inter> covers m = {}" "sizes m + sizes ins < 2 ^ 64"
    "insert_gaps ins (m, sizes m) = (m', sz')"
  shows "ivs lo m' \<and> covers m' = covers ins \<union> covers m \<and> sz' = sizes m' \<and>
         set m' = set ins \<union> set m"
  using assms
proof (induction ins arbitrary: m lo' rule: covers.induct)
  case 1
  then show ?case by auto
next
  case (2 a b v ins)
  let ?m = "map_assign (a, b) v m"
  have v: "lo \<le> a" "a < b" "length v = b - a" "b < 2 ^ 31" "ivs b ins"
    using "2.prems" by auto
  have m: "ivs lo ?m" "covers ?m = {a..<b} \<union> covers m" "sizes ?m = length v + sizes m"
    "set ?m = insert ((a, b), v) (set m)"
    using map_assign_ivs [of lo m a b v] "2.prems" v by (auto simp: Int_Un_distrib2)
  have eb: "ends_below (2 ^ 31 - 1) ?m"
    using "2.prems"(2) v(4) m(4) unfolding ends_below_def by auto
  have "{a..<b} \<inter> covers ins = {}" using ivs_covers [OF v(5)] by fastforce
  with "2.prems"(6) m(2) have dis: "covers ins \<inter> covers ?m = {}" by auto
  have sz: "sizes ?m + sizes ins < 2 ^ 64" using "2.prems"(7) m(3) by simp
  have run: "insert_gaps ins (?m, sizes ?m) = (m', sz')"
    using "2.prems"(7,8) m(3) by (simp add: no_wrap add.commute)
  have "ivs lo m' \<and> covers m' = covers ins \<union> covers ?m \<and> sz' = sizes m' \<and> set m' = set ins \<union> set ?m"
    by (rule "2.IH" [OF m(1) eb v(5) _ _ dis sz run]) (use v "2.prems"(5) in auto)
  with m show ?case by auto
qed

subsection \<open>The gaps found are exactly what is new\<close>

text \<open>The whole \<^verbatim>\<open>toInsert\<close> vector: the gaps of the loop and the part after the last entry.\<close>

definition to_insert :: "interval_map \<Rightarrow> bytes \<Rightarrow> size_t \<Rightarrow> size_t \<Rightarrow> size_t \<Rightarrow> interval_map" where
  "to_insert m data index idx endidx =
     (case find_gaps m data index idx endidx of (gaps, idx') \<Rightarrow>
        gaps @ (if idx' < endidx
                then [((idx', endidx), substr (sub64 idx' index) (sub64 endidx idx') data)] else []))"

lemma substr_piece:
  assumes "data = cut S index (index + length data)" "index \<le> i" "i \<le> e"
    "e \<le> index + length data" "e < 2 ^ 64"
  shows "substr (sub64 i index) (sub64 e i) data = cut S i e"
proof -
  have "sub64 i index = i - index" "sub64 e i = e - i"
    using assms(2-5) by (simp_all add: no_wrap)
  then have "substr (sub64 i index) (sub64 e i) data = substr (i - index) (e - i) (cut S index (index + length data))"
    using assms(1) by simp
  also have "\<dots> = cut S i e"
    using assms(2-4) by (simp add: substr_cut min_def)
  finally show ?thesis .
qed

lemma to_insert_spec:
  assumes "ivs lo m" "index \<le> idx" "idx < endidx" "endidx \<le> index + length data" "endidx < 2 ^ 64"
    "data = cut S index (index + length data)"
  shows "ivs idx (to_insert m data index idx endidx) \<and>
         ends_below endidx (to_insert m data index idx endidx) \<and>
         holds S (to_insert m data index idx endidx) \<and>
         covers (to_insert m data index idx endidx) = {idx..<endidx} - covers m"
  using assms(1-3)
proof (induction lo m arbitrary: idx rule: ivs.induct)
  case (1 lo)
  have "substr (sub64 idx index) (sub64 endidx idx) data = cut S idx endidx"
    using 1 assms(4-6) by (intro substr_piece) auto
  with 1 show ?case by (simp add: to_insert_def)
next
  case (2 lo a b s m)
  have ab: "a < b" "ivs b m" "lo \<le> a" using "2.prems" by auto
  let ?e = "min a endidx"
  have piece: "substr (sub64 idx index) (sub64 ?e idx) data = cut S idx ?e" if "idx < a"
    using that "2.prems" assms(4-6) by (intro substr_piece) auto
  have cov: "x \<in> covers m \<Longrightarrow> b \<le> x" for x using ivs_covers [OF ab(2)] by simp
  show ?case
  proof (cases "endidx \<le> b")
    case True
    have "to_insert (((a, b), s) # m) data index idx endidx =
      (if idx < a then [((idx, ?e), cut S idx ?e)] else [])"
      using True piece by (simp add: to_insert_def Let_def)
    moreover have "{idx..<?e} = {idx..<endidx} - ({a..<b} \<union> covers m)" if "idx < a"
      using True cov ab that by fastforce
    moreover have "{idx..<endidx} - ({a..<b} \<union> covers m) = {}" if "\<not> idx < a"
      using True that by auto
    ultimately show ?thesis using "2.prems" by auto
  next
    case False
    then have "max idx b < endidx" "index \<le> max idx b" using "2.prems" by auto
    from "2.IH" [OF ab(2) this(2,1)] have
      IH: "ivs (max idx b) (to_insert m data index (max idx b) endidx)"
        "ends_below endidx (to_insert m data index (max idx b) endidx)"
        "holds S (to_insert m data index (max idx b) endidx)"
        "covers (to_insert m data index (max idx b) endidx) = {max idx b..<endidx} - covers m"
      by simp_all
    have e: "?e = a" using False ab by simp
    have step: "to_insert (((a, b), s) # m) data index idx endidx =
      (if idx < a then [((idx, a), cut S idx a)] else []) @
      to_insert m data index (max idx b) endidx"
      using False piece by (simp add: e to_insert_def Let_def split: prod.splits)
    have "{idx..<a} \<union> ({max idx b..<endidx} - covers m) = {idx..<endidx} - ({a..<b} \<union> covers m)"
      if "idx < a"
      using cov ab that False by fastforce
    moreover have "{max idx b..<endidx} - covers m = {idx..<endidx} - ({a..<b} \<union> covers m)"
      if "\<not> idx < a"
      using cov ab that False by fastforce
    moreover have "ivs a (to_insert m data index (max idx b) endidx)"
      "ivs idx (to_insert m data index (max idx b) endidx)"
      using ivs_mono [OF IH(1)] ab by simp_all
    moreover have "ivs b (to_insert m data index (max idx b) endidx)"
      using ivs_mono [OF IH(1)] by simp
    moreover have "max idx b = b" if "idx < a" using that ab by simp
    ultimately show ?thesis using IH ab False unfolding step by (cases "idx < a") simp_all
  qed
qed

subsection \<open>Assembling the prefix\<close>

lemma assemble_spec:
  assumes "assemble m out u sz = (m', out', u', sz')"
    and "ivs u m" "holds S m" "ends_below e m" "bs_inv out" "sz = sizes m"
    and "e - u \<le> bs_rem out" "e < 2 ^ 64" "u \<le> e"
  shows "u \<le> u' \<and> u' \<le> e \<and> ivs (Suc u') m' \<and> holds S m' \<and> ends_below e m' \<and> sz' = sizes m' \<and>
         {..<u'} \<union> covers m' = {..<u} \<union> covers m \<and>
         bs_inv out' \<and> bs_buf out' = bs_buf out @ cut S u u' \<and>
         bs_totRead out' = bs_totRead out \<and> bs_cap out' = bs_cap out \<and> bs_eof2 out' = bs_eof2 out \<and>
         bs_error out' = bs_error out"
  using assms
proof (induction m out u sz arbitrary: m' out' u' sz' rule: assemble.induct)
  case (1 out u sz)
  then show ?case by auto
next
  case (2 a b s m out u sz)
  have ab: "u \<le> a" "a < b" "ivs b m" "s = cut S a b" "holds S m" "ends_below e m" "b \<le> e"
    using "2.prems" by auto
  show ?case
  proof (cases "a = u")
    case False
    with "2.prems" ab show ?thesis by auto
  next
    case True
    let ?out = "snd (ByteStream_write s out)"
    have fits: "length s \<le> bs_rem out" using True ab "2.prems" by auto
    have u1: "add64 u (length s) = b" "sub64 sz (length s) = sizes m"
      using True ab "2.prems" ivs_sizes [OF ab(3,6,7)] by (simp_all add: no_wrap)
    have run: "assemble m ?out b (sizes m) = (m', out', u', sz')"
      using "2.prems"(1) True u1 by simp
    have o: "bs_buf ?out = bs_buf out @ cut S u b" "bs_inv ?out" "bs_rem ?out = bs_rem out - length s"
      "bs_totRead ?out = bs_totRead out" "bs_cap ?out = bs_cap out" "bs_eof2 ?out = bs_eof2 out"
      "bs_error ?out = bs_error out"
      using bs.write_fits(2) [OF "2.prems"(5) fits] bs.inv_write [OF "2.prems"(5)]
        bs.room_write [OF "2.prems"(5)] True ab
      by auto
    have IH: "b \<le> u' \<and> u' \<le> e \<and> ivs (Suc u') m' \<and> holds S m' \<and> ends_below e m' \<and> sz' = sizes m' \<and>
         {..<u'} \<union> covers m' = {..<b} \<union> covers m \<and>
         bs_inv out' \<and> bs_buf out' = bs_buf ?out @ cut S b u' \<and>
         bs_totRead out' = bs_totRead ?out \<and> bs_cap out' = bs_cap ?out \<and> bs_eof2 out' = bs_eof2 ?out \<and>
         bs_error out' = bs_error ?out"
      by (rule "2.IH" [OF True, unfolded u1, OF run ab(3,5,6) o(2) refl])
        (use o(3) "2.prems"(7-9) True ab in simp_all)
    have cut: "cut S u b @ cut S b u' = cut S u u'" using IH ab True by (intro cut_append) auto
    have "{..<u} \<union> ({u..<b} \<union> covers m) = {..<b} \<union> covers m" using ab True by auto
    moreover have "bs_buf out' = bs_buf out @ cut S u u'" using IH o(1) cut by simp
    ultimately show ?thesis using IH o(4-) ab True by simp
  qed
qed

section \<open>The invariant\<close>

text \<open>
  \<open>S\<close> is the stream the substrings are excerpts of. What is assembled is a prefix of it; what is
  stored beyond the prefix are true excerpts of it, sorted, disjoint and separated from the prefix
  by at least one missing byte, and inside the window.
\<close>

definition window_end :: "stream_reassembler \<Rightarrow> nat" where
  "window_end s = bs_totRead (sr_output s) + sr_capacity s"

definition known :: "stream_reassembler \<Rightarrow> nat set" where
  "known s = {..<sr_unasb s} \<union> covers (sr_t s)"

definition sr_inv :: "(nat \<Rightarrow> byte) \<Rightarrow> stream_reassembler \<Rightarrow> bool" where
  "sr_inv S s \<longleftrightarrow>
     bs_inv (sr_output s) \<and> bs_cap (sr_output s) = sr_capacity s \<and>
     bs_totRead (sr_output s) \<le> sr_unasb s \<and> sr_unasb s < 2 ^ 64 \<and>
     bs_buf (sr_output s) = cut S (bs_totRead (sr_output s)) (sr_unasb s) \<and>
     ivs (Suc (sr_unasb s)) (sr_t s) \<and> holds S (sr_t s) \<and> ends_below (window_end s) (sr_t s) \<and>
     sr_szUnasb s = sizes (sr_t s)"

lemma sr_inv_new: "c < 2 ^ 64 \<Longrightarrow> sr_inv S (StreamReassembler c)"
  by (auto simp: sr_inv_def StreamReassembler_def) (auto simp: ByteStream_def)

lemma check_eof_frame [simp]:
  "sr_t (check_eof s) = sr_t s" "sr_unasb (check_eof s) = sr_unasb s"
  "sr_capacity (check_eof s) = sr_capacity s" "sr_szUnasb (check_eof s) = sr_szUnasb s"
  "bs_buf (sr_output (check_eof s)) = bs_buf (sr_output s)"
  "bs_totRead (sr_output (check_eof s)) = bs_totRead (sr_output s)"
  "bs_cap (sr_output (check_eof s)) = bs_cap (sr_output s)"
  "bs_inv (sr_output (check_eof s)) = bs_inv (sr_output s)"
  "bs_error (sr_output (check_eof s)) = bs_error (sr_output s)"
  by (simp_all add: check_eof_def)

lemma sr_inv_check_eof [simp]: "sr_inv S (check_eof s) = sr_inv S s"
  by (simp add: sr_inv_def window_end_def)

lemma known_check_eof [simp]: "known (check_eof s) = known s"
  by (simp add: known_def)

text \<open>The first unassembled index is the least index that is not known.\<close>

lemma sr_inv_unasb_notin: "sr_inv S s \<Longrightarrow> sr_unasb s \<notin> known s"
  unfolding sr_inv_def known_def
  using ivs_covers [of "Suc (sr_unasb s)" "sr_t s" "sr_unasb s"] by auto

lemma sr_inv_unasb_least: "sr_inv S s \<Longrightarrow> sr_unasb s = (LEAST n. n \<notin> known s)"
proof (rule sym, rule Least_equality)
  show "sr_unasb s \<notin> known s" if "sr_inv S s" using that by (rule sr_inv_unasb_notin)
  show "sr_unasb s \<le> n" if "n \<notin> known s" for n using that by (auto simp: known_def)
qed

lemma sr_inv_rem:
  "sr_inv S s \<Longrightarrow> sr_unasb s + bs_rem (sr_output s) = window_end s"
  by (auto simp: sr_inv_def bs_inv_def window_end_def)

section \<open>Pushing a substring\<close>

text \<open>The body of \<^verbatim>\<open>push_substring\<close> past its early return, with \<open>toInsert\<close> named.\<close>

lemma push_substring_eq:
  "push_substring data index eof s =
     (let idx = max (sr_unasb s) index;
          endidx = min (add64 index (length data)) (add64 (bs_totRead (sr_output s)) (sr_capacity s));
          s1 = s\<lparr>sr_unread := bs_totRead (sr_output s),
                 sr_eof2 := (if eof then add64 index (length data) else sr_eof2 s)\<rparr>
      in if endidx \<le> idx then check_eof s1
         else
           let (t1, sz1) = insert_gaps (to_insert (sr_t s) data index idx endidx) (sr_t s, sr_szUnasb s);
               (t2, out2, unasb2, sz2) = assemble t1 (sr_output s) (sr_unasb s) sz1
           in check_eof (s1\<lparr>sr_t := t2, sr_output := out2, sr_unasb := unasb2, sr_szUnasb := sz2\<rparr>))"
  by (simp add: push_substring_def to_insert_def Let_def ByteStream_bytes_read_def split: prod.splits)

lemma push_substring_inv:
  fixes eof :: bool
  assumes inv: "sr_inv S s" and W: "window_end s < 2 ^ 31" and len: "index + length data < 2 ^ 64"
    and data: "data = cut S index (index + length data)"
  defines "s' \<equiv> push_substring data index eof s"
  shows "sr_inv S s' \<and> sr_unasb s \<le> sr_unasb s' \<and>
         bs_totRead (sr_output s') = bs_totRead (sr_output s) \<and> sr_capacity s' = sr_capacity s \<and>
         bs_error (sr_output s') = bs_error (sr_output s) \<and>
         known s' = known s \<union> ({index..<index + length data} \<inter> {..<window_end s})"
proof -
  let ?idx = "max (sr_unasb s) index" and ?fin = "min (index + length data) (window_end s)"
  let ?s1 = "s\<lparr>sr_unread := bs_totRead (sr_output s),
    sr_eof2 := (if eof then add64 index (length data) else sr_eof2 s)\<rparr>"
  have wrap: "add64 index (length data) = index + length data"
    "add64 (bs_totRead (sr_output s)) (sr_capacity s) = window_end s"
    using len W by (simp_all add: no_wrap window_end_def)
  show ?thesis
  proof (cases "?fin \<le> ?idx")
    case True
    then have "s' = check_eof ?s1" by (simp add: s'_def push_substring_eq wrap)
    moreover have "{index..<index + length data} \<inter> {..<window_end s} \<subseteq> {..<sr_unasb s}"
      using True by auto
    ultimately show ?thesis using inv by (auto simp: sr_inv_def known_def window_end_def)
  next
    case False
    let ?u = "sr_unasb s" and ?t = "sr_t s" and ?out = "sr_output s"
    let ?ins = "to_insert ?t data index ?idx ?fin"
    note I = inv [unfolded sr_inv_def]
    have end_idx: "?idx < ?fin" using False by (rule not_le_imp_less)
    have end_len: "?fin \<le> index + length data" "?fin < 2 ^ 64" using len by auto
    have uW: "?u \<le> window_end s" using sr_inv_rem [OF inv] by simp
    have ins: "ivs ?idx ?ins" "ends_below ?fin ?ins" "holds S ?ins"
      "covers ?ins = {?idx..<?fin} - covers ?t"
      using to_insert_spec [OF _ _ end_idx end_len data, of "Suc ?u"] I by auto
    have sz: "sizes ?t + sizes ?ins < 2 ^ 64"
      using ivs_sizes_le [OF ins(1,2)] ivs_sizes_le [of "Suc ?u" ?t "window_end s"] I W by simp
    have eb: "ends_below (2 ^ 31 - 1) ?t" "ends_below (2 ^ 31 - 1) ?ins"
      using I ins(2) W by (auto simp: ends_below_def)
    obtain t1 sz1 where t1: "insert_gaps ?ins (?t, sr_szUnasb s) = (t1, sz1)"
      by (cases "insert_gaps ?ins (?t, sr_szUnasb s)")
    have t1_eq: "insert_gaps ?ins (?t, sizes ?t) = (t1, sz1)" using t1 I by simp
    have tu: "ivs ?u ?t" using I by (auto intro: ivs_mono)
    have T1: "ivs ?u t1" "covers t1 = covers ?ins \<union> covers ?t" "sz1 = sizes t1"
      "set t1 = set ?ins \<union> set ?t"
      using insert_gaps_ivs [OF tu eb(1) ins(1) _ eb(2) _ sz t1_eq] ins(4) by auto
    have T1': "holds S t1" "ends_below (window_end s) t1"
    proof -
      show "holds S t1" using ins(3) I T1(4) by (auto simp: holds_def)
      have "ends_below (window_end s) ?ins" using ins(2) by (force simp: ends_below_def)
      then show "ends_below (window_end s) t1" using I T1(4) by (auto simp: ends_below_def)
    qed
    obtain t2 out2 u2 sz2 where a: "assemble t1 ?out ?u sz1 = (t2, out2, u2, sz2)"
      by (cases "assemble t1 ?out ?u sz1")
    have A: "?u \<le> u2 \<and> u2 \<le> window_end s \<and> ivs (Suc u2) t2 \<and> holds S t2 \<and>
        ends_below (window_end s) t2 \<and> sz2 = sizes t2 \<and>
        {..<u2} \<union> covers t2 = {..<?u} \<union> covers t1 \<and> bs_inv out2 \<and>
        bs_buf out2 = bs_buf ?out @ cut S ?u u2 \<and> bs_totRead out2 = bs_totRead ?out \<and>
        bs_cap out2 = bs_cap ?out \<and> bs_eof2 out2 = bs_eof2 ?out \<and> bs_error out2 = bs_error ?out"
      by (rule assemble_spec [OF a T1(1) T1' _ T1(3)]) (use I W sr_inv_rem [OF inv] uW in auto)
    let ?s2 = "?s1\<lparr>sr_t := t2, sr_output := out2, sr_unasb := u2, sr_szUnasb := sz2\<rparr>"
    have s': "s' = check_eof ?s2"
      using False t1 a by (simp add: s'_def push_substring_eq wrap Let_def)
    have buf: "bs_buf out2 = cut S (bs_totRead ?out) u2" "bs_totRead ?out \<le> u2"
      using A I cut_append [of "bs_totRead ?out" ?u u2 S] by auto
    have "sr_inv S ?s2"
      using A buf I W by (simp add: sr_inv_def window_end_def)
    moreover have "known ?s2 = known s \<union> ({index..<index + length data} \<inter> {..<window_end s})"
    proof -
      have "known ?s2 = {..<?u} \<union> (({?idx..<?fin} - covers ?t) \<union> covers ?t)"
        using A T1(2) ins(4) by (simp add: known_def)
      also have "\<dots> = ({..<?u} \<union> covers ?t) \<union> ({index..<index + length data} \<inter> {..<window_end s})"
        by auto
      finally show ?thesis by (simp only: known_def)
    qed
    ultimately show ?thesis using A by (simp add: s')
  qed
qed

lemma pop_stream_out_inv:
  assumes "sr_inv S s" "n \<le> length (bs_buf (sr_output s))"
    "window_end s + n < 2 ^ 64"
  shows "sr_inv S (pop_stream_out n s) \<and> known (pop_stream_out n s) = known s \<and>
         window_end (pop_stream_out n s) = window_end s + n \<and>
         bs_buf (sr_output (pop_stream_out n s)) = drop n (bs_buf (sr_output s))"
proof -
  have "add64 (bs_totRead (sr_output s)) n = bs_totRead (sr_output s) + n"
    using assms(3) by (simp add: no_wrap window_end_def)
  moreover have "ends_below (bs_totRead (sr_output s) + n + sr_capacity s) (sr_t s)"
    using assms(1) by (force simp: sr_inv_def ends_below_def window_end_def)
  ultimately show ?thesis
    using assms bs_inv_pop [of "sr_output s" n]
    by (auto simp: sr_inv_def pop_stream_out_def known_def window_end_def
        ByteStream_pop_output_def drop_cut)
qed

text \<open>The buffered and the stored bytes together never exceed the capacity.\<close>

lemma sr_inv_capacity:
  assumes "sr_inv S s"
  shows "length (bs_buf (sr_output s)) + sr_szUnasb s \<le> sr_capacity s"
proof -
  have "Suc (sr_unasb s) \<le> window_end s" if "sr_t s \<noteq> []"
    using that assms by (cases "sr_t s" rule: covers.cases) (auto simp: sr_inv_def)
  then have "sr_unasb s + sr_szUnasb s \<le> window_end s"
    using assms ivs_sizes [of "Suc (sr_unasb s)" "sr_t s" "window_end s"] sr_inv_rem [OF assms]
    by (cases "sr_t s = []") (auto simp: sr_inv_def)
  then show ?thesis using assms by (simp add: sr_inv_def window_end_def)
qed

lemma sr_inv_unassembled:
  assumes "sr_inv S s"
  shows "unassembled_bytes s = card (known s - {..<sr_unasb s})"
proof -
  have iv: "ivs (Suc (sr_unasb s)) (sr_t s)" "sr_szUnasb s = sizes (sr_t s)"
    using assms by (simp_all add: sr_inv_def)
  have "known s - {..<sr_unasb s} = covers (sr_t s)"
    using ivs_covers [OF iv(1)] by (fastforce simp: known_def)
  with iv sizes_card [OF iv(1)] show ?thesis by (simp add: unassembled_bytes_def)
qed

section \<open>The interface the receiver relies on\<close>

text \<open>
  A reassembler, abstractly: pushing an excerpt of the stream adds its in-window positions to the
  set of known positions, and the first unassembled index is the least unknown one. Order,
  overlap and repetition of the pushes then cannot matter; that is proved once, here.
\<close>

locale reassembly =
  fixes push :: "bytes \<Rightarrow> nat \<Rightarrow> bool \<Rightarrow> 's \<Rightarrow> 's"
    and first :: "'s \<Rightarrow> nat"
    and positions :: "'s \<Rightarrow> nat set"
    and window :: "'s \<Rightarrow> nat"
    and inv :: "(nat \<Rightarrow> byte) \<Rightarrow> 's \<Rightarrow> bool"
  assumes push_inv: "inv S s \<Longrightarrow> window s < 2 ^ 31 \<Longrightarrow> i + length d < 2 ^ 64 \<Longrightarrow>
      d = cut S i (i + length d) \<Longrightarrow> inv S (push d i e s)"
    and push_window: "inv S s \<Longrightarrow> window s < 2 ^ 31 \<Longrightarrow> i + length d < 2 ^ 64 \<Longrightarrow>
      d = cut S i (i + length d) \<Longrightarrow> window (push d i e s) = window s"
    and push_positions: "inv S s \<Longrightarrow> window s < 2 ^ 31 \<Longrightarrow> i + length d < 2 ^ 64 \<Longrightarrow>
      d = cut S i (i + length d) \<Longrightarrow>
      positions (push d i e s) = positions s \<union> ({i..<i + length d} \<inter> {..<window s})"
    and first_least: "inv S s \<Longrightarrow> first s = (LEAST n. n \<notin> positions s)"
begin

lemma push_all:
  assumes "inv S s" "window s < 2 ^ 31" "\<forall>(i, n, e) \<in> set ps. i + n < 2 ^ 64"
  shows "inv S (foldl (\<lambda>s (i, n, e). push (cut S i (i + n)) i e s) s ps) \<and>
         window (foldl (\<lambda>s (i, n, e). push (cut S i (i + n)) i e s) s ps) = window s \<and>
         positions (foldl (\<lambda>s (i, n, e). push (cut S i (i + n)) i e s) s ps) =
           positions s \<union> ((\<Union>(i, n, e) \<in> set ps. {i..<i + n}) \<inter> {..<window s})"
  using assms
proof (induction ps arbitrary: s)
  case Nil
  then show ?case by simp
next
  case (Cons p ps)
  obtain i n e where p: "p = (i, n, e)" by (cases p)
  let ?s = "push (cut S i (i + n)) i e s"
  have len: "i + length (cut S i (i + n)) < 2 ^ 64" using Cons.prems p by simp
  have 1: "inv S ?s" "window ?s = window s"
    "positions ?s = positions s \<union> ({i..<i + n} \<inter> {..<window s})"
    using push_inv [OF Cons.prems(1,2) len] push_window [OF Cons.prems(1,2) len]
      push_positions [OF Cons.prems(1,2) len] by simp_all
  from Cons.IH [OF 1(1)] 1 Cons.prems p show ?case by auto
qed

lemma push_all_order:
  assumes "inv S s" "window s < 2 ^ 31" "\<forall>(i, n, e) \<in> set ps. i + n < 2 ^ 64" "set ps = set qs"
  shows "first (foldl (\<lambda>s (i, n, e). push (cut S i (i + n)) i e s) s ps) =
         first (foldl (\<lambda>s (i, n, e). push (cut S i (i + n)) i e s) s qs)"
proof -
  have q: "\<forall>(i, n, e) \<in> set qs. i + n < 2 ^ 64" using assms(3,4) by simp
  show ?thesis
    using push_all [OF assms(1-3)] push_all [OF assms(1,2) q] assms(4)
    by (auto simp: first_least)
qed

end

interpretation sr: reassembly push_substring firstUnasb known window_end sr_inv
proof (unfold_locales, goal_cases)
  case (1 S s i d e) then show ?case using push_substring_inv [OF 1, of e] by simp
next
  case (2 S s i d e) then show ?case using push_substring_inv [OF 2, of e] by (simp add: window_end_def)
next
  case (3 S s i d e) then show ?case using push_substring_inv [OF 3, of e] by simp
next
  case (4 S s) then show ?case by (simp add: firstUnasb_def sr_inv_unasb_least)
qed

text \<open>Any list of excerpts \<open>(index, length, eof)\<close> of a stream, pushed one after the other.\<close>

abbreviation push_all :: "(nat \<Rightarrow> byte) \<Rightarrow> (nat \<times> nat \<times> bool) list \<Rightarrow> stream_reassembler \<Rightarrow> stream_reassembler"
  where "push_all S ps s \<equiv> foldl (\<lambda>s (i, n, e). push_substring (cut S i (i + n)) i e s) s ps"

section \<open>Properties\<close>


lemma push_all_totRead:
  assumes "sr_inv S s" "window_end s < 2 ^ 31" "\<forall>(i, n, e) \<in> set ps. i + n < 2 ^ 64"
  shows "bs_totRead (sr_output (push_all S ps s)) = bs_totRead (sr_output s)"
  using assms
proof (induction ps arbitrary: s)
  case (Cons p ps)
  obtain i n e where p: "p = (i, n, e)" by (cases p)
  from push_substring_inv [of S s i "cut S i (i + n)" e] Cons.prems p
  have "sr_inv S (push_substring (cut S i (i + n)) i e s)"
    "bs_totRead (sr_output (push_substring (cut S i (i + n)) i e s)) = bs_totRead (sr_output s)"
    "window_end (push_substring (cut S i (i + n)) i e s) < 2 ^ 31"
    by (simp_all add: window_end_def)
  with Cons p show ?case by simp
qed simp

text \<open>
  In whatever order, with whatever overlaps and repetitions the excerpts of a stream are
  pushed into a new reassembler, the reader finds the stream up to the first missing byte, and
  \<^verbatim>\<open>unassembled_bytes\<close> counts every byte stored beyond it once.
\<close>

theorem reassembles_in_any_order:
  assumes "capacity < 2 ^ 31" "\<forall>(i, n, e) \<in> set ps. i + n < 2 ^ 64"
  defines "got \<equiv> (\<Union>(i, n, e) \<in> set ps. {i..<i + n}) \<inter> {..<capacity}"
  shows "bs_buf (sr_output (push_all S ps (StreamReassembler capacity))) = cut S 0 (LEAST n. n \<notin> got) \<and>
         unassembled_bytes (push_all S ps (StreamReassembler capacity)) =
           card (got - {..<(LEAST n. n \<notin> got)})"
proof -
  let ?init = "StreamReassembler capacity" and ?s = "push_all S ps (StreamReassembler capacity)"
  have init: "sr_inv S ?init" by (rule sr_inv_new) (use assms(1) in simp)
  have init': "window_end ?init = capacity" "known ?init = {}"
    "bs_totRead (sr_output ?init) = 0"
    using assms(1) by (auto simp: sr_inv_new window_end_def known_def StreamReassembler_def ByteStream_def)
  have all: "sr_inv S ?s" "known ?s = got" "window_end ?s = capacity"
    using sr.push_all [OF init _ assms(2)] init' assms(1) by (auto simp: got_def)
  have u: "sr_unasb ?s = (LEAST n. n \<notin> got)" using sr_inv_unasb_least [OF all(1)] all(2) by simp
  have "window_end ?init < 2 ^ 31" using init'(1) assms(1) by simp
  from push_all_totRead [OF init this assms(2)] init'(3)
  have tr: "bs_totRead (sr_output ?s) = 0" by simp
  show ?thesis
    using all(1) u tr sr_inv_unassembled [OF all(1)] all(2) by (simp add: sr_inv_def)
qed


theorem reassembles_in_any_order_witness:
  "bs_buf (sr_output (push_all (\<lambda>n. word_of_nat n) [(3, 2, True), (1, 3, False), (0, 1, False), (6, 4, False)]
     (StreamReassembler 8))) = [0, 1, 2, 3, 4]"
proof -
  let ?ps = "[(3, 2, True), (1, 3, False), (0, 1, False), (6, 4, False)] :: (nat \<times> nat \<times> bool) list"
  have least: "(LEAST n. n \<notin> (\<Union>(i, n, e) \<in> set ?ps. {i..<i + n}) \<inter> {..<8}) = (5::nat)"
  proof (rule Least_equality)
    fix y :: nat
    assume "y \<notin> (\<Union>(i, n, e) \<in> set ?ps. {i..<i + n}) \<inter> {..<8}"
    then have "\<not> ((3 \<le> y \<and> y < 5 \<or> 1 \<le> y \<and> y < 4 \<or> y < 1 \<or> 6 \<le> y \<and> y < 10) \<and> y < 8)"
      by (simp add: Suc_le_eq) blast
    then show "5 \<le> y" by arith
  qed simp
  have "(8::nat) < 2 ^ 31" "\<forall>(i, n, e) \<in> set ?ps. i + n < 2 ^ 64" by simp_all
  from reassembles_in_any_order [OF this, of "\<lambda>n. word_of_nat n"]
  have "bs_buf (sr_output (push_all (\<lambda>n. word_of_nat n) ?ps (StreamReassembler 8))) =
    cut (\<lambda>n. word_of_nat n) 0 5" unfolding least by (rule conjunct1)
  also have "\<dots> = [0, 1, 2, 3, 4]" by (simp add: cut_def upt_rec)
  finally show ?thesis .
qed

lemma assemble_eof2: "assemble m out u sz = (m', out', u', sz') \<Longrightarrow> bs_eof2 out' = bs_eof2 out"
proof (induction m out u sz rule: assemble.induct)
  case (2 a b s m out u sz)
  show ?case
  proof (cases "a = u")
    case True
    with "2.prems" have "assemble m (snd (ByteStream_write s out)) (add64 u (length s))
        (sub64 sz (length s)) = (m', out', u', sz')" by simp
    from "2.IH" [OF True this] show ?thesis by simp
  next
    case False
    with "2.prems" show ?thesis by simp
  qed
qed simp

lemma push_substring_ended:
  "ByteStream_input_ended (sr_output (push_substring data index eof s)) \<longleftrightarrow>
     ByteStream_input_ended (sr_output s) \<or>
     firstUnasb (push_substring data index eof s) =
       (if eof then add64 index (length data) else sr_eof2 s)"
    "sr_eof2 (push_substring data index eof s) =
       (let e = (if eof then add64 index (length data) else sr_eof2 s)
        in if firstUnasb (push_substring data index eof s) = e then size_max else e)"
proof -
  have eof2: "sr_eof2 (check_eof s) = (if sr_unasb s = sr_eof2 s then size_max else sr_eof2 s)" for s
    by (simp add: check_eof_def)
  have eof: "bs_eof2 (sr_output (check_eof s)) \<longleftrightarrow> bs_eof2 (sr_output s) \<or> sr_unasb s = sr_eof2 s" for s
    by (simp add: check_eof_def)
  let ?idx = "max (sr_unasb s) index"
  let ?fin = "min (add64 index (length data)) (add64 (bs_totRead (sr_output s)) (sr_capacity s))"
  obtain t1 sz1 where 1: "insert_gaps (to_insert (sr_t s) data index ?idx ?fin)
      (sr_t s, sr_szUnasb s) = (t1, sz1)" by (rule prod.exhaust)
  obtain t2 out2 u2 sz2 where 2: "assemble t1 (sr_output s) (sr_unasb s) sz1 = (t2, out2, u2, sz2)"
    by (metis prod_cases4)
  show "ByteStream_input_ended (sr_output (push_substring data index eof s)) \<longleftrightarrow>
     ByteStream_input_ended (sr_output s) \<or>
     firstUnasb (push_substring data index eof s) =
       (if eof then add64 index (length data) else sr_eof2 s)"
    using assemble_eof2 [OF 2]
    by (simp add: push_substring_eq 1 2 Let_def eof firstUnasb_def ByteStream_input_ended_def)
  show "sr_eof2 (push_substring data index eof s) =
       (let e = (if eof then add64 index (length data) else sr_eof2 s)
        in if firstUnasb (push_substring data index eof s) = e then size_max else e)"
    unfolding push_substring_eq Let_def 1 2 prod.case by (auto simp: eof2 firstUnasb_def min_le_iff_disj le_max_iff_disj)
qed

text \<open>
  the end of the input is signalled exactly when the assembled prefix reaches the end position
  recorded by an \<^verbatim>\<open>eof\<close> push, now or earlier; a push never takes the signal back.
\<close>

theorem push_substring_eof:
  "ByteStream_input_ended (sr_output (push_substring data index eof s)) \<longleftrightarrow>
     ByteStream_input_ended (sr_output s) \<or>
     firstUnasb (push_substring data index eof s) =
       (if eof then add64 index (length data) else sr_eof2 s)"
  by (rule push_substring_ended)



text \<open>A reassembler of capacity 64000 after \<open>2 ^ 31 - 2\<close> bytes have been assembled and read.\<close>

definition sr_at_2GiB :: stream_reassembler where
  "sr_at_2GiB = (StreamReassembler 64000)
     \<lparr>sr_unasb := 2 ^ 31 - 2, sr_unread := 2 ^ 31 - 2,
      sr_output := (ByteStream 64000)\<lparr>bs_totRead := 2 ^ 31 - 2, bs_totWrite := 2 ^ 31 - 2\<rparr>\<rparr>"

text \<open>
  C40: past 2 GiB the comparator no longer orders the keys. In the state a reassembler of capacity
  64000 reaches after \<open>2 ^ 31 - 2\<close> bytes have been read, the next three bytes are pushed one by
  one, each a true excerpt, the last one first-missing: nothing is assembled, only one of the three
  bytes is still stored, under a key it does not belong to, and all three are counted.
\<close>

theorem comparator_breaks_at_2GiB:
  "sr_inv S sr_at_2GiB \<and>
   (let s = push_substring [1] (2 ^ 31 - 2) False
              (push_substring [3] (2 ^ 31) False
                (push_substring [2] (2 ^ 31 - 1) False sr_at_2GiB))
    in firstUnasb s = 2 ^ 31 - 2 \<and> bs_buf (sr_output s) = [] \<and>
       sr_t s = [((2 ^ 31 - 1, 2 ^ 31), [1])] \<and> unassembled_bytes s = 3)"
proof
  show "sr_inv S sr_at_2GiB"
    by (simp add: sr_inv_def sr_at_2GiB_def StreamReassembler_def ByteStream_def bs_inv_def
        window_end_def)
  show "let s = push_substring [1] (2 ^ 31 - 2) False
              (push_substring [3] (2 ^ 31) False
                (push_substring [2] (2 ^ 31 - 1) False sr_at_2GiB))
    in firstUnasb s = 2 ^ 31 - 2 \<and> bs_buf (sr_output s) = [] \<and>
       sr_t s = [((2 ^ 31 - 1, 2 ^ 31), [1])] \<and> unassembled_bytes s = 3"
    by (simp add: push_substring_def Let_def sr_at_2GiB_def StreamReassembler_def
        ByteStream_def ByteStream_bytes_read_def add64_def sub64_def substr_def comp_def to_int_def
        check_eof_def size_max_def firstUnasb_def unassembled_bytes_def)
qed

end
