(* ===== verification/Buffers.thy ===== *)
theory Buffers
  imports Prelude
begin

text \<open>
  \<^verbatim>\<open>Buffer\<close>, \<^verbatim>\<open>BufferList\<close> and \<^verbatim>\<open>BufferViewList\<close> (\<^verbatim>\<open>util/buffer.hh\<close>, \<^verbatim>\<open>util/buffer.cc\<close>): strings that
  can discard bytes from the front. The storage of a \<^verbatim>\<open>Buffer\<close> is shared between its copies but
  never written after construction, so a copy is a value here. All three promise the same thing,
  stated once as the locale \<open>discardable\<close>.
\<close>

section \<open>Buffer\<close>

record buffer =
  buf_storage :: "bytes option"
  buf_starting_offset :: size_t

definition Buffer_default :: buffer where
  "Buffer_default = \<lparr>buf_storage = None, buf_starting_offset = 0\<rparr>"

definition Buffer :: "bytes \<Rightarrow> buffer" where
  "Buffer str = \<lparr>buf_storage = Some str, buf_starting_offset = 0\<rparr>"

text \<open>
  The view \<open>[data + offset, size - offset)\<close> of the storage; the offset never exceeds the size
  (\<open>buffer_inv\<close> below).
\<close>

definition Buffer_str :: "buffer \<Rightarrow> bytes" where
  "Buffer_str b =
     (case buf_storage b of None \<Rightarrow> [] | Some s \<Rightarrow> drop (buf_starting_offset b) s)"

definition Buffer_at :: "size_t \<Rightarrow> buffer \<Rightarrow> exn + byte" where
  "Buffer_at n b =
     (if n < length (Buffer_str b) then Inr (Buffer_str b ! n)
      else Inl (Out_of_range ''basic_string_view::at''))"

definition Buffer_size :: "buffer \<Rightarrow> size_t" where
  "Buffer_size b = length (Buffer_str b)"

definition Buffer_copy :: "buffer \<Rightarrow> bytes" where
  "Buffer_copy b = Buffer_str b"

definition Buffer_remove_prefix :: "size_t \<Rightarrow> buffer \<Rightarrow> exn + buffer" where
  "Buffer_remove_prefix n b =
     (if n > length (Buffer_str b) then Inl (Out_of_range ''Buffer::remove_prefix'')
      else
        let b1 = b\<lparr>buf_starting_offset := buf_starting_offset b + n\<rparr>
        in Inr (case buf_storage b1 of
             Some s \<Rightarrow> if buf_starting_offset b1 = length s then b1\<lparr>buf_storage := None\<rparr> else b1
           | None \<Rightarrow> b1))"

definition buffer_inv :: "buffer \<Rightarrow> bool" where
  "buffer_inv b \<longleftrightarrow> (case buf_storage b of None \<Rightarrow> True | Some s \<Rightarrow> buf_starting_offset b \<le> length s)"

lemma Buffer_str_new [simp]: "Buffer_str (Buffer s) = s" "Buffer_str Buffer_default = []"
  by (simp_all add: Buffer_str_def Buffer_def Buffer_default_def)

lemma buffer_inv_new [simp, intro]: "buffer_inv (Buffer s)" "buffer_inv Buffer_default"
  by (simp_all add: buffer_inv_def Buffer_def Buffer_default_def)

lemma Buffer_remove_prefix_Inr:
  assumes "Buffer_remove_prefix n b = Inr b'"
  shows "n \<le> length (Buffer_str b) \<and> Buffer_str b' = drop n (Buffer_str b) \<and>
         (buffer_inv b \<longrightarrow> buffer_inv b')"
  using assms
  by (auto simp: Buffer_remove_prefix_def Buffer_str_def buffer_inv_def Let_def add.commute
      split: option.splits if_splits)

lemma Buffer_remove_prefix_total:
  "n \<le> length (Buffer_str b) \<Longrightarrow> \<exists>b'. Buffer_remove_prefix n b = Inr b'"
  by (auto simp: Buffer_remove_prefix_def Let_def)

section \<open>BufferList\<close>

datatype buffer_list = BufferList (buffers: "buffer list")

definition BufferList_default :: buffer_list where
  "BufferList_default = BufferList []"

definition BufferList_of_buffer :: "buffer \<Rightarrow> buffer_list" where
  "BufferList_of_buffer b = BufferList [b]"

definition BufferList_append :: "buffer_list \<Rightarrow> buffer_list \<Rightarrow> buffer_list" where
  "BufferList_append other l = BufferList (buffers l @ buffers other)"

definition BufferList_of_string :: "bytes \<Rightarrow> buffer_list" where
  "BufferList_of_string str = BufferList_append (BufferList_of_buffer (Buffer str)) BufferList_default"

definition BufferList_to_buffer :: "buffer_list \<Rightarrow> exn + buffer" where
  "BufferList_to_buffer l =
     (case buffers l of
        [] \<Rightarrow> Inr Buffer_default
      | [b] \<Rightarrow> Inr b
      | _ \<Rightarrow> Inl (Runtime_error ''BufferList: please use concatenate() to combine a multi-Buffer BufferList into one Buffer''))"

definition BufferList_concatenate :: "buffer_list \<Rightarrow> bytes" where
  "BufferList_concatenate l = foldl (\<lambda>ret buf. ret @ Buffer_str buf) [] (buffers l)"

definition BufferList_size :: "buffer_list \<Rightarrow> size_t" where
  "BufferList_size l = foldl (\<lambda>ret buf. ret + Buffer_size buf) 0 (buffers l)"

fun remove_prefix_loop :: "size_t \<Rightarrow> buffer list \<Rightarrow> exn + buffer list" where
  "remove_prefix_loop n [] =
     (if n > 0 then Inl (Out_of_range ''BufferList::remove_prefix'') else Inr [])"
| "remove_prefix_loop n (b # bs) =
     (if n > 0 then
        if n < length (Buffer_str b)
        then bindE (Buffer_remove_prefix n b) (\<lambda>b'. Inr (b' # bs))
        else remove_prefix_loop (n - length (Buffer_str b)) bs
      else Inr (b # bs))"

definition BufferList_remove_prefix :: "size_t \<Rightarrow> buffer_list \<Rightarrow> exn + buffer_list" where
  "BufferList_remove_prefix n l = bindE (remove_prefix_loop n (buffers l)) (\<lambda>bs. Inr (BufferList bs))"

lemma foldl_append_concat: "foldl (\<lambda>ret x. ret @ f x) acc xs = acc @ concat (map f xs)"
  by (induction xs arbitrary: acc) auto

lemma foldl_add_sum: "foldl (\<lambda>ret x. ret + f x) (acc :: nat) xs = acc + sum_list (map f xs)"
  by (induction xs arbitrary: acc) (auto simp: add.assoc)

lemma concatenate_concat: "BufferList_concatenate l = concat (map Buffer_str (buffers l))"
  by (simp add: BufferList_concatenate_def foldl_append_concat)

lemma concatenate_simps [simp]:
  "BufferList_concatenate BufferList_default = []"
  "BufferList_concatenate (BufferList_of_buffer b) = Buffer_str b"
  "BufferList_concatenate (BufferList_of_string s) = s"
  "BufferList_concatenate (BufferList_append m l) = BufferList_concatenate l @ BufferList_concatenate m"
  by (simp_all add: concatenate_concat BufferList_default_def BufferList_of_buffer_def
      BufferList_of_string_def BufferList_append_def)

lemma BufferList_size_concatenate: "BufferList_size l = length (BufferList_concatenate l)"
  by (simp add: BufferList_size_def foldl_add_sum concatenate_concat Buffer_size_def length_concat comp_def)

lemma BufferList_to_buffer_single [simp]: "BufferList_to_buffer (BufferList_of_buffer b) = Inr b"
  by (simp add: BufferList_to_buffer_def BufferList_of_buffer_def)

lemma BufferList_to_buffer_content:
  "BufferList_to_buffer l = Inr b \<Longrightarrow> Buffer_str b = BufferList_concatenate l"
  by (auto simp: BufferList_to_buffer_def concatenate_concat split: list.splits)

lemma remove_prefix_loop_content:
  "(case remove_prefix_loop n bs of
      Inl e \<Rightarrow> e = Out_of_range ''BufferList::remove_prefix'' \<and> length (concat (map Buffer_str bs)) < n
    | Inr bs' \<Rightarrow> n \<le> length (concat (map Buffer_str bs)) \<and>
        concat (map Buffer_str bs') = drop n (concat (map Buffer_str bs)))"
proof (induction n bs rule: remove_prefix_loop.induct)
  case (1 n)
  then show ?case by simp
next
  case (2 n b bs)
  show ?case
  proof (cases "0 < n \<and> n < length (Buffer_str b)")
    case True
    then obtain b' where "Buffer_remove_prefix n b = Inr b'"
      using Buffer_remove_prefix_total [of n b] by auto
    with True Buffer_remove_prefix_Inr [OF this] show ?thesis by simp
  next
    case False
    with 2 show ?thesis by (cases "n = 0") (auto split: sum.splits)
  qed
qed

section \<open>BufferViewList\<close>

text \<open>A \<^verbatim>\<open>string_view\<close> is the bytes it shows, an \<^verbatim>\<open>iovec\<close> the bytes it points to.\<close>

datatype buffer_view_list = BufferViewList (views: "bytes list")

definition BufferViewList_of_view :: "bytes \<Rightarrow> buffer_view_list" where
  "BufferViewList_of_view str = BufferViewList [str]"

definition BufferViewList_of_buffers :: "buffer_list \<Rightarrow> buffer_view_list" where
  "BufferViewList_of_buffers l = BufferViewList (map Buffer_str (buffers l))"

fun view_remove_prefix_loop :: "size_t \<Rightarrow> bytes list \<Rightarrow> exn + bytes list" where
  "view_remove_prefix_loop n [] =
     (if n > 0 then Inl (Out_of_range ''BufferListView::remove_prefix'') else Inr [])"
| "view_remove_prefix_loop n (v # vs) =
     (if n > 0 then
        if n < length v then Inr (drop n v # vs)
        else view_remove_prefix_loop (n - length v) vs
      else Inr (v # vs))"

definition BufferViewList_remove_prefix :: "size_t \<Rightarrow> buffer_view_list \<Rightarrow> exn + buffer_view_list" where
  "BufferViewList_remove_prefix n l =
     bindE (view_remove_prefix_loop n (views l)) (\<lambda>vs. Inr (BufferViewList vs))"

definition BufferViewList_size :: "buffer_view_list \<Rightarrow> size_t" where
  "BufferViewList_size l = foldl (\<lambda>ret v. ret + length v) 0 (views l)"

definition BufferViewList_as_iovecs :: "buffer_view_list \<Rightarrow> bytes list" where
  "BufferViewList_as_iovecs l = foldl (\<lambda>ret v. ret @ [v]) [] (views l)"

definition views_content :: "buffer_view_list \<Rightarrow> bytes" where
  "views_content l = concat (views l)"

lemma as_iovecs_content: "concat (BufferViewList_as_iovecs l) = views_content l"
  by (simp add: BufferViewList_as_iovecs_def foldl_append_concat [where f = "\<lambda>v. [v]"] views_content_def)

lemma BufferViewList_size_content: "BufferViewList_size l = length (views_content l)"
  by (simp add: BufferViewList_size_def foldl_add_sum views_content_def length_concat)

lemma views_content_simps [simp]:
  "views_content (BufferViewList_of_view s) = s"
  "views_content (BufferViewList_of_buffers l) = BufferList_concatenate l"
  by (simp_all add: views_content_def BufferViewList_of_view_def BufferViewList_of_buffers_def
      concatenate_concat)

lemma view_remove_prefix_loop_content:
  "(case view_remove_prefix_loop n vs of
      Inl e \<Rightarrow> e = Out_of_range ''BufferListView::remove_prefix'' \<and> length (concat vs) < n
    | Inr vs' \<Rightarrow> n \<le> length (concat vs) \<and> concat vs' = drop n (concat vs))"
proof (induction n vs rule: view_remove_prefix_loop.induct)
  case (2 n v vs)
  then show ?case by (cases "n = 0"; cases "n < length v") (auto split: sum.splits)
qed simp

section \<open>The shared contract\<close>

text \<open>
  Discarding from the front: the content loses exactly its first \<open>n\<close> bytes, or the call throws
  \<^verbatim>\<open>out_of_range\<close> when there are fewer.
\<close>

locale discardable =
  fixes content :: "'b \<Rightarrow> bytes"
    and discard :: "nat \<Rightarrow> 'b \<Rightarrow> exn + 'b"
    and what :: string
  assumes discard_ok: "n \<le> length (content b) \<Longrightarrow> \<exists>b'. discard n b = Inr b' \<and> content b' = drop n (content b)"
    and discard_short: "length (content b) < n \<Longrightarrow> discard n b = Inl (Out_of_range what)"
begin

lemma discard_Inr:
  "discard n b = Inr b' \<Longrightarrow> n \<le> length (content b) \<and> content b' = drop n (content b)"
  using discard_ok [of n b] discard_short [of b n] by (cases "n \<le> length (content b)") auto

lemma discard_Inl_iff: "(\<exists>e. discard n b = Inl e) \<longleftrightarrow> length (content b) < n"
  using discard_ok [of n b] discard_short [of b n] by (cases "n \<le> length (content b)") auto

text \<open>Discarding in pieces is discarding at once.\<close>

lemma discard_twice:
  "map_sum id content (bindE (discard m b) (discard n)) = map_sum id content (discard (m + n) b)"
proof (cases "m \<le> length (content b)")
  case True
  then obtain b1 where b1: "discard m b = Inr b1" "content b1 = drop m (content b)"
    using discard_ok by blast
  show ?thesis
  proof (cases "m + n \<le> length (content b)")
    case True
    then have "n \<le> length (content b1)" using b1 by simp
    from discard_ok [OF this] discard_ok [OF True] show ?thesis using b1 by (auto simp: add.commute)
  next
    case False
    then show ?thesis using b1 True discard_short [of b1 n] discard_short [of b "m + n"] by simp
  qed
next
  case False
  then show ?thesis using discard_short [of b m] discard_short [of b "m + n"] by simp
qed

end

interpretation buffer: discardable Buffer_str Buffer_remove_prefix "''Buffer::remove_prefix''"
proof
  fix n b
  assume "n \<le> length (Buffer_str b)"
  then show "\<exists>b'. Buffer_remove_prefix n b = Inr b' \<and> Buffer_str b' = drop n (Buffer_str b)"
    using Buffer_remove_prefix_total Buffer_remove_prefix_Inr by blast
qed (simp add: Buffer_remove_prefix_def)

interpretation buffer_list: discardable BufferList_concatenate BufferList_remove_prefix
    "''BufferList::remove_prefix''"
proof (unfold_locales, goal_cases)
  case (1 n b)
  then show ?case
    using remove_prefix_loop_content [where n = n and bs = "buffers b"]
    by (auto simp: BufferList_remove_prefix_def concatenate_concat split: sum.splits)
next
  case (2 b n)
  then show ?case
    using remove_prefix_loop_content [where n = n and bs = "buffers b"]
    by (auto simp: BufferList_remove_prefix_def concatenate_concat split: sum.splits)
qed

interpretation buffer_views: discardable views_content BufferViewList_remove_prefix
    "''BufferListView::remove_prefix''"
proof (unfold_locales, goal_cases)
  case (1 n b)
  then show ?case
    using view_remove_prefix_loop_content [where n = n and vs = "views b"]
    by (auto simp: BufferViewList_remove_prefix_def views_content_def split: sum.splits)
next
  case (2 b n)
  then show ?case
    using view_remove_prefix_loop_content [where n = n and vs = "views b"]
    by (auto simp: BufferViewList_remove_prefix_def views_content_def split: sum.splits)
qed

section \<open>Properties\<close>

text \<open>
  A \<^verbatim>\<open>BufferList\<close> behaves as the one string it stands for: discarding any number of bytes in two
  calls, across any boundaries between its buffers, leaves the same contents, or throws in the
  same cases, as one call; and \<^verbatim>\<open>remove_prefix(n)\<close> itself drops the first \<open>n\<close> bytes of the
  concatenation, or throws \<^verbatim>\<open>out_of_range\<close> when there are fewer.
\<close>

theorem BufferList_remove_prefix_refines:
  "map_sum id BufferList_concatenate (BufferList_remove_prefix n l) =
     (if n \<le> BufferList_size l then Inr (drop n (BufferList_concatenate l))
      else Inl (Out_of_range ''BufferList::remove_prefix'')) \<and>
   map_sum id BufferList_concatenate
       (bindE (BufferList_remove_prefix m l) (BufferList_remove_prefix n)) =
     map_sum id BufferList_concatenate (BufferList_remove_prefix (m + n) l)"
proof
  show "map_sum id BufferList_concatenate (BufferList_remove_prefix n l) =
     (if n \<le> BufferList_size l then Inr (drop n (BufferList_concatenate l))
      else Inl (Out_of_range ''BufferList::remove_prefix''))"
    using buffer_list.discard_ok [of n l] buffer_list.discard_short [of l n]
    by (auto simp: BufferList_size_concatenate)
qed (rule buffer_list.discard_twice)

end
