(* ===== verification/Parser.thy ===== *)
theory Parser
  imports Buffers "HOL-Library.State_Monad"
begin

text \<open>
  \<^verbatim>\<open>ParseResult\<close>, \<^verbatim>\<open>NetParser\<close> and \<^verbatim>\<open>NetUnparser\<close> (\<^verbatim>\<open>util/parser.hh\<close>, \<^verbatim>\<open>util/parser.cc\<close>): integers
  in network byte order read from and appended to byte strings. A parser is the state of a state
  monad, in which the header parsers are written.
\<close>

section \<open>ParseResult\<close>

datatype parse_result =
    NoError
  | BadChecksum
  | PacketTooShort
  | WrongIPVersion
  | HeaderTooShort
  | TruncatedPacket
  | Unsupported

fun parse_result_code :: "parse_result \<Rightarrow> nat" where
  "parse_result_code NoError = 0"
| "parse_result_code BadChecksum = 1"
| "parse_result_code PacketTooShort = 2"
| "parse_result_code WrongIPVersion = 3"
| "parse_result_code HeaderTooShort = 4"
| "parse_result_code TruncatedPacket = 5"
| "parse_result_code Unsupported = 6"

lemma parse_result_code_inject: "parse_result_code r = parse_result_code r' \<Longrightarrow> r = r'"
  by (cases r; cases r') simp_all

text \<open>The results are ordered as the enumeration numbers them.\<close>

instantiation parse_result :: linorder
begin

definition less_eq_parse_result :: "parse_result \<Rightarrow> parse_result \<Rightarrow> bool" where
  "less_eq_parse_result r r' \<longleftrightarrow> parse_result_code r \<le> parse_result_code r'"

definition less_parse_result :: "parse_result \<Rightarrow> parse_result \<Rightarrow> bool" where
  "less_parse_result r r' \<longleftrightarrow> parse_result_code r < parse_result_code r'"

instance
  by standard (auto simp: less_eq_parse_result_def less_parse_result_def
      intro: parse_result_code_inject)

end

text \<open>The table of names has no entry for the last result: indexing it there is undefined.\<close>

definition as_string_names :: "string list" where
  "as_string_names = [''NoError'', ''BadChecksum'', ''PacketTooShort'', ''WrongIPVersion'',
     ''HeaderTooShort'', ''TruncatedPacket'']"

definition as_string :: "parse_result \<Rightarrow> exn + string" where
  "as_string r =
     (if parse_result_code r < length as_string_names
      then Inr (as_string_names ! parse_result_code r)
      else Inl (Undefined_behaviour ''as_string: index out of bounds''))"

section \<open>NetParser\<close>

record net_parser =
  np_buffer :: buffer
  np_error :: parse_result

definition NetParser :: "buffer \<Rightarrow> net_parser" where
  "NetParser buffer = \<lparr>np_buffer = buffer, np_error = NoError\<rparr>"

definition NetParser_set_error :: "parse_result \<Rightarrow> net_parser \<Rightarrow> net_parser" where
  "NetParser_set_error res p = p\<lparr>np_error := res\<rparr>"

definition NetParser_get_error :: "net_parser \<Rightarrow> parse_result" where
  "NetParser_get_error p = np_error p"

definition NetParser_error :: "net_parser \<Rightarrow> bool" where
  "NetParser_error p \<longleftrightarrow> np_error p \<noteq> NoError"

definition NetParser_check_size :: "size_t \<Rightarrow> net_parser \<Rightarrow> net_parser" where
  "NetParser_check_size len p =
     (if len > Buffer_size (np_buffer p) then NetParser_set_error PacketTooShort p else p)"

text \<open>
  \<^verbatim>\<open>_buffer.remove_prefix(n)\<close> on a checked size; the exception of \<^verbatim>\<open>Buffer::remove_prefix\<close> cannot
  be thrown there (lemma \<open>Buffer_remove_prefix_total\<close>).
\<close>

definition np_skip :: "size_t \<Rightarrow> net_parser \<Rightarrow> net_parser" where
  "np_skip n p =
     (case Buffer_remove_prefix n (np_buffer p) of Inl e \<Rightarrow> p | Inr b \<Rightarrow> p\<lparr>np_buffer := b\<rparr>)"

text \<open>The loop of \<^verbatim>\<open>_parse_int\<close>: \<open>ret <<= 8\<close> and \<open>ret += byte\<close> at the width of the result.\<close>

definition be_decode :: "bytes \<Rightarrow> 'a::len word" where
  "be_decode bs = foldl (\<lambda>ret b. push_bit 8 ret + ucast b) 0 bs"

definition NetParser_parse_int :: "(net_parser, 'a::len word) state" where
  "NetParser_parse_int = State (\<lambda>p.
     let len = LENGTH('a) div 8; p1 = NetParser_check_size len p
     in if NetParser_error p1 then (0, p1)
        else (be_decode (take len (Buffer_str (np_buffer p1))), np_skip len p1))"

definition NetParser_u32 :: "(net_parser, u32) state" where
  "NetParser_u32 = NetParser_parse_int"

definition NetParser_u16 :: "(net_parser, u16) state" where
  "NetParser_u16 = NetParser_parse_int"

definition NetParser_u8 :: "(net_parser, byte) state" where
  "NetParser_u8 = NetParser_parse_int"

definition NetParser_remove_prefix :: "size_t \<Rightarrow> net_parser \<Rightarrow> net_parser" where
  "NetParser_remove_prefix n p =
     (let p1 = NetParser_check_size n p in if NetParser_error p1 then p1 else np_skip n p1)"

section \<open>NetUnparser\<close>

definition NetUnparser_unparse_int :: "bytes \<Rightarrow> 'a::len word \<Rightarrow> bytes" where
  "NetUnparser_unparse_int s val =
     (let len = LENGTH('a) div 8
      in s @ map (\<lambda>i. ucast (and (drop_bit ((len - i - 1) * 8) val) 0xff)) [0..<len])"

definition NetUnparser_u32 :: "bytes \<Rightarrow> u32 \<Rightarrow> bytes" where
  "NetUnparser_u32 s val = NetUnparser_unparse_int s val"

definition NetUnparser_u16 :: "bytes \<Rightarrow> u16 \<Rightarrow> bytes" where
  "NetUnparser_u16 s val = NetUnparser_unparse_int s val"

definition NetUnparser_u8 :: "bytes \<Rightarrow> byte \<Rightarrow> bytes" where
  "NetUnparser_u8 s val = NetUnparser_unparse_int s val"

text \<open>\<^verbatim>\<open>std::string::resize\<close>, with which the serialisers pad a header.\<close>

definition resize :: "nat \<Rightarrow> bytes \<Rightarrow> bytes" where
  "resize n s = take n s @ replicate (n - length s) 0"

section \<open>What a parser has left to read\<close>

definition np_content :: "net_parser \<Rightarrow> bytes" where
  "np_content p = Buffer_str (np_buffer p)"

lemma np_content_new [simp]: "np_content (NetParser b) = Buffer_str b"
  "np_error (NetParser b) = NoError" "np_buffer (NetParser b) = b"
  by (simp_all add: np_content_def NetParser_def)

lemma np_skip_simps [simp]:
  "np_error (np_skip n p) = np_error p"
  "n \<le> length (np_content p) \<Longrightarrow> np_content (np_skip n p) = drop n (np_content p)"
  using buffer.discard_Inr [of n "np_buffer p"] buffer.discard_Inl_iff [of n "np_buffer p"]
  by (auto simp: np_skip_def np_content_def split: sum.splits)

lemma np_skip_skip [simp]:
  "m + n \<le> length (np_content p) \<Longrightarrow> np_skip n (np_skip m p) = np_skip (m + n) p"
  by (cases p) (auto simp: np_skip_def np_content_def Buffer_remove_prefix_def Buffer_str_def Let_def
      split: option.splits)

lemma np_skip_content_le: "length (np_content (np_skip n p)) \<le> length (np_content p)"
  using buffer.discard_Inr [of n "np_buffer p"]
  by (auto simp: np_skip_def np_content_def split: sum.splits)

lemma run_parse_int:
  "run_state (NetParser_parse_int :: (net_parser, 'a::len word) state) p =
     (if np_error p \<noteq> NoError then (0, if length (np_content p) < LENGTH('a) div 8
         then p\<lparr>np_error := PacketTooShort\<rparr> else p)
      else if length (np_content p) < LENGTH('a) div 8 then (0, p\<lparr>np_error := PacketTooShort\<rparr>)
      else (be_decode (take (LENGTH('a) div 8) (np_content p)), np_skip (LENGTH('a) div 8) p))"
  by (auto simp: NetParser_parse_int_def NetParser_check_size_def NetParser_error_def
      NetParser_set_error_def Buffer_size_def np_content_def Let_def)

text \<open>Reading when there is enough to read.\<close>

lemma run_u8 [simp]:
  "np_error p = NoError \<Longrightarrow> 1 \<le> length (np_content p) \<Longrightarrow>
   run_state NetParser_u8 p = (be_decode (take 1 (np_content p)), np_skip 1 p)"
  by (auto simp: NetParser_u8_def run_parse_int)

lemma run_u16 [simp]:
  "np_error p = NoError \<Longrightarrow> 2 \<le> length (np_content p) \<Longrightarrow>
   run_state NetParser_u16 p = (be_decode (take 2 (np_content p)), np_skip 2 p)"
  by (simp add: NetParser_u16_def run_parse_int)

lemma run_u32 [simp]:
  "np_error p = NoError \<Longrightarrow> 4 \<le> length (np_content p) \<Longrightarrow>
   run_state NetParser_u32 p = (be_decode (take 4 (np_content p)), np_skip 4 p)"
  by (simp add: NetParser_u32_def run_parse_int)

lemma run_remove_prefix [simp]:
  "np_error p = NoError \<Longrightarrow> n \<le> length (np_content p) \<Longrightarrow> NetParser_remove_prefix n p = np_skip n p"
  by (simp add: NetParser_remove_prefix_def NetParser_check_size_def NetParser_error_def
      Buffer_size_def np_content_def)

text \<open>Once an error is set it stays, and every further read gives 0 and consumes nothing.\<close>

lemma run_int_error:
  "np_error p \<noteq> NoError \<Longrightarrow>
   fst (run_state (NetParser_parse_int :: (net_parser, 'a::len word) state) p) = 0 \<and>
   np_error (snd (run_state (NetParser_parse_int :: (net_parser, 'a word) state) p)) \<noteq> NoError \<and>
   np_buffer (snd (run_state (NetParser_parse_int :: (net_parser, 'a word) state) p)) = np_buffer p"
  by (simp add: run_parse_int)

section \<open>Network byte order is a bijection\<close>

definition be_encode :: "'a::len word \<Rightarrow> bytes" where
  "be_encode val = NetUnparser_unparse_int [] val"

lemma unparse_encode [simp]:
  "NetUnparser_u8 s b = s @ be_encode b"
  "NetUnparser_u16 s h = s @ be_encode h"
  "NetUnparser_u32 s w = s @ be_encode w"
  by (simp_all add: NetUnparser_u8_def NetUnparser_u16_def NetUnparser_u32_def be_encode_def
      NetUnparser_unparse_int_def)

lemma length_be_encode [simp]: "length (be_encode (v :: 'a::len word)) = LENGTH('a) div 8"
  by (simp add: be_encode_def NetUnparser_unparse_int_def Let_def)

definition be_nat :: "bytes \<Rightarrow> nat" where
  "be_nat bs = foldl (\<lambda>r b. r * 256 + unat b) 0 bs"

lemma be_nat_append: "be_nat (bs @ [b]) = be_nat bs * 256 + unat b"
  by (simp add: be_nat_def)

lemma unat_byte: "unat (b :: byte) < 256"
  using unsigned_less [of b] by simp

lemma unat_of_byte [simp]: "unat (ucast (b :: byte) :: 'a::len word) = unat b mod 2 ^ LENGTH('a)"
  by (simp add: unsigned_ucast_eq take_bit_eq_mod)

lemma unat_push_8: "unat (push_bit 8 (r :: 'a::len word)) = (unat r * 256) mod 2 ^ LENGTH('a)"
  unfolding unsigned_push_bit_eq by (simp add: take_bit_eq_mod push_bit_eq_mult)

lemma unat_be_decode: "unat (be_decode bs :: 'a::len word) = be_nat bs mod 2 ^ LENGTH('a)"
proof (induction bs rule: rev_induct)
  case Nil
  then show ?case by (simp add: be_decode_def be_nat_def)
next
  case (snoc b bs)
  have "unat (be_decode (bs @ [b]) :: 'a word) =
      unat (push_bit 8 (be_decode bs :: 'a word) + ucast b)"
    by (simp add: be_decode_def)
  also have "\<dots> = (unat (be_decode bs :: 'a word) * 256 + unat b) mod 2 ^ LENGTH('a)"
    by (simp add: unat_word_ariths unat_push_8 mod_simps)
  also have "\<dots> = (be_nat bs * 256 + unat b) mod 2 ^ LENGTH('a)"
    unfolding snoc.IH by (metis mod_add_left_eq mod_mult_left_eq)
  finally show ?case by (simp only: be_nat_append)
qed

lemma unat_encode_byte:
  "unat (ucast (and (drop_bit n (v :: 'a::len word)) 0xff) :: byte) = unat v div 2 ^ n mod 256"
proof -
  have "and (drop_bit n v) 0xff = take_bit 8 (drop_bit n v)"
    by (simp add: take_bit_eq_mask mask_eq_exp_minus_1)
  then have "unat (ucast (and (drop_bit n v) 0xff) :: byte) =
      take_bit 8 (take_bit 8 (drop_bit n (unat v)))"
    by (simp only: unsigned_ucast_eq unsigned_take_bit_eq unsigned_drop_bit_eq)
       (simp add: take_bit_nat_eq_self unsigned_less)
  then show ?thesis by (simp add: take_bit_eq_mod drop_bit_eq_div)
qed

lemma unat_encode_last:
  "unat (ucast (and (v :: 'a::len word) 0xff) :: byte) = unat v mod 256"
  using unat_encode_byte [of 0 v] by simp

lemma be_encode_8: "be_encode (b :: byte) = [b]"
  using unat_encode_byte [of 0 b] unat_byte [of b]
  by (simp add: be_encode_def NetUnparser_unparse_int_def word_unat_eq_iff)

lemma be_encode_16: "be_encode (h :: u16) =
    [ucast (and (drop_bit 8 h) 0xff), ucast (and (drop_bit 0 h) 0xff)]"
  by (simp add: be_encode_def NetUnparser_unparse_int_def upt_rec)

lemma be_encode_32: "be_encode (w :: u32) =
    [ucast (and (drop_bit 24 w) 0xff), ucast (and (drop_bit 16 w) 0xff),
     ucast (and (drop_bit 8 w) 0xff), ucast (and (drop_bit 0 w) 0xff)]"
  by (simp add: be_encode_def NetUnparser_unparse_int_def upt_rec)

lemma be_decode_encode_8 [simp]: "be_decode (be_encode b) = (b :: byte)"
  by (simp add: be_encode_8 be_decode_def)

lemma be_decode_encode_16 [simp]: "be_decode (be_encode h) = (h :: u16)"
proof -
  have "unat h < 65536" using unsigned_less [of h] by simp
  then have "unat (be_decode (be_encode h) :: u16) = unat h"
    unfolding unat_be_decode be_encode_16 be_nat_def foldl.simps unat_encode_byte by simp
  then show ?thesis by (simp only: word_unat_eq_iff)
qed

text \<open>Four base-256 digits.\<close>

lemma div_256:
  "(x :: nat) div 65536 = x div 256 div 256" "x div 16777216 = x div 256 div 256 div 256"
  by (simp_all flip: div_mult2_eq)

lemma digit_256: "d < 256 \<Longrightarrow> (q * 256 + d) div 256 = (q :: nat)" "d < 256 \<Longrightarrow> (q * 256 + d) mod 256 = d"
  by simp_all

lemma digits_256:
  "x < 4294967296 \<Longrightarrow> ((x div 16777216 mod 256 * 256 + x div 65536 mod 256) * 256 +
     x div 256 mod 256) * 256 + x mod 256 = (x :: nat)"
  by (simp add: div_256 div_mult_mod_eq)

lemma be_decode_encode_32 [simp]: "be_decode (be_encode w) = (w :: u32)"
proof -
  have "unat w < 4294967296" using unsigned_less [of w] by simp
  then have "unat (be_decode (be_encode w) :: u32) = unat w"
    using digits_256 [of "unat w"]
    unfolding unat_be_decode be_encode_32 be_nat_def foldl.simps unat_encode_byte by simp
  then show ?thesis by (simp only: word_unat_eq_iff)
qed

lemma be_encode_decode_8 [simp]: "length bs = 1 \<Longrightarrow> be_encode (be_decode bs :: byte) = bs"
  by (cases bs) (auto simp: be_encode_8 be_decode_def)

lemma list_2: "length bs = 2 \<Longrightarrow> \<exists>a b. bs = [a, b]"
  by (auto simp: numeral_2_eq_2 length_Suc_conv)

lemma list_4: "length bs = 4 \<Longrightarrow> \<exists>a b c d. bs = [a, b, c, d]"
  by (auto simp: eval_nat_numeral length_Suc_conv)

lemma be_encode_decode_16 [simp]:
  assumes "length bs = 2"
  shows "be_encode (be_decode bs :: u16) = bs"
proof -
  obtain a b where bs: "bs = [a, b]" using list_2 [OF assms] by blast
  have "unat a < 256" "unat b < 256" by (rule unat_byte)+
  then show ?thesis
    unfolding be_encode_16 bs list.inject word_unat_eq_iff unat_encode_byte unat_be_decode be_nat_def
    by simp
qed

lemma be_encode_decode_32 [simp]:
  assumes "length bs = 4"
  shows "be_encode (be_decode bs :: u32) = bs"
proof -
  obtain a b c d where bs: "bs = [a, b, c, d]" using list_4 [OF assms] by blast
  have "unat a < 256" "unat b < 256" "unat c < 256" "unat d < 256" by (rule unat_byte)+
  then have "be_nat bs < 4294967296" "be_nat bs = ((unat a * 256 + unat b) * 256 + unat c) * 256 + unat d"
    by (simp_all add: be_nat_def bs)
  with \<open>unat a < 256\<close> \<open>unat b < 256\<close> \<open>unat c < 256\<close> \<open>unat d < 256\<close> show ?thesis
    by (simp add: be_encode_32 bs word_unat_eq_iff unat_encode_byte unat_encode_last [of "be_decode [a, b, c, d] :: u32"]
        unat_be_decode div_256 digit_256 del: distrib_right_numeral)
qed

section \<open>Field codecs\<close>

text \<open>
  What the header formats rely on for each integer width: a reader that takes a fixed number of
  bytes, and an encoder that is its inverse in both directions.
\<close>

locale field_codec =
  fixes size :: nat
    and read :: "(net_parser, 'v) state"
    and enc :: "'v \<Rightarrow> bytes"
    and dec :: "bytes \<Rightarrow> 'v"
  assumes run_read: "np_error p = NoError \<Longrightarrow> size \<le> length (np_content p) \<Longrightarrow>
      run_state read p = (dec (take size (np_content p)), np_skip size p)"
    and read_short: "np_error p = NoError \<Longrightarrow> length (np_content p) < size \<Longrightarrow>
      np_error (snd (run_state read p)) = PacketTooShort \<and>
      np_content (snd (run_state read p)) = np_content p"
    and dec_enc: "dec (enc v) = v"
    and enc_dec: "length bs = size \<Longrightarrow> enc (dec bs) = bs"
    and length_enc: "length (enc v) = size"
begin

lemma read_enc:
  assumes "np_error p = NoError" "np_content p = enc v @ rest"
  shows "fst (run_state read p) = v" "np_content (snd (run_state read p)) = rest"
    "np_error (snd (run_state read p)) = NoError"
  using assms by (simp_all add: run_read length_enc dec_enc)

lemma enc_inject: "enc v = enc v' \<longleftrightarrow> v = v'"
  by (metis dec_enc)

text \<open>A loop of reads gets back a list of values written one after the other.\<close>

lemma read_list:
  assumes "np_error p = NoError" "np_content p = concat (map enc vs) @ rest" "length xs = length vs"
  shows "fst (run_state (State_Monad.traverse_list (\<lambda>_. read) xs) p) = vs \<and>
         np_content (snd (run_state (State_Monad.traverse_list (\<lambda>_. read) xs) p)) = rest \<and>
         np_error (snd (run_state (State_Monad.traverse_list (\<lambda>_. read) xs) p)) = NoError"
  using assms
proof (induction vs arbitrary: xs p)
  case (Cons v vs)
  then obtain x xs' where xs: "xs = x # xs'" "length xs' = length vs" by (cases xs) auto
  obtain a p1 where r: "run_state read p = (a, p1)" by (cases "run_state read p")
  have "np_content p = enc v @ (concat (map enc vs) @ rest)" using Cons.prems(2) by simp
  from read_enc [OF Cons.prems(1) this] r
  have p1: "a = v" "np_content p1 = concat (map enc vs) @ rest" "np_error p1 = NoError" by simp_all
  from Cons.IH [OF p1(3,2) xs(2)] show ?case
    by (cases "run_state (State_Monad.traverse_list (\<lambda>_. read) xs') p1") (simp add: xs r p1(1))
qed simp

end

interpretation u8: field_codec 1 NetParser_u8 be_encode be_decode
  by unfold_locales (auto simp: NetParser_u8_def run_parse_int np_content_def)

interpretation u16: field_codec 2 NetParser_u16 be_encode be_decode
  by unfold_locales (auto simp: NetParser_u16_def run_parse_int np_content_def)

interpretation u32: field_codec 4 NetParser_u32 be_encode be_decode
  by unfold_locales (auto simp: NetParser_u32_def run_parse_int np_content_def)

text \<open>A loop of \<^verbatim>\<open>u8()\<close> reads as many bytes as it has places to fill.\<close>

lemma concat_encode_8 [simp]: "concat (map be_encode (bs :: bytes)) = bs"
  by (induction bs) (simp_all add: be_encode_8)

lemma run_bytes:
  assumes "np_error p = NoError" "length xs \<le> length (np_content p)"
  obtains p' where
    "run_state (State_Monad.traverse_list (\<lambda>_. NetParser_u8) xs) p = (take (length xs) (np_content p), p')"
    "np_content p' = drop (length xs) (np_content p)" "np_error p' = NoError"
proof -
  have "np_content p = concat (map be_encode (take (length xs) (np_content p))) @ drop (length xs) (np_content p)"
    by simp
  from u8.read_list [OF assms(1) this, of xs] assms(2) that show ?thesis
    by (cases "run_state (State_Monad.traverse_list (\<lambda>_. NetParser_u8) xs) p") auto
qed

lemma foldl_unparse_8 [simp]: "foldl NetUnparser_u8 s bs = s @ bs"
  by (induction bs arbitrary: s) (auto simp: be_encode_8)

section \<open>Properties\<close>

text \<open>
  \<^verbatim>\<open>u32()\<close> on any parser: with no earlier error and four bytes left it returns the integer
  whose \<^verbatim>\<open>NetUnparser::u32\<close> image is exactly those four bytes and discards them; with an earlier
  error, or too little data, it returns 0, consumes nothing and leaves an error set.
\<close>

theorem NetParser_u32_spec:
  "(let (v, p') = run_state NetParser_u32 p in
    if np_error p = NoError \<and> 4 \<le> length (np_content p)
    then np_content p = NetUnparser_u32 [] v @ np_content p' \<and> np_error p' = NoError
    else v = 0 \<and> np_buffer p' = np_buffer p \<and> np_error p' \<noteq> NoError)"
proof (cases "np_error p = NoError \<and> 4 \<le> length (np_content p)")
  case True
  then show ?thesis by simp
next
  case False
  then show ?thesis by (auto simp: NetParser_u32_def run_parse_int)
qed

text \<open>
  \<^verbatim>\<open>as_string\<close> names every result but \<^verbatim>\<open>Unsupported\<close>, for which it reads past the end of its
  table of names.
\<close>

theorem as_string_defined:
  "(\<exists>s. as_string r = Inr s) \<longleftrightarrow> r \<noteq> Unsupported"
  by (cases r) (simp_all add: as_string_def as_string_names_def)

end
