(* ===== verification/Internet_Checksum.thy ===== *)
theory Internet_Checksum
  imports Parser
begin

text \<open>
  \<^verbatim>\<open>InternetChecksum\<close> and \<^verbatim>\<open>SystemCall\<close> (\<^verbatim>\<open>util/util.hh\<close>, \<^verbatim>\<open>util/util.cc\<close>). The running sum is a
  32-bit word, each byte enters it at the height its position gives it, and \<^verbatim>\<open>value\<close> folds the
  carries. The lemmas read the folded sum modulo 65535, which is what makes the checksum verify.
\<close>

section \<open>Operations\<close>

text \<open>\<^verbatim>\<open>errno\<close> as the system call left it is an argument.\<close>

definition SystemCall :: "int \<Rightarrow> string \<Rightarrow> int \<Rightarrow> int \<Rightarrow> exn + int" where
  "SystemCall errno attempt return_value errno_mask =
     (if return_value \<ge> 0 \<or> errno = errno_mask then Inr return_value
      else Inl (Unix_error attempt))"

record internet_checksum =
  ck_sum :: u32
  ck_parity :: bool

definition InternetChecksum :: "u32 \<Rightarrow> internet_checksum" where
  "InternetChecksum initial_sum = \<lparr>ck_sum = initial_sum, ck_parity = False\<rparr>"

definition InternetChecksum_add_byte :: "internet_checksum \<Rightarrow> byte \<Rightarrow> internet_checksum" where
  "InternetChecksum_add_byte c b =
     (let val = (ucast b :: u16);
          val' = (if \<not> ck_parity c then push_bit 8 val else val)
      in \<lparr>ck_sum = ck_sum c + ucast val', ck_parity = (\<not> ck_parity c)\<rparr>)"

definition InternetChecksum_add :: "bytes \<Rightarrow> internet_checksum \<Rightarrow> internet_checksum" where
  "InternetChecksum_add data c = foldl InternetChecksum_add_byte c data"

text \<open>One folding step on natural numbers: it decreases and keeps the residue modulo 65535.\<close>

lemma fold_nat:
  fixes n :: nat
  defines "f \<equiv> n div 65536 + n mod 65536"
  shows "n < 4294967296 \<Longrightarrow> f < 4294967296" "n > 65535 \<Longrightarrow> f < n" "f mod 65535 = n mod 65535"
    "f = 0 \<longleftrightarrow> n = 0"
proof -
  have n: "n = n div 65536 * 65536 + n mod 65536" and r: "n mod 65536 < 65536" by simp_all
  show "n < 4294967296 \<Longrightarrow> f < 4294967296" "n > 65535 \<Longrightarrow> f < n" "f = 0 \<longleftrightarrow> n = 0"
    using n r unfolding f_def by linarith+
  have "n = f + n div 65536 * 65535" using n unfolding f_def by linarith
  then show "f mod 65535 = n mod 65535" by (metis mod_mult_self1)
qed

lemma unat_fold_step:
  "unat (drop_bit 16 (ret :: u32) + and ret 0xffff) = unat ret div 65536 + unat ret mod 65536"
proof -
  have b: "unat ret < 4294967296" using unsigned_less [of ret] by simp
  have "and ret 0xffff = take_bit 16 ret"
    by (simp add: take_bit_eq_mask mask_eq_exp_minus_1)
  then have "unat (and ret 0xffff) = unat ret mod 65536"
    by (simp only: unsigned_take_bit_eq) (simp add: take_bit_eq_mod)
  moreover have "unat (drop_bit 16 ret) = unat ret div 65536"
    using b unfolding unsigned_drop_bit_eq by (simp add: drop_bit_eq_div take_bit_nat_eq_self)
  moreover have "unat ret div 65536 + unat ret mod 65536 < 4294967296" using b by (rule fold_nat)
  ultimately show ?thesis by (simp add: unat_word_ariths)
qed

function fold_carries :: "u32 \<Rightarrow> u32" where
  "fold_carries ret =
     (if ret > 0xffff then fold_carries (drop_bit 16 ret + and ret 0xffff) else ret)"
  by pat_completeness auto

lemma fold_carries_decreases:
  "(ret :: u32) > 0xffff \<Longrightarrow> unat (drop_bit 16 ret + and ret 0xffff) < unat ret"
proof -
  assume "ret > 0xffff"
  then have "unat ret > 65535" by (simp add: word_less_nat_alt)
  then show ?thesis unfolding unat_fold_step by (rule fold_nat)
qed

termination fold_carries
  by (relation "measure unat") (auto simp: fold_carries_decreases)

declare fold_carries.simps [simp del]

definition InternetChecksum_value :: "internet_checksum \<Rightarrow> u16" where
  "InternetChecksum_value c = ucast (not (fold_carries (ck_sum c)))"

section \<open>The sum modulo 65535\<close>

lemma fold_carries_spec:
  "unat (fold_carries s) < 65536 \<and> unat (fold_carries s) mod 65535 = unat s mod 65535 \<and>
   (fold_carries s = 0 \<longleftrightarrow> s = 0)"
proof (induction s rule: fold_carries.induct)
  case (1 s)
  show ?case
  proof (cases "s > 0xffff")
    case True
    let ?t = "drop_bit 16 s + and s 0xffff"
    have big: "unat s > 65535" using True by (simp add: word_less_nat_alt)
    have t: "unat ?t = unat s div 65536 + unat s mod 65536" by (rule unat_fold_step)
    then have "unat ?t mod 65535 = unat s mod 65535" by (simp only: fold_nat)
    moreover have "?t \<noteq> 0"
    proof
      assume "?t = 0"
      then have "unat ?t = 0" by (simp only: unsigned_0)
      then show False using t big fold_nat(4) [of "unat s"] by linarith
    qed
    ultimately show ?thesis
      using 1 [OF True] True by (subst (1 2 3) fold_carries.simps) auto
  next
    case False
    then have "unat s < 65536" by (simp add: word_less_nat_alt not_less word_le_nat_alt)
    with False show ?thesis by (simp add: fold_carries.simps)
  qed
qed

lemma unat_lt_u32: "unat (x :: u32) < 4294967296"
  using unsigned_less [of x] by simp

lemma unat_not_eq_u32: "unat (not (x :: u32)) = 4294967295 - unat x"
proof -
  have "x + not x = - 1" by (simp add: not_eq_complement)
  then have "not x = mask 32 - x" by (simp add: mask_eq_exp_minus_1 not_eq_complement)
  moreover have "unat (mask 32 - x) = unat (mask 32 :: u32) - unat x"
    by (rule unat_sub) (use unat_lt_u32 [of x] in \<open>simp add: word_le_nat_alt mask_eq_exp_minus_1\<close>)
  ultimately show ?thesis by (simp add: mask_eq_exp_minus_1)
qed

lemma unat_value: "unat (InternetChecksum_value c) = 65535 - unat (fold_carries (ck_sum c))"
proof -
  let ?f = "fold_carries (ck_sum c)"
  have f: "unat ?f < 65536" using fold_carries_spec by blast
  have "unat (not ?f) = 4294967295 - unat ?f"
    by (simp add: unat_not_eq_u32)
  then have "unat (InternetChecksum_value c) = (4294967295 - unat ?f) mod 65536"
    by (simp add: InternetChecksum_value_def unsigned_ucast_eq take_bit_eq_mod)
  also have "\<dots> = (65535 - unat ?f + 65535 * 65536) mod 65536" using f by simp
  also have "\<dots> = 65535 - unat ?f" by (simp only: mod_mult_self1) simp
  finally show ?thesis .
qed

lemma value_0_iff:
  "InternetChecksum_value c = 0 \<longleftrightarrow> ck_sum c \<noteq> 0 \<and> unat (ck_sum c) mod 65535 = 0"
proof -
  let ?f = "fold_carries (ck_sum c)"
  have f: "unat ?f < 65536" "unat ?f mod 65535 = unat (ck_sum c) mod 65535" "?f = 0 \<longleftrightarrow> ck_sum c = 0"
    using fold_carries_spec by blast+
  have "InternetChecksum_value c = 0 \<longleftrightarrow> unat ?f = 65535"
    unfolding word_unat_eq_iff unat_value using f(1) by auto
  also have "\<dots> \<longleftrightarrow> unat ?f \<noteq> 0 \<and> unat ?f mod 65535 = 0"
    using f(1) by (cases "unat ?f = 65535") (auto simp: less_Suc_eq)
  also have "\<dots> \<longleftrightarrow> unat (ck_sum c) \<noteq> 0 \<and> unat (ck_sum c) mod 65535 = 0"
    using f(2,3) by (metis unat_eq_zero)
  finally show ?thesis by (simp only: unat_eq_zero)
qed

text \<open>What a byte sequence adds to the sum, starting at an even or an odd position.\<close>

fun byte_sum :: "bool \<Rightarrow> bytes \<Rightarrow> nat" where
  "byte_sum odd_pos [] = 0"
| "byte_sum odd_pos (b # bs) = (if odd_pos then unat b else 256 * unat b) + byte_sum (\<not> odd_pos) bs"

lemma byte_sum_append:
  "byte_sum q (xs @ ys) = byte_sum q xs + byte_sum (q \<noteq> odd (length xs)) ys"
proof (induction xs arbitrary: q)
  case (Cons x xs)
  have "((\<not> q) \<noteq> odd (length xs)) = (q \<noteq> odd (length (x # xs)))" by auto
  with Cons [of "\<not> q"] show ?case by (simp del: length_Cons)
qed simp

lemma byte_sum_bound: "byte_sum q bs \<le> 65280 * length bs"
proof (induction bs arbitrary: q)
  case (Cons b bs)
  have "unat b \<le> 255" using unat_byte [of b] by simp
  with Cons [of "\<not> q"] show ?case by (cases q) simp_all
qed simp

lemma add_byte:
  "unat (ck_sum (InternetChecksum_add_byte c b)) =
     (unat (ck_sum c) + (if ck_parity c then unat b else 256 * unat b)) mod 2 ^ 32"
  "ck_parity (InternetChecksum_add_byte c b) = (\<not> ck_parity c)"
proof -
  have "unat b < 256" by (rule unat_byte)
  then have "unat (push_bit 8 (ucast b :: u16)) = 256 * unat b"
    unfolding unsigned_push_bit_eq by (simp add: push_bit_eq_mult take_bit_eq_mod)
  with \<open>unat b < 256\<close> show "unat (ck_sum (InternetChecksum_add_byte c b)) =
     (unat (ck_sum c) + (if ck_parity c then unat b else 256 * unat b)) mod 2 ^ 32"
    by (simp add: InternetChecksum_add_byte_def unat_word_ariths unsigned_ucast_eq take_bit_eq_mod)
qed (simp add: InternetChecksum_add_byte_def Let_def)

lemma add_sum:
  "unat (ck_sum (InternetChecksum_add data c)) =
     (unat (ck_sum c) + byte_sum (ck_parity c) data) mod 2 ^ 32 \<and>
   ck_parity (InternetChecksum_add data c) = (ck_parity c \<noteq> odd (length data))"
proof (induction data arbitrary: c)
  case Nil
  show ?case using unat_lt_u32 [of "ck_sum c"] by (simp add: InternetChecksum_add_def)
next
  case (Cons b data)
  have eq: "InternetChecksum_add (b # data) c =
      InternetChecksum_add data (InternetChecksum_add_byte c b)"
    by (simp add: InternetChecksum_add_def)
  show ?case
    unfolding eq using Cons [of "InternetChecksum_add_byte c b"]
    by (auto simp: add_byte mod_add_left_eq add.assoc)
qed

lemma add_append [simp]:
  "InternetChecksum_add ys (InternetChecksum_add xs c) = InternetChecksum_add (xs @ ys) c"
  by (simp add: InternetChecksum_add_def)

text \<open>Without a 32-bit overflow the sum is exact.\<close>

lemma sum_exact:
  assumes "unat init + 65280 * length data < 2 ^ 32"
  shows "unat (ck_sum (InternetChecksum_add data (InternetChecksum init))) = unat init + byte_sum False data"
  using assms byte_sum_bound [of False data] add_sum [of data "InternetChecksum init"]
  by (simp add: InternetChecksum_def)

lemma byte_sum_be_16: "byte_sum False (be_encode (h :: u16)) = unat h"
proof -
  have "unat h < 65536" using unsigned_less [of h] by simp
  then show ?thesis
    unfolding be_encode_16 byte_sum.simps unat_encode_byte by simp
qed

lemma byte_sum_0: "byte_sum q [0, 0] = 0"
  by simp

lemma complement_65535:
  fixes n g :: nat
  assumes "g < 65536" "g mod 65535 = n mod 65535" "g = 0 \<longleftrightarrow> n = 0"
  shows "(n + (65535 - g)) mod 65535 = 0 \<and> n + (65535 - g) \<noteq> 0"
proof -
  have "(n + (65535 - g)) mod 65535 = (g + (65535 - g)) mod 65535"
    using assms(2) by (metis mod_add_left_eq)
  also have "g + (65535 - g) = 65535" using assms(1) by simp
  finally show ?thesis using assms by (cases "g = 65535") auto
qed

lemma same_residue:
  fixes r a b :: nat
  assumes "(r + a) mod 65535 = 0" "(r + b) mod 65535 = 0" "a \<le> 65280" "b \<le> 65280"
  shows "a = b"
proof -
  have "(r + a) mod 65535 = (r + b) mod 65535" using assms by simp
  then have "a mod 65535 = b mod 65535" by (simp only: nat_mod_eq_iff) auto
  then show ?thesis using assms(3,4) by simp
qed

lemma stored_checksum:
  assumes "even (length pre)"
    and "unat init + 65280 * (length pre + 2 + length post) < 2 ^ 32"
  defines "c \<equiv> InternetChecksum_value (InternetChecksum_add (pre @ [0, 0] @ post) (InternetChecksum init))"
  shows "InternetChecksum_value
           (InternetChecksum_add (pre @ NetUnparser_u16 [] c @ post) (InternetChecksum init)) = 0"
proof -
  let ?z = "InternetChecksum_add (pre @ [0, 0] @ post) (InternetChecksum init)"
  let ?f = "InternetChecksum_add (pre @ be_encode c @ post) (InternetChecksum init)"
  let ?g = "unat (fold_carries (ck_sum ?z))"
  have z: "unat (ck_sum ?z) = unat init + byte_sum False pre + byte_sum False post"
    using sum_exact [of init "pre @ [0, 0] @ post"] assms(1,2) by (simp add: byte_sum_append)
  have f: "unat (ck_sum ?f) = unat init + byte_sum False pre + unat c + byte_sum False post"
    using sum_exact [of init "pre @ be_encode c @ post"] assms(1,2)
    by (simp add: byte_sum_append byte_sum_be_16)
  have g: "?g < 65536" "?g mod 65535 = unat (ck_sum ?z) mod 65535" "?g = 0 \<longleftrightarrow> unat (ck_sum ?z) = 0"
    using fold_carries_spec [of "ck_sum ?z"] by (auto simp: word_unat_eq_iff)
  have c: "unat c = 65535 - ?g" by (simp add: c_def unat_value)
  have "unat (ck_sum ?f) = unat (ck_sum ?z) + (65535 - ?g)" using z f c by linarith
  then have "unat (ck_sum ?f) mod 65535 = 0" "unat (ck_sum ?f) \<noteq> 0"
    using complement_65535 [OF g] by simp_all
  then have "InternetChecksum_value ?f = 0" unfolding value_0_iff by auto
  then show ?thesis by simp
qed

section \<open>Properties\<close>

text \<open>
  C33: the checksum verifies: computing the checksum of any data with the two bytes at an even
  position zeroed, and storing it there in network byte order, gives data whose checksum is 0,
  with the same initial sum (the pseudo-header's) on both sides. The bound keeps the 32-bit sum
  from overflowing; it holds for every datagram up to 65535 bytes.
\<close>

theorem checksum_verifies:
  assumes "even (length pre)"
    and "unat init + 65280 * (length pre + 2 + length post) < 2 ^ 32"
  defines "c \<equiv> InternetChecksum_value (InternetChecksum_add (pre @ [0, 0] @ post) (InternetChecksum init))"
  shows "InternetChecksum_value
           (InternetChecksum_add (pre @ NetUnparser_u16 [] c @ post) (InternetChecksum init)) = 0"
  unfolding c_def by (rule stored_checksum [OF assms(1,2)])

theorem checksum_verifies_witness:
  "InternetChecksum_value (InternetChecksum_add ([0x45, 0, 0, 20] @ NetUnparser_u16 []
     (InternetChecksum_value (InternetChecksum_add ([0x45, 0, 0, 20] @ [0, 0] @ [7]) (InternetChecksum 6)))
     @ [7]) (InternetChecksum 6)) = 0"
  using checksum_verifies [of "[0x45, 0, 0, 20]" 6 "[7]"] by simp

text \<open>
  A change of any single byte of data that verified is detected: the checksum of the changed
  data is not 0.
\<close>

theorem checksum_detects_byte:
  assumes "InternetChecksum_value (InternetChecksum_add (pre @ [x] @ post) (InternetChecksum init)) = 0"
    and "x \<noteq> y" and "unat init + 65280 * (length pre + 1 + length post) < 2 ^ 32"
  shows "InternetChecksum_value (InternetChecksum_add (pre @ [y] @ post) (InternetChecksum init)) \<noteq> 0"
proof
  assume *: "InternetChecksum_value (InternetChecksum_add (pre @ [y] @ post) (InternetChecksum init)) = 0"
  let ?r = "unat init + byte_sum False pre + byte_sum (\<not> odd (length pre)) post"
  let ?h = "\<lambda>b :: byte. if odd (length pre) then unat b else 256 * unat b"
  have s: "unat (ck_sum (InternetChecksum_add (pre @ [b] @ post) (InternetChecksum init))) = ?r + ?h b" for b
    using sum_exact [of init "pre @ [b] @ post"] assms(3) by (simp add: byte_sum_append)
  have m: "(?r + ?h x) mod 65535 = 0" "(?r + ?h y) mod 65535 = 0"
    using assms(1) * unfolding value_0_iff s by blast+
  have "unat x < 256" "unat y < 256" "unat x \<noteq> unat y"
    using assms(2) by (simp_all add: unat_byte word_unat_eq_iff)
  then show False
    using same_residue [OF m] by (cases "odd (length pre)") auto
qed

theorem checksum_detects_byte_witness:
  "InternetChecksum_value (InternetChecksum_add ([0x12] @ [0x35] @ [0xed, 0xcb]) (InternetChecksum 0)) \<noteq> 0"
proof -
  have "InternetChecksum_value (InternetChecksum_add ([0x12] @ [0x34] @ [0xed, 0xcb]) (InternetChecksum 0)) = 0"
    by (simp add: InternetChecksum_value_def InternetChecksum_add_def InternetChecksum_def
        InternetChecksum_add_byte_def fold_carries.simps Let_def)
  then show ?thesis by (rule checksum_detects_byte) simp_all
qed

end
