(* ===== verification/Wrapping_Integers.thy ===== *)
theory Wrapping_Integers
  imports Prelude
begin

text \<open>
  \<^verbatim>\<open>WrappingInt32\<close> (\<^verbatim>\<open>libsponge/wrapping_integers.hh\<close>, \<^verbatim>\<open>wrapping_integers.cc\<close>): 32-bit sequence
  numbers relative to an initial sequence number, and the two conversions between them and 64-bit
  absolute sequence numbers. \<^verbatim>\<open>unwrap\<close> mixes 32-bit and 64-bit unsigned arithmetic; each operation
  of the code is at its width here.
\<close>

section \<open>Operations\<close>

datatype wrapping_int32 = WrappingInt32 (raw_value: u32)

definition round32 :: nat where
  "round32 = 2 ^ 32"

definition wrap :: "nat \<Rightarrow> wrapping_int32 \<Rightarrow> wrapping_int32" where
  "wrap n isn = WrappingInt32 (word_of_nat ((n mod round32 + unat (raw_value isn)) mod round32))"

definition sub32 :: "nat \<Rightarrow> nat \<Rightarrow> nat" where
  "sub32 a b = (a + (2 ^ 32 - b mod 2 ^ 32)) mod 2 ^ 32"

definition unwrap :: "wrapping_int32 \<Rightarrow> wrapping_int32 \<Rightarrow> nat \<Rightarrow> nat" where
  "unwrap n isn checkpoint =
     (let w = unat (raw_value (wrap checkpoint isn)); m = unat (raw_value n) in
      if w \<le> m then
        (if sub64 (add64 0 m) w < sub64 (add64 round32 w) m
         then sub64 (add64 checkpoint m) w
         else if checkpoint < sub64 (add64 round32 w) m
         then sub64 (add64 checkpoint m) w
         else sub64 checkpoint (sub64 (add64 round32 w) m))
      else
        (if sub64 (add64 0 w) m < sub64 (add64 round32 m) w
         then (if add64 checkpoint round32 < add64 (sub32 w m) round32
               then add64 (sub64 (add64 checkpoint round32) w) m
               else sub64 checkpoint (sub32 w m))
         else sub64 (add64 (add64 checkpoint round32) m) w))"

text \<open>The helper operators of the header.\<close>

definition wi_diff :: "wrapping_int32 \<Rightarrow> wrapping_int32 \<Rightarrow> int" where
  "wi_diff a b = sint (raw_value a - raw_value b)"

definition wi_eq :: "wrapping_int32 \<Rightarrow> wrapping_int32 \<Rightarrow> bool" where
  "wi_eq a b \<longleftrightarrow> raw_value a = raw_value b"

definition wi_neq :: "wrapping_int32 \<Rightarrow> wrapping_int32 \<Rightarrow> bool" where
  "wi_neq a b \<longleftrightarrow> \<not> wi_eq a b"

definition wi_plus :: "wrapping_int32 \<Rightarrow> u32 \<Rightarrow> wrapping_int32" where
  "wi_plus a b = WrappingInt32 (raw_value a + b)"

definition wi_minus :: "wrapping_int32 \<Rightarrow> u32 \<Rightarrow> wrapping_int32" where
  "wi_minus a b = wi_plus a (- b)"

lemma wi_eq_iff [simp]: "wi_eq a b \<longleftrightarrow> a = b"
  by (cases a; cases b) (simp add: wi_eq_def)

lemma wi_neq_iff [simp]: "wi_neq a b \<longleftrightarrow> a \<noteq> b"
  by (simp add: wi_neq_def)

lemma wi_minus_plus [simp]: "wi_minus (wi_plus a b) b = a"
  by (cases a) (simp add: wi_minus_def wi_plus_def)

section \<open>Wrapping\<close>

lemma unat_lt_2p32: "unat (x :: u32) < 4294967296"
  using unsigned_less [of x] by simp

lemma uint_lt_2p32: "uint (x :: u32) < 4294967296"
  using uint_lt2p [of x] by simp

lemma unat_wrap: "unat (raw_value (wrap n isn)) = (n + unat (raw_value isn)) mod round32"
  by (simp add: wrap_def round32_def unat_of_nat mod_simps take_bit_eq_mod)

lemma wrapping_int32_eqI: "unat (raw_value a) = unat (raw_value b) \<Longrightarrow> a = b"
  by (cases a; cases b) (simp add: word_unat_eq_iff)

lemma wrap_eq_iff: "wrap x isn = wrap y isn \<longleftrightarrow> x mod round32 = y mod round32"
proof
  assume "wrap x isn = wrap y isn"
  then have "(x + unat (raw_value isn)) mod round32 = (y + unat (raw_value isn)) mod round32"
    using unat_wrap by metis
  then show "x mod round32 = y mod round32"
    by (simp add: nat_mod_eq_iff)
next
  assume "x mod round32 = y mod round32"
  then show "wrap x isn = wrap y isn" by (simp add: wrap_def)
qed

lemma wrap_Suc: "wrap (n + k) isn = wi_plus (wrap n isn) (word_of_nat k)"
proof (rule wrapping_int32_eqI)
  have "unat (raw_value (wi_plus (wrap n isn) (word_of_nat k))) =
      ((n + unat (raw_value isn)) mod round32 + k mod round32) mod round32"
    by (simp add: wi_plus_def unat_word_ariths unat_wrap unat_of_nat take_bit_eq_mod round32_def)
  also have "\<dots> = (n + k + unat (raw_value isn)) mod round32"
    by (simp only: mod_add_eq add.assoc add.commute [of k])
  finally show "unat (raw_value (wrap (n + k) isn)) =
      unat (raw_value (wi_plus (wrap n isn) (word_of_nat k)))"
    by (simp only: unat_wrap)
qed

lemma wrap_0 [simp]: "wrap 0 isn = isn"
  by (rule wrapping_int32_eqI) (use unat_lt_2p32 [of "raw_value isn"] in \<open>simp add: unat_wrap round32_def\<close>)

section \<open>Unwrapping\<close>

text \<open>
  The result in unbounded integers: the checkpoint moved by the signed distance from its own
  wrapped value to \<open>n\<close>, where a distance of half a round or more goes the other way round, unless
  that would be negative.
\<close>

lemma unwrap_int:
  fixes n isn :: wrapping_int32
  assumes "cp < 2 ^ 64 - 2 ^ 32"
  defines "d \<equiv> int (unat (raw_value n)) - int (unat (raw_value (wrap cp isn)))"
  shows "int (unwrap n isn cp) =
     (if 0 \<le> d
      then (if d < 2 ^ 32 - d \<or> int cp < 2 ^ 32 - d then int cp + d else int cp + d - 2 ^ 32)
      else (if - d < 2 ^ 32 + d \<and> int cp \<ge> - d then int cp + d else int cp + d + 2 ^ 32))"
proof -
  define w where "w = unat (raw_value (wrap cp isn))"
  define m where "m = unat (raw_value n)"
  have b: "w < 4294967296" "m < 4294967296" by (simp_all add: w_def m_def unat_lt_2p32)
  have cp: "cp < 18446744069414584320" using assms(1) by simp
  have d: "d = int m - int w" by (simp add: d_def w_def m_def)
  have e: "add64 0 m = m" "add64 0 w = w" "add64 round32 w = 4294967296 + w"
    "add64 round32 m = 4294967296 + m" "add64 cp m = cp + m"
    "add64 cp round32 = cp + 4294967296"
    using b cp by (simp_all add: no_wrap round32_def)
  have s: "sub64 (4294967296 + w) m = 4294967296 + w - m"
    "sub64 (4294967296 + m) w = 4294967296 + m - w"
    "sub64 (cp + 4294967296) w = cp + 4294967296 - w"
    using b cp by (simp_all add: no_wrap)
  show ?thesis
  proof (cases "w \<le> m")
    case True
    have "sub64 m w = m - w" "sub64 (cp + m) w = cp + m - w"
      "4294967296 + w - m \<le> cp \<Longrightarrow> sub64 cp (4294967296 + w - m) = cp - (4294967296 + w - m)"
      using True b cp by (simp_all add: no_wrap)
    with True b cp show ?thesis
      unfolding unwrap_def Let_def w_def [symmetric] m_def [symmetric] d
      by (auto simp: e s of_nat_diff)
  next
    case False
    then obtain k where k: "w = m + k" "0 < k" by (metis less_imp_add_positive not_le)
    have "sub32 w m = (k + 4294967296) mod 4294967296" using k b by (simp add: sub32_def)
    also have "\<dots> = k" using k b by (simp only: mod_add_self2) simp
    finally have w: "sub32 w m = k" .
    have f: "sub64 w m = k" "add64 k round32 = k + 4294967296"
      "k \<le> cp \<Longrightarrow> sub64 cp k = cp - k"
      "add64 (cp + 4294967296 - w) m = cp + 4294967296 - k"
      using k b cp by (simp_all add: no_wrap round32_def)
    have g: "sub64 (add64 (cp + 4294967296) m) w = cp + 4294967296 - k"
    proof -
      have "int (sub64 (add64 (cp + 4294967296) m) w) = (int cp + 4294967296 - int k) mod 2 ^ 64"
        using k by (simp add: int_sub64 int_add64 mod_diff_left_eq add_diff_eq)
      also have "\<dots> = int (cp + 4294967296 - k)"
        using k b cp by (subst mod_pos_pos_trivial) (auto simp: of_nat_diff)
      finally show ?thesis by simp
    qed
    have "4294967296 + m - w = 4294967296 - k" using k b by simp
    moreover have "d = - int k" using k d by simp
    ultimately show ?thesis using False k(2) b cp
      unfolding unwrap_def Let_def w_def [symmetric] m_def [symmetric]
      by (auto simp: e s w f g of_nat_diff)
  qed
qed

text \<open>What a wrapped position and the checkpoint have to do with each other, in integers.\<close>

lemma wrap_round:
  "\<exists>k. int x + int (unat (raw_value isn)) = k * 2 ^ 32 + int (unat (raw_value (wrap x isn)))"
proof
  show "int x + int (unat (raw_value isn)) =
      ((int x + int (unat (raw_value isn))) div 2 ^ 32) * 2 ^ 32 + int (unat (raw_value (wrap x isn)))"
    by (simp add: unat_wrap round32_def zmod_int div_mult_mod_eq)
qed

text \<open>The choice \<^verbatim>\<open>unwrap\<close> makes is the nearest of all positions of the same residue.\<close>

lemma closest_round:
  fixes w m x cp k :: int
  assumes "0 \<le> w" "w < 2 ^ 32" "0 \<le> m" "m < 2 ^ 32" "0 \<le> x" "0 \<le> cp"
    and "x - cp = k * 2 ^ 32 + (m - w)"
  shows "\<bar>(if 0 \<le> m - w
      then (if m - w < 2 ^ 32 - (m - w) \<or> cp < 2 ^ 32 - (m - w)
            then cp + (m - w) else cp + (m - w) - 2 ^ 32)
      else (if - (m - w) < 2 ^ 32 + (m - w) \<and> cp \<ge> - (m - w)
            then cp + (m - w) else cp + (m - w) + 2 ^ 32)) - cp\<bar> \<le> \<bar>x - cp\<bar>"
proof -
  consider "k \<le> -2" | "k = -1" | "k = 0" | "k = 1" | "k \<ge> 2" by linarith
  then show ?thesis
  proof cases
    case 1
    then have "x - cp \<le> (-2) * 2 ^ 32 + (m - w)" using assms(7) by simp
    then show ?thesis using assms(1-6) by (simp split: if_split)
  next
    case 5
    then have "x - cp \<ge> 2 * 2 ^ 32 + (m - w)" using assms(7) by simp
    then show ?thesis using assms(1-6) by (simp split: if_split)
  qed (use assms in \<open>auto split: if_split\<close>)
qed

lemma round_cases:
  fixes e d j :: int
  assumes "e = j * 2 ^ 32 + d" "\<bar>d\<bar> < 2 ^ 32" "\<bar>e\<bar> < 2 ^ 31"
  shows "j = -1 \<and> d > 2 ^ 31 \<or> j = 0 \<or> j = 1 \<and> d < - (2 ^ 31)"
proof -
  consider "j \<le> -2" | "j = -1" | "j = 0" | "j = 1" | "j \<ge> 2" by linarith
  then show ?thesis by cases (use assms in auto)
qed

text \<open>
  C19: \<^verbatim>\<open>unwrap\<close> returns a position that wraps to \<open>n\<close>, and no other position that wraps to \<open>n\<close> is
  closer to the checkpoint. Stated for checkpoints at least one round below \<open>2 ^ 64\<close>, where the
  additions of the code cannot overflow.
\<close>

theorem unwrap_closest:
  assumes "checkpoint < 2 ^ 64 - 2 ^ 32"
  shows "wrap (unwrap n isn checkpoint) isn = n \<and>
         (\<forall>x. wrap x isn = n \<longrightarrow>
           \<bar>int (unwrap n isn checkpoint) - int checkpoint\<bar> \<le> \<bar>int x - int checkpoint\<bar>)"
proof -
  let ?cp = "int checkpoint" and ?u = "int (unwrap n isn checkpoint)"
  let ?i = "int (unat (raw_value isn))" and ?w = "int (unat (raw_value (wrap checkpoint isn)))"
  define m where "m = int (unat (raw_value n))"
  have b: "0 \<le> ?w" "?w < 2 ^ 32" "0 \<le> m" "m < 2 ^ 32"
    using uint_lt_2p32 [of "raw_value (wrap checkpoint isn)"] uint_lt_2p32 [of "raw_value n"]
    by (simp_all add: m_def)
  obtain k where k: "?cp + ?i = k * 2 ^ 32 + ?w" using wrap_round by blast
  have u: "?u = (if 0 \<le> m - ?w
      then (if m - ?w < 2 ^ 32 - (m - ?w) \<or> ?cp < 2 ^ 32 - (m - ?w)
            then ?cp + (m - ?w) else ?cp + (m - ?w) - 2 ^ 32)
      else (if - (m - ?w) < 2 ^ 32 + (m - ?w) \<and> ?cp \<ge> - (m - ?w)
            then ?cp + (m - ?w) else ?cp + (m - ?w) + 2 ^ 32))"
    using unwrap_int [OF assms, of n isn] by (simp only: m_def)
  have "\<exists>j. ?u = ?cp + m - ?w + j * 2 ^ 32"
  proof -
    have "?u = ?cp + m - ?w + 0 * 2 ^ 32 \<or> ?u = ?cp + m - ?w + (-1) * 2 ^ 32 \<or>
        ?u = ?cp + m - ?w + 1 * 2 ^ 32"
      unfolding u by auto
    then show ?thesis by blast
  qed
  then obtain j where j: "?u = ?cp + m - ?w + j * 2 ^ 32" by blast
  have "?u + ?i = m + (k + j) * 2 ^ 32" unfolding distrib_right using j k by linarith
  then have "(?u + ?i) mod 2 ^ 32 = m mod 2 ^ 32" by (simp only: mod_mult_self1)
  then have "int (unat (raw_value (wrap (unwrap n isn checkpoint) isn))) = m"
    using b by (simp add: unat_wrap round32_def zmod_int)
  then have 1: "wrap (unwrap n isn checkpoint) isn = n"
    by (intro wrapping_int32_eqI) (simp only: m_def of_nat_eq_iff)
  have "\<bar>?u - ?cp\<bar> \<le> \<bar>int x - ?cp\<bar>" if x: "wrap x isn = n" for x
  proof -
    obtain k' where "int x + ?i = k' * 2 ^ 32 + m"
      using wrap_round [of x isn] x by (auto simp: m_def)
    then have "int x - ?cp = (k' - k) * 2 ^ 32 + (m - ?w)" using k by (simp add: algebra_simps)
    then show ?thesis
      unfolding u using closest_round [of ?w m "int x" ?cp "k' - k"] b by (simp only: of_nat_0_le_iff)
  qed
  with 1 show ?thesis by blast
qed

theorem unwrap_closest_witness:
  "wrap (unwrap (WrappingInt32 5) (WrappingInt32 10) (2 ^ 32)) (WrappingInt32 10) = WrappingInt32 5"
  using unwrap_closest [of "2 ^ 32" "WrappingInt32 5" "WrappingInt32 10"] by simp

lemma unwrap_wrap_near:
  assumes "checkpoint < 2 ^ 64 - 2 ^ 32" "\<bar>int x - int checkpoint\<bar> < 2 ^ 31"
  shows "unwrap (wrap x isn) isn checkpoint = x"
proof -
  obtain k where k: "int checkpoint + int (unat (raw_value isn)) =
      k * 2 ^ 32 + int (unat (raw_value (wrap checkpoint isn)))" using wrap_round by blast
  obtain k' where k': "int x + int (unat (raw_value isn)) =
      k' * 2 ^ 32 + int (unat (raw_value (wrap x isn)))" using wrap_round by blast
  define d where "d = int (unat (raw_value (wrap x isn))) - int (unat (raw_value (wrap checkpoint isn)))"
  have e: "int x - int checkpoint = (k' - k) * 2 ^ 32 + d"
    using k k' by (simp add: d_def algebra_simps)
  have d: "\<bar>d\<bar> < 2 ^ 32"
  proof -
    have "\<bar>int a - int b\<bar> < 2 ^ 32" if "a < 4294967296" "b < 4294967296" for a b :: nat
      using that by simp
    then show ?thesis unfolding d_def using unat_lt_2p32 by blast
  qed
  from round_cases [OF e d assms(2)]
  consider "k' - k = -1" "d > 2 ^ 31" | "k' - k = 0" | "k' - k = 1" "d < - (2 ^ 31)" by blast
  then have "int (unwrap (wrap x isn) isn checkpoint) = int x"
    using e assms(2) d unfolding unwrap_int [OF assms(1)] d_def [symmetric]
    by cases (auto split: if_splits)
  then show ?thesis by simp
qed

text \<open>
  Round trip: a position within half a round of the checkpoint is recovered from its wrapped
  value, whatever the initial sequence number.
\<close>

theorem unwrap_wrap:
  assumes "checkpoint < 2 ^ 64 - 2 ^ 32" "\<bar>int x - int checkpoint\<bar> < 2 ^ 31"
  shows "unwrap (wrap x isn) isn checkpoint = x"
  using assms by (rule unwrap_wrap_near)

theorem unwrap_wrap_witness:
  "unwrap (wrap (2 ^ 32 + 7) (WrappingInt32 4294967290)) (WrappingInt32 4294967290) (2 ^ 32 - 1) = 2 ^ 32 + 7"
  using unwrap_wrap [of "2 ^ 32 - 1" "2 ^ 32 + 7" "WrappingInt32 4294967290"] by simp

text \<open>
  stepping and measuring agree: \<open>k\<close> steps past a position are \<open>k\<close> steps past its wrapped
  value, and \<^verbatim>\<open>operator-\<close> gives the signed distance between two positions less than half a round
  apart.
\<close>

theorem wi_diff_wrap:
  assumes "\<bar>int x - int y\<bar> < 2 ^ 31"
  shows "wi_diff (wrap x isn) (wrap y isn) = int x - int y"
proof -
  let ?i = "raw_value isn"
  have w: "raw_value (wrap z isn) = word_of_int (int z) + ?i" for z
    using wrap_Suc [of 0 z isn] by (simp add: wi_plus_def add.commute)
  have "raw_value (wrap x isn) - raw_value (wrap y isn) = (word_of_int (int x - int y) :: u32)"
    by (simp add: w)
  moreover have "sint (word_of_int k :: u32) = k" if "\<bar>k\<bar> < 2 ^ 31" for k
    using that by (simp add: sint_sbintrunc' signed_take_bit_int_eq_self)
  ultimately show ?thesis
    unfolding wi_diff_def using assms by metis
qed

theorem wi_diff_wrap_witness:
  "wi_diff (wrap 3 (WrappingInt32 4294967295)) (wrap 8 (WrappingInt32 4294967295)) = - 5"
  using wi_diff_wrap [of 3 8 "WrappingInt32 4294967295"] by simp

end
