(* ===== verification/TCP_Segment.thy ===== *)
theory TCP_Segment
  imports Internet_Checksum Wrapping_Integers
begin

text \<open>
  TCP headers and segments (\<^verbatim>\<open>tcp_helpers/tcp_header.hh\<close>, \<^verbatim>\<open>.cc\<close>, \<^verbatim>\<open>tcp_helpers/tcp_segment.hh\<close>,
  \<^verbatim>\<open>.cc\<close>).
\<close>

section \<open>Header\<close>

record tcp_header =
  th_sport :: u16
  th_dport :: u16
  th_seqno :: wrapping_int32
  th_ackno :: wrapping_int32
  th_doff :: byte
  th_urg :: bool
  th_ack :: bool
  th_psh :: bool
  th_rst :: bool
  th_syn :: bool
  th_fin :: bool
  th_win :: u16
  th_cksum :: u16
  th_uptr :: u16

definition TCPHeader_LENGTH :: nat where
  "TCPHeader_LENGTH = 20"

definition TCPHeader :: tcp_header where
  "TCPHeader =
     \<lparr>th_sport = 0, th_dport = 0, th_seqno = WrappingInt32 0, th_ackno = WrappingInt32 0, th_doff = 5,
      th_urg = False, th_ack = False, th_psh = False, th_rst = False, th_syn = False, th_fin = False,
      th_win = 0, th_cksum = 0, th_uptr = 0\<rparr>"

text \<open>The end of the parser, after the fields have been read.\<close>

definition TCPHeader_check :: "tcp_header \<Rightarrow> (net_parser, parse_result \<times> tcp_header) state" where
  "TCPHeader_check h =
     (if th_doff h < 5 then State_Monad.return (HeaderTooShort, h)
      else do {
        State_Monad.update (NetParser_remove_prefix (unat (th_doff h) * 4 - TCPHeader_LENGTH));
        p \<leftarrow> State_Monad.get;
        if NetParser_error p then State_Monad.return (NetParser_get_error p, h)
        else State_Monad.return (NoError, h)
      })"

definition TCPHeader_parse :: "(net_parser, parse_result \<times> tcp_header) state" where
  "TCPHeader_parse = do {
     sport \<leftarrow> NetParser_u16;
     dport \<leftarrow> NetParser_u16;
     seqno \<leftarrow> NetParser_u32;
     ackno \<leftarrow> NetParser_u32;
     doff \<leftarrow> NetParser_u8;
     fl_b \<leftarrow> NetParser_u8;
     win \<leftarrow> NetParser_u16;
     cksum \<leftarrow> NetParser_u16;
     uptr \<leftarrow> NetParser_u16;
     TCPHeader_check
       \<lparr>th_sport = sport, th_dport = dport, th_seqno = WrappingInt32 seqno,
        th_ackno = WrappingInt32 ackno, th_doff = drop_bit 4 doff,
        th_urg = (and fl_b 0x20 \<noteq> 0), th_ack = (and fl_b 0x10 \<noteq> 0), th_psh = (and fl_b 0x08 \<noteq> 0),
        th_rst = (and fl_b 0x04 \<noteq> 0), th_syn = (and fl_b 0x02 \<noteq> 0), th_fin = (and fl_b 0x01 \<noteq> 0),
        th_win = win, th_cksum = cksum, th_uptr = uptr\<rparr>
   }"

definition fl_b :: "tcp_header \<Rightarrow> byte" where
  "fl_b h =
     or (or (or (or (or (if th_urg h then 0x20 else 0) (if th_ack h then 0x10 else 0))
        (if th_psh h then 0x08 else 0)) (if th_rst h then 0x04 else 0))
        (if th_syn h then 0x02 else 0)) (if th_fin h then 0x01 else 0)"

definition TCPHeader_serialize :: "tcp_header \<Rightarrow> exn + bytes" where
  "TCPHeader_serialize h =
     (if th_doff h < 5 then Inl (Runtime_error ''TCP header too short'')
      else
        let ret = [];
            ret = NetUnparser_u16 ret (th_sport h);
            ret = NetUnparser_u16 ret (th_dport h);
            ret = NetUnparser_u32 ret (raw_value (th_seqno h));
            ret = NetUnparser_u32 ret (raw_value (th_ackno h));
            ret = NetUnparser_u8 ret (push_bit 4 (th_doff h));
            ret = NetUnparser_u8 ret (fl_b h);
            ret = NetUnparser_u16 ret (th_win h);
            ret = NetUnparser_u16 ret (th_cksum h);
            ret = NetUnparser_u16 ret (th_uptr h)
        in Inr (resize (4 * unat (th_doff h)) ret))"

definition TCPHeader_to_string :: "tcp_header \<Rightarrow> string" where
  "TCPHeader_to_string h =
     ''TCP source port: '' @ hex_string (unat (th_sport h)) @ [CHR 0x0A] @
     ''TCP dest port: '' @ hex_string (unat (th_dport h)) @ [CHR 0x0A] @
     ''TCP seqno: '' @ hex_string (unat (raw_value (th_seqno h))) @ [CHR 0x0A] @
     ''TCP ackno: '' @ hex_string (unat (raw_value (th_ackno h))) @ [CHR 0x0A] @
     ''TCP doff: '' @ hex_string (unat (th_doff h)) @ [CHR 0x0A] @
     ''Flags: urg: '' @ bool_string (th_urg h) @ '' ack: '' @ bool_string (th_ack h) @
     '' psh: '' @ bool_string (th_psh h) @ '' rst: '' @ bool_string (th_rst h) @
     '' syn: '' @ bool_string (th_syn h) @ '' fin: '' @ bool_string (th_fin h) @ [CHR 0x0A] @
     ''TCP winsize: '' @ hex_string (unat (th_win h)) @ [CHR 0x0A] @
     ''TCP cksum: '' @ hex_string (unat (th_cksum h)) @ [CHR 0x0A] @
     ''TCP uptr: '' @ hex_string (unat (th_uptr h)) @ [CHR 0x0A]"

definition TCPHeader_summary :: "tcp_header \<Rightarrow> string" where
  "TCPHeader_summary h =
     ''Header(flags='' @ (if th_syn h then ''S'' else '''') @ (if th_ack h then ''A'' else '''') @
     (if th_rst h then ''R'' else '''') @ (if th_fin h then ''F'' else '''') @
     '',seqno='' @ dec_string (unat (raw_value (th_seqno h))) @
     '',ack='' @ dec_string (unat (raw_value (th_ackno h))) @
     '',win='' @ dec_string (unat (th_win h)) @ '')''"

text \<open>\<^verbatim>\<open>operator==\<close>: the ports and the checksum are not compared.\<close>

definition TCPHeader_eq :: "tcp_header \<Rightarrow> tcp_header \<Rightarrow> bool" where
  "TCPHeader_eq h other \<longleftrightarrow>
     wi_eq (th_seqno h) (th_seqno other) \<and> wi_eq (th_ackno h) (th_ackno other) \<and>
     th_doff h = th_doff other \<and> th_urg h = th_urg other \<and> th_ack h = th_ack other \<and>
     th_psh h = th_psh other \<and> th_rst h = th_rst other \<and> th_syn h = th_syn other \<and>
     th_fin h = th_fin other \<and> th_win h = th_win other \<and> th_uptr h = th_uptr other"

section \<open>Segment\<close>

record tcp_segment =
  seg_header :: tcp_header
  seg_payload :: buffer

definition TCPSegment :: tcp_segment where
  "TCPSegment = \<lparr>seg_header = TCPHeader, seg_payload = Buffer_default\<rparr>"

text \<open>A bad checksum leaves the segment as it was; the header parser's result is dropped.\<close>

definition TCPSegment_parse :: "buffer \<Rightarrow> u32 \<Rightarrow> tcp_segment \<Rightarrow> parse_result \<times> tcp_segment" where
  "TCPSegment_parse buffer datagram_layer_checksum seg =
     (let check = InternetChecksum_add (Buffer_str buffer) (InternetChecksum datagram_layer_checksum)
      in if InternetChecksum_value check \<noteq> 0 then (BadChecksum, seg)
         else
           let ((_, h), p) = run_state TCPHeader_parse (NetParser buffer)
           in (NetParser_get_error p, seg\<lparr>seg_header := h, seg_payload := np_buffer p\<rparr>))"

definition TCPSegment_length_in_sequence_space :: "tcp_segment \<Rightarrow> nat" where
  "TCPSegment_length_in_sequence_space seg =
     length (Buffer_str (seg_payload seg)) + (if th_syn (seg_header seg) then 1 else 0) +
     (if th_fin (seg_header seg) then 1 else 0)"

definition TCPSegment_serialize :: "u32 \<Rightarrow> tcp_segment \<Rightarrow> exn + buffer_list" where
  "TCPSegment_serialize datagram_layer_checksum seg =
     (let header_out = (seg_header seg)\<lparr>th_cksum := 0\<rparr>
      in bindE (TCPHeader_serialize header_out) (\<lambda>header_bytes.
           let check = InternetChecksum datagram_layer_checksum;
               check = InternetChecksum_add header_bytes check;
               check = InternetChecksum_add (Buffer_str (seg_payload seg)) check;
               header_out = header_out\<lparr>th_cksum := InternetChecksum_value check\<rparr>
           in bindE (TCPHeader_serialize header_out) (\<lambda>header_bytes.
                let ret = BufferList_append (BufferList_of_string header_bytes) BufferList_default
                in Inr (BufferList_append (BufferList_of_buffer (seg_payload seg)) ret))))"

section \<open>The parser's view of the bytes\<close>

definition tcp_fields :: "bytes \<Rightarrow> tcp_header" where
  "tcp_fields c =
     \<lparr>th_sport = be_decode (take 2 c), th_dport = be_decode (take 2 (drop 2 c)),
      th_seqno = WrappingInt32 (be_decode (take 4 (drop 4 c))),
      th_ackno = WrappingInt32 (be_decode (take 4 (drop 8 c))),
      th_doff = drop_bit 4 (be_decode (take 1 (drop 12 c))),
      th_urg = (and (be_decode (take 1 (drop 13 c)) :: byte) 0x20 \<noteq> 0),
      th_ack = (and (be_decode (take 1 (drop 13 c)) :: byte) 0x10 \<noteq> 0),
      th_psh = (and (be_decode (take 1 (drop 13 c)) :: byte) 0x08 \<noteq> 0),
      th_rst = (and (be_decode (take 1 (drop 13 c)) :: byte) 0x04 \<noteq> 0),
      th_syn = (and (be_decode (take 1 (drop 13 c)) :: byte) 0x02 \<noteq> 0),
      th_fin = (and (be_decode (take 1 (drop 13 c)) :: byte) 0x01 \<noteq> 0),
      th_win = be_decode (take 2 (drop 14 c)), th_cksum = be_decode (take 2 (drop 16 c)),
      th_uptr = be_decode (take 2 (drop 18 c))\<rparr>"

lemma TCPHeader_parse_fields:
  assumes "np_error p = NoError" "20 \<le> length (np_content p)"
  shows "run_state TCPHeader_parse p = run_state (TCPHeader_check (tcp_fields (np_content p))) (np_skip 20 p)"
  using assms by (simp add: TCPHeader_parse_def tcp_fields_def Let_def del: One_nat_def)

text \<open>How much a parser must still have left not to fail.\<close>

definition np_short :: "nat \<Rightarrow> net_parser \<Rightarrow> bool" where
  "np_short k p \<longleftrightarrow> np_error p \<noteq> NoError \<or> length (np_content p) < k"

lemma np_short_read:
  assumes "np_short k p"
  shows "np_short (k - LENGTH('a) div 8) (snd (run_state (NetParser_parse_int :: (net_parser, 'a::len word) state) p))"
  using assms by (auto simp: np_short_def run_parse_int)

lemmas np_short_reads =
  np_short_read [where 'a = 8, folded NetParser_u8_def, simplified]
  np_short_read [where 'a = 16, folded NetParser_u16_def, simplified]
  np_short_read [where 'a = 32, folded NetParser_u32_def, simplified]

lemma np_short_check: "np_short 0 p \<Longrightarrow> np_short 0 (snd (run_state (TCPHeader_check h) p))"
  by (auto simp: np_short_def TCPHeader_check_def State_Monad.update_def NetParser_remove_prefix_def
      NetParser_check_size_def NetParser_set_error_def NetParser_error_def Let_def)

lemma np_short_bind:
  "np_short j (snd (run_state m p)) \<Longrightarrow>
   (\<And>a p'. np_short j p' \<Longrightarrow> Q (snd (run_state (f a) p'))) \<Longrightarrow>
   Q (snd (run_state (State_Monad.bind m f) p))"
  by (auto split: prod.splits)

lemma TCPHeader_parse_short:
  assumes "np_short 20 p"
  shows "np_error (snd (run_state TCPHeader_parse p)) \<noteq> NoError"
proof -
  have "np_short 0 (snd (run_state TCPHeader_parse p))"
    unfolding TCPHeader_parse_def
    by (rule np_short_bind, rule np_short_reads, rule assms,
        rule np_short_bind, rule np_short_reads, assumption,
        rule np_short_bind, rule np_short_reads, assumption,
        rule np_short_bind, rule np_short_reads, assumption,
        rule np_short_bind, rule np_short_reads, assumption,
        rule np_short_bind, rule np_short_reads, assumption,
        rule np_short_bind, rule np_short_reads, assumption,
        rule np_short_bind, rule np_short_reads, assumption,
        rule np_short_bind, rule np_short_reads, assumption, simp add: np_short_check)
  then show ?thesis by (simp add: np_short_def)
qed

text \<open>The outcome of the segment's parser on any bytes with a valid checksum.\<close>

definition tcp_accepted :: "bytes \<Rightarrow> bool" where
  "tcp_accepted c \<longleftrightarrow> 20 \<le> length c \<and>
     (th_doff (tcp_fields c) < 5 \<or> 4 * unat (th_doff (tcp_fields c)) \<le> length c)"

lemma TCPHeader_parse_run:
  assumes "np_error p = NoError"
  obtains r h p' where "run_state TCPHeader_parse p = ((r, h), p')"
    "np_error p' = NoError \<longleftrightarrow> tcp_accepted (np_content p)"
    "np_error p' = NoError \<Longrightarrow> h = tcp_fields (np_content p) \<and>
       np_content p' = drop (if th_doff h < 5 then 20 else 4 * unat (th_doff h)) (np_content p) \<and>
       (r = NoError \<longleftrightarrow> \<not> th_doff h < 5)"
proof (cases "20 \<le> length (np_content p)")
  case True
  let ?h = "tcp_fields (np_content p)"
  note run = TCPHeader_parse_fields [OF assms True]
  have p1: "np_error (np_skip 20 p) = NoError" "np_content (np_skip 20 p) = drop 20 (np_content p)"
    using assms True by simp_all
  show ?thesis
  proof (cases "th_doff ?h < 5")
    case True
    then show ?thesis using run p1 \<open>20 \<le> length (np_content p)\<close>
      by (intro that [of HeaderTooShort ?h "np_skip 20 p"]) (simp_all add: TCPHeader_check_def tcp_accepted_def)
  next
    case False
    then have five: "20 \<le> 4 * unat (th_doff ?h)" by (simp add: word_less_nat_alt not_less)
    obtain r h p' where r: "run_state TCPHeader_parse p = ((r, h), p')" by (metis surj_pair)
    have p': "p' = NetParser_remove_prefix (unat (th_doff ?h) * 4 - 20) (np_skip 20 p)" "h = ?h"
      "r = np_error p'"
      using r False unfolding run
      by (auto simp: TCPHeader_check_def State_Monad.update_def TCPHeader_LENGTH_def NetParser_error_def
          NetParser_get_error_def split: if_splits)
    have "np_error p' = NoError \<longleftrightarrow> tcp_accepted (np_content p)"
      "np_error p' = NoError \<Longrightarrow> np_content p' = drop (4 * unat (th_doff ?h)) (np_content p)"
      using five True False p1 assms unfolding p'(1)
      by (auto simp: NetParser_remove_prefix_def NetParser_check_size_def NetParser_error_def
          NetParser_set_error_def Buffer_size_def tcp_accepted_def np_content_def [symmetric] Let_def
          mult.commute [of _ 4] split: if_splits)
    with r p' False show ?thesis by (intro that [of r h p']) simp_all
  qed
next
  case False
  then have "np_error (snd (run_state TCPHeader_parse p)) \<noteq> NoError"
    by (intro TCPHeader_parse_short) (simp add: np_short_def)
  then show ?thesis
    using False by (cases "run_state TCPHeader_parse p") (auto intro!: that simp: tcp_accepted_def)
qed

section \<open>The serialised header\<close>

definition tcp_before_cksum :: "tcp_header \<Rightarrow> bytes" where
  "tcp_before_cksum h = be_encode (th_sport h) @ be_encode (th_dport h) @
     be_encode (raw_value (th_seqno h)) @ be_encode (raw_value (th_ackno h)) @
     be_encode (push_bit 4 (th_doff h)) @ be_encode (fl_b h) @ be_encode (th_win h)"

definition tcp_after_cksum :: "tcp_header \<Rightarrow> bytes" where
  "tcp_after_cksum h = be_encode (th_uptr h) @ replicate (4 * unat (th_doff h) - 20) 0"

lemma length_tcp_parts [simp]:
  "length (tcp_before_cksum h) = 16" "length (tcp_after_cksum h) = 2 + (4 * unat (th_doff h) - 20)"
  by (simp_all add: tcp_before_cksum_def tcp_after_cksum_def)

lemma tcp_parts_cksum [simp]:
  "tcp_before_cksum (h\<lparr>th_cksum := c\<rparr>) = tcp_before_cksum h"
  "tcp_after_cksum (h\<lparr>th_cksum := c\<rparr>) = tcp_after_cksum h"
  by (simp_all add: tcp_before_cksum_def tcp_after_cksum_def fl_b_def)

lemma TCPHeader_serialize_eq:
  assumes "5 \<le> unat (th_doff h)"
  shows "TCPHeader_serialize h = Inr (tcp_before_cksum h @ be_encode (th_cksum h) @ tcp_after_cksum h)"
  using assms
  by (simp add: TCPHeader_serialize_def resize_def tcp_before_cksum_def tcp_after_cksum_def
      word_less_nat_alt del: One_nat_def)

lemma flag_bits:
  "and (fl_b h) 0x20 \<noteq> 0 \<longleftrightarrow> th_urg h" "and (fl_b h) 0x10 \<noteq> 0 \<longleftrightarrow> th_ack h"
  "and (fl_b h) 0x08 \<noteq> 0 \<longleftrightarrow> th_psh h" "and (fl_b h) 0x04 \<noteq> 0 \<longleftrightarrow> th_rst h"
  "and (fl_b h) 0x02 \<noteq> 0 \<longleftrightarrow> th_syn h" "and (fl_b h) 0x01 \<noteq> 0 \<longleftrightarrow> th_fin h"
  by (simp_all add: fl_b_def bit.conj_disj_distrib2)

lemma doff_nibble:
  assumes "unat (d :: byte) < 16"
  shows "drop_bit 4 (push_bit 4 d) = d"
  using assms unfolding word_unat_eq_iff unsigned_drop_bit_eq unsigned_push_bit_eq
  by (simp add: drop_bit_eq_div take_bit_eq_mod push_bit_eq_mult)

lemma tcp_fields_serialize:
  assumes "unat (th_doff h) < 16"
  shows "tcp_fields (tcp_before_cksum h @ be_encode (th_cksum h) @ tcp_after_cksum h @ rest) = h"
  using doff_nibble [OF assms] flag_bits [of h]
  by (cases h) (simp add: tcp_fields_def tcp_before_cksum_def tcp_after_cksum_def del: One_nat_def)

lemma TCPSegment_parse_serialize:
  assumes "5 \<le> unat (th_doff (seg_header s))" "unat (th_doff (seg_header s)) < 16"
    and "unat pseudo + 65280 * (4 * unat (th_doff (seg_header s)) + Buffer_size (seg_payload s)) < 2 ^ 32"
  obtains bl ck where "TCPSegment_serialize pseudo s = Inr bl"
    "length (BufferList_concatenate bl) = 4 * unat (th_doff (seg_header s)) + Buffer_size (seg_payload s)"
    "\<And>b s'. Buffer_str b = BufferList_concatenate bl \<Longrightarrow> \<exists>pl. TCPSegment_parse b pseudo s' =
        (NoError, s'\<lparr>seg_header := (seg_header s)\<lparr>th_cksum := ck\<rparr>, seg_payload := pl\<rparr>) \<and>
        Buffer_str pl = Buffer_str (seg_payload s)"
proof -
  let ?h = "seg_header s" and ?pl = "Buffer_str (seg_payload s)"
  define ck where "ck = InternetChecksum_value (InternetChecksum_add
    (tcp_before_cksum ?h @ [0, 0] @ tcp_after_cksum ?h @ ?pl) (InternetChecksum pseudo))"
  let ?h1 = "?h\<lparr>th_cksum := ck\<rparr>" and ?w = "tcp_before_cksum ?h @ be_encode ck @ tcp_after_cksum ?h @ ?pl"
  have zero: "be_encode (0 :: u16) = [0, 0]" by (simp add: be_encode_16)
  obtain bl where bl: "TCPSegment_serialize pseudo s = Inr bl" "BufferList_concatenate bl = ?w"
    using assms(1) by (simp add: TCPSegment_serialize_def TCPHeader_serialize_eq ck_def zero)
  have cks: "InternetChecksum_value (InternetChecksum_add ?w (InternetChecksum pseudo)) = 0"
    using stored_checksum [of "tcp_before_cksum ?h" pseudo "tcp_after_cksum ?h @ ?pl"] assms(1,3)
    by (simp add: ck_def Buffer_size_def)
  have fields: "tcp_fields ?w = ?h1"
    using tcp_fields_serialize [of ?h1 ?pl] assms(2) by simp
  have lw: "length ?w = 4 * unat (th_doff ?h) + length ?pl" using assms(1) by simp
  have acc: "tcp_accepted ?w" "\<not> th_doff ?h < 5"
    using assms(1) fields lw by (simp_all add: tcp_accepted_def word_less_nat_alt)
  show ?thesis
  proof (rule that [OF bl(1)])
    show "length (BufferList_concatenate bl) = 4 * unat (th_doff ?h) + Buffer_size (seg_payload s)"
      using lw bl(2) by (simp add: Buffer_size_def)
    fix b s' assume "Buffer_str b = BufferList_concatenate bl"
    then have b: "Buffer_str b = ?w" using bl(2) by simp
    obtain r h p' where run: "run_state TCPHeader_parse (NetParser b) = ((r, h), p')"
      and e: "np_error p' = NoError \<longleftrightarrow> tcp_accepted (np_content (NetParser b))"
      and ok: "np_error p' = NoError \<Longrightarrow> h = tcp_fields (np_content (NetParser b)) \<and>
         np_content p' = drop (if th_doff h < 5 then 20 else 4 * unat (th_doff h))
           (np_content (NetParser b)) \<and> (r = NoError \<longleftrightarrow> \<not> th_doff h < 5)"
      by (rule TCPHeader_parse_run [of "NetParser b"]) simp_all
    have "np_error p' = NoError" using e acc(1) unfolding np_content_new b by blast
    from ok [OF this] have p': "h = ?h1" "np_content p' = drop (4 * unat (th_doff ?h)) ?w"
      unfolding np_content_new b fields using acc(2) by auto
    then have "TCPSegment_parse b pseudo s' = (NoError, s'\<lparr>seg_header := ?h1, seg_payload := np_buffer p'\<rparr>)"
      unfolding TCPSegment_parse_def b run using \<open>np_error p' = NoError\<close> cks
      by (simp_all add: NetParser_get_error_def)
    moreover have "drop (4 * unat (th_doff ?h)) ?w = ?pl" using assms(1) by simp
    ultimately show "\<exists>pl. TCPSegment_parse b pseudo s' =
        (NoError, s'\<lparr>seg_header := ?h1, seg_payload := pl\<rparr>) \<and> Buffer_str pl = ?pl"
      using p'(2) by (auto simp: np_content_def)
  qed
qed

section \<open>Properties\<close>

text \<open>
  C31: TCP segments round trip: a segment with a data offset of 5 to 15 words is serialised; parsing
  the bytes with the same pseudo-header sum, into whatever segment object, gives \<^verbatim>\<open>NoError\<close>, the same
  payload bytes and the same header but for the checksum. The bound keeps the 32-bit checksum sum
  from overflowing; every segment an IPv4 datagram can carry is below it.
\<close>

theorem TCPSegment_roundtrip:
  assumes "5 \<le> unat (th_doff (seg_header s))" "unat (th_doff (seg_header s)) < 16"
    and "unat pseudo + 65280 * (4 * unat (th_doff (seg_header s)) + Buffer_size (seg_payload s)) < 2 ^ 32"
  shows "\<exists>bl ck. TCPSegment_serialize pseudo s = Inr bl \<and>
     (let (r, s1) = TCPSegment_parse (Buffer (BufferList_concatenate bl)) pseudo s'
      in r = NoError \<and> seg_header s1 = (seg_header s)\<lparr>th_cksum := ck\<rparr> \<and>
         Buffer_str (seg_payload s1) = Buffer_str (seg_payload s))"
proof -
  obtain bl ck where "TCPSegment_serialize pseudo s = Inr bl"
    and "\<And>b s'. Buffer_str b = BufferList_concatenate bl \<Longrightarrow> \<exists>pl. TCPSegment_parse b pseudo s' =
        (NoError, s'\<lparr>seg_header := (seg_header s)\<lparr>th_cksum := ck\<rparr>, seg_payload := pl\<rparr>) \<and>
        Buffer_str pl = Buffer_str (seg_payload s)"
    by (rule TCPSegment_parse_serialize [OF assms]) blast
  from this(1) this(2) [of "Buffer (BufferList_concatenate bl)" s'] show ?thesis by auto
qed

theorem TCPSegment_roundtrip_witness:
  "\<exists>bl. TCPSegment_serialize 99 (TCPSegment\<lparr>seg_payload := Buffer [1, 2, 3]\<rparr>) = Inr bl \<and>
        Buffer_str (seg_payload (snd (TCPSegment_parse (Buffer (BufferList_concatenate bl)) 99 TCPSegment))) = [1, 2, 3]"
proof -
  let ?s = "TCPSegment\<lparr>seg_payload := Buffer [1, 2, 3]\<rparr>"
  have "5 \<le> unat (th_doff (seg_header ?s))" "unat (th_doff (seg_header ?s)) < 16"
    "unat (99 :: u32) + 65280 * (4 * unat (th_doff (seg_header ?s)) + Buffer_size (seg_payload ?s)) < 2 ^ 32"
    by (simp_all add: TCPSegment_def TCPHeader_def Buffer_size_def)
  from TCPSegment_roundtrip [OF this, of TCPSegment]
  obtain bl ck where bl: "TCPSegment_serialize 99 ?s = Inr bl"
    and r: "let (r, s1) = TCPSegment_parse (Buffer (BufferList_concatenate bl)) 99 TCPSegment
      in r = NoError \<and> seg_header s1 = (seg_header ?s)\<lparr>th_cksum := ck\<rparr> \<and>
         Buffer_str (seg_payload s1) = Buffer_str (seg_payload ?s)" by blast
  from r have "Buffer_str (seg_payload (snd (TCPSegment_parse (Buffer (BufferList_concatenate bl)) 99 TCPSegment)))
      = [1, 2, 3]" by (cases "TCPSegment_parse (Buffer (BufferList_concatenate bl)) 99 TCPSegment") simp
  with bl show ?thesis by blast
qed

text \<open>
  When \<^verbatim>\<open>TCPSegment::parse\<close> accepts, exactly. An input whose checksum does not verify is
  \<^verbatim>\<open>BadChecksum\<close> and leaves the segment untouched; one whose checksum verifies is accepted when it
  has at least 20 bytes and its data offset either stays within the input or is below the minimum
  of 5; and on exactly the latter the header's parser has reported an error, which is dropped.
\<close>

theorem TCPSegment_parse_accepts:
  "if InternetChecksum_value (InternetChecksum_add (Buffer_str b) (InternetChecksum pseudo)) \<noteq> 0
   then TCPSegment_parse b pseudo s = (BadChecksum, s)
   else
     (fst (TCPSegment_parse b pseudo s) = NoError \<longleftrightarrow>
        20 \<le> length (Buffer_str b) \<and>
        (th_doff (tcp_fields (Buffer_str b)) < 5 \<or>
         4 * unat (th_doff (tcp_fields (Buffer_str b))) \<le> length (Buffer_str b))) \<and>
     (fst (TCPSegment_parse b pseudo s) = NoError \<and>
        fst (fst (run_state TCPHeader_parse (NetParser b))) \<noteq> NoError \<longleftrightarrow>
        20 \<le> length (Buffer_str b) \<and> th_doff (tcp_fields (Buffer_str b)) < 5)"
proof -
  obtain r h p' where "run_state TCPHeader_parse (NetParser b) = ((r, h), p')"
    and "np_error p' = NoError \<longleftrightarrow> tcp_accepted (Buffer_str b)"
    and "np_error p' = NoError \<Longrightarrow> h = tcp_fields (Buffer_str b) \<and> (r = NoError \<longleftrightarrow> \<not> th_doff h < 5)"
    by (rule TCPHeader_parse_run [of "NetParser b"]) simp_all
  then show ?thesis
    by (auto simp: TCPSegment_parse_def NetParser_get_error_def tcp_accepted_def)
qed

end
