(* ===== verification/TCP_Receiver.thy ===== *)
theory TCP_Receiver
  imports Stream_Reassembler TCP_Segment
begin

text \<open>
  \<^verbatim>\<open>TCPReceiver\<close> (\<^verbatim>\<open>libsponge/tcp_receiver.hh\<close>, \<^verbatim>\<open>tcp_receiver.cc\<close>): turns the sequence numbers of
  inbound segments into stream indices for the reassembler and computes the acknowledgment number
  and the window for the peer. The theorems are about segments of one stream \<open>S\<close> with one initial
  sequence number, arriving in any order.
\<close>

section \<open>State and operations\<close>

record tcp_receiver =
  rc_reassembler :: stream_reassembler
  rc_capacity :: size_t
  rc_ISN :: wrapping_int32
  rc_cp :: nat
  rc_status :: nat

definition LISTEN :: nat where "LISTEN = 0"
definition SYN_RECV :: nat where "SYN_RECV = 1"
definition FIN_RECV :: nat where "FIN_RECV = 2"

definition TCPReceiver :: "size_t \<Rightarrow> tcp_receiver" where
  "TCPReceiver capacity =
     \<lparr>rc_reassembler = StreamReassembler capacity, rc_capacity = capacity,
      rc_ISN = WrappingInt32 0, rc_cp = 0, rc_status = 0\<rparr>"

definition TCPReceiver_segment_received :: "tcp_segment \<Rightarrow> tcp_receiver \<Rightarrow> tcp_receiver" where
  "TCPReceiver_segment_received seg r =
     (let h = seg_header seg;
          r1 = (if th_syn h then r\<lparr>rc_ISN := th_seqno h, rc_status := SYN_RECV\<rparr>
                else r\<lparr>rc_cp := sub64 (unwrap (th_seqno h) (rc_ISN r) (rc_cp r)) 1\<rparr>)
      in if rc_status r1 = LISTEN then r1
         else
           let eof = th_fin h;
               r2 = (if th_fin h then r1\<lparr>rc_status := FIN_RECV\<rparr> else r1);
               str = Buffer_str (seg_payload seg)
           in r2\<lparr>rc_reassembler := push_substring str (rc_cp r2) eof (rc_reassembler r2)\<rparr>)"

definition TCPReceiver_unassembled_bytes :: "tcp_receiver \<Rightarrow> size_t" where
  "TCPReceiver_unassembled_bytes r = unassembled_bytes (rc_reassembler r)"

definition TCPReceiver_ackno :: "tcp_receiver \<Rightarrow> wrapping_int32 option" where
  "TCPReceiver_ackno r =
     (if rc_status r = LISTEN then None
      else
        let unasb = firstUnasb (rc_reassembler r)
        in if unassembled_bytes (rc_reassembler r) = 0
           then Some (wrap (add64 unasb (rc_status r)) (rc_ISN r))
           else Some (wrap (add64 unasb SYN_RECV) (rc_ISN r)))"

definition TCPReceiver_stream_out :: "tcp_receiver \<Rightarrow> byte_stream" where
  "TCPReceiver_stream_out r = sr_output (rc_reassembler r)"

definition TCPReceiver_window_size :: "tcp_receiver \<Rightarrow> size_t" where
  "TCPReceiver_window_size r = sub64 (rc_capacity r) (ByteStream_buffer_size (TCPReceiver_stream_out r))"

text \<open>The owner changes the output stream through the reference: it pops, or sets the error flag.\<close>

definition TCPReceiver_pop :: "nat \<Rightarrow> tcp_receiver \<Rightarrow> tcp_receiver" where
  "TCPReceiver_pop n r = r\<lparr>rc_reassembler := pop_stream_out n (rc_reassembler r)\<rparr>"

definition TCPReceiver_stream_error :: "tcp_receiver \<Rightarrow> tcp_receiver" where
  "TCPReceiver_stream_error r = r\<lparr>rc_reassembler :=
     (rc_reassembler r)\<lparr>sr_output := ByteStream_set_error (sr_output (rc_reassembler r))\<rparr>\<rparr>"

lemma status_codes [simp]: "LISTEN = 0" "SYN_RECV = Suc 0" "FIN_RECV = 2"
  by (simp_all add: LISTEN_def SYN_RECV_def FIN_RECV_def)

section \<open>Segments of a stream\<close>

text \<open>
  \<open>seg_true S isn a seg\<close>: the segment starts at absolute sequence number \<open>a\<close> and carries the bytes
  of \<open>S\<close> at that place. Number 0 is the SYN's, so the byte with index \<open>i\<close> has number \<open>i + 1\<close>.
\<close>

definition seg_size :: "tcp_segment \<Rightarrow> nat" where
  "seg_size seg = length (Buffer_str (seg_payload seg))"

definition seg_true :: "(nat \<Rightarrow> byte) \<Rightarrow> wrapping_int32 \<Rightarrow> nat \<Rightarrow> tcp_segment \<Rightarrow> bool" where
  "seg_true S isn a seg \<longleftrightarrow> th_seqno (seg_header seg) = wrap a isn \<and>
     (if th_syn (seg_header seg) then a = 0 \<and> Buffer_str (seg_payload seg) = []
      else 1 \<le> a \<and> Buffer_str (seg_payload seg) = cut S (a - 1) (a - 1 + seg_size seg))"

definition seg_positions :: "nat \<Rightarrow> tcp_segment \<Rightarrow> nat set" where
  "seg_positions a seg = {a - 1..<a - 1 + seg_size seg}"

text \<open>
  A receiver past the SYN: its reassembler holds excerpts of \<open>S\<close>, and the checkpoint for unwrapping
  is below 2 GiB, as is the window (the reassembler's comparator needs that).
\<close>

definition rc_inv :: "(nat \<Rightarrow> byte) \<Rightarrow> wrapping_int32 \<Rightarrow> tcp_receiver \<Rightarrow> bool" where
  "rc_inv S isn r \<longleftrightarrow> rc_status r \<in> {1, 2} \<and> rc_ISN r = isn \<and> rc_cp r < 2 ^ 31 \<and>
     sr_inv S (rc_reassembler r) \<and> window_end (rc_reassembler r) < 2 ^ 31 \<and>
     sr_capacity (rc_reassembler r) = rc_capacity r"

text \<open>What one segment does to a receiver past the SYN.\<close>

lemma segment_received_data:
  assumes "rc_inv S isn r" "seg_true S isn a seg" "\<not> th_syn (seg_header seg)" "a < 2 ^ 31"
  shows "TCPReceiver_segment_received seg r =
     r\<lparr>rc_cp := a - 1, rc_status := (if th_fin (seg_header seg) then 2 else rc_status r),
       rc_reassembler := push_substring (Buffer_str (seg_payload seg)) (a - 1)
         (th_fin (seg_header seg)) (rc_reassembler r)\<rparr>"
proof -
  have a: "1 \<le> a" "th_seqno (seg_header seg) = wrap a (rc_ISN r)"
    using assms by (auto simp: seg_true_def rc_inv_def)
  have "unwrap (wrap a (rc_ISN r)) (rc_ISN r) (rc_cp r) = a"
    by (rule unwrap_wrap_near) (use assms(1,4) in \<open>auto simp: rc_inv_def\<close>)
  moreover have "sub64 a 1 = a - 1" using a(1) assms(4) by (simp add: no_wrap)
  ultimately show ?thesis
    using assms(1,3) a(2) by (auto simp: TCPReceiver_segment_received_def rc_inv_def Let_def)
qed

lemma segment_received_syn:
  assumes "seg_true S isn a seg" "th_syn (seg_header seg)"
  shows "TCPReceiver_segment_received seg r =
     r\<lparr>rc_ISN := isn, rc_status := (if th_fin (seg_header seg) then 2 else 1),
       rc_reassembler := push_substring [] (rc_cp r) (th_fin (seg_header seg)) (rc_reassembler r)\<rparr>"
  using assms by (auto simp: TCPReceiver_segment_received_def seg_true_def Let_def)

lemma sr_inv_push_true:
  assumes "rc_inv S isn r" "d = cut S i (i + length d)" "i + length d < 2 ^ 64"
  shows "sr_inv S (push_substring d i e (rc_reassembler r)) \<and>
         window_end (push_substring d i e (rc_reassembler r)) = window_end (rc_reassembler r) \<and>
         sr_capacity (push_substring d i e (rc_reassembler r)) = rc_capacity r \<and>
         bs_totRead (sr_output (push_substring d i e (rc_reassembler r))) =
           bs_totRead (sr_output (rc_reassembler r)) \<and>
         bs_error (sr_output (push_substring d i e (rc_reassembler r))) =
           bs_error (sr_output (rc_reassembler r)) \<and>
         known (push_substring d i e (rc_reassembler r)) =
           known (rc_reassembler r) \<union> ({i..<i + length d} \<inter> {..<window_end (rc_reassembler r)})"
proof -
  have inv: "sr_inv S (rc_reassembler r)" "window_end (rc_reassembler r) < 2 ^ 31"
    "sr_capacity (rc_reassembler r) = rc_capacity r"
    using assms(1) by (simp_all add: rc_inv_def)
  show ?thesis
    using push_substring_inv [OF inv(1,2) assms(3,2), of e] sr.push_window [OF inv(1,2) assms(3,2), of e]
      inv(3) by simp
qed

lemma rc_inv_step:
  fixes r :: tcp_receiver
  assumes "rc_inv S isn r" "seg_true S isn a seg" "a + seg_size seg < 2 ^ 31"
  defines "r' \<equiv> TCPReceiver_segment_received seg r"
  shows "rc_inv S isn r' \<and> rc_capacity r' = rc_capacity r \<and>
         window_end (rc_reassembler r') = window_end (rc_reassembler r) \<and>
         bs_totRead (TCPReceiver_stream_out r') = bs_totRead (TCPReceiver_stream_out r) \<and>
         bs_error (TCPReceiver_stream_out r') = bs_error (TCPReceiver_stream_out r) \<and>
         known (rc_reassembler r') =
           known (rc_reassembler r) \<union> (seg_positions a seg \<inter> {..<window_end (rc_reassembler r)})"
proof (cases "th_syn (seg_header seg)")
  case True
  have z: "seg_positions a seg = {}" "(0::nat) = a"
    using assms(2) True by (auto simp: seg_true_def seg_positions_def seg_size_def)
  have "rc_cp r + length ([] :: bytes) < 2 ^ 64" using assms(1) by (simp add: rc_inv_def)
  from sr_inv_push_true [OF assms(1) _ this, of "th_fin (seg_header seg)"] assms(1)
  show ?thesis
    unfolding r'_def segment_received_syn [OF assms(2) True] TCPReceiver_stream_out_def
    by (simp add: rc_inv_def z)
next
  case False
  have a: "1 \<le> a" "Buffer_str (seg_payload seg) = cut S (a - 1) (a - 1 + seg_size seg)"
    using assms(2) False by (auto simp: seg_true_def)
  have l: "length (Buffer_str (seg_payload seg)) = seg_size seg" by (simp add: seg_size_def)
  have "a - 1 + length (Buffer_str (seg_payload seg)) < 2 ^ 64" using assms(3) l by simp
  from sr_inv_push_true [OF assms(1) _ this, of "th_fin (seg_header seg)"] a(2) assms(1,3) l
  show ?thesis
    unfolding r'_def segment_received_data [OF assms(1,2) False, OF add_lessD1 [OF assms(3)]]
      TCPReceiver_stream_out_def
    by (auto simp: rc_inv_def seg_positions_def)
qed

text \<open>The first SYN brings a new receiver under the invariant.\<close>

lemma rc_inv_first_syn:
  assumes "capacity < 2 ^ 31" "seg_true S isn 0 seg" "th_syn (seg_header seg)"
  defines "r \<equiv> TCPReceiver_segment_received seg (TCPReceiver capacity)"
  shows "rc_inv S isn r \<and> known (rc_reassembler r) = {} \<and> window_end (rc_reassembler r) = capacity \<and>
         bs_totRead (TCPReceiver_stream_out r) = 0 \<and> rc_capacity r = capacity \<and>
         \<not> bs_error (TCPReceiver_stream_out r)"
proof -
  let ?r = "(TCPReceiver capacity)\<lparr>rc_ISN := isn, rc_status := 1\<rparr>"
  have inv: "rc_inv S isn ?r" "known (rc_reassembler ?r) = {}" "window_end (rc_reassembler ?r) = capacity"
    "bs_totRead (sr_output (rc_reassembler ?r)) = 0" "\<not> bs_error (sr_output (rc_reassembler ?r))"
    using assms(1) sr_inv_new [of capacity S]
    by (simp_all add: rc_inv_def TCPReceiver_def window_end_def StreamReassembler_def ByteStream_def known_def)
  have "r = TCPReceiver_segment_received seg ?r"
    unfolding r_def segment_received_syn [OF assms(2,3)] by simp
  moreover have "0 + seg_size seg < 2 ^ 31" using assms(2,3) by (simp add: seg_true_def seg_size_def)
  ultimately show ?thesis
    using rc_inv_step [OF inv(1) assms(2)] inv assms(2,3)
    by (simp add: seg_positions_def seg_true_def seg_size_def TCPReceiver_stream_out_def)
      (simp add: TCPReceiver_def)
qed

lemma rc_inv_run:
  assumes "rc_inv S isn r" "\<forall>(a, seg) \<in> set ps. seg_true S isn a seg \<and> a + seg_size seg < 2 ^ 31"
  defines "r' \<equiv> foldl (\<lambda>r (a, seg). TCPReceiver_segment_received seg r) r ps"
  shows "rc_inv S isn r' \<and> window_end (rc_reassembler r') = window_end (rc_reassembler r) \<and>
         bs_totRead (TCPReceiver_stream_out r') = bs_totRead (TCPReceiver_stream_out r) \<and>
         known (rc_reassembler r') = known (rc_reassembler r) \<union>
           ((\<Union>(a, seg) \<in> set ps. seg_positions a seg) \<inter> {..<window_end (rc_reassembler r)})"
  using assms(1,2) unfolding r'_def
proof (induction ps arbitrary: r)
  case (Cons p ps)
  obtain a seg where p: "p = (a, seg)" by (cases p)
  from Cons.prems p have "seg_true S isn a seg" "a + seg_size seg < 2 ^ 31" by auto
  note step = rc_inv_step [OF Cons.prems(1) this]
  from Cons.IH [OF conjunct1 [OF step]] step Cons.prems(2) p show ?case by auto
qed simp

text \<open>What the invariant says of the reader's side.\<close>

lemma rc_inv_output:
  assumes "rc_inv S isn r"
  shows "bs_buf (TCPReceiver_stream_out r) =
     cut S (bs_totRead (TCPReceiver_stream_out r)) (firstUnasb (rc_reassembler r))"
    "firstUnasb (rc_reassembler r) = (LEAST n. n \<notin> known (rc_reassembler r))"
    "firstUnasb (rc_reassembler r) < 2 ^ 31"
    "firstUnasb (rc_reassembler r) + TCPReceiver_window_size r = window_end (rc_reassembler r)"
proof -
  have inv: "sr_inv S (rc_reassembler r)" "window_end (rc_reassembler r) < 2 ^ 31"
    using assms by (simp_all add: rc_inv_def)
  show "bs_buf (TCPReceiver_stream_out r) =
     cut S (bs_totRead (TCPReceiver_stream_out r)) (firstUnasb (rc_reassembler r))"
    using inv(1) by (simp add: sr_inv_def TCPReceiver_stream_out_def firstUnasb_def)
  show "firstUnasb (rc_reassembler r) = (LEAST n. n \<notin> known (rc_reassembler r))"
    using inv(1) by (rule sr.first_least)
  show "firstUnasb (rc_reassembler r) < 2 ^ 31"
    using sr_inv_rem [OF inv(1)] inv(2) by (simp add: firstUnasb_def)
  have "bs_inv (sr_output (rc_reassembler r))" "bs_cap (sr_output (rc_reassembler r)) = rc_capacity r"
    using assms by (simp_all add: rc_inv_def sr_inv_def)
  then have "TCPReceiver_window_size r = bs_rem (sr_output (rc_reassembler r))"
    by (auto simp: TCPReceiver_window_size_def TCPReceiver_stream_out_def buffer_size_length bs_inv_def no_wrap)
  then show "firstUnasb (rc_reassembler r) + TCPReceiver_window_size r = window_end (rc_reassembler r)"
    using sr_inv_rem [OF inv(1)] by (simp add: firstUnasb_def)
qed

section \<open>Properties\<close>

text \<open>
  C4: a new receiver that gets the SYN and then any segments of the same stream, in any order, with
  repetitions (SYNs among them), losses and overlaps, has assembled exactly the stream up to the
  first byte missing from the window, and its window reaches from there to the end of its capacity.
  For streams and windows below 2 GiB.
\<close>

theorem TCPReceiver_reassembles:
  assumes "capacity < 2 ^ 31" "seg_true S isn 0 syn" "th_syn (seg_header syn)"
    and "\<forall>(a, seg) \<in> set ps. seg_true S isn a seg \<and> a + seg_size seg < 2 ^ 31"
  defines "r \<equiv> foldl (\<lambda>r (a, seg). TCPReceiver_segment_received seg r)
                (TCPReceiver_segment_received syn (TCPReceiver capacity)) ps"
    and "missing \<equiv> LEAST n. n \<notin> (\<Union>(a, seg) \<in> set ps. seg_positions a seg) \<inter> {..<capacity}"
  shows "bs_buf (TCPReceiver_stream_out r) = cut S 0 missing \<and>
         missing + TCPReceiver_window_size r = capacity"
proof -
  note first = rc_inv_first_syn [OF assms(1-3)]
  note run = rc_inv_run [OF conjunct1 [OF first] assms(4), folded r_def]
  show ?thesis
    using first run rc_inv_output [OF conjunct1 [OF run]] by (simp add: missing_def)
qed

text \<open>Segments for the witnesses: a SYN and a data segment.\<close>

definition syn_segment :: "wrapping_int32 \<Rightarrow> tcp_segment" where
  "syn_segment isn = \<lparr>seg_header = TCPHeader\<lparr>th_seqno := isn, th_syn := True\<rparr>, seg_payload = Buffer []\<rparr>"

definition data_segment :: "wrapping_int32 \<Rightarrow> bytes \<Rightarrow> bool \<Rightarrow> tcp_segment" where
  "data_segment seqno d fin =
     \<lparr>seg_header = TCPHeader\<lparr>th_seqno := seqno, th_fin := fin\<rparr>, seg_payload = Buffer d\<rparr>"

lemma seg_true_syn [simp]: "seg_true S isn 0 (syn_segment isn)" "th_syn (seg_header (syn_segment isn))"
  by (simp_all add: seg_true_def syn_segment_def)

lemma data_segment_simps [simp]:
  "Buffer_str (seg_payload (data_segment q d f)) = d" "th_fin (seg_header (data_segment q d f)) = f"
  "\<not> th_syn (seg_header (data_segment q d f))" "seg_size (data_segment q d f) = length d"
  "th_seqno (seg_header (data_segment q d f)) = q"
  by (simp_all add: data_segment_def seg_size_def TCPHeader_def)

lemma seg_true_data:
  "1 \<le> a \<Longrightarrow> d = cut S (a - 1) (a - 1 + length d) \<Longrightarrow> seg_true S isn a (data_segment (wrap a isn) d f)"
  by (simp add: seg_true_def)

theorem TCPReceiver_reassembles_witness:
  "let isn = WrappingInt32 4294967294;
       r = foldl (\<lambda>r (a, seg). TCPReceiver_segment_received seg r)
             (TCPReceiver_segment_received (syn_segment isn) (TCPReceiver 4))
             [(3, data_segment (wrap 3 isn) [2, 3] True), (1, data_segment (wrap 1 isn) [0, 1] False)]
   in bs_buf (TCPReceiver_stream_out r) = [0, 1, 2, 3] \<and> TCPReceiver_window_size r = 0"
proof -
  let ?isn = "WrappingInt32 4294967294" and ?S = "\<lambda>n. word_of_nat n :: byte"
  let ?ps = "[(3, data_segment (wrap 3 ?isn) [2, 3] True), (1, data_segment (wrap 1 ?isn) [0, 1] False)]"
  have t: "seg_true ?S ?isn 3 (data_segment (wrap 3 ?isn) [2, 3] True)"
    "seg_true ?S ?isn 1 (data_segment (wrap 1 ?isn) [0, 1] False)"
    by (rule seg_true_data; simp add: cut_def upt_rec numeral_nat)+
  then have ps: "\<forall>(a, seg) \<in> set ?ps. seg_true ?S ?isn a seg \<and> a + seg_size seg < 2 ^ 31" by simp
  have "(\<Union>(a, seg) \<in> set ?ps. seg_positions a seg) \<inter> {..<4} = {..<4}"
    by (auto simp: seg_positions_def)
  moreover have "(LEAST n. n \<notin> {..<4::nat}) = 4" by (rule Least_equality) auto
  ultimately have m: "(LEAST n. n \<notin> (\<Union>(a, seg) \<in> set ?ps. seg_positions a seg) \<inter> {..<4}) = 4"
    by simp
  have "cut ?S 0 4 = [0, 1, 2, 3]" by (simp add: cut_def upt_rec)
  then show ?thesis
    using TCPReceiver_reassembles [OF _ seg_true_syn(1) seg_true_syn(2) ps, of 4] unfolding m
    by (simp add: Let_def)
qed

text \<open>
  C30: the acknowledgment number names the first missing byte: it is empty before the SYN, the
  sequence number after the SYN and the assembled prefix as long as no FIN has come, and one more
  once a FIN has come and nothing is stored out of order.
\<close>

theorem TCPReceiver_ackno_spec:
  assumes "rc_inv S isn r"
  shows "TCPReceiver_ackno (TCPReceiver capacity) = None \<and>
    TCPReceiver_ackno r = Some (wrap ((LEAST n. n \<notin> known (rc_reassembler r)) + 1 +
      (if rc_status r = FIN_RECV \<and> card (known (rc_reassembler r) - {..<(LEAST n. n \<notin> known (rc_reassembler r))}) = 0
       then 1 else 0)) isn)"
proof -
  have inv: "sr_inv S (rc_reassembler r)" "rc_status r = 1 \<or> rc_status r = 2" "rc_ISN r = isn"
    using assms by (auto simp: rc_inv_def)
  have u: "sr_unasb (rc_reassembler r) = (LEAST n. n \<notin> known (rc_reassembler r))"
    using inv(1) by (rule sr_inv_unasb_least)
  let ?u = "sr_unasb (rc_reassembler r)"
  have "?u < 2 ^ 31" using rc_inv_output(3) [OF assms] by (simp add: firstUnasb_def)
  then have "add64 ?u 1 = ?u + 1" "add64 ?u 2 = ?u + 2" by (simp_all add: no_wrap)
  then show ?thesis
    using inv(2,3) sr_inv_unassembled [OF inv(1)]
    by (auto simp: TCPReceiver_ackno_def TCPReceiver_def firstUnasb_def Let_def simp flip: u)
qed

theorem TCPReceiver_ackno_spec_witness:
  "TCPReceiver_ackno (TCPReceiver_segment_received (syn_segment (WrappingInt32 7)) (TCPReceiver 10)) =
     Some (WrappingInt32 8)"
proof -
  let ?r = "TCPReceiver_segment_received (syn_segment (WrappingInt32 7)) (TCPReceiver 10)"
  have first: "rc_inv S (WrappingInt32 7) ?r" "known (rc_reassembler ?r) = {}" for S
    using rc_inv_first_syn [of 10 S "WrappingInt32 7" "syn_segment (WrappingInt32 7)"] by simp_all
  have "rc_status ?r = 1"
    by (simp add: segment_received_syn [OF seg_true_syn]) (simp add: syn_segment_def TCPHeader_def)
  moreover have "wrap 1 (WrappingInt32 7) = WrappingInt32 8"
    by (simp add: wrap_def round32_def)
  ultimately show ?thesis
    using TCPReceiver_ackno_spec [OF first(1)] unfolding first(2) by simp
qed

section \<open>Where the receiver goes wrong\<close>

text \<open>
  a FIN without payload that overtakes the data acknowledges a byte that never came: after the
  SYN and an empty FIN segment for a stream of \<open>n\<close> bytes nothing is assembled, yet the
  acknowledgment number is past the first byte, because the receiver adds its status code as soon
  as nothing is stored out of order.
\<close>

theorem TCPReceiver_early_fin_acks_missing_byte:
  fixes isn :: wrapping_int32
  assumes "1 \<le> n" "n < 2 ^ 31 - 1" "capacity < 2 ^ 31"
  defines "r \<equiv> TCPReceiver_segment_received (data_segment (wrap (n + 1) isn) [] True)
                 (TCPReceiver_segment_received (syn_segment isn) (TCPReceiver capacity))"
  shows "firstUnasb (rc_reassembler r) = 0 \<and> bs_buf (TCPReceiver_stream_out r) = [] \<and>
         TCPReceiver_ackno r = Some (wrap 2 isn)"
proof -
  let ?S = "\<lambda>_. 0 :: byte"
  let ?r1 = "TCPReceiver_segment_received (syn_segment isn) (TCPReceiver capacity)"
  note first = rc_inv_first_syn [OF assms(3) seg_true_syn, of ?S isn]
  have t: "seg_true ?S isn (n + 1) (data_segment (wrap (n + 1) isn) [] True)"
    by (rule seg_true_data) simp_all
  note r = segment_received_data [OF conjunct1 [OF first] t, folded r_def, simplified]
  note step = rc_inv_step [OF conjunct1 [OF first] t, folded r_def]
  have "known (rc_reassembler r) = {}"
    using step first assms(2) by (simp add: seg_positions_def)
  then have u: "sr_unasb (rc_reassembler r) = 0" "unassembled_bytes (rc_reassembler r) = 0"
    using step assms(2) sr_inv_unassembled [of ?S "rc_reassembler r"]
    by (simp_all add: rc_inv_def known_def lessThan_empty_iff)
  moreover have "rc_status r = 2" "rc_ISN r = isn"
    using r assms(2) step by (simp_all add: rc_inv_def)
  moreover have "bs_buf (TCPReceiver_stream_out r) = []"
    using rc_inv_output(1) [OF conjunct1 [OF step]] first step u(1) assms(2)
    by (simp add: firstUnasb_def)
  moreover have "add64 0 2 = 2" by (simp add: add64_def)
  ultimately show ?thesis
    by (simp only: TCPReceiver_ackno_def firstUnasb_def Let_def) simp
qed

theorem TCPReceiver_early_fin_acks_missing_byte_witness:
  "TCPReceiver_ackno (TCPReceiver_segment_received (data_segment (wrap 11 (WrappingInt32 0)) [] True)
     (TCPReceiver_segment_received (syn_segment (WrappingInt32 0)) (TCPReceiver 100))) =
   Some (wrap 2 (WrappingInt32 0))"
  using TCPReceiver_early_fin_acks_missing_byte [of 10 100 "WrappingInt32 0"] by simp

text \<open>
  A segment that is not a SYN moves the checkpoint even while the receiver is still listening, where
  \<^verbatim>\<open>ISN\<close> is 0. Checkpoints in this range unwrap every later number one round too high.
\<close>

definition wedged :: "nat \<Rightarrow> tcp_receiver \<Rightarrow> bool" where
  "wedged M r \<longleftrightarrow> M \<le> 2 ^ 31 - 2 \<and> 2 ^ 31 + M \<le> rc_cp r \<and> rc_cp r < 2 ^ 32 + 2 ^ 31 - 2 \<and>
     window_end (rc_reassembler r) < 2 ^ 31 \<and> firstUnasb (rc_reassembler r) = 0 \<and>
     bs_buf (TCPReceiver_stream_out r) = []"

lemma push_beyond:
  assumes "window_end s \<le> index" "index + length data < 2 ^ 64"
  shows "push_substring data index eof s =
     check_eof (s\<lparr>sr_unread := bs_totRead (sr_output s),
       sr_eof2 := (if eof then add64 index (length data) else sr_eof2 s)\<rparr>)"
proof -
  have "add64 (bs_totRead (sr_output s)) (sr_capacity s) = window_end s"
    using assms by (simp add: no_wrap window_end_def)
  then show ?thesis using assms by (simp add: push_substring_eq Let_def)
qed

lemma wedged_push:
  "wedged M r \<Longrightarrow> 2 ^ 31 \<le> i \<Longrightarrow> i + length d < 2 ^ 64 \<Longrightarrow>
   2 ^ 31 + M \<le> c \<Longrightarrow> c < 2 ^ 32 + 2 ^ 31 - 2 \<Longrightarrow>
   wedged M (r\<lparr>rc_ISN := isn, rc_cp := c, rc_status := st, rc_reassembler := push_substring d i e (rc_reassembler r)\<rparr>)"
  by (auto simp: wedged_def push_beyond TCPReceiver_stream_out_def firstUnasb_def window_end_def)

lemma wedged_first_syn:
  assumes "wedged M r" "seg_true S isn a seg" "th_syn (seg_header seg)"
  shows "wedged M (TCPReceiver_segment_received seg r) \<and> rc_status (TCPReceiver_segment_received seg r) \<in> {1, 2} \<and>
    rc_ISN (TCPReceiver_segment_received seg r) = isn"
proof -
  have "wedged M (r\<lparr>rc_ISN := isn, rc_cp := rc_cp r, rc_status := (if th_fin (seg_header seg) then 2 else 1),
      rc_reassembler := push_substring [] (rc_cp r) (th_fin (seg_header seg)) (rc_reassembler r)\<rparr>)"
    by (rule wedged_push [OF assms(1)]) (use assms(1) in \<open>auto simp: wedged_def\<close>)
  then show ?thesis unfolding segment_received_syn [OF assms(2,3)] by simp
qed

lemma wedged_step:
  assumes "wedged M r" "seg_true S isn a seg" "a + seg_size seg < M"
    "rc_status r \<in> {1, 2}" "rc_ISN r = isn"
  defines "r' \<equiv> TCPReceiver_segment_received seg r"
  shows "wedged M r' \<and> rc_status r' \<in> {1, 2} \<and> rc_ISN r' = isn"
proof (cases "th_syn (seg_header seg)")
  case True
  then show ?thesis unfolding r'_def by (rule wedged_first_syn [OF assms(1,2)])
next
  case False
  have a: "1 \<le> a" "th_seqno (seg_header seg) = wrap (a + 2 ^ 32) isn"
    using assms(2) False by (auto simp: seg_true_def wrap_eq_iff round32_def)
  have "unwrap (wrap (a + 2 ^ 32) isn) isn (rc_cp r) = a + 2 ^ 32"
    by (rule unwrap_wrap_near) (use assms(1,3) in \<open>auto simp: wedged_def\<close>)
  moreover have "sub64 (a + 2 ^ 32) 1 = a - 1 + 2 ^ 32" using a(1) assms(1,3) by (simp add: wedged_def no_wrap)
  ultimately have r': "r' = r\<lparr>rc_ISN := isn, rc_cp := a - 1 + 2 ^ 32,
      rc_status := (if th_fin (seg_header seg) then 2 else rc_status r),
      rc_reassembler := push_substring (Buffer_str (seg_payload seg)) (a - 1 + 2 ^ 32)
         (th_fin (seg_header seg)) (rc_reassembler r)\<rparr>"
    using assms(4,5) False a(2) by (auto simp: r'_def TCPReceiver_segment_received_def Let_def)
  have "wedged M r'" unfolding r'
    by (rule wedged_push [OF assms(1)]) (use assms(1,3) a(1) in \<open>auto simp: wedged_def seg_size_def\<close>)
  with r' assms(4) show ?thesis by simp
qed

lemma stray_wedges:
  assumes "capacity < 2 ^ 31" "M \<le> 2 ^ 31 - 2" "th_seqno (seg_header seg) = WrappingInt32 w" "2 ^ 31 + M < unat w"
    and "\<not> th_syn (seg_header seg)"
  shows "wedged M (TCPReceiver_segment_received seg (TCPReceiver capacity))"
proof -
  have w: "unat w < 2 ^ 32" using unsigned_less [of w] by simp
  then have eq: "18446744078004518912 - unat w = (4294967296 - unat w) + 18446744073709551616" by simp
  have "(18446744078004518912 - unat w) mod 18446744073709551616 = 4294967296 - unat w"
    unfolding eq using w by (simp only: mod_add_self2) (rule mod_less, simp)
  then have "unwrap (WrappingInt32 w) (WrappingInt32 0) 0 = unat w"
    using w by (simp add: unwrap_def wrap_def round32_def add64_def sub64_def Let_def)
  then have "TCPReceiver_segment_received seg (TCPReceiver capacity) = (TCPReceiver capacity)\<lparr>rc_cp := unat w - 1\<rparr>"
    using assms(3-5) w by (simp add: TCPReceiver_segment_received_def TCPReceiver_def no_wrap Let_def)
  then show ?thesis
    using assms(1,2,4) w by (simp add: wedged_def TCPReceiver_def window_end_def StreamReassembler_def
        ByteStream_def firstUnasb_def TCPReceiver_stream_out_def) linarith
qed

text \<open>
  One stray segment before the SYN wedges the receiver for good: after a non-SYN segment with a
  sequence number in the upper half of the numbers, the SYN of any connection and any correct segments of
  the beginning of its stream, whatever their number and order, no byte has been assembled.
\<close>

theorem TCPReceiver_stray_segment_wedges:
  fixes d :: bytes
  assumes "capacity < 2 ^ 31" "M \<le> 2 ^ 31 - 2" "2 ^ 31 + M < unat w"
    and "\<forall>(a, seg) \<in> set ps. seg_true S isn a seg \<and> a + seg_size seg < M"
  defines "r \<equiv> foldl (\<lambda>r (a, seg). TCPReceiver_segment_received seg r)
     (TCPReceiver_segment_received (syn_segment isn)
       (TCPReceiver_segment_received (data_segment (WrappingInt32 w) d False) (TCPReceiver capacity))) ps"
  shows "bs_buf (TCPReceiver_stream_out r) = [] \<and> firstUnasb (rc_reassembler r) = 0"
proof -
  let ?r0 = "TCPReceiver_segment_received (data_segment (WrappingInt32 w) d False) (TCPReceiver capacity)"
  let ?r1 = "TCPReceiver_segment_received (syn_segment isn) ?r0"
  have w0: "wedged M ?r0" by (rule stray_wedges) (use assms in simp_all)
  have w1: "wedged M ?r1 \<and> rc_status ?r1 \<in> {1, 2} \<and> rc_ISN ?r1 = isn"
    by (rule wedged_first_syn [OF w0 seg_true_syn])
  have "wedged M (foldl (\<lambda>r (a, seg). TCPReceiver_segment_received seg r) q ps)"
    if "wedged M q \<and> rc_status q \<in> {1, 2} \<and> rc_ISN q = isn" for q
    using that assms(4)
  proof (induction ps arbitrary: q)
    case (Cons p ps)
    obtain a seg where p: "p = (a, seg)" by (cases p)
    then have "seg_true S isn a seg" "a + seg_size seg < M" using Cons.prems(2) by auto
    with wedged_step [of M q S isn a seg] Cons.prems(1)
    have "wedged M (TCPReceiver_segment_received seg q) \<and>
        rc_status (TCPReceiver_segment_received seg q) \<in> {1, 2} \<and>
        rc_ISN (TCPReceiver_segment_received seg q) = isn" by blast
    from Cons.IH [OF this] Cons.prems(2) show ?case by (simp add: p)
  qed simp
  from this [OF w1] show ?thesis by (simp add: wedged_def r_def)
qed

theorem TCPReceiver_stray_segment_wedges_witness:
  "firstUnasb (rc_reassembler (TCPReceiver_segment_received (data_segment (wrap 1 (WrappingInt32 5)) [0] False)
     (TCPReceiver_segment_received (syn_segment (WrappingInt32 5))
       (TCPReceiver_segment_received (data_segment (WrappingInt32 0xffffffff) [] False) (TCPReceiver 100))))) = 0"
proof -
  have "seg_true (\<lambda>_. 0) (WrappingInt32 5) 1 (data_segment (wrap 1 (WrappingInt32 5)) [0] False)"
    by (rule seg_true_data) (simp_all add: cut_def)
  then show ?thesis
    using TCPReceiver_stray_segment_wedges [where capacity = 100 and M = 5 and w = "0xffffffff" and d = "[]" and
        ps = "[(1, data_segment (wrap 1 (WrappingInt32 5)) [0] False)]" and S = "\<lambda>_. 0" and isn = "WrappingInt32 5"] by simp
qed

end
