(* ===== verification/TCP_Sender.thy ===== *)
theory TCP_Sender
  imports TCP_Receiver "HOL-Library.Multiset"
begin

text \<open>
  \<^verbatim>\<open>TCPConfig\<close> (\<^verbatim>\<open>tcp_helpers/tcp_config.hh\<close>) and \<^verbatim>\<open>TCPSender\<close> (\<^verbatim>\<open>libsponge/tcp_sender.hh\<close>,
  \<^verbatim>\<open>tcp_sender.cc\<close>): cuts the outgoing byte stream into segments within the peer's window, keeps
  what is not acknowledged, and retransmits the oldest of it when the timer runs out.
\<close>

section \<open>Configuration\<close>

record tcp_config =
  cfg_rt_timeout :: nat
  cfg_recv_capacity :: size_t
  cfg_send_capacity :: size_t
  cfg_fixed_isn :: "wrapping_int32 option"

definition DEFAULT_CAPACITY :: nat where "DEFAULT_CAPACITY = 64000"
definition MAX_PAYLOAD_SIZE :: nat where "MAX_PAYLOAD_SIZE = 1000"
definition TIMEOUT_DFLT :: nat where "TIMEOUT_DFLT = 1000"
definition MAX_RETX_ATTEMPTS :: nat where "MAX_RETX_ATTEMPTS = 8"

definition TCPConfig :: tcp_config where
  "TCPConfig = \<lparr>cfg_rt_timeout = TIMEOUT_DFLT, cfg_recv_capacity = DEFAULT_CAPACITY,
     cfg_send_capacity = DEFAULT_CAPACITY, cfg_fixed_isn = None\<rparr>"

section \<open>State\<close>

text \<open>
  \<^verbatim>\<open>std::multimap<size_t, pair<size_t, TCPSegment>>\<close> is the list of its entries in iteration order:
  start time, expiry time, segment; \<^verbatim>\<open>insert\<close> is \<open>multimap_insert\<close>.
\<close>

type_synonym outstanding = "(nat \<times> nat \<times> tcp_segment) list"

record tcp_sender =
  sn_isn :: wrapping_int32
  sn_segments_out :: "tcp_segment list"
  sn_initial_retransmission_timeout :: nat
  sn_stream :: byte_stream
  sn_next_seqno :: nat
  sn_now :: nat
  sn_window :: int
  sn_acked :: nat
  sn_outstanding :: outstanding
  sn_rto :: nat
  sn_crtx :: nat
  sn_finSent :: bool
  sn_zeroWindow :: bool

text \<open>The value \<^verbatim>\<open>random_device\<close> gives for the initial sequence number is the first argument.\<close>

definition TCPSender :: "u32 \<Rightarrow> size_t \<Rightarrow> nat \<Rightarrow> wrapping_int32 option \<Rightarrow> tcp_sender" where
  "TCPSender random capacity retx_timeout fixed_isn =
     \<lparr>sn_isn = (case fixed_isn of Some isn \<Rightarrow> isn | None \<Rightarrow> WrappingInt32 random),
      sn_segments_out = [], sn_initial_retransmission_timeout = retx_timeout,
      sn_stream = ByteStream capacity, sn_next_seqno = 0, sn_now = 0, sn_window = -1, sn_acked = 0,
      sn_outstanding = [], sn_rto = retx_timeout, sn_crtx = 0, sn_finSent = False, sn_zeroWindow = False\<rparr>"

section \<open>Operations\<close>

definition TCPSender_bytes_in_flight :: "tcp_sender \<Rightarrow> nat" where
  "TCPSender_bytes_in_flight s =
     foldl (\<lambda>res (_, _, seg).
       let flags = 0 + (if th_syn (seg_header seg) then 1 else 0) + (if th_fin (seg_header seg) then 1 else 0)
       in add64 res (Buffer_size (seg_payload seg) + flags)) 0 (sn_outstanding s)"

text \<open>\<^verbatim>\<open>window\<close> is an \<^verbatim>\<open>int\<close>; in \<^verbatim>\<open>acked + window\<close> it is converted to \<^verbatim>\<open>size_t\<close>.\<close>

definition window_edge :: "tcp_sender \<Rightarrow> nat" where
  "window_edge s = add64 (sn_acked s) (nat (sn_window s mod 2 ^ 64))"

text \<open>
  \<^verbatim>\<open>_segments_out.push(seg)\<close> and \<^verbatim>\<open>outstanding.insert({now, {now + rto, seg}})\<close>, which the code
  always does together.
\<close>

definition send_new :: "tcp_segment \<Rightarrow> tcp_sender \<Rightarrow> tcp_sender" where
  "send_new seg s =
     s\<lparr>sn_segments_out := sn_segments_out s @ [seg],
       sn_outstanding := multimap_insert (sn_now s) (add64 (sn_now s) (sn_rto s), seg) (sn_outstanding s)\<rparr>"

definition header_segment :: "tcp_header \<Rightarrow> tcp_segment" where
  "header_segment h = TCPSegment\<lparr>seg_header := h\<rparr>"

text \<open>The first segment: the SYN, with a FIN when the stream has ended without a byte.\<close>

definition fill_window_syn :: "tcp_sender \<Rightarrow> tcp_sender" where
  "fill_window_syn s =
     (let s = s\<lparr>sn_window := 1\<rparr>; h = TCPHeader\<lparr>th_seqno := sn_isn s, th_syn := True\<rparr>
      in if ByteStream_eof (sn_stream s)
         then (send_new (header_segment (h\<lparr>th_fin := True\<rparr>)) s)\<lparr>sn_finSent := True, sn_next_seqno := 2\<rparr>
         else (send_new (header_segment h) s)\<lparr>sn_next_seqno := 1\<rparr>)"

text \<open>One turn of the loop that fills the window; the flag tells whether it goes on.\<close>

definition fill_window_turn :: "tcp_sender \<Rightarrow> bool \<times> tcp_sender" where
  "fill_window_turn s =
     (let room = sub64 (window_edge s) (sn_next_seqno s);
          len = min MAX_PAYLOAD_SIZE (min (ByteStream_buffer_size (sn_stream s)) room)
      in if len = 0 then
           if ByteStream_eof (sn_stream s) \<and> room > 0
           then
             let h = TCPHeader\<lparr>th_seqno := wrap (sn_next_seqno s) (sn_isn s), th_fin := True\<rparr>;
                 s = s\<lparr>sn_next_seqno := add64 (sn_next_seqno s) 1\<rparr>
             in (False, (send_new (header_segment h) s)\<lparr>sn_finSent := True, sn_crtx := 0\<rparr>)
           else (False, s)
         else
           let (data, stream) = ByteStream_read len (sn_stream s);
               fin = (ByteStream_eof stream \<and> room > length data);
               seg = \<lparr>seg_header = TCPHeader\<lparr>th_seqno := wrap (sn_next_seqno s) (sn_isn s), th_fin := fin\<rparr>,
                      seg_payload = Buffer data\<rparr>;
               s = s\<lparr>sn_stream := stream, sn_finSent := (fin \<or> sn_finSent s),
                     sn_next_seqno := (if fin then add64 (sn_next_seqno s) 1 else sn_next_seqno s)\<rparr>;
               s = (send_new seg s)\<lparr>sn_crtx := 0\<rparr>;
               s = s\<lparr>sn_next_seqno := add64 (sn_next_seqno s) len\<rparr>
           in (\<not> fin, s))"

lemma sub64_add64:
  assumes "l \<le> sub64 c r"
  shows "sub64 c (add64 r l) = sub64 c r - l"
proof -
  have "int (sub64 c (add64 r l)) = ((int c - int r) mod 2 ^ 64 - int l) mod 2 ^ 64"
    by (simp add: int_sub64 int_add64 mod_diff_right_eq mod_diff_left_eq algebra_simps)
  also have "\<dots> = (int (sub64 c r) - int l) mod 2 ^ 64" by (simp only: int_sub64)
  also have "\<dots> = int (sub64 c r) - int l"
  proof (rule mod_pos_pos_trivial)
    have "int (sub64 c r) < 2 ^ 64" by simp
    then show "int (sub64 c r) - int l < 2 ^ 64" by linarith
  qed (use assms in simp)
  also have "\<dots> = int (sub64 c r - l)" using assms by (simp add: of_nat_diff)
  finally show ?thesis by (simp only: of_nat_eq_iff)
qed

lemma fill_window_turn_decreases:
  assumes "fill_window_turn s = (True, s')"
  shows "ByteStream_buffer_size (sn_stream s') < ByteStream_buffer_size (sn_stream s)"
proof -
  let ?room = "sub64 (window_edge s) (sn_next_seqno s)"
  let ?len = "min MAX_PAYLOAD_SIZE (min (ByteStream_buffer_size (sn_stream s)) ?room)"
  have len: "0 < ?len" "?len \<le> ByteStream_buffer_size (sn_stream s)"
    using assms by (auto simp: fill_window_turn_def Let_def min_def split: if_splits)
  then have s': "sn_stream s' = snd (ByteStream_read ?len (sn_stream s))"
    using assms by (auto simp: fill_window_turn_def Let_def send_new_def split: prod.splits if_splits)
  from sub64_add64 [OF len(2) [unfolded ByteStream_buffer_size_def]] show ?thesis
    using len by (simp add: s' ByteStream_read_def ByteStream_buffer_size_def)
qed

function fill_window_loop :: "tcp_sender \<Rightarrow> tcp_sender" where
  "fill_window_loop s =
     (if sn_next_seqno s < window_edge s then
        case fill_window_turn s of (again, s') \<Rightarrow> if again then fill_window_loop s' else s'
      else s)"
  by pat_completeness auto

termination fill_window_loop
  by (relation "measure (\<lambda>s. ByteStream_buffer_size (sn_stream s))")
    (auto dest: fill_window_turn_decreases [OF sym])

declare fill_window_loop.simps [simp del]

definition TCPSender_fill_window :: "tcp_sender \<Rightarrow> tcp_sender" where
  "TCPSender_fill_window s =
     (if sn_finSent s then s
      else if sn_window s = -1 then fill_window_syn s
      else fill_window_loop s)"

text \<open>The loop over the outstanding segments in \<^verbatim>\<open>ack_received\<close>.\<close>

fun ack_outstanding :: "wrapping_int32 \<Rightarrow> nat \<Rightarrow> bool \<Rightarrow> nat \<Rightarrow> outstanding \<Rightarrow> outstanding" where
  "ack_outstanding isn acked isnew expiry [] = []"
| "ack_outstanding isn acked isnew expiry ((start, e, seg) # c) =
     (let seq64 = unwrap (th_seqno (seg_header seg)) isn acked;
          flags = 0 + (if th_syn (seg_header seg) then 1 else 0) + (if th_fin (seg_header seg) then 1 else 0)
      in if add64 (add64 seq64 (Buffer_size (seg_payload seg))) flags \<le> acked
         then ack_outstanding isn acked isnew expiry c
         else (start, if isnew then expiry else e, seg) # ack_outstanding isn acked isnew expiry c)"

definition TCPSender_ack_received :: "wrapping_int32 \<Rightarrow> u16 \<Rightarrow> tcp_sender \<Rightarrow> tcp_sender" where
  "TCPSender_ack_received ackno window_size s =
     (let ackno64 = unwrap ackno (sn_isn s) (sn_acked s)
      in if ackno64 > sn_next_seqno s then s
         else if ackno64 \<ge> sn_acked s then
           let isnew = (ackno64 > sn_acked s);
               s1 = s\<lparr>sn_rto := (if isnew then sn_initial_retransmission_timeout s else sn_rto s),
                      sn_acked := ackno64, sn_window := max 1 (int (unat window_size)),
                      sn_zeroWindow := (window_size = 0)\<rparr>
           in s1\<lparr>sn_outstanding := ack_outstanding (sn_isn s1) (sn_acked s1) isnew
                   (add64 (sn_now s1) (sn_rto s1)) (sn_outstanding s1)\<rparr>
         else s)"

text \<open>
  The expired entry with the least absolute sequence number, by position in the multimap. The
  iterator is left uninitialised when no number is below \<^verbatim>\<open>UINT64_MAX\<close>.
\<close>

definition expired :: "nat \<Rightarrow> outstanding \<Rightarrow> nat list" where
  "expired now c = filter (\<lambda>i. fst (snd (c ! i)) \<le> now) [0..<length c]"

definition least_seqno :: "wrapping_int32 \<Rightarrow> nat \<Rightarrow> outstanding \<Rightarrow> nat list \<Rightarrow> nat option \<times> nat" where
  "least_seqno isn acked c iters =
     foldl (\<lambda>(iter, minSeq) i.
       let absSeq = unwrap (th_seqno (seg_header (snd (snd (c ! i))))) isn acked
       in if absSeq < minSeq then (Some i, absSeq) else (iter, minSeq)) (None, size_max) iters"

definition TCPSender_tick :: "nat \<Rightarrow> tcp_sender \<Rightarrow> exn + tcp_sender" where
  "TCPSender_tick ms_since_last_tick s =
     (let s1 = s\<lparr>sn_now := add64 (sn_now s) ms_since_last_tick\<rparr>;
          iters = expired (sn_now s1) (sn_outstanding s1);
          s2 = (if iters \<noteq> [] \<and> \<not> sn_zeroWindow s1 then s1\<lparr>sn_rto := mul32 (sn_rto s1) 2\<rparr> else s1)
      in if iters = [] then Inr s2
         else
           case fst (least_seqno (sn_isn s2) (sn_acked s2) (sn_outstanding s2) iters) of
             None \<Rightarrow> Inl (Undefined_behaviour ''TCPSender::tick: iterator not initialised'')
           | Some i \<Rightarrow>
               let seg = snd (snd (sn_outstanding s2 ! i));
                   c = take i (sn_outstanding s2) @ drop (Suc i) (sn_outstanding s2);
                   expiry = add64 (sn_now s2) (sn_rto s2);
                   c = multimap_insert (sn_now s2) (expiry, seg) c
               in Inr (s2\<lparr>sn_segments_out := sn_segments_out s2 @ [seg],
                          sn_crtx := inc32 (sn_crtx s2),
                          sn_outstanding := map (\<lambda>(start, _, seg). (start, expiry, seg)) c\<rparr>))"

definition TCPSender_consecutive_retransmissions :: "tcp_sender \<Rightarrow> nat" where
  "TCPSender_consecutive_retransmissions s = sn_crtx s"

definition TCPSender_send_empty_segment :: "tcp_sender \<Rightarrow> tcp_sender" where
  "TCPSender_send_empty_segment s =
     s\<lparr>sn_segments_out := sn_segments_out s @
         [header_segment (TCPHeader\<lparr>th_seqno := wrap (sn_next_seqno s) (sn_isn s)\<rparr>)],
       sn_crtx := 0\<rparr>"

definition TCPSender_next_seqno_absolute :: "tcp_sender \<Rightarrow> nat" where
  "TCPSender_next_seqno_absolute s = sn_next_seqno s"

definition TCPSender_next_seqno :: "tcp_sender \<Rightarrow> wrapping_int32" where
  "TCPSender_next_seqno s = wrap (sn_next_seqno s) (sn_isn s)"

text \<open>The owner writes to and ends the outgoing stream through \<^verbatim>\<open>stream_in()\<close>.\<close>

definition TCPSender_stream_in :: "(byte_stream \<Rightarrow> byte_stream) \<Rightarrow> tcp_sender \<Rightarrow> tcp_sender" where
  "TCPSender_stream_in f s = s\<lparr>sn_stream := f (sn_stream s)\<rparr>"

section \<open>What is in flight\<close>

abbreviation seq_len :: "tcp_segment \<Rightarrow> nat" where
  "seq_len \<equiv> TCPSegment_length_in_sequence_space"

lemma seq_len_eq:
  "seq_len seg = seg_size seg + (if th_syn (seg_header seg) then 1 else 0) + (if th_fin (seg_header seg) then 1 else 0)"
  by (simp add: TCPSegment_length_in_sequence_space_def seg_size_def)

text \<open>
  \<open>seg_ok S s a seg\<close>: the segment carries the bytes of the outgoing stream at its sequence number
  \<open>a\<close>, lies below the next number to be sent, and has the FIN only at the very end.
\<close>

definition seg_ok :: "(nat \<Rightarrow> byte) \<Rightarrow> tcp_sender \<Rightarrow> nat \<Rightarrow> tcp_segment \<Rightarrow> bool" where
  "seg_ok S s a seg \<longleftrightarrow> seg_true S (sn_isn s) a seg \<and> seg_size seg \<le> MAX_PAYLOAD_SIZE \<and>
     a + seq_len seg \<le> sn_next_seqno s \<and>
     (1 \<le> seg_size seg \<longrightarrow> a + seg_size seg \<le> 1 + bs_totRead (sn_stream s)) \<and>
     (th_fin (seg_header seg) \<longrightarrow> sn_finSent s \<and> a + seq_len seg = sn_next_seqno s)"

text \<open>Consecutive segments from \<open>b\<close> to \<open>e\<close>.\<close>

fun chain :: "(nat \<Rightarrow> tcp_segment \<Rightarrow> bool) \<Rightarrow> nat \<Rightarrow> tcp_segment list \<Rightarrow> nat \<Rightarrow> bool" where
  "chain P b [] e \<longleftrightarrow> b = e"
| "chain P b (seg # L) e \<longleftrightarrow> P b seg \<and> 1 \<le> seq_len seg \<and> chain P (b + seq_len seg) L e"

lemma chain_append: "chain P b (L @ M) e \<longleftrightarrow> (\<exists>m. chain P b L m \<and> chain P m M e)"
  by (induction L arbitrary: b) auto

lemma chain_mono: "chain P b L e \<Longrightarrow> (\<And>a seg. P a seg \<Longrightarrow> Q a seg) \<Longrightarrow> chain Q b L e"
  by (induction L arbitrary: b) auto

lemma chain_le: "chain P b L e \<Longrightarrow> b \<le> e"
  by (induction L arbitrary: b) fastforce+

lemma chain_sum: "chain P b L e \<Longrightarrow> sum_list (map seq_len L) = e - b"
proof (induction L arbitrary: b)
  case (Cons seg L)
  then have "sum_list (map seq_len L) = e - (b + seq_len seg)" "b + seq_len seg \<le> e"
    using chain_le by auto
  then show ?case by simp
qed simp

lemma chain_positions:
  "chain P b L e \<Longrightarrow> seg \<in> set L \<Longrightarrow> \<exists>a. P a seg \<and> b \<le> a \<and> a < e"
proof (induction L arbitrary: b)
  case (Cons x L)
  show ?case
  proof (cases "seg = x")
    case True
    then show ?thesis using Cons.prems chain_le [of P "b + seq_len x" L e] by fastforce
  next
    case False
    then obtain a where "P a seg" "b + seq_len x \<le> a" "a < e"
      using Cons.IH [of "b + seq_len x"] Cons.prems by auto
    then show ?thesis by (intro exI [of _ a]) simp
  qed
qed simp

fun segs_of :: "outstanding \<Rightarrow> tcp_segment multiset" where
  "segs_of [] = {#}"
| "segs_of ((_, _, seg) # c) = add_mset seg (segs_of c)"

definition in_flight :: "tcp_sender \<Rightarrow> tcp_segment multiset" where
  "in_flight s = segs_of (sn_outstanding s)"

lemma segs_of_append [simp]: "segs_of (c @ c') = segs_of c + segs_of c'"
  by (induction c rule: segs_of.induct) simp_all

text \<open>
  The outstanding segments, put in order, are consecutive up to the next sequence number, and the
  acknowledged number lies in the first of them.
\<close>

definition flight :: "(nat \<Rightarrow> byte) \<Rightarrow> tcp_sender \<Rightarrow> nat \<Rightarrow> tcp_segment list \<Rightarrow> bool" where
  "flight S s b L \<longleftrightarrow> mset L = in_flight s \<and> chain (seg_ok S s) b L (sn_next_seqno s) \<and>
     b \<le> sn_acked s \<and> (L \<noteq> [] \<longrightarrow> sn_acked s < b + seq_len (hd L))"

lemma segs_of_multimap_insert [simp]: "segs_of (multimap_insert k (e, seg) m) = add_mset seg (segs_of m)"
  by (induction m rule: segs_of.induct) auto

lemma bytes_in_flight_eq:
  assumes "chain P b L e" "mset L = in_flight s" "e < 2 ^ 64"
  shows "TCPSender_bytes_in_flight s = e - b"
proof -
  let ?f = "\<lambda>(_ :: nat, _ :: nat, seg). seq_len seg"
  have step: "foldl (\<lambda>res (_ :: nat, _ :: nat, seg).
       let flags = 0 + (if th_syn (seg_header seg) then 1 else 0) + (if th_fin (seg_header seg) then 1 else 0)
       in add64 res (Buffer_size (seg_payload seg) + flags)) a m = (a + sum_list (map ?f m)) mod 2 ^ 64"
    if "a < 2 ^ 64" for a m
    using that
  proof (induction m arbitrary: a)
    case (Cons x m)
    obtain t u seg where x: "x = (t, u, seg)" by (cases x)
    have "Buffer_size (seg_payload seg) + (0 + (if th_syn (seg_header seg) then 1 else 0) +
        (if th_fin (seg_header seg) then 1 else 0)) = seq_len seg"
      by (simp add: seq_len_eq seg_size_def Buffer_size_def)
    then show ?case
      using Cons.IH [of "add64 a (seq_len seg)"]
      by (simp add: x Let_def add64_def mod_add_left_eq add.assoc del: add_0)
  qed simp
  have "sum_list (map ?f c) = sum_mset (image_mset seq_len (segs_of c))" for c
    by (induction c rule: segs_of.induct) simp_all
  then have "sum_list (map ?f (sn_outstanding s)) = sum_mset (image_mset seq_len (in_flight s))"
    by (simp only: in_flight_def)
  also have "\<dots> = sum_list (map seq_len L)"
    unfolding assms(2) [symmetric] mset_map [symmetric] sum_mset_sum_list ..
  also have "\<dots> = e - b" by (rule chain_sum [OF assms(1)])
  finally show ?thesis
    using step [of 0 "sn_outstanding s"] assms(3) by (simp add: TCPSender_bytes_in_flight_def)
qed

section \<open>Invariant\<close>

text \<open>
  \<open>S\<close> is the stream the application writes. What has been cut into segments is what has been read
  from the byte stream, the SYN takes one number and the FIN another.
\<close>

definition sn_stream_inv :: "(nat \<Rightarrow> byte) \<Rightarrow> tcp_sender \<Rightarrow> bool" where
  "sn_stream_inv S s \<longleftrightarrow> bs_inv (sn_stream s) \<and>
     bs_totRead (sn_stream s) + length (bs_buf (sn_stream s)) < 2 ^ 62 \<and>
     bs_buf (sn_stream s) =
       cut S (bs_totRead (sn_stream s)) (bs_totRead (sn_stream s) + length (bs_buf (sn_stream s)))"

definition sn_numbers :: "tcp_sender \<Rightarrow> bool" where
  "sn_numbers s \<longleftrightarrow>
     (if sn_window s = -1
      then sn_next_seqno s = 0 \<and> bs_totRead (sn_stream s) = 0 \<and> \<not> sn_finSent s \<and> sn_acked s = 0
      else 1 \<le> sn_window s \<and> sn_window s \<le> 65535 \<and>
        sn_next_seqno s = 1 + bs_totRead (sn_stream s) + (if sn_finSent s then 1 else 0)) \<and>
     (sn_finSent s \<longrightarrow> bs_eof2 (sn_stream s)) \<and>
     sn_acked s \<le> sn_next_seqno s \<and> sn_next_seqno s \<le> sn_acked s + 65535"

definition sn_inv :: "(nat \<Rightarrow> byte) \<Rightarrow> tcp_sender \<Rightarrow> bool" where
  "sn_inv S s \<longleftrightarrow> sn_stream_inv S s \<and> sn_numbers s \<and>
     (\<forall>seg \<in> set (sn_segments_out s). \<exists>a. seg_ok S s a seg) \<and> (\<exists>b L. flight S s b L)"

text \<open>What the operations do to what has been sent: nothing, but for sending more.\<close>

definition sn_ext :: "tcp_sender \<Rightarrow> tcp_sender \<Rightarrow> bool" where
  "sn_ext s s' \<longleftrightarrow> sn_isn s' = sn_isn s \<and> sn_next_seqno s \<le> sn_next_seqno s' \<and>
     (sn_finSent s \<longrightarrow> sn_finSent s' \<and> sn_next_seqno s' = sn_next_seqno s) \<and>
     bs_totRead (sn_stream s) \<le> bs_totRead (sn_stream s') \<and>
     bs_totWrite (sn_stream s') = bs_totWrite (sn_stream s) \<and>
     bs_eof2 (sn_stream s') = bs_eof2 (sn_stream s)"

lemma sn_ext_refl [simp]: "sn_ext s s"
  by (simp add: sn_ext_def)

lemma sn_ext_trans: "sn_ext s s' \<Longrightarrow> sn_ext s' s'' \<Longrightarrow> sn_ext s s''"
  by (auto simp: sn_ext_def)

lemma seg_ok_ext: "seg_ok S s a seg \<Longrightarrow> sn_ext s s' \<Longrightarrow> seg_ok S s' a seg"
  by (auto simp: seg_ok_def sn_ext_def)

lemma sn_inv_new:
  assumes "capacity < 2 ^ 62"
  shows "sn_inv S (TCPSender random capacity retx fixed_isn)"
proof -
  let ?s = "TCPSender random capacity retx fixed_isn"
  have "bs_inv (ByteStream capacity)" using assms by auto
  then have "sn_stream_inv S ?s"
    by (simp add: sn_stream_inv_def TCPSender_def) (simp add: ByteStream_def)
  moreover have "sn_numbers ?s" by (simp add: sn_numbers_def TCPSender_def) (simp add: ByteStream_def)
  moreover have "flight S ?s 0 []" by (simp add: flight_def in_flight_def TCPSender_def)
  ultimately show ?thesis by (auto simp: sn_inv_def TCPSender_def)
qed

text \<open>Sending a new segment at the next sequence number.\<close>

lemma flight_send:
  assumes "flight S s b L" "sn_ext s s'" "sn_acked s' = sn_acked s" "sn_acked s \<le> sn_next_seqno s"
    and "in_flight s' = add_mset seg (in_flight s)"
    and "sn_next_seqno s' = sn_next_seqno s + seq_len seg" "seg_ok S s' (sn_next_seqno s) seg" "1 \<le> seq_len seg"
  shows "flight S s' b (L @ [seg])"
proof -
  have L: "mset L = in_flight s" "chain (seg_ok S s) b L (sn_next_seqno s)" "b \<le> sn_acked s"
    "L \<noteq> [] \<longrightarrow> sn_acked s < b + seq_len (hd L)"
    using assms(1) by (auto simp: flight_def)
  have "chain (seg_ok S s') b L (sn_next_seqno s)"
    using L(2) seg_ok_ext [OF _ assms(2)] by (rule chain_mono)
  then have "chain (seg_ok S s') b (L @ [seg]) (sn_next_seqno s')"
    using assms(6-8) by (auto simp: chain_append)
  moreover have "sn_acked s' < b + seq_len (hd (L @ [seg]))"
    using L assms(3,4,8) by (cases L) auto
  ultimately show ?thesis
    using L assms(3,5) by (simp add: flight_def)
qed

lemma sn_inv_send:
  assumes "sn_inv S s" "sn_stream_inv S s'" "sn_numbers s'" "sn_ext s s'" "sn_acked s' = sn_acked s"
    and "sn_segments_out s' = sn_segments_out s @ [seg]"
    and "in_flight s' = add_mset seg (in_flight s)"
    and "sn_next_seqno s' = sn_next_seqno s + seq_len seg" "seg_ok S s' (sn_next_seqno s) seg" "1 \<le> seq_len seg"
  shows "sn_inv S s'"
proof -
  obtain b L where "flight S s b L" using assms(1) by (auto simp: sn_inv_def)
  moreover have "sn_acked s \<le> sn_next_seqno s" using assms(1) by (simp add: sn_inv_def sn_numbers_def)
  ultimately have "flight S s' b (L @ [seg])" using assms(4-10) by (intro flight_send)
  moreover have "\<forall>seg \<in> set (sn_segments_out s'). \<exists>a. seg_ok S s' a seg"
    using assms(1,6,9) seg_ok_ext [OF _ assms(4)] by (fastforce simp: sn_inv_def)
  ultimately show ?thesis using assms(2,3) by (auto simp: sn_inv_def)
qed

lemma in_flight_send_new [simp]: "in_flight (send_new seg s) = add_mset seg (in_flight s)"
  by (simp add: in_flight_def send_new_def)

lemma in_flight_cong: "sn_outstanding s' = sn_outstanding s \<Longrightarrow> in_flight s' = in_flight s"
  by (simp add: in_flight_def)

lemma fill_window_syn_inv:
  assumes "sn_inv S s" "sn_window s = -1"
  shows "sn_inv S (fill_window_syn s) \<and> sn_ext s (fill_window_syn s) \<and>
         sn_acked (fill_window_syn s) = sn_acked s \<and> sn_stream (fill_window_syn s) = sn_stream s \<and>
         (sn_finSent (fill_window_syn s) \<longrightarrow> bs_buf (sn_stream (fill_window_syn s)) = [])"
proof -
  have n: "sn_stream_inv S s" "sn_next_seqno s = 0" "bs_totRead (sn_stream s) = 0" "\<not> sn_finSent s" "sn_acked s = 0"
    using assms by (simp_all add: sn_inv_def sn_numbers_def)
  have e: "ByteStream_eof (sn_stream s) \<Longrightarrow> bs_eof2 (sn_stream s)" by (simp add: ByteStream_eof_def)
  let ?seg = "header_segment (TCPHeader\<lparr>th_seqno := sn_isn s, th_syn := True,
    th_fin := ByteStream_eof (sn_stream s)\<rparr>)"
  have seg: "seq_len ?seg = (if ByteStream_eof (sn_stream s) then 2 else 1)" "seg_size ?seg = 0"
    "seg_true S (sn_isn s) 0 ?seg"
    by (simp_all add: seq_len_eq seg_size_def header_segment_def TCPSegment_def seg_true_def TCPHeader_def)
  have ext: "sn_ext s (fill_window_syn s)"
    using n by (simp add: sn_ext_def fill_window_syn_def send_new_def Let_def)
  have numbers: "sn_numbers (fill_window_syn s)"
    using n e by (simp add: sn_numbers_def fill_window_syn_def send_new_def Let_def)
  have "sn_inv S (fill_window_syn s)"
  proof (rule sn_inv_send [OF assms(1) _ numbers ext])
    show "sn_stream_inv S (fill_window_syn s)" "sn_acked (fill_window_syn s) = sn_acked s"
      using n by (simp_all add: sn_stream_inv_def fill_window_syn_def send_new_def Let_def)
    show "sn_segments_out (fill_window_syn s) = sn_segments_out s @ [?seg]"
      by (simp add: fill_window_syn_def send_new_def Let_def TCPHeader_def)
    show "in_flight (fill_window_syn s) = add_mset ?seg (in_flight s)"
      by (simp add: fill_window_syn_def send_new_def Let_def in_flight_def TCPHeader_def)
    show "sn_next_seqno (fill_window_syn s) = sn_next_seqno s + seq_len ?seg"
      using n seg by (simp add: fill_window_syn_def send_new_def Let_def)
    show "seg_ok S (fill_window_syn s) (sn_next_seqno s) ?seg"
      using n seg by (cases "ByteStream_eof (sn_stream s)")
        (simp_all add: seg_ok_def fill_window_syn_def send_new_def Let_def header_segment_def
          TCPHeader_def TCPSegment_def)
    show "1 \<le> seq_len ?seg" using seg by simp
  qed
  moreover have "ByteStream_eof (sn_stream s) \<Longrightarrow> bs_buf (sn_stream s) = []"
    using n(1) by (simp add: sn_stream_inv_def eof_iff)
  ultimately show ?thesis using ext n(4) by (auto simp: fill_window_syn_def send_new_def Let_def)
qed

text \<open>Reading \<open>n\<close> buffered bytes off the stream.\<close>

lemma sn_stream_read:
  assumes "sn_stream_inv S s" "n \<le> length (bs_buf (sn_stream s))"
  defines "st \<equiv> snd (ByteStream_read n (sn_stream s))"
  shows "bs_inv st" "bs_totRead st = bs_totRead (sn_stream s) + n"
    "bs_totRead st + length (bs_buf st) = bs_totRead (sn_stream s) + length (bs_buf (sn_stream s))"
    "bs_buf st = cut S (bs_totRead st) (bs_totRead st + length (bs_buf st))"
    "bs_totWrite st = bs_totWrite (sn_stream s)" "bs_eof2 st = bs_eof2 (sn_stream s)"
    "fst (ByteStream_read n (sn_stream s)) =
       cut S (bs_totRead (sn_stream s)) (bs_totRead (sn_stream s) + n)"
proof -
  let ?b = "sn_stream s"
  have I: "bs_inv ?b" "bs_totRead ?b + length (bs_buf ?b) < 2 ^ 62"
    "bs_buf ?b = cut S (bs_totRead ?b) (bs_totRead ?b + length (bs_buf ?b))"
    using assms(1) by (simp_all add: sn_stream_inv_def)
  have t: "add64 (bs_totRead ?b) n = bs_totRead ?b + n" using I(2) assms(2) by (simp add: no_wrap)
  show "bs_inv st" unfolding st_def by (rule bs_inv_read [OF I(1) assms(2)])
  show r: "bs_totRead st = bs_totRead ?b + n" "bs_totWrite st = bs_totWrite ?b" "bs_eof2 st = bs_eof2 ?b"
    by (simp_all add: st_def ByteStream_read_def t)
  have b: "bs_buf st = drop n (bs_buf ?b)" by (simp add: st_def ByteStream_read_def)
  then show l: "bs_totRead st + length (bs_buf st) = bs_totRead ?b + length (bs_buf ?b)"
    using r(1) assms(2) by simp
  have "drop n (bs_buf ?b) = cut S (bs_totRead ?b + n) (bs_totRead ?b + length (bs_buf ?b))"
    by (subst I(3)) (rule drop_cut)
  then show "bs_buf st = cut S (bs_totRead st) (bs_totRead st + length (bs_buf st))"
    unfolding l by (simp only: b r(1))
  have "take n (bs_buf ?b) = cut S (bs_totRead ?b) (bs_totRead ?b + n)"
    by (subst I(3)) (use assms(2) in \<open>simp add: take_cut\<close>)
  then show "fst (ByteStream_read n ?b) = cut S (bs_totRead ?b) (bs_totRead ?b + n)"
    by (simp add: ByteStream_read_def)
qed

lemma window_edge_eq:
  "sn_inv S s \<Longrightarrow> sn_window s \<noteq> -1 \<Longrightarrow> window_edge s = sn_acked s + nat (sn_window s) \<and>
   window_edge s < 2 ^ 63"
proof -
  assume *: "sn_inv S s" "sn_window s \<noteq> -1"
  then have w: "1 \<le> sn_window s" "sn_window s \<le> 65535" "sn_acked s \<le> sn_next_seqno s"
    "sn_next_seqno s \<le> 2 + bs_totRead (sn_stream s)" "bs_totRead (sn_stream s) < 2 ^ 62"
    by (auto simp: sn_inv_def sn_numbers_def sn_stream_inv_def)
  then have "sn_acked s < 2 ^ 62 + 2" by simp
  moreover have "sn_window s mod 2 ^ 64 = sn_window s" using w(1,2) by (simp add: mod_pos_pos_trivial)
  ultimately show ?thesis using w(2) by (simp add: window_edge_def no_wrap)
qed

text \<open>One turn of the loop: the FIN, a data segment, or nothing left to send.\<close>

lemma fill_window_turn_inv:
  assumes inv: "sn_inv S s" and w: "sn_window s \<noteq> -1" and f: "\<not> sn_finSent s"
    and room: "sn_next_seqno s < window_edge s"
  obtains again s' where "fill_window_turn s = (again, s')" "sn_inv S s'" "sn_ext s s'"
    "sn_acked s' = sn_acked s" "sn_window s' = sn_window s" "sn_next_seqno s' \<le> window_edge s"
    "again \<longleftrightarrow> \<not> sn_finSent s' \<and> sn_next_seqno s < sn_next_seqno s'"
    "\<not> again \<Longrightarrow> sn_finSent s' \<or> bs_buf (sn_stream s') = [] \<and> \<not> bs_eof2 (sn_stream s')"
    "sn_finSent s' \<Longrightarrow> bs_buf (sn_stream s') = []"
proof -
  let ?b = "sn_stream s" and ?n = "sn_next_seqno s"
  have st: "sn_stream_inv S s" "bs_inv ?b" using inv by (simp_all add: sn_inv_def sn_stream_inv_def)
  have num: "?n = 1 + bs_totRead ?b" "sn_acked s \<le> ?n" "1 \<le> sn_window s" "sn_window s \<le> 65535"
    "bs_totRead ?b + length (bs_buf ?b) < 2 ^ 62"
    using inv w f by (auto simp: sn_inv_def sn_numbers_def sn_stream_inv_def)
  have edge: "window_edge s = sn_acked s + nat (sn_window s)" "window_edge s < 2 ^ 63"
    using window_edge_eq [OF inv w] by simp_all
  define r where "r = window_edge s - ?n"
  have r: "sub64 (window_edge s) ?n = r" "0 < r" "?n + r = window_edge s"
    using room edge(2) by (simp_all add: r_def no_wrap)
  define len where "len = min MAX_PAYLOAD_SIZE (min (length (bs_buf ?b)) r)"
  show ?thesis
  proof (cases "len = 0")
    case True
    then have empty: "bs_buf ?b = []" using r(2)
      by (auto simp: len_def MAX_PAYLOAD_SIZE_def min_def split: if_splits)
    then have eof: "ByteStream_eof ?b \<longleftrightarrow> bs_eof2 ?b" using st(2) by (simp add: eof_iff)
    show ?thesis
    proof (cases "bs_eof2 ?b")
      case True
      let ?seg = "header_segment (TCPHeader\<lparr>th_seqno := wrap ?n (sn_isn s), th_fin := True\<rparr>)"
      let ?s1 = "s\<lparr>sn_next_seqno := ?n + 1\<rparr>"
      let ?s' = "(send_new ?seg ?s1)\<lparr>sn_finSent := True, sn_crtx := 0\<rparr>"
      have n1: "add64 ?n 1 = ?n + 1" using num by (simp add: no_wrap)
      have run: "fill_window_turn s = (False, ?s')"
        using True \<open>len = 0\<close> r eof unfolding len_def buffer_size_length [OF st(2), symmetric]
        by (simp add: fill_window_turn_def Let_def n1 [simplified])
      have seg: "seq_len ?seg = 1" "seg_size ?seg = 0"
        by (simp_all add: seq_len_eq seg_size_def header_segment_def TCPSegment_def TCPHeader_def)
      have "sn_inv S ?s'"
      proof (rule sn_inv_send [OF inv])
        show "sn_stream_inv S ?s'" using st by (simp add: sn_stream_inv_def send_new_def)
        show "sn_numbers ?s'"
          using num w True edge r by (simp add: sn_numbers_def send_new_def)
        show "sn_ext s ?s'" using f by (simp add: sn_ext_def send_new_def)
        show "seg_ok S ?s' ?n ?seg"
          using num seg by (simp add: seg_ok_def send_new_def seg_true_def)
            (simp add: header_segment_def TCPHeader_def TCPSegment_def)
      qed (use seg in \<open>simp_all add: send_new_def in_flight_def\<close>)
      moreover have "sn_ext s ?s'" using f by (simp add: sn_ext_def send_new_def)
      ultimately show ?thesis
        using run num r empty by (intro that [of False ?s']) (simp_all add: send_new_def)
    next
      case False
      have "fill_window_turn s = (False, s)"
        using False \<open>len = 0\<close> r eof unfolding len_def buffer_size_length [OF st(2), symmetric]
        by (simp add: fill_window_turn_def Let_def)
      then show ?thesis using inv empty False room f by (intro that [of False s]) simp_all
    qed
  next
    case False
    have len: "0 < len" "len \<le> length (bs_buf ?b)" "len \<le> r" "len \<le> 1000"
      using False by (auto simp: len_def MAX_PAYLOAD_SIZE_def)
    let ?st = "snd (ByteStream_read len ?b)"
    let ?d = "cut S (bs_totRead ?b) (bs_totRead ?b + len)"
    note rd = sn_stream_read [OF st(1) len(2)]
    define fin where "fin \<longleftrightarrow> ByteStream_eof ?st \<and> len < r"
    have fin: "fin \<Longrightarrow> bs_eof2 ?b" "fin \<Longrightarrow> len < r"
      using rd(6) by (simp_all add: fin_def ByteStream_eof_def)
    let ?seg = "\<lparr>seg_header = TCPHeader\<lparr>th_seqno := wrap ?n (sn_isn s), th_fin := fin\<rparr>, seg_payload = Buffer ?d\<rparr>"
    let ?n' = "?n + (if fin then 1 else 0) + len"
    let ?s' = "(send_new ?seg (s\<lparr>sn_stream := ?st, sn_finSent := fin\<rparr>))\<lparr>sn_crtx := 0, sn_next_seqno := ?n'\<rparr>"
    have n': "add64 (if fin then add64 ?n 1 else ?n) len = ?n'" "?n' \<le> window_edge s"
      using num len r fin by (auto simp: no_wrap)
    have run: "fill_window_turn s = (\<not> fin, ?s')"
    proof -
      have len': "min MAX_PAYLOAD_SIZE (min (ByteStream_buffer_size ?b) r) = len"
        by (simp add: len_def buffer_size_length [OF st(2)])
      show ?thesis
        unfolding fill_window_turn_def Let_def r(1) len' split_beta rd(7) using False f n'(1)
        by (simp add: fin_def send_new_def)
    qed
    have seg: "seg_size ?seg = len" "seq_len ?seg = len + (if fin then 1 else 0)"
      by (simp_all add: seq_len_eq seg_size_def TCPHeader_def)
    have ext: "sn_ext s ?s'" using f rd by (simp add: sn_ext_def send_new_def)
    have "sn_inv S ?s'"
    proof (rule sn_inv_send [OF inv _ _ ext])
      show "sn_stream_inv S ?s'" using rd(1-4) num(5) by (simp add: sn_stream_inv_def send_new_def)
      show "sn_numbers ?s'"
        using num w fin(1) rd(2,6) edge n'(2) by (auto simp: sn_numbers_def send_new_def)
      show "seg_ok S ?s' ?n ?seg"
        using num(1) seg len(4) rd(2) by (auto simp: seg_ok_def send_new_def seg_true_def MAX_PAYLOAD_SIZE_def)
          (auto simp: TCPHeader_def)
    qed (use seg len in \<open>simp_all add: send_new_def in_flight_def\<close>)
    moreover have "fin \<Longrightarrow> bs_buf ?st = []" using rd(1) by (simp add: fin_def eof_iff)
    ultimately show ?thesis
      using run ext n' len by (intro that [of "\<not> fin" ?s']) (auto simp: send_new_def)
  qed
qed

lemma fill_window_loop_inv:
  assumes "sn_inv S s" "sn_window s \<noteq> -1" "\<not> sn_finSent s"
  shows "sn_inv S (fill_window_loop s) \<and> sn_ext s (fill_window_loop s) \<and>
     sn_acked (fill_window_loop s) = sn_acked s \<and> sn_window (fill_window_loop s) = sn_window s \<and>
     sn_next_seqno (fill_window_loop s) \<le> max (sn_next_seqno s) (window_edge s) \<and>
     (sn_finSent (fill_window_loop s) \<or> window_edge s \<le> sn_next_seqno (fill_window_loop s) \<or>
      bs_buf (sn_stream (fill_window_loop s)) = [] \<and> \<not> bs_eof2 (sn_stream (fill_window_loop s))) \<and>
     (sn_finSent (fill_window_loop s) \<longrightarrow> bs_buf (sn_stream (fill_window_loop s)) = [])"
  using assms
proof (induction s rule: fill_window_loop.induct)
  case (1 s)
  show ?case
  proof (cases "sn_next_seqno s < window_edge s")
    case True
    obtain again s' where t: "fill_window_turn s = (again, s')" "sn_inv S s'" "sn_ext s s'"
      "sn_acked s' = sn_acked s" "sn_window s' = sn_window s" "sn_next_seqno s' \<le> window_edge s"
      "again \<longleftrightarrow> \<not> sn_finSent s' \<and> sn_next_seqno s < sn_next_seqno s'"
      "\<not> again \<Longrightarrow> sn_finSent s' \<or> bs_buf (sn_stream s') = [] \<and> \<not> bs_eof2 (sn_stream s')"
      "sn_finSent s' \<Longrightarrow> bs_buf (sn_stream s') = []"
      by (rule fill_window_turn_inv [OF "1.prems" True]) blast
    have e: "window_edge s' = window_edge s" using t by (simp add: window_edge_def)
    show ?thesis
    proof (cases again)
      case a: True
      have "sn_window s' \<noteq> -1" "\<not> sn_finSent s'" using t a "1.prems"(2) by simp_all
      from "1.IH" [OF True t(1) [symmetric] a t(2) this] t e True
      show ?thesis
        using sn_ext_trans [OF t(3), of "fill_window_loop s'"] a
        by (auto simp: fill_window_loop.simps [of s])
    next
      case False
      with t True show ?thesis by (auto simp: fill_window_loop.simps [of s])
    qed
  next
    case False
    with "1.prems" show ?thesis by (simp add: fill_window_loop.simps [of s] not_less)
  qed
qed

lemma fill_window_inv:
  assumes "sn_inv S s"
  shows "sn_inv S (TCPSender_fill_window s) \<and> sn_ext s (TCPSender_fill_window s) \<and>
     sn_acked (TCPSender_fill_window s) = sn_acked s \<and>
     (sn_finSent (TCPSender_fill_window s) \<and> \<not> sn_finSent s \<longrightarrow>
        bs_buf (sn_stream (TCPSender_fill_window s)) = []) \<and>
     (sn_finSent s \<longrightarrow> TCPSender_fill_window s = s)"
  using assms fill_window_syn_inv [OF assms] fill_window_loop_inv [OF assms]
  by (auto simp: TCPSender_fill_window_def)

section \<open>Acknowledgments\<close>

text \<open>
  Which outstanding segments stay: those whose last number is above the acknowledged one. Their
  32-bit numbers unwrap correctly because everything in flight is near the acknowledged number.
\<close>

lemma segs_of_ack_outstanding:
  assumes "\<And>seg. seg \<in># segs_of c \<Longrightarrow> \<exists>a. th_seqno (seg_header seg) = wrap a isn \<and>
      unwrap (wrap a isn) isn acked = a \<and> a + seq_len seg < 2 ^ 64 \<and> pos seg = a + seq_len seg"
  shows "segs_of (ack_outstanding isn acked isnew expiry c) = filter_mset (\<lambda>seg. acked < pos seg) (segs_of c)"
  using assms
proof (induction isn acked isnew expiry c rule: ack_outstanding.induct)
  case (2 isn acked isnew expiry start e seg c)
  obtain a where a: "th_seqno (seg_header seg) = wrap a isn" "unwrap (wrap a isn) isn acked = a"
    "a + seq_len seg < 2 ^ 64" "pos seg = a + seq_len seg"
    using "2.prems" [of seg] by auto
  have flags: "add64 (add64 a (Buffer_size (seg_payload seg)))
      (0 + (if th_syn (seg_header seg) then 1 else 0) + (if th_fin (seg_header seg) then 1 else 0)) = a + seq_len seg"
    using a(3) by (simp add: no_wrap seq_len_eq seg_size_def Buffer_size_def)
  have IH: "segs_of (ack_outstanding isn acked isnew expiry c) =
      filter_mset (\<lambda>seg. acked < pos seg) (segs_of c)"
    by (cases "a + seq_len seg \<le> acked") (use 2 a flags in \<open>auto simp: Let_def\<close>)
  show ?case
    using a flags IH by (simp add: Let_def not_le)
qed simp

text \<open>The segments of a chain that end above a number in it: a suffix of the chain.\<close>

lemma chain_filter:
  assumes "chain P b L e" "b \<le> n" "n \<le> e"
  obtains b' L' where "chain P b' L' e" "b' \<le> n" "L' \<noteq> [] \<Longrightarrow> n < b' + seq_len (hd L')"
    "\<And>pos. (\<And>a seg. P a seg \<Longrightarrow> pos seg = a + seq_len seg) \<Longrightarrow>
       mset L' = filter_mset (\<lambda>seg. n < pos seg) (mset L)"
  using assms
proof (induction L arbitrary: b thesis)
  case Nil
  then show ?case by (intro Nil.prems(1) [of b "[]"]) auto
next
  case (Cons x L)
  have x: "P b x" "1 \<le> seq_len x" "chain P (b + seq_len x) L e" using Cons.prems(2) by auto
  show ?case
  proof (cases "b + seq_len x \<le> n")
    case True
    from Cons.IH [OF _ x(3) True Cons.prems(4)] obtain b' L' where
      "chain P b' L' e" "b' \<le> n" "L' \<noteq> [] \<Longrightarrow> n < b' + seq_len (hd L')"
      "\<And>pos. (\<And>a seg. P a seg \<Longrightarrow> pos seg = a + seq_len seg) \<Longrightarrow>
         mset L' = filter_mset (\<lambda>seg. n < pos seg) (mset L)" by blast
    with True x(1) show ?thesis by (intro Cons.prems(1) [of b' L']) auto
  next
    case False
    have "filter_mset (\<lambda>seg. n < pos seg) (mset L) = mset L"
      if pos: "\<And>a seg. P a seg \<Longrightarrow> pos seg = a + seq_len seg" for pos
    proof -
      have "n < pos seg" if seg: "seg \<in> set L" for seg
      proof -
        obtain a where "P a seg" "b + seq_len x \<le> a" using chain_positions [OF x(3) seg] by blast
        with pos [of a seg] False seg show ?thesis by simp
      qed
      then show ?thesis by (simp add: filter_mset_eq_conv)
    qed
    with False x Cons.prems(2,3) show ?thesis
      by (intro Cons.prems(1) [of b "x # L"]) auto
  qed
qed

text \<open>How far the numbers in flight are from the acknowledged one.\<close>

lemma flight_near:
  assumes "sn_inv S s" "flight S s b L"
  shows "sn_next_seqno s \<le> b + 70000" "sn_next_seqno s < 2 ^ 63"
proof -
  have n: "sn_next_seqno s \<le> sn_acked s + 65535" "sn_next_seqno s < 2 ^ 63"
    using assms(1) by (auto simp: sn_inv_def sn_numbers_def sn_stream_inv_def split: if_splits)
  show "sn_next_seqno s < 2 ^ 63" by (rule n)
  show "sn_next_seqno s \<le> b + 70000"
  proof (cases L)
    case Nil
    with assms(2) show ?thesis by (simp add: flight_def)
  next
    case (Cons x L')
    then have "seq_len x \<le> 1002" using assms(2)
      by (auto simp: flight_def seg_ok_def seq_len_eq MAX_PAYLOAD_SIZE_def)
    then show ?thesis using n(1) assms(2) Cons by (simp add: flight_def)
  qed
qed

lemma chain_from: "chain P b L e \<Longrightarrow> chain (\<lambda>a seg. P a seg \<and> b \<le> a) b L e"
proof (induction L arbitrary: b)
  case (Cons x L)
  then have "chain (\<lambda>a seg. P a seg \<and> b + seq_len x \<le> a) (b + seq_len x) L e" by simp
  then have "chain (\<lambda>a seg. P a seg \<and> b \<le> a) (b + seq_len x) L e" by (rule chain_mono) simp
  with Cons.prems show ?case by simp
qed simp

lemma uint_lt_u16: "uint (x :: u16) < 65536"
  using uint_lt2p [of x] by simp

lemma ack_received_inv:
  fixes ackno :: wrapping_int32 and window_size :: u16
  assumes "sn_inv S s" "sn_window s \<noteq> -1"
  defines "s' \<equiv> TCPSender_ack_received ackno window_size s"
  shows "sn_inv S s' \<and> sn_ext s s' \<and> sn_segments_out s' = sn_segments_out s \<and> sn_stream s' = sn_stream s"
proof -
  let ?n = "unwrap ackno (sn_isn s) (sn_acked s)"
  show ?thesis
  proof (cases "?n > sn_next_seqno s \<or> ?n < sn_acked s")
    case True
    with assms(1) show ?thesis by (auto simp: s'_def TCPSender_ack_received_def Let_def)
  next
    case False
    then have ack: "?n \<le> sn_next_seqno s" "sn_acked s \<le> ?n" by auto
    obtain b L where fl: "flight S s b L" using assms(1) by (auto simp: sn_inv_def)
    note near = flight_near [OF assms(1) fl]
    define P where "P a seg \<longleftrightarrow> seg_ok S s a seg \<and> b \<le> a" for a seg
    define pos where "pos seg = unwrap (th_seqno (seg_header seg)) (sn_isn s) ?n + seq_len seg" for seg
    have fl': "mset L = in_flight s" "chain (seg_ok S s) b L (sn_next_seqno s)" "b \<le> sn_acked s"
      using fl by (simp_all add: flight_def)
    have LP: "chain P b L (sn_next_seqno s)" unfolding P_def using chain_from [OF fl'(2)] .
    have P: "th_seqno (seg_header seg) = wrap a (sn_isn s) \<and>
        unwrap (wrap a (sn_isn s)) (sn_isn s) ?n = a \<and> a + seq_len seg < 2 ^ 64 \<and> pos seg = a + seq_len seg"
      if "P a seg" for a seg
    proof -
      have a: "b \<le> a" "a + seq_len seg \<le> sn_next_seqno s" "th_seqno (seg_header seg) = wrap a (sn_isn s)"
        using that by (simp_all add: P_def seg_ok_def seg_true_def)
      have "unwrap (wrap a (sn_isn s)) (sn_isn s) ?n = a"
        by (rule unwrap_wrap_near) (use a near ack fl'(3) in auto)
      with a near show ?thesis by (simp add: pos_def)
    qed
    obtain b' L' where L': "chain P b' L' (sn_next_seqno s)" "b' \<le> ?n" "L' \<noteq> [] \<Longrightarrow> ?n < b' + seq_len (hd L')"
      "\<And>pos. (\<And>a seg. P a seg \<Longrightarrow> pos seg = a + seq_len seg) \<Longrightarrow>
         mset L' = filter_mset (\<lambda>seg. ?n < pos seg) (mset L)"
      by (rule chain_filter [OF LP _ ack(1)]) (use ack(2) fl'(3) in auto)
    have "in_flight s' = filter_mset (\<lambda>seg. ?n < pos seg) (in_flight s)"
    proof -
      have "\<exists>a. th_seqno (seg_header seg) = wrap a (sn_isn s) \<and>
          unwrap (wrap a (sn_isn s)) (sn_isn s) ?n = a \<and> a + seq_len seg < 2 ^ 64 \<and> pos seg = a + seq_len seg"
        if "seg \<in># segs_of (sn_outstanding s)" for seg
      proof -
        have "seg \<in> set L" using that fl'(1) by (metis in_flight_def set_mset_mset)
        then show ?thesis using chain_positions [OF LP] P by blast
      qed
      from segs_of_ack_outstanding [OF this] show ?thesis
        using False by (simp add: s'_def in_flight_def TCPSender_ack_received_def Let_def)
    qed
    then have "mset L' = in_flight s'" using L'(4) [of pos] P fl'(1) by simp
    moreover have ext: "sn_ext s s'" and s': "sn_acked s' = ?n" "sn_next_seqno s' = sn_next_seqno s"
        "sn_segments_out s' = sn_segments_out s" "sn_stream s' = sn_stream s"
      using False by (simp_all add: s'_def sn_ext_def TCPSender_ack_received_def Let_def)
    moreover have "chain (seg_ok S s') b' L' (sn_next_seqno s)"
      using L'(1) by (rule chain_mono) (use seg_ok_ext [OF _ ext] in \<open>simp add: P_def\<close>)
    ultimately have "flight S s' b' L'" using L'(2,3) by (simp add: flight_def)
    moreover have "sn_numbers s'"
      using assms(1,2) False ack uint_lt_u16 [of window_size]
      by (auto simp: s'_def sn_inv_def sn_numbers_def TCPSender_ack_received_def Let_def)
    moreover have "sn_stream_inv S s'" using assms(1) s'(4) by (simp add: sn_inv_def sn_stream_inv_def)
    moreover have "\<forall>seg \<in> set (sn_segments_out s'). \<exists>a. seg_ok S s' a seg"
      using assms(1) s'(3) seg_ok_ext [OF _ ext] by (fastforce simp: sn_inv_def)
    ultimately show ?thesis using ext s' by (auto simp: sn_inv_def)
  qed
qed

section \<open>Timer\<close>

definition abs_seqno :: "tcp_sender \<Rightarrow> nat \<Rightarrow> nat" where
  "abs_seqno s i = unwrap (th_seqno (seg_header (snd (snd (sn_outstanding s ! i))))) (sn_isn s) (sn_acked s)"

lemma least_seqno_spec:
  assumes "iters \<noteq> []"
    "\<forall>i \<in> set iters. unwrap (th_seqno (seg_header (snd (snd (c ! i))))) isn acked < size_max"
  shows "\<exists>i \<in> set iters.
     least_seqno isn acked c iters = (Some i, unwrap (th_seqno (seg_header (snd (snd (c ! i))))) isn acked) \<and>
     (\<forall>j \<in> set iters. unwrap (th_seqno (seg_header (snd (snd (c ! i))))) isn acked
        \<le> unwrap (th_seqno (seg_header (snd (snd (c ! j))))) isn acked)"
  using assms
proof (induction iters rule: rev_induct)
  case (snoc x xs)
  let ?a = "\<lambda>i. unwrap (th_seqno (seg_header (snd (snd (c ! i))))) isn acked"
  show ?case
  proof (cases "xs = []")
    case True
    then show ?thesis using snoc.prems by (simp add: least_seqno_def)
  next
    case False
    with snoc obtain i where i: "i \<in> set xs" "least_seqno isn acked c xs = (Some i, ?a i)"
      "\<forall>j \<in> set xs. ?a i \<le> ?a j" by auto
    have "least_seqno isn acked c (xs @ [x]) =
        (if ?a x < ?a i then (Some x, ?a x) else (Some i, ?a i))"
      using i(2) by (simp add: least_seqno_def Let_def)
    with i show ?thesis by (cases "?a x < ?a i") fastforce+
  qed
qed simp

lemma segs_of_set_expiry [simp]: "segs_of (map (\<lambda>(start, _, seg). (start, expiry, seg)) c) = segs_of c"
  by (induction c rule: segs_of.induct) auto

lemma segs_of_nth: "i < length c \<Longrightarrow> snd (snd (c ! i)) \<in># segs_of c"
proof (induction c arbitrary: i rule: segs_of.induct)
  case (2 t e seg c)
  then show ?case by (cases i) auto
qed simp

lemma segs_of_move:
  "i < length c \<Longrightarrow> add_mset (snd (snd (c ! i))) (segs_of (take i c @ drop (Suc i) c)) = segs_of c"
proof (induction c arbitrary: i rule: segs_of.induct)
  case (2 t e seg c)
  then show ?case by (cases i) (auto simp: add_mset_commute)
qed simp

lemma in_flight_seg_ok:
  assumes "sn_inv S s" "seg \<in># in_flight s"
  shows "\<exists>a. seg_ok S s a seg \<and> unwrap (th_seqno (seg_header seg)) (sn_isn s) (sn_acked s) = a \<and> a < 2 ^ 63"
proof -
  obtain b L where fl: "flight S s b L" using assms(1) by (auto simp: sn_inv_def)
  note near = flight_near [OF assms(1) fl]
  have "seg \<in> set L" using fl assms(2) by (metis flight_def set_mset_mset)
  then obtain a where a: "seg_ok S s a seg" "b \<le> a" "a < sn_next_seqno s"
    using fl chain_positions [of "seg_ok S s" b L "sn_next_seqno s" seg] by (auto simp: flight_def)
  have acked: "sn_acked s \<le> sn_next_seqno s" "b \<le> sn_acked s"
    using assms(1) fl by (simp_all add: sn_inv_def sn_numbers_def flight_def)
  have "unwrap (wrap a (sn_isn s)) (sn_isn s) (sn_acked s) = a"
    by (rule unwrap_wrap_near) (use a near acked in auto)
  with a near show ?thesis by (intro exI [of _ a]) (auto simp: seg_ok_def seg_true_def)
qed

lemma expired_iff: "i \<in> set (expired now c) \<longleftrightarrow> i < length c \<and> fst (snd (c ! i)) \<le> now"
  by (auto simp: expired_def)

text \<open>What a tick does: nothing but moving the clock, or one retransmission.\<close>

lemma tick_cases:
  fixes ms :: nat
  assumes "sn_inv S s"
  defines "now \<equiv> add64 (sn_now s) ms"
  shows "expired now (sn_outstanding s) = [] \<and> TCPSender_tick ms s = Inr (s\<lparr>sn_now := now\<rparr>) \<or>
    (\<exists>i s'. i \<in> set (expired now (sn_outstanding s)) \<and>
       (\<forall>j \<in> set (expired now (sn_outstanding s)). abs_seqno s i \<le> abs_seqno s j) \<and>
       TCPSender_tick ms s = Inr s' \<and>
       (let rto = (if sn_zeroWindow s then sn_rto s else mul32 (sn_rto s) 2);
            seg = snd (snd (sn_outstanding s ! i));
            c = take i (sn_outstanding s) @ drop (Suc i) (sn_outstanding s)
        in s' = s\<lparr>sn_now := now, sn_rto := rto, sn_segments_out := sn_segments_out s @ [seg],
              sn_crtx := inc32 (sn_crtx s),
              sn_outstanding := map (\<lambda>(start, _, seg). (start, add64 now rto, seg))
                (multimap_insert now (add64 now rto, seg) c)\<rparr>))"
proof (cases "expired now (sn_outstanding s) = []")
  case True
  then show ?thesis by (simp add: TCPSender_tick_def Let_def now_def)
next
  case False
  have "\<forall>i \<in> set (expired now (sn_outstanding s)).
      unwrap (th_seqno (seg_header (snd (snd (sn_outstanding s ! i))))) (sn_isn s) (sn_acked s) < size_max"
  proof
    fix i assume "i \<in> set (expired now (sn_outstanding s))"
    then have "snd (snd (sn_outstanding s ! i)) \<in># in_flight s"
      by (simp add: expired_iff in_flight_def segs_of_nth)
    from in_flight_seg_ok [OF assms(1) this]
    show "unwrap (th_seqno (seg_header (snd (snd (sn_outstanding s ! i))))) (sn_isn s) (sn_acked s) < size_max"
      by (auto simp: size_max_def)
  qed
  from least_seqno_spec [OF False this] obtain i where i: "i \<in> set (expired now (sn_outstanding s))"
    "fst (least_seqno (sn_isn s) (sn_acked s) (sn_outstanding s) (expired now (sn_outstanding s))) = Some i"
    "\<forall>j \<in> set (expired now (sn_outstanding s)). abs_seqno s i \<le> abs_seqno s j"
    by (auto simp: abs_seqno_def)
  show ?thesis
    using False i
    by (cases "sn_zeroWindow s"; intro disjI2 exI [of _ i] exI conjI; (rule i)?)
      (simp_all add: TCPSender_tick_def Let_def flip: now_def)
qed

lemma sn_inv_same_flight:
  assumes "sn_inv S s" "sn_stream s' = sn_stream s" "sn_isn s' = sn_isn s"
    "sn_next_seqno s' = sn_next_seqno s" "sn_acked s' = sn_acked s" "sn_window s' = sn_window s"
    "sn_finSent s' = sn_finSent s" "in_flight s' = in_flight s"
    "\<forall>seg \<in> set (sn_segments_out s'). \<exists>a. seg_ok S s a seg"
  shows "sn_inv S s' \<and> sn_ext s s'"
proof -
  have ext: "sn_ext s s'" using assms by (simp add: sn_ext_def)
  obtain b L where "flight S s b L" using assms(1) by (auto simp: sn_inv_def)
  then have "flight S s' b L"
    using assms seg_ok_ext [OF _ ext] chain_mono [of "seg_ok S s" b L _ "seg_ok S s'"]
    by (simp add: flight_def)
  then show ?thesis
    using assms ext seg_ok_ext [OF _ ext] by (fastforce simp: sn_inv_def sn_stream_inv_def sn_numbers_def)
qed

lemma tick_inv:
  assumes "sn_inv S s"
  obtains s' where "TCPSender_tick ms s = Inr s'" "sn_inv S s'" "sn_ext s s'" "sn_acked s' = sn_acked s"
    "sn_window s' = sn_window s" "sn_stream s' = sn_stream s" "in_flight s' = in_flight s"
    "sn_finSent s' = sn_finSent s"
  using tick_cases [OF assms, of ms]
proof (elim disjE conjE exE)
  assume *: "TCPSender_tick ms s = Inr (s\<lparr>sn_now := add64 (sn_now s) ms\<rparr>)"
  show ?thesis
    by (rule that [OF *]; (rule conjunct1 [OF sn_inv_same_flight [OF assms]] conjunct2 [OF sn_inv_same_flight [OF assms]])?)
      (use assms in \<open>simp_all add: in_flight_def sn_inv_def\<close>)
next
  fix i s'
  assume i: "i \<in> set (expired (add64 (sn_now s) ms) (sn_outstanding s))" and *: "TCPSender_tick ms s = Inr s'"
    and s': "let rto = if sn_zeroWindow s then sn_rto s else mul32 (sn_rto s) 2;
         seg = snd (snd (sn_outstanding s ! i)); c = take i (sn_outstanding s) @ drop (Suc i) (sn_outstanding s)
     in s' = s\<lparr>sn_now := add64 (sn_now s) ms, sn_rto := rto, sn_segments_out := sn_segments_out s @ [seg],
              sn_crtx := inc32 (sn_crtx s),
              sn_outstanding := map (\<lambda>(start, _, seg). (start, add64 (add64 (sn_now s) ms) rto, seg))
                (multimap_insert (add64 (sn_now s) ms) (add64 (add64 (sn_now s) ms) rto, seg) c)\<rparr>"
  have il: "i < length (sn_outstanding s)" using i by (simp add: expired_iff)
  then have fl: "in_flight s' = in_flight s"
    using s' segs_of_move [of i "sn_outstanding s"] by (simp add: Let_def in_flight_def)
  have "\<exists>a. seg_ok S s a (snd (snd (sn_outstanding s ! i)))"
    using in_flight_seg_ok [OF assms] segs_of_nth [OF il] by (auto simp: in_flight_def)
  then have "sn_inv S s' \<and> sn_ext s s'"
    by (intro sn_inv_same_flight [OF assms])
      (use s' fl assms in \<open>auto simp: Let_def sn_inv_def\<close>)
  with * fl s' show ?thesis by (intro that [of s']) (simp_all add: Let_def)
qed

section \<open>The remaining operations\<close>

lemma send_empty_inv:
  assumes "sn_inv S s" "sn_window s \<noteq> -1"
  shows "sn_inv S (TCPSender_send_empty_segment s) \<and> sn_ext s (TCPSender_send_empty_segment s)"
proof -
  let ?seg = "header_segment (TCPHeader\<lparr>th_seqno := wrap (sn_next_seqno s) (sn_isn s)\<rparr>)"
  have "1 \<le> sn_next_seqno s" using assms by (simp add: sn_inv_def sn_numbers_def)
  then have "seg_ok S s (sn_next_seqno s) ?seg"
    by (simp add: seg_ok_def seg_true_def seq_len_eq seg_size_def header_segment_def TCPSegment_def TCPHeader_def)
  then show ?thesis
    by (intro sn_inv_same_flight [OF assms(1)])
      (use assms(1) in \<open>auto simp: TCPSender_send_empty_segment_def in_flight_def sn_inv_def\<close>)
qed

lemma transmit_inv:
  assumes "sn_inv S s"
  shows "sn_inv S (s\<lparr>sn_segments_out := tl (sn_segments_out s)\<rparr>) \<and>
         sn_ext s (s\<lparr>sn_segments_out := tl (sn_segments_out s)\<rparr>)"
proof -
  have "set (tl (sn_segments_out s)) \<subseteq> set (sn_segments_out s)" by (cases "sn_segments_out s") auto
  then have "\<forall>seg \<in> set (tl (sn_segments_out s)). \<exists>a. seg_ok S s a seg"
    using assms by (auto simp: sn_inv_def)
  then show ?thesis
    by (intro sn_inv_same_flight [OF assms]) (simp_all add: in_flight_def)
qed

lemma sn_totWrite:
  "sn_inv S s \<Longrightarrow> bs_totWrite (sn_stream s) = bs_totRead (sn_stream s) + length (bs_buf (sn_stream s))"
  by (auto simp: sn_inv_def sn_stream_inv_def bs_inv_def no_wrap)

text \<open>Only the stream changes: the application writes, ends the input or an error is set.\<close>

lemma sn_inv_stream:
  assumes "sn_inv S s" "sn_stream_inv S (s\<lparr>sn_stream := st\<rparr>)" "bs_totRead st = bs_totRead (sn_stream s)"
    "bs_eof2 (sn_stream s) \<longrightarrow> bs_eof2 st"
  shows "sn_inv S (s\<lparr>sn_stream := st\<rparr>)"
proof -
  let ?s' = "s\<lparr>sn_stream := st\<rparr>"
  have ok: "seg_ok S ?s' = seg_ok S s" by (simp add: fun_eq_iff seg_ok_def assms(3))
  obtain b L where "flight S s b L" using assms(1) by (auto simp: sn_inv_def)
  then have "flight S ?s' b L" by (simp add: flight_def in_flight_def ok)
  then show ?thesis
    using assms by (auto simp: sn_inv_def sn_numbers_def ok)
qed

lemma stream_write_inv:
  assumes "sn_inv S s" "ByteStream_write d (sn_stream s) = (n, st)"
    "take n d = cut S (bs_totWrite (sn_stream s)) (bs_totWrite (sn_stream s) + n)"
    "bs_totWrite (sn_stream s) + n < 2 ^ 62"
  shows "sn_inv S (s\<lparr>sn_stream := st\<rparr>) \<and> bs_totWrite st = bs_totWrite (sn_stream s) + n \<and>
    bs_eof2 st = bs_eof2 (sn_stream s)"
proof -
  let ?b = "sn_stream s"
  have I: "bs_inv ?b" "bs_buf ?b = cut S (bs_totRead ?b) (bs_totWrite ?b)"
    "bs_totWrite ?b = bs_totRead ?b + length (bs_buf ?b)"
    using assms(1) sn_totWrite [OF assms(1)] by (auto simp: sn_inv_def sn_stream_inv_def)
  have n: "n = min (length d) (bs_rem ?b)" "bs_buf st = bs_buf ?b @ take n d" "bs_totRead st = bs_totRead ?b"
    "bs_eof2 st = bs_eof2 ?b" "bs_totWrite st = bs_totWrite ?b + n"
    using assms(2,4) by (auto simp: ByteStream_write_def Let_def no_wrap)
  have "bs_inv st" using bs_inv_write [OF I(1), of d] assms(2) by simp
  moreover have "bs_buf st = cut S (bs_totRead st) (bs_totRead st + length (bs_buf st))"
    unfolding n(2,3) assms(3) using I(3) n(1) by (subst (1) I(2)) (simp add: cut_append add.assoc)
  moreover have "bs_totRead st + length (bs_buf st) < 2 ^ 62"
    using assms(4) I(3) n(1-3) by simp
  ultimately have "sn_inv S (s\<lparr>sn_stream := st\<rparr>)"
    by (intro sn_inv_stream [OF assms(1)]) (use n in \<open>simp_all add: sn_stream_inv_def\<close>)
  then show ?thesis using n by simp
qed

lemma stream_flags_inv:
  assumes "sn_inv S s"
  shows "sn_inv S (TCPSender_stream_in ByteStream_end_input s)"
    "sn_inv S (TCPSender_stream_in ByteStream_set_error s)"
  unfolding TCPSender_stream_in_def
  by (rule sn_inv_stream [OF assms];
      use assms bs_inv_flags(2) [of "sn_stream s"] in
        \<open>simp add: sn_inv_def sn_stream_inv_def ByteStream_set_error_def\<close>)+

section \<open>Properties\<close>

text \<open>
  C5: \<^verbatim>\<open>fill_window\<close> sends as much as it may and no more: past the SYN the next sequence number does
  not go beyond the acknowledged number plus the window, and afterwards either the FIN has been
  sent, or the window is full, or the stream has nothing to send and has not ended. Every segment
  then queued or outstanding carries the bytes of the stream that belong at its sequence number.
\<close>

theorem TCPSender_fill_window_spec:
  assumes "sn_inv S s" "sn_window s \<noteq> -1"
  defines "s' \<equiv> TCPSender_fill_window s"
  shows "sn_next_seqno s \<le> sn_next_seqno s' \<and>
     sn_next_seqno s' \<le> max (sn_next_seqno s) (sn_acked s + nat (sn_window s)) \<and>
     (sn_finSent s' \<or> sn_acked s + nat (sn_window s) \<le> sn_next_seqno s' \<or>
      bs_buf (sn_stream s') = [] \<and> \<not> bs_eof2 (sn_stream s')) \<and>
     (\<forall>seg \<in> set (sn_segments_out s') \<union> set_mset (in_flight s'). \<exists>a. seg_true S (sn_isn s) a seg)"
proof -
  have inv: "sn_inv S s'" "sn_ext s s'" using fill_window_inv [OF assms(1)] by (simp_all add: s'_def)
  have "\<forall>seg \<in> set (sn_segments_out s') \<union> set_mset (in_flight s'). \<exists>a. seg_ok S s' a seg"
    using inv(1) in_flight_seg_ok [OF inv(1)] by (auto simp: sn_inv_def)
  then have "\<forall>seg \<in> set (sn_segments_out s') \<union> set_mset (in_flight s'). \<exists>a. seg_true S (sn_isn s) a seg"
    using inv(2) by (fastforce simp: seg_ok_def sn_ext_def)
  moreover have "window_edge s = sn_acked s + nat (sn_window s)"
    using window_edge_eq [OF assms(1,2)] by simp
  ultimately show ?thesis
    using fill_window_loop_inv [OF assms(1,2)] inv(2) assms(2)
    by (cases "sn_finSent s") (auto simp: s'_def TCPSender_fill_window_def sn_ext_def)
qed

text \<open>A sender of five bytes, its SYN sent and acknowledged with a window of three.\<close>

definition demo_sender :: tcp_sender where
  "demo_sender = TCPSender_ack_received (WrappingInt32 6) 3
     (TCPSender_fill_window
       (TCPSender_stream_in (\<lambda>b. snd (ByteStream_write [0, 1, 2, 3, 4] b))
         (TCPSender 0 100 1000 (Some (WrappingInt32 5)))))"

lemma demo_sender_inv: "sn_inv (\<lambda>n. word_of_nat n) demo_sender" "sn_window demo_sender = 3"
  "sn_acked demo_sender = 1" "sn_next_seqno demo_sender = 1" "sn_rto demo_sender = 1000"
proof -
  let ?S = "\<lambda>n. word_of_nat n :: byte"
  let ?s0 = "TCPSender 0 100 1000 (Some (WrappingInt32 5))"
  let ?s1 = "TCPSender_stream_in (\<lambda>b. snd (ByteStream_write [0, 1, 2, 3, 4] b)) ?s0"
  let ?s2 = "TCPSender_fill_window ?s1"
  have w: "ByteStream_write [0, 1, 2, 3, 4] (sn_stream ?s0) =
      (5, snd (ByteStream_write [0, 1, 2, 3, 4] (sn_stream ?s0)))"
    by (simp add: ByteStream_write_def TCPSender_def ByteStream_def)
  have inv0: "sn_inv ?S ?s0" by (rule sn_inv_new) simp
  have "take 5 [0, 1, 2, 3, 4 :: byte] = cut ?S (bs_totWrite (sn_stream ?s0)) (bs_totWrite (sn_stream ?s0) + 5)"
    "bs_totWrite (sn_stream ?s0) + 5 < 2 ^ 62"
    by (simp_all add: TCPSender_def ByteStream_def cut_def upt_rec)
  from stream_write_inv [OF inv0 w this]
  have inv1: "sn_inv ?S ?s1" by (simp add: TCPSender_stream_in_def)
  have s2: "?s2 = (send_new (header_segment (TCPHeader\<lparr>th_seqno := WrappingInt32 5, th_syn := True\<rparr>))
      (?s1\<lparr>sn_window := 1\<rparr>))\<lparr>sn_next_seqno := 1\<rparr>"
    by (simp add: TCPSender_fill_window_def fill_window_syn_def TCPSender_stream_in_def TCPSender_def
        ByteStream_eof_def ByteStream_write_def ByteStream_def Let_def sub64_def)
  have inv2: "sn_inv ?S ?s2" using fill_window_inv [OF inv1] by simp
  have "sn_window ?s2 \<noteq> -1" unfolding s2 by (simp add: send_new_def)
  from ack_received_inv [OF inv2 this] show "sn_inv ?S demo_sender" by (simp add: demo_sender_def)
  have u: "unwrap (WrappingInt32 6) (WrappingInt32 5) 0 = 1"
    by (simp add: unwrap_def wrap_def round32_def add64_def sub64_def Let_def)
  show "sn_window demo_sender = 3" "sn_acked demo_sender = 1" "sn_next_seqno demo_sender = 1"
    "sn_rto demo_sender = 1000"
    unfolding demo_sender_def s2
    by (simp_all add: TCPSender_ack_received_def send_new_def TCPSender_stream_in_def TCPSender_def u Let_def)
qed

theorem TCPSender_fill_window_spec_witness:
  "sn_next_seqno (TCPSender_fill_window demo_sender) \<le> 4"
  using TCPSender_fill_window_spec [OF demo_sender_inv(1)] by (simp add: demo_sender_inv)

text \<open>
  \<^verbatim>\<open>bytes_in_flight\<close> counts the sequence numbers from the first outstanding segment to the next
  one to be sent: at least all that are not acknowledged, at most one segment more (an
  acknowledgment may lie inside a segment), and 0 exactly when everything sent is acknowledged.
\<close>

theorem TCPSender_bytes_in_flight_spec:
  assumes "sn_inv S s"
  shows "(TCPSender_bytes_in_flight s = 0 \<longleftrightarrow> sn_acked s = sn_next_seqno s) \<and>
     sn_next_seqno s - sn_acked s \<le> TCPSender_bytes_in_flight s \<and>
     TCPSender_bytes_in_flight s \<le> sn_next_seqno s - sn_acked s + MAX_PAYLOAD_SIZE + 1"
proof -
  obtain b L where fl: "flight S s b L" using assms by (auto simp: sn_inv_def)
  note near = flight_near [OF assms fl]
  have L: "chain (seg_ok S s) b L (sn_next_seqno s)" "mset L = in_flight s" "b \<le> sn_acked s"
    "L \<noteq> [] \<longrightarrow> sn_acked s < b + seq_len (hd L)" "sn_acked s \<le> sn_next_seqno s"
    using fl assms by (simp_all add: flight_def sn_inv_def sn_numbers_def)
  have bif: "TCPSender_bytes_in_flight s = sn_next_seqno s - b"
    using bytes_in_flight_eq [OF L(1,2)] near(2) by simp
  show ?thesis
  proof (cases L)
    case Nil
    then show ?thesis using L bif by simp
  next
    case (Cons x L')
    then have "b + seq_len x \<le> sn_next_seqno s" "seq_len x \<le> MAX_PAYLOAD_SIZE + 2"
      using L(1) by (auto simp: seg_ok_def seq_len_eq)
    then show ?thesis using L(3-5) Cons bif by auto
  qed
qed

theorem TCPSender_bytes_in_flight_spec_witness: "TCPSender_bytes_in_flight demo_sender = 0"
  using TCPSender_bytes_in_flight_spec [OF demo_sender_inv(1)] by (simp add: demo_sender_inv)

text \<open>
  C6: a tick either only moves the clock, when no outstanding segment has expired, or retransmits
  exactly one segment: an expired one, none of the expired having a lower sequence number. It then
  counts one more consecutive retransmission, doubles the timeout unless the peer's window is zero,
  and restarts the timer of everything outstanding. What is in flight stays the same, and the
  uninitialised iterator of the code is never used.
\<close>

theorem TCPSender_tick_spec:
  assumes "sn_inv S s" "sn_now s + ms < 2 ^ 64"
  shows "\<exists>s'. TCPSender_tick ms s = Inr s' \<and> sn_now s' = sn_now s + ms \<and> in_flight s' = in_flight s \<and>
    (let old = expired (sn_now s + ms) (sn_outstanding s) in
     if old = [] then s' = s\<lparr>sn_now := sn_now s + ms\<rparr>
     else \<exists>i \<in> set old. (\<forall>j \<in> set old. abs_seqno s i \<le> abs_seqno s j) \<and>
       sn_segments_out s' = sn_segments_out s @ [snd (snd (sn_outstanding s ! i))] \<and>
       sn_crtx s' = inc32 (sn_crtx s) \<and>
       sn_rto s' = (if sn_zeroWindow s then sn_rto s else mul32 (sn_rto s) 2) \<and>
       (\<forall>(_, expiry, _) \<in> set (sn_outstanding s'). expiry = add64 (sn_now s') (sn_rto s')))"
proof -
  have now: "add64 (sn_now s) ms = sn_now s + ms" using assms(2) by (simp add: no_wrap)
  obtain s' where s': "TCPSender_tick ms s = Inr s'" "in_flight s' = in_flight s"
    using tick_inv [OF assms(1), of ms] by blast
  show ?thesis
    using tick_cases [OF assms(1), of ms] unfolding now
  proof (elim disjE conjE exE)
    assume "expired (sn_now s + ms) (sn_outstanding s) = []" "TCPSender_tick ms s = Inr (s\<lparr>sn_now := sn_now s + ms\<rparr>)"
    then show ?thesis by (simp add: in_flight_def)
  next
    fix i t
    assume i: "i \<in> set (expired (sn_now s + ms) (sn_outstanding s))"
      "\<forall>j \<in> set (expired (sn_now s + ms) (sn_outstanding s)). abs_seqno s i \<le> abs_seqno s j"
      "TCPSender_tick ms s = Inr t"
      and t: "let rto = if sn_zeroWindow s then sn_rto s else mul32 (sn_rto s) 2;
         seg = snd (snd (sn_outstanding s ! i)); c = take i (sn_outstanding s) @ drop (Suc i) (sn_outstanding s)
       in t = s\<lparr>sn_now := sn_now s + ms, sn_rto := rto, sn_segments_out := sn_segments_out s @ [seg],
              sn_crtx := inc32 (sn_crtx s),
              sn_outstanding := map (\<lambda>(start, _, seg). (start, add64 (sn_now s + ms) rto, seg))
                (multimap_insert (sn_now s + ms) (add64 (sn_now s + ms) rto, seg) c)\<rparr>"
    have "t = s'" using i(3) s'(1) by simp
    moreover have "expired (sn_now s + ms) (sn_outstanding s) \<noteq> []" using i(1) by auto
    ultimately show ?thesis
      using i s' t by (intro exI [of _ s'] conjI) (auto simp: Let_def intro!: bexI [of _ i])
  qed
qed

theorem TCPSender_tick_spec_witness:
  "\<exists>s'. TCPSender_tick 10 demo_sender = Inr s' \<and> in_flight s' = in_flight demo_sender"
proof -
  have "sn_now demo_sender = 0"
    by (simp add: demo_sender_def TCPSender_ack_received_def TCPSender_fill_window_def fill_window_syn_def
        TCPSender_stream_in_def TCPSender_def send_new_def Let_def ByteStream_eof_def
        ByteStream_write_def ByteStream_def sub64_def)
  then show ?thesis using TCPSender_tick_spec [OF demo_sender_inv(1), of 10] by auto
qed

end
