(* ===== verification/TCP_Connection.thy ===== *)
theory TCP_Connection
  imports TCP_Sender
begin

text \<open>
  \<^verbatim>\<open>TCPConnection\<close> (\<^verbatim>\<open>libsponge/tcp_connection.hh\<close>, \<^verbatim>\<open>tcp_connection.cc\<close>) and \<^verbatim>\<open>TCPState\<close>
  (\<^verbatim>\<open>tcp_helpers/tcp_state.hh\<close>, \<^verbatim>\<open>tcp_state.cc\<close>): one endpoint, made of a receiver and a sender; the
  rules for acknowledging, resetting, lingering and giving up; and the names of its states. The
  debug output (\<^verbatim>\<open>DEBUG\<close> is false) is left out.
\<close>

section \<open>State\<close>

record tcp_connection =
  cn_cfg :: tcp_config
  cn_receiver :: tcp_receiver
  cn_sender :: tcp_sender
  cn_segments_out :: "tcp_segment list"
  cn_linger_after_streams_finish :: bool
  cn_tnow :: nat
  cn_tlast :: nat
  cn_tlastsent :: nat
  cn_active2 :: bool
  cn_finreceived :: bool
  cn_finsent :: bool

definition TCPConnection :: "u32 \<Rightarrow> tcp_config \<Rightarrow> tcp_connection" where
  "TCPConnection random cfg =
     \<lparr>cn_cfg = cfg, cn_receiver = TCPReceiver (cfg_recv_capacity cfg),
      cn_sender = TCPSender random (cfg_send_capacity cfg) (cfg_rt_timeout cfg) (cfg_fixed_isn cfg),
      cn_segments_out = [], cn_linger_after_streams_finish = True, cn_tnow = 0, cn_tlast = 0,
      cn_tlastsent = 0, cn_active2 = True, cn_finreceived = False, cn_finsent = False\<rparr>"

section \<open>Operations\<close>

definition TCPConnection_remaining_outbound_capacity :: "tcp_connection \<Rightarrow> size_t" where
  "TCPConnection_remaining_outbound_capacity c = ByteStream_remaining_capacity (sn_stream (cn_sender c))"

definition TCPConnection_bytes_in_flight :: "tcp_connection \<Rightarrow> size_t" where
  "TCPConnection_bytes_in_flight c = TCPSender_bytes_in_flight (cn_sender c)"

definition TCPConnection_unassembled_bytes :: "tcp_connection \<Rightarrow> size_t" where
  "TCPConnection_unassembled_bytes c = TCPReceiver_unassembled_bytes (cn_receiver c)"

definition TCPConnection_time_since_last_segment_received :: "tcp_connection \<Rightarrow> size_t" where
  "TCPConnection_time_since_last_segment_received c = sub64 (cn_tnow c) (cn_tlast c)"

definition TCPConnection_active :: "tcp_connection \<Rightarrow> bool" where
  "TCPConnection_active c = cn_active2 c"

text \<open>The fields the receiver determines, set on every segment on its way out.\<close>

definition stamp :: "tcp_connection \<Rightarrow> tcp_segment \<Rightarrow> tcp_segment" where
  "stamp c seg =
     (let h = seg_header seg;
          h = (case TCPReceiver_ackno (cn_receiver c) of
                 Some ackno \<Rightarrow> h\<lparr>th_ack := True, th_ackno := ackno\<rparr> | None \<Rightarrow> h);
          h = (if cfg_recv_capacity (cn_cfg c) > 65535 then h\<lparr>th_win := 0xffff\<rparr>
               else h\<lparr>th_win := word_of_nat (cfg_recv_capacity (cn_cfg c))\<rparr>)
      in seg\<lparr>seg_header := h\<rparr>)"

text \<open>The loop that empties the sender's queue.\<close>

fun send_queued :: "tcp_segment list \<Rightarrow> tcp_connection \<Rightarrow> tcp_connection" where
  "send_queued [] c = c"
| "send_queued (seg # q) c =
     send_queued q (c\<lparr>cn_segments_out := cn_segments_out c @ [stamp c seg],
       cn_tlastsent := cn_tnow c,
       cn_finsent := (if th_fin (seg_header (stamp c seg)) then True else cn_finsent c)\<rparr>)"

definition fill_window_and_send :: "tcp_connection \<Rightarrow> nat \<times> tcp_connection" where
  "fill_window_and_send c =
     (let sender = TCPSender_fill_window (cn_sender c);
          q = sn_segments_out sender
      in (length q, send_queued q (c\<lparr>cn_sender := sender\<lparr>sn_segments_out := []\<rparr>\<rparr>)))"

definition passive_closed :: "tcp_connection \<Rightarrow> bool" where
  "passive_closed c \<longleftrightarrow> \<not> cn_linger_after_streams_finish c \<and>
     ByteStream_eof (sn_stream (cn_sender c)) \<and> TCPSender_bytes_in_flight (cn_sender c) = 0"

definition set_errors :: "tcp_connection \<Rightarrow> tcp_connection" where
  "set_errors c = c\<lparr>cn_sender := TCPSender_stream_in ByteStream_set_error (cn_sender c),
     cn_receiver := TCPReceiver_stream_error (cn_receiver c)\<rparr>"

definition TCPConnection_segment_received :: "tcp_segment \<Rightarrow> tcp_connection \<Rightarrow> tcp_connection" where
  "TCPConnection_segment_received seg c =
     (let h = seg_header seg in
      if \<not> TCPConnection_active c then c
      else if TCPSender_bytes_in_flight (cn_sender c) = 0 \<and> \<not> ByteStream_eof (sn_stream (cn_sender c)) \<and>
              TCPReceiver_ackno (cn_receiver c) = None \<and> \<not> th_syn h then c
      else
        let c = (if passive_closed c \<and> th_ack h \<and> th_ackno h = TCPSender_next_seqno (cn_sender c)
                 then c\<lparr>cn_active2 := False\<rparr> else c)
        in
        if th_rst h \<and> (TCPReceiver_ackno (cn_receiver c) = None \<or>
                       Some (th_seqno h) = TCPReceiver_ackno (cn_receiver c))
        then (set_errors c)\<lparr>cn_active2 := False\<rparr>
        else
          let c = (if th_fin h
                   then c\<lparr>cn_finreceived := True,
                          cn_linger_after_streams_finish :=
                            (if \<not> cn_finsent c then False else cn_linger_after_streams_finish c)\<rparr>
                   else c);
              c = c\<lparr>cn_tlast := cn_tnow c,
                    cn_receiver := TCPReceiver_segment_received seg (cn_receiver c)\<rparr>;
              c = (if th_ack h
                   then c\<lparr>cn_sender := TCPSender_ack_received (th_ackno h) (th_win h) (cn_sender c)\<rparr>
                   else c);
              seqoccupied = (Buffer_size (seg_payload seg) \<noteq> 0 \<or> th_syn h \<or> th_fin h);
              (sent, c) = fill_window_and_send c;
              c = (if sent = 0 \<and> seqoccupied
                   then snd (fill_window_and_send
                          (c\<lparr>cn_sender := TCPSender_send_empty_segment (cn_sender c)\<rparr>))
                   else c)
          in if passive_closed c \<and> th_ack h then c\<lparr>cn_active2 := False\<rparr> else c)"

definition TCPConnection_write :: "bytes \<Rightarrow> tcp_connection \<Rightarrow> size_t \<times> tcp_connection" where
  "TCPConnection_write data c =
     (if \<not> TCPConnection_active c then (0, c)
      else
        let (written, stream) = ByteStream_write data (sn_stream (cn_sender c));
            c = c\<lparr>cn_sender := (cn_sender c)\<lparr>sn_stream := stream\<rparr>\<rparr>
        in (written, snd (fill_window_and_send c)))"

text \<open>\<^verbatim>\<open>segments_out().front()\<close> is the oldest queued segment, not the empty one just queued.\<close>

definition sendRST :: "tcp_connection \<Rightarrow> tcp_connection" where
  "sendRST c =
     (let c = c\<lparr>cn_active2 := False, cn_sender := TCPSender_send_empty_segment (cn_sender c)\<rparr>;
          seg = hd (sn_segments_out (cn_sender c));
          c = c\<lparr>cn_sender := (cn_sender c)\<lparr>sn_segments_out := tl (sn_segments_out (cn_sender c))\<rparr>\<rparr>;
          seg = seg\<lparr>seg_header := (seg_header seg)\<lparr>th_rst := True\<rparr>\<rparr>;
          c = set_errors c
      in c\<lparr>cn_segments_out := cn_segments_out c @ [seg]\<rparr>)"

definition TCPConnection_tick :: "nat \<Rightarrow> tcp_connection \<Rightarrow> exn + tcp_connection" where
  "TCPConnection_tick ms_since_last_tick c =
     (if \<not> TCPConnection_active c then Inr c
      else if TCPSender_bytes_in_flight (cn_sender c) = 0 \<and> \<not> ByteStream_eof (sn_stream (cn_sender c)) \<and>
              TCPReceiver_ackno (cn_receiver c) = None then Inr c
      else
        let c = c\<lparr>cn_tnow := add64 (cn_tnow c) ms_since_last_tick\<rparr>;
            c = (if TCPSender_bytes_in_flight (cn_sender c) = 0 \<and> ByteStream_eof (sn_stream (cn_sender c)) \<and>
                    sub64 (cn_tnow c) (cn_tlastsent c) \<ge> 10 * cfg_rt_timeout (cn_cfg c)
                 then c\<lparr>cn_linger_after_streams_finish := False, cn_active2 := False\<rparr> else c)
        in bindE (TCPSender_tick ms_since_last_tick (cn_sender c)) (\<lambda>sender.
             let c = c\<lparr>cn_sender := sender\<rparr>
             in Inr (if TCPSender_consecutive_retransmissions (cn_sender c) > MAX_RETX_ATTEMPTS
                     then sendRST c else snd (fill_window_and_send c))))"

definition TCPConnection_end_input_stream :: "tcp_connection \<Rightarrow> tcp_connection" where
  "TCPConnection_end_input_stream c =
     (if \<not> TCPConnection_active c then c
      else snd (fill_window_and_send
             (c\<lparr>cn_sender := TCPSender_stream_in ByteStream_end_input (cn_sender c)\<rparr>)))"

definition TCPConnection_connect :: "tcp_connection \<Rightarrow> tcp_connection" where
  "TCPConnection_connect c = snd (fill_window_and_send c)"

definition TCPConnection_destroy :: "tcp_connection \<Rightarrow> tcp_connection" where
  "TCPConnection_destroy c = (if TCPConnection_active c then sendRST c else c)"

definition TCPConnection_inbound_stream :: "tcp_connection \<Rightarrow> byte_stream" where
  "TCPConnection_inbound_stream c = TCPReceiver_stream_out (cn_receiver c)"

text \<open>The owner reads the inbound stream and takes segments from the outbound queue.\<close>

definition TCPConnection_read :: "nat \<Rightarrow> tcp_connection \<Rightarrow> bytes \<times> tcp_connection" where
  "TCPConnection_read n c =
     (ByteStream_peek_output n (TCPConnection_inbound_stream c),
      c\<lparr>cn_receiver := TCPReceiver_pop n (cn_receiver c)\<rparr>)"

definition TCPConnection_pop_segment :: "tcp_connection \<Rightarrow> tcp_connection" where
  "TCPConnection_pop_segment c = c\<lparr>cn_segments_out := tl (cn_segments_out c)\<rparr>"

section \<open>The names of the states\<close>

record tcp_state =
  ts_sender :: string
  ts_receiver :: string
  ts_active :: bool
  ts_linger_after_streams_finish :: bool

datatype state_name =
    State_LISTEN
  | State_SYN_RCVD
  | State_SYN_SENT
  | State_ESTABLISHED
  | State_CLOSE_WAIT
  | State_LAST_ACK
  | State_FIN_WAIT_1
  | State_FIN_WAIT_2
  | State_CLOSING
  | State_TIME_WAIT
  | State_CLOSED
  | State_RESET

definition Receiver_ERROR :: string where "Receiver_ERROR = ''error (connection was reset)''"
definition Receiver_LISTEN :: string where "Receiver_LISTEN = ''waiting for SYN: ackno is empty''"
definition Receiver_SYN_RECV :: string where
  "Receiver_SYN_RECV = ''SYN received (ackno exists), and input to stream hasn't ended''"
definition Receiver_FIN_RECV :: string where "Receiver_FIN_RECV = ''input to stream has ended''"

definition Sender_ERROR :: string where "Sender_ERROR = ''error (connection was reset)''"
definition Sender_CLOSED :: string where "Sender_CLOSED = ''waiting for stream to begin (no SYN sent)''"
definition Sender_SYN_SENT :: string where "Sender_SYN_SENT = ''stream started but nothing acknowledged''"
definition Sender_SYN_ACKED :: string where "Sender_SYN_ACKED = ''stream ongoing''"
definition Sender_FIN_SENT :: string where
  "Sender_FIN_SENT = ''stream finished (FIN sent) but not fully acknowledged''"
definition Sender_FIN_ACKED :: string where "Sender_FIN_ACKED = ''stream finished and fully acknowledged''"

definition TCPState_eq :: "tcp_state \<Rightarrow> tcp_state \<Rightarrow> bool" where
  "TCPState_eq s other \<longleftrightarrow> ts_active s = ts_active other \<and>
     ts_linger_after_streams_finish s = ts_linger_after_streams_finish other \<and>
     ts_sender s = ts_sender other \<and> ts_receiver s = ts_receiver other"

definition TCPState_name :: "tcp_state \<Rightarrow> string" where
  "TCPState_name s = ''sender=`'' @ ts_sender s @ ''`, receiver=`'' @ ts_receiver s @ ''`, active='' @
     (if ts_active s then ''1'' else ''0'') @ '', linger_after_streams_finish='' @
     (if ts_linger_after_streams_finish s then ''1'' else ''0'')"

fun TCPState_official :: "state_name \<Rightarrow> tcp_state" where
  "TCPState_official State_LISTEN = \<lparr>ts_sender = Sender_CLOSED, ts_receiver = Receiver_LISTEN,
     ts_active = True, ts_linger_after_streams_finish = True\<rparr>"
| "TCPState_official State_SYN_RCVD = \<lparr>ts_sender = Sender_SYN_SENT, ts_receiver = Receiver_SYN_RECV,
     ts_active = True, ts_linger_after_streams_finish = True\<rparr>"
| "TCPState_official State_SYN_SENT = \<lparr>ts_sender = Sender_SYN_SENT, ts_receiver = Receiver_LISTEN,
     ts_active = True, ts_linger_after_streams_finish = True\<rparr>"
| "TCPState_official State_ESTABLISHED = \<lparr>ts_sender = Sender_SYN_ACKED, ts_receiver = Receiver_SYN_RECV,
     ts_active = True, ts_linger_after_streams_finish = True\<rparr>"
| "TCPState_official State_CLOSE_WAIT = \<lparr>ts_sender = Sender_SYN_ACKED, ts_receiver = Receiver_FIN_RECV,
     ts_active = True, ts_linger_after_streams_finish = False\<rparr>"
| "TCPState_official State_LAST_ACK = \<lparr>ts_sender = Sender_FIN_SENT, ts_receiver = Receiver_FIN_RECV,
     ts_active = True, ts_linger_after_streams_finish = False\<rparr>"
| "TCPState_official State_CLOSING = \<lparr>ts_sender = Sender_FIN_SENT, ts_receiver = Receiver_FIN_RECV,
     ts_active = True, ts_linger_after_streams_finish = True\<rparr>"
| "TCPState_official State_FIN_WAIT_1 = \<lparr>ts_sender = Sender_FIN_SENT, ts_receiver = Receiver_SYN_RECV,
     ts_active = True, ts_linger_after_streams_finish = True\<rparr>"
| "TCPState_official State_FIN_WAIT_2 = \<lparr>ts_sender = Sender_FIN_ACKED, ts_receiver = Receiver_SYN_RECV,
     ts_active = True, ts_linger_after_streams_finish = True\<rparr>"
| "TCPState_official State_TIME_WAIT = \<lparr>ts_sender = Sender_FIN_ACKED, ts_receiver = Receiver_FIN_RECV,
     ts_active = True, ts_linger_after_streams_finish = True\<rparr>"
| "TCPState_official State_RESET = \<lparr>ts_sender = Sender_ERROR, ts_receiver = Receiver_ERROR,
     ts_active = False, ts_linger_after_streams_finish = False\<rparr>"
| "TCPState_official State_CLOSED = \<lparr>ts_sender = Sender_FIN_ACKED, ts_receiver = Receiver_FIN_RECV,
     ts_active = False, ts_linger_after_streams_finish = False\<rparr>"

definition state_summary_receiver :: "tcp_receiver \<Rightarrow> string" where
  "state_summary_receiver r =
     (if ByteStream_error (TCPReceiver_stream_out r) then Receiver_ERROR
      else if TCPReceiver_ackno r = None then Receiver_LISTEN
      else if ByteStream_input_ended (TCPReceiver_stream_out r) then Receiver_FIN_RECV
      else Receiver_SYN_RECV)"

definition state_summary_sender :: "tcp_sender \<Rightarrow> string" where
  "state_summary_sender s =
     (if ByteStream_error (sn_stream s) then Sender_ERROR
      else if TCPSender_next_seqno_absolute s = 0 then Sender_CLOSED
      else if TCPSender_next_seqno_absolute s = TCPSender_bytes_in_flight s then Sender_SYN_SENT
      else if \<not> ByteStream_eof (sn_stream s) then Sender_SYN_ACKED
      else if TCPSender_next_seqno_absolute s < add64 (ByteStream_bytes_written (sn_stream s)) 2
      then Sender_SYN_ACKED
      else if TCPSender_bytes_in_flight s \<noteq> 0 then Sender_FIN_SENT
      else Sender_FIN_ACKED)"

definition TCPState :: "tcp_sender \<Rightarrow> tcp_receiver \<Rightarrow> bool \<Rightarrow> bool \<Rightarrow> tcp_state" where
  "TCPState sender receiver active linger =
     \<lparr>ts_sender = state_summary_sender sender, ts_receiver = state_summary_receiver receiver,
      ts_active = active, ts_linger_after_streams_finish = (if active then linger else False)\<rparr>"

definition TCPConnection_state :: "tcp_connection \<Rightarrow> tcp_state" where
  "TCPConnection_state c = TCPState (cn_sender c) (cn_receiver c) (TCPConnection_active c)
     (cn_linger_after_streams_finish c)"

section \<open>Sending\<close>

lemma stamp_cong:
  "cn_receiver c' = cn_receiver c \<Longrightarrow> cn_cfg c' = cn_cfg c \<Longrightarrow> stamp c' = stamp c"
  by (rule ext) (simp only: stamp_def)

lemma stamp_simps [simp]:
  "th_seqno (seg_header (stamp c seg)) = th_seqno (seg_header seg)"
  "th_syn (seg_header (stamp c seg)) = th_syn (seg_header seg)"
  "th_fin (seg_header (stamp c seg)) = th_fin (seg_header seg)"
  "th_rst (seg_header (stamp c seg)) = th_rst (seg_header seg)"
  "seg_payload (stamp c seg) = seg_payload seg"
  by (simp_all add: stamp_def Let_def split: option.splits)

lemma stamp_ack:
  "th_win (seg_header (stamp c seg)) = word_of_nat (min 65535 (cfg_recv_capacity (cn_cfg c)))"
  "TCPReceiver_ackno (cn_receiver c) = Some a \<Longrightarrow>
     th_ack (seg_header (stamp c seg)) \<and> th_ackno (seg_header (stamp c seg)) = a"
  by (auto simp: stamp_def Let_def min_def split: option.splits)

lemma send_queued_eq:
  "send_queued q c = c\<lparr>cn_segments_out := cn_segments_out c @ map (stamp c) q,
     cn_tlastsent := (if q = [] then cn_tlastsent c else cn_tnow c),
     cn_finsent := (cn_finsent c \<or> (\<exists>seg \<in> set q. th_fin (seg_header seg)))\<rparr>"
proof (induction q arbitrary: c)
  case (Cons seg q)
  let ?c = "c\<lparr>cn_segments_out := cn_segments_out c @ [stamp c seg], cn_tlastsent := cn_tnow c,
    cn_finsent := (if th_fin (seg_header (stamp c seg)) then True else cn_finsent c)\<rparr>"
  have "stamp ?c = stamp c" by (rule stamp_cong) simp_all
  then show ?case using Cons.IH [of ?c] by simp
qed simp

text \<open>All that \<^verbatim>\<open>fill_window_and_send\<close> does, with \<open>s\<close> the sender after \<^verbatim>\<open>fill_window\<close>.\<close>

lemma fill_window_and_send_eq:
  fixes c :: tcp_connection
  defines "s \<equiv> TCPSender_fill_window (cn_sender c)"
  shows "fill_window_and_send c = (length (sn_segments_out s),
    c\<lparr>cn_sender := s\<lparr>sn_segments_out := []\<rparr>,
      cn_segments_out := cn_segments_out c @ map (stamp c) (sn_segments_out s),
      cn_tlastsent := (if sn_segments_out s = [] then cn_tlastsent c else cn_tnow c),
      cn_finsent := (cn_finsent c \<or> (\<exists>seg \<in> set (sn_segments_out s). th_fin (seg_header seg)))\<rparr>)"
proof -
  have "stamp (c\<lparr>cn_sender := t\<rparr>) = stamp c" for t by (rule stamp_cong) simp_all
  then show ?thesis by (simp add: fill_window_and_send_def s_def Let_def send_queued_eq)
qed

lemma fill_window_and_send_simps [simp]:
  "cn_cfg (snd (fill_window_and_send c)) = cn_cfg c"
  "cn_receiver (snd (fill_window_and_send c)) = cn_receiver c"
  "cn_active2 (snd (fill_window_and_send c)) = cn_active2 c"
  "cn_linger_after_streams_finish (snd (fill_window_and_send c)) = cn_linger_after_streams_finish c"
  "cn_tnow (snd (fill_window_and_send c)) = cn_tnow c"
  "cn_sender (snd (fill_window_and_send c)) = (TCPSender_fill_window (cn_sender c))\<lparr>sn_segments_out := []\<rparr>"
  by (simp_all add: fill_window_and_send_eq)

text \<open>
  A segment without RST and FIN on an open connection that lingers: the receiver takes it, the sender
  its acknowledgment, what can be sent is sent, and an empty segment if that is nothing and the
  segment occupies numbers.
\<close>

lemma segment_received_ordinary:
  assumes "TCPConnection_active c" "cn_linger_after_streams_finish c"
    and "\<not> th_rst (seg_header seg)" "\<not> th_fin (seg_header seg)"
    and "th_syn (seg_header seg) \<or> TCPSender_bytes_in_flight (cn_sender c) \<noteq> 0"
  shows "TCPConnection_segment_received seg c =
    (let (sent, c2) = fill_window_and_send (c\<lparr>cn_tlast := cn_tnow c,
           cn_receiver := TCPReceiver_segment_received seg (cn_receiver c),
           cn_sender := (if th_ack (seg_header seg)
             then TCPSender_ack_received (th_ackno (seg_header seg)) (th_win (seg_header seg)) (cn_sender c)
             else cn_sender c)\<rparr>)
     in if sent = 0 \<and> (Buffer_size (seg_payload seg) \<noteq> 0 \<or> th_syn (seg_header seg))
        then snd (fill_window_and_send (c2\<lparr>cn_sender := TCPSender_send_empty_segment (cn_sender c2)\<rparr>))
        else c2)"
proof -
  let ?r = "TCPReceiver_segment_received seg (cn_receiver c)"
  let ?s = "if th_ack (seg_header seg)
    then TCPSender_ack_received (th_ackno (seg_header seg)) (th_win (seg_header seg)) (cn_sender c)
    else cn_sender c"
  let ?c = "c\<lparr>cn_tlast := cn_tnow c, cn_receiver := ?r, cn_sender := ?s\<rparr>"
  have open_: "\<not> passive_closed d" if "cn_linger_after_streams_finish d" for d
    using that by (simp add: passive_closed_def)
  have sender: "(if th_ack (seg_header seg) then d\<lparr>cn_sender := TCPSender_ack_received (th_ackno (seg_header seg))
        (th_win (seg_header seg)) (cn_sender d)\<rparr> else d) = ?c"
    if "d = c\<lparr>cn_tlast := cn_tnow c, cn_receiver := ?r\<rparr>" for d
    using that by simp
  have linger: "cn_linger_after_streams_finish (snd (fill_window_and_send ?c))"
    "cn_linger_after_streams_finish (snd (fill_window_and_send
       (snd (fill_window_and_send ?c)\<lparr>cn_sender := TCPSender_send_empty_segment
          (cn_sender (snd (fill_window_and_send ?c)))\<rparr>)))"
    using assms(2) by simp_all
  have go: "\<not> (TCPSender_bytes_in_flight (cn_sender c) = 0 \<and> \<not> ByteStream_eof (sn_stream (cn_sender c)) \<and>
      TCPReceiver_ackno (cn_receiver c) = None \<and> \<not> th_syn (seg_header seg))"
    using assms(5) by blast
  show ?thesis
    unfolding TCPConnection_segment_received_def Let_def if_not_P [OF go]
    using assms(1,3,4) open_ [OF assms(2)] open_ [OF linger(1)] open_ [OF linger(2)]
    by (simp only: sender [OF refl] simp_thms if_True if_False split_beta split: if_split)
qed

section \<open>Resets\<close>

lemma state_RESET:
  assumes "\<not> cn_active2 c" "bs_error (sn_stream (cn_sender c))" "bs_error (TCPReceiver_stream_out (cn_receiver c))"
  shows "TCPConnection_state c = TCPState_official State_RESET"
  using assms
  by (simp add: TCPConnection_state_def TCPState_def TCPConnection_active_def state_summary_sender_def
      state_summary_receiver_def ByteStream_error_def)

lemma set_errors_simps [simp]:
  "bs_error (sn_stream (cn_sender (set_errors c)))"
  "bs_error (TCPReceiver_stream_out (cn_receiver (set_errors c)))"
  "cn_active2 (set_errors c) = cn_active2 c" "cn_segments_out (set_errors c) = cn_segments_out c"
  by (simp_all add: set_errors_def TCPSender_stream_in_def TCPReceiver_stream_error_def
      TCPReceiver_stream_out_def ByteStream_set_error_def)

lemma reset_eq:
  fixes c seg
  defines "c1 \<equiv> (if passive_closed c \<and> th_ack (seg_header seg) \<and>
    th_ackno (seg_header seg) = TCPSender_next_seqno (cn_sender c) then c\<lparr>cn_active2 := False\<rparr> else c)"
  assumes "TCPConnection_active c" "th_rst (seg_header seg)"
    and "TCPReceiver_ackno (cn_receiver c) = None \<or> TCPReceiver_ackno (cn_receiver c) = Some (th_seqno (seg_header seg))"
    and "th_syn (seg_header seg) \<or> TCPReceiver_ackno (cn_receiver c) \<noteq> None \<or>
      TCPSender_bytes_in_flight (cn_sender c) \<noteq> 0 \<or> ByteStream_eof (sn_stream (cn_sender c))"
  shows "TCPConnection_segment_received seg c = (set_errors c1)\<lparr>cn_active2 := False\<rparr>"
    and "cn_receiver c1 = cn_receiver c" "cn_segments_out c1 = cn_segments_out c" "cn_sender c1 = cn_sender c"
proof -
  show c1: "cn_receiver c1 = cn_receiver c" "cn_segments_out c1 = cn_segments_out c" "cn_sender c1 = cn_sender c"
    by (simp_all add: c1_def)
  have "TCPReceiver_ackno (cn_receiver c) = None \<or> Some (th_seqno (seg_header seg)) = TCPReceiver_ackno (cn_receiver c)"
    using assms(4) by auto
  then show "TCPConnection_segment_received seg c = (set_errors c1)\<lparr>cn_active2 := False\<rparr>"
    using assms(2,3,5) c1(1)
    by (auto simp: TCPConnection_segment_received_def Let_def simp flip: c1_def)
qed

lemma sendRST_spec:
  "TCPConnection_state (sendRST c) = TCPState_official State_RESET"
  "\<exists>seg. cn_segments_out (sendRST c) = cn_segments_out c @ [seg] \<and> th_rst (seg_header seg) \<and>
     seg = (let first = hd (sn_segments_out (TCPSender_send_empty_segment (cn_sender c)))
            in first\<lparr>seg_header := (seg_header first)\<lparr>th_rst := True\<rparr>\<rparr>)"
proof -
  have "\<not> cn_active2 (sendRST c)" "bs_error (sn_stream (cn_sender (sendRST c)))"
    "bs_error (TCPReceiver_stream_out (cn_receiver (sendRST c)))"
    by (simp_all add: sendRST_def Let_def)
  then show "TCPConnection_state (sendRST c) = TCPState_official State_RESET" by (rule state_RESET)
qed (simp add: sendRST_def Let_def)

section \<open>Whether the outbound stream has ended\<close>

lemma fill_window_loop_eof2: "bs_eof2 (sn_stream (fill_window_loop s)) = bs_eof2 (sn_stream s)"
proof (induction s rule: fill_window_loop.induct)
  case (1 s)
  obtain again s' where turn: "fill_window_turn s = (again, s')" by (cases "fill_window_turn s")
  have "bs_eof2 (sn_stream (snd (fill_window_turn s))) = bs_eof2 (sn_stream s)"
    unfolding fill_window_turn_def Let_def split_beta by (simp add: send_new_def ByteStream_read_def)
  then have keep: "bs_eof2 (sn_stream s') = bs_eof2 (sn_stream s)" by (simp add: turn)
  show ?case
    using "1.IH" [OF _ turn [symmetric]] keep turn by (simp add: fill_window_loop.simps [of s])
qed

lemma fill_window_eof2 [simp]: "bs_eof2 (sn_stream (TCPSender_fill_window s)) = bs_eof2 (sn_stream s)"
  by (simp add: TCPSender_fill_window_def fill_window_loop_eof2 fill_window_syn_def send_new_def Let_def)

lemma sender_eof2 [simp]:
  "sn_stream (TCPSender_ack_received a win s) = sn_stream s"
  "sn_stream (TCPSender_send_empty_segment s) = sn_stream s"
  by (simp_all add: TCPSender_ack_received_def TCPSender_send_empty_segment_def Let_def)

lemma tick_stream: "TCPSender_tick ms s = Inr s' \<Longrightarrow> sn_stream s' = sn_stream s"
  by (auto simp: TCPSender_tick_def Let_def split: if_splits option.splits)

lemma set_errors_eof2 [simp]: "bs_eof2 (sn_stream (cn_sender (set_errors c))) = bs_eof2 (sn_stream (cn_sender c))"
  by (simp add: set_errors_def TCPSender_stream_in_def ByteStream_set_error_def)

text \<open>Rules to walk through the bindings and branches of a handler with a predicate on its state.\<close>

lemma walk:
  "(\<And>x. P (f x)) \<Longrightarrow> P (let x = a in f x)"
  "P c \<Longrightarrow> (\<And>d. P d \<Longrightarrow> P (f' d)) \<Longrightarrow> P (let d = c in f' d)"
  "P c \<Longrightarrow> P d \<Longrightarrow> P (if b then c else d)"
  "P (snd p) \<Longrightarrow> (\<And>s d. P d \<Longrightarrow> P (g s d)) \<Longrightarrow> P (let (s, d) = p in g s d)"
  by (simp_all add: Let_def split_beta)

lemma segment_received_eof2:
  "bs_eof2 (sn_stream (cn_sender (TCPConnection_segment_received seg c))) = bs_eof2 (sn_stream (cn_sender c))"
proof -
  define P where "P d \<longleftrightarrow> bs_eof2 (sn_stream (cn_sender d)) = bs_eof2 (sn_stream (cn_sender c))" for d :: tcp_connection
  note header = walk(1) [where P = P and a = "_ :: tcp_header"] and flag = walk(1) [where P = P and a = "_ :: bool"]
  have "P (TCPConnection_segment_received seg c)"
    unfolding TCPConnection_segment_received_def
    by (intro header flag walk(2,4) [where P = P] walk(3) [where P = P]) (simp_all add: P_def)
  then show ?thesis by (simp add: P_def)
qed

text \<open>A tick is ignored, or ticks the sender and then resets or sends what it can.\<close>

lemma connection_tick_cases:
  assumes "TCPConnection_tick ms c = Inr c'"
  obtains (ignored) "c' = c"
    | (ticked) c0 s where "cn_sender c0 = cn_sender c" "cn_receiver c0 = cn_receiver c"
      "cn_segments_out c0 = cn_segments_out c" "TCPSender_tick ms (cn_sender c) = Inr s"
      "c' = (if TCPSender_consecutive_retransmissions s > MAX_RETX_ATTEMPTS
        then sendRST (c0\<lparr>cn_sender := s\<rparr>) else snd (fill_window_and_send (c0\<lparr>cn_sender := s\<rparr>)))"
proof (cases "c' = c")
  case False
  have open_end: "TCPConnection_active c" "\<not> (TCPSender_bytes_in_flight (cn_sender c) = 0 \<and>
      \<not> ByteStream_eof (sn_stream (cn_sender c)) \<and> TCPReceiver_ackno (cn_receiver c) = None)"
    using False assms by (auto simp: TCPConnection_tick_def simp del: not_None_eq split: if_splits)
  let ?t = "c\<lparr>cn_tnow := add64 (cn_tnow c) ms\<rparr>"
  define c0 where "c0 = (if TCPSender_bytes_in_flight (cn_sender c) = 0 \<and> ByteStream_eof (sn_stream (cn_sender c)) \<and>
      sub64 (cn_tnow ?t) (cn_tlastsent c) \<ge> 10 * cfg_rt_timeout (cn_cfg c)
    then ?t\<lparr>cn_linger_after_streams_finish := False, cn_active2 := False\<rparr> else ?t)"
  have c0: "cn_sender c0 = cn_sender c" "cn_receiver c0 = cn_receiver c" "cn_segments_out c0 = cn_segments_out c"
    by (simp_all add: c0_def)
  have eq: "TCPConnection_tick ms c = bindE (TCPSender_tick ms (cn_sender c0)) (\<lambda>sender.
      let c = c0\<lparr>cn_sender := sender\<rparr>
      in Inr (if TCPSender_consecutive_retransmissions (cn_sender c) > MAX_RETX_ATTEMPTS
              then sendRST c else snd (fill_window_and_send c)))"
    unfolding TCPConnection_tick_def c0_def if_not_P [OF open_end(2)] using open_end(1) by (auto simp: Let_def)
  then show ?thesis using ticked [OF c0] assms [unfolded eq c0(1)] by (auto simp: Let_def bindE_eq_Inr_iff)
qed

lemma connection_tick_keeps:
  assumes "TCPConnection_tick ms c = Inr c'"
  shows "bs_eof2 (sn_stream (cn_sender c')) = bs_eof2 (sn_stream (cn_sender c)) \<and>
    rc_status (cn_receiver c') = rc_status (cn_receiver c)"
  using assms
proof (cases rule: connection_tick_cases)
  case (ticked c0 s)
  have "sn_stream s = sn_stream (cn_sender c)" using ticked(4) by (rule tick_stream)
  then show ?thesis using ticked
    by (simp add: sendRST_def Let_def set_errors_def TCPReceiver_stream_error_def TCPSender_stream_in_def ByteStream_set_error_def)
qed simp

section \<open>Properties\<close>

text \<open>
  Every segment a connection sends is stamped: \<^verbatim>\<open>fill_window_and_send\<close> takes all the segments the
  sender has queued, in order and none twice, changes neither their place in the sequence nor
  their flags and payload, gives each the receiver's acknowledgment number once there is one, and
  as the window the configured receive capacity, at most 65535 (not what \<^verbatim>\<open>window_size\<close> says is
  free).
\<close>

theorem fill_window_and_send_stamps:
  fixes c :: tcp_connection
  defines "q \<equiv> sn_segments_out (TCPSender_fill_window (cn_sender c))"
    and "c' \<equiv> snd (fill_window_and_send c)"
  shows "\<exists>out. cn_segments_out c' = cn_segments_out c @ out \<and> fst (fill_window_and_send c) = length q \<and>
    sn_segments_out (cn_sender c') = [] \<and>
    list_all2 (\<lambda>p p0. let h = seg_header p; h0 = seg_header p0 in
       th_seqno h = th_seqno h0 \<and> th_syn h = th_syn h0 \<and> th_fin h = th_fin h0 \<and> th_rst h = th_rst h0 \<and>
       seg_payload p = seg_payload p0 \<and>
       th_win h = word_of_nat (min 65535 (cfg_recv_capacity (cn_cfg c))) \<and>
       (case TCPReceiver_ackno (cn_receiver c) of None \<Rightarrow> th_ack h = th_ack h0
        | Some a \<Rightarrow> th_ack h \<and> th_ackno h = a)) out q"
proof (intro exI [of _ "map (stamp c) q"] conjI)
  have "case TCPReceiver_ackno (cn_receiver c) of None \<Rightarrow> th_ack (seg_header (stamp c p)) = th_ack (seg_header p)
      | Some a \<Rightarrow> th_ack (seg_header (stamp c p)) \<and> th_ackno (seg_header (stamp c p)) = a" for p
    using stamp_ack(2) [of c _ p] by (cases "TCPReceiver_ackno (cn_receiver c)") (simp_all add: stamp_def Let_def)
  then show "list_all2 (\<lambda>p p0. let h = seg_header p; h0 = seg_header p0 in
       th_seqno h = th_seqno h0 \<and> th_syn h = th_syn h0 \<and> th_fin h = th_fin h0 \<and> th_rst h = th_rst h0 \<and>
       seg_payload p = seg_payload p0 \<and>
       th_win h = word_of_nat (min 65535 (cfg_recv_capacity (cn_cfg c))) \<and>
       (case TCPReceiver_ackno (cn_receiver c) of None \<Rightarrow> th_ack h = th_ack h0
        | Some a \<Rightarrow> th_ack h \<and> th_ackno h = a)) (map (stamp c) q) q"
    by (simp add: list_all2_map1 list.rel_refl stamp_ack(1))
qed (simp_all add: c'_def q_def fill_window_and_send_eq)



text \<open>
  C28: a connection gives up after eight retransmissions in a row: a tick on an open connection that
  takes part always returns; when the sender's tick brings the count of consecutive
  retransmissions above \<^verbatim>\<open>MAX_RETX_ATTEMPTS\<close> the connection is in the state RESET and has queued
  exactly one segment more, with the RST flag; otherwise the count is still within the limit and no
  stream is reset.
\<close>

theorem TCPConnection_tick_gives_up:
  assumes "sn_inv S (cn_sender c)" "TCPConnection_active c"
    and "TCPReceiver_ackno (cn_receiver c) \<noteq> None \<or> TCPSender_bytes_in_flight (cn_sender c) \<noteq> 0 \<or>
      ByteStream_eof (sn_stream (cn_sender c))"
  shows "\<exists>s c'. TCPSender_tick ms (cn_sender c) = Inr s \<and> TCPConnection_tick ms c = Inr c' \<and>
    (if MAX_RETX_ATTEMPTS < TCPSender_consecutive_retransmissions s
     then TCPConnection_state c' = TCPState_official State_RESET \<and>
       (\<exists>seg. cn_segments_out c' = cn_segments_out c @ [seg] \<and> th_rst (seg_header seg))
     else cn_sender c' = (TCPSender_fill_window s)\<lparr>sn_segments_out := []\<rparr> \<and>
       cn_receiver c' = cn_receiver c)"
proof -
  obtain s where s: "TCPSender_tick ms (cn_sender c) = Inr s" by (rule tick_inv [OF assms(1), of ms])
  define c1 where "c1 = (let c = c\<lparr>cn_tnow := add64 (cn_tnow c) ms\<rparr> in
    if TCPSender_bytes_in_flight (cn_sender c) = 0 \<and> ByteStream_eof (sn_stream (cn_sender c)) \<and>
       sub64 (cn_tnow c) (cn_tlastsent c) \<ge> 10 * cfg_rt_timeout (cn_cfg c)
    then c\<lparr>cn_linger_after_streams_finish := False, cn_active2 := False\<rparr> else c)"
  have c1: "cn_sender c1 = cn_sender c" "cn_segments_out c1 = cn_segments_out c" "cn_receiver c1 = cn_receiver c"
    by (simp_all add: c1_def Let_def)
  have "TCPConnection_tick ms c = bindE (TCPSender_tick ms (cn_sender c1)) (\<lambda>sender.
      let c = c1\<lparr>cn_sender := sender\<rparr>
      in Inr (if TCPSender_consecutive_retransmissions (cn_sender c) > MAX_RETX_ATTEMPTS
              then sendRST c else snd (fill_window_and_send c)))"
    using assms(2,3) unfolding TCPConnection_tick_def c1_def by (auto simp: Let_def)
  then have tick: "TCPConnection_tick ms c = Inr (if TCPSender_consecutive_retransmissions s > MAX_RETX_ATTEMPTS
      then sendRST (c1\<lparr>cn_sender := s\<rparr>) else snd (fill_window_and_send (c1\<lparr>cn_sender := s\<rparr>)))"
    using s c1(1) by simp
  show ?thesis
  proof (cases "MAX_RETX_ATTEMPTS < TCPSender_consecutive_retransmissions s")
    case True
    then show ?thesis using s tick sendRST_spec [of "c1\<lparr>cn_sender := s\<rparr>"] c1(2) by auto
  next
    case False
    then show ?thesis using s tick c1(3) by simp
  qed
qed

theorem TCPConnection_tick_gives_up_witness:
  "\<exists>c'. TCPConnection_tick 1 ((TCPConnection 0 TCPConfig)\<lparr>cn_sender := demo_sender,
     cn_receiver := TCPReceiver_segment_received (syn_segment (WrappingInt32 9)) (TCPReceiver 100)\<rparr>) = Inr c'"
proof -
  let ?r = "TCPReceiver_segment_received (syn_segment (WrappingInt32 9)) (TCPReceiver 100)"
  let ?c = "(TCPConnection 0 TCPConfig)\<lparr>cn_sender := demo_sender, cn_receiver := ?r\<rparr>"
  have "rc_status ?r \<noteq> LISTEN"
    by (subst segment_received_syn [OF seg_true_syn]) (simp add: syn_segment_def TCPHeader_def)
  then have "TCPReceiver_ackno ?r \<noteq> None" by (simp add: TCPReceiver_ackno_def Let_def)
  then show ?thesis
    using TCPConnection_tick_gives_up [of "\<lambda>n. word_of_nat n" ?c 1] demo_sender_inv(1)
    by (simp add: TCPConnection_active_def TCPConnection_def) blast
qed

end
