(* ===== verification/End_To_End.thy ===== *)
theory End_To_End
  imports TCP_Connection
begin

text \<open>
  One direction of a TCP connection as a whole: a \<^verbatim>\<open>TCPSender\<close>, a \<^verbatim>\<open>TCPReceiver\<close> and a network
  between them that may lose, repeat, delay and reorder segments and may change every header field
  but the sequence number and the SYN and FIN flags (acknowledgments, windows, ports and checksums
  are the business of other layers). The owners of the two ends may call their operations in any
  order. What is proved holds in every reachable state.
\<close>

section \<open>The end of the stream at the receiver\<close>

text \<open>
  \<open>T\<close> bytes have been cut into segments, and \<open>fin\<close> tells whether the FIN has: the reassembler
  knows no byte beyond, its pending end is no earlier, and its output ends only there.
\<close>

definition eof_inv :: "bool \<Rightarrow> nat \<Rightarrow> stream_reassembler \<Rightarrow> bool" where
  "eof_inv fin T rs \<longleftrightarrow> known rs \<subseteq> {..<T} \<and> (sr_eof2 rs = size_max \<or> fin \<and> T \<le> sr_eof2 rs) \<and>
     (ByteStream_input_ended (sr_output rs) \<longrightarrow> fin \<and> firstUnasb rs = T)"

lemma eof_inv_mono: "eof_inv fin T rs \<Longrightarrow> T \<le> T' \<Longrightarrow> (fin \<Longrightarrow> fin' \<and> T' = T) \<Longrightarrow> eof_inv fin' T' rs"
  by (auto simp: eof_inv_def)

lemma eof_inv_new: "eof_inv fin T (StreamReassembler capacity)"
  by (simp add: eof_inv_def StreamReassembler_def known_def ByteStream_input_ended_def ByteStream_def)

lemma first_le:
  assumes "sr_inv S rs" "known rs \<subseteq> {..<T}"
  shows "firstUnasb rs \<le> T"
proof -
  have "{..<firstUnasb rs} \<subseteq> known rs" by (auto simp: known_def firstUnasb_def)
  then have "{..<firstUnasb rs} \<subseteq> {..<T}" using assms(2) by (rule order_trans)
  then show ?thesis by simp
qed

lemma first_mono:
  assumes "sr_inv S rs'" "known rs \<subseteq> known rs'"
  shows "firstUnasb rs \<le> firstUnasb rs'"
proof (rule ccontr)
  assume "\<not> ?thesis"
  then have "firstUnasb rs' \<in> known rs" by (simp add: known_def firstUnasb_def)
  then show False using assms sr_inv_unasb_notin [OF assms(1)] by (auto simp: firstUnasb_def)
qed

lemma eof_inv_push:
  assumes "eof_inv fin T rs" "sr_inv S rs'" "rs' = push_substring d i e rs"
    and "known rs \<subseteq> known rs'" "known rs' \<subseteq> {..<T}" "T < 2 ^ 31"
    and "e \<Longrightarrow> fin \<and> T \<le> i + length d \<and> i + length d < 2 ^ 32"
  shows "eof_inv fin T rs'"
proof -
  let ?stop = "if e then add64 i (length d) else sr_eof2 rs"
  have le: "firstUnasb rs' \<le> T" by (rule first_le [OF assms(2,5)])
  have ge: "firstUnasb rs \<le> firstUnasb rs'" by (rule first_mono [OF assms(2,4)])
  have e: "?stop = size_max \<or> fin \<and> T \<le> ?stop"
    using assms(1,7) by (auto simp: eof_inv_def no_wrap)
  have "size_max \<noteq> firstUnasb rs'" using le assms(6) by (simp add: size_max_def)
  then have stop: "firstUnasb rs' = ?stop \<Longrightarrow> fin \<and> firstUnasb rs' = T" using e le by auto
  have "ByteStream_input_ended (sr_output rs') \<longrightarrow> fin \<and> firstUnasb rs' = T"
    using push_substring_ended(1) [of d i e rs] stop assms(1,3) ge le by (auto simp: eof_inv_def)
  moreover have "sr_eof2 rs' = size_max \<or> fin \<and> T \<le> sr_eof2 rs'"
    using push_substring_ended(2) [of d i e rs] e assms(3) by (auto simp: Let_def split: if_splits)
  ultimately show ?thesis using assms(5) by (simp add: eof_inv_def)
qed

section \<open>The network\<close>

record net =
  n_snd :: tcp_sender
  n_rcv :: tcp_receiver
  n_wire :: "tcp_segment list"
  n_written :: bytes
  n_read :: bytes

definition net_start :: "u32 \<Rightarrow> tcp_config \<Rightarrow> nat \<Rightarrow> net" where
  "net_start random cfg capacity =
     \<lparr>n_snd = TCPSender random (cfg_send_capacity cfg) (cfg_rt_timeout cfg) (cfg_fixed_isn cfg),
      n_rcv = TCPReceiver capacity, n_wire = [], n_written = [], n_read = []\<rparr>"

text \<open>The part of a segment the network keeps.\<close>

definition same_data :: "tcp_segment \<Rightarrow> tcp_segment \<Rightarrow> bool" where
  "same_data seg seg' \<longleftrightarrow> th_seqno (seg_header seg') = th_seqno (seg_header seg) \<and>
     th_syn (seg_header seg') = th_syn (seg_header seg) \<and> th_fin (seg_header seg') = th_fin (seg_header seg) \<and>
     Buffer_str (seg_payload seg') = Buffer_str (seg_payload seg)"

text \<open>
  The steps. The sender gets acknowledgments, any whatever, and empty segments only once its SYN is
  sent; the writer does not write after the end, the reader reads no more than there is, and the
  stream stays below 2 GiB (what goes wrong otherwise is shown elsewhere). The receiver sees no
  segment but a SYN before the first SYN.
\<close>

inductive net_step :: "nat \<Rightarrow> net \<Rightarrow> net \<Rightarrow> bool" for capacity where
  app_write: "\<not> bs_eof2 (sn_stream (n_snd n)) \<Longrightarrow> length (n_written n) + length d + capacity < 2 ^ 31 - 2 \<Longrightarrow>
    ByteStream_write d (sn_stream (n_snd n)) = (k, st) \<Longrightarrow>
    net_step capacity n (n\<lparr>n_snd := (n_snd n)\<lparr>sn_stream := st\<rparr>, n_written := n_written n @ take k d\<rparr>)"
| app_end: "net_step capacity n (n\<lparr>n_snd := TCPSender_stream_in ByteStream_end_input (n_snd n)\<rparr>)"
| fill: "net_step capacity n (n\<lparr>n_snd := TCPSender_fill_window (n_snd n)\<rparr>)"
| acked: "sn_window (n_snd n) \<noteq> -1 \<Longrightarrow>
    net_step capacity n (n\<lparr>n_snd := TCPSender_ack_received ackno win (n_snd n)\<rparr>)"
| tick: "TCPSender_tick ms (n_snd n) = Inr s \<Longrightarrow> net_step capacity n (n\<lparr>n_snd := s\<rparr>)"
| empty: "sn_window (n_snd n) \<noteq> -1 \<Longrightarrow>
    net_step capacity n (n\<lparr>n_snd := TCPSender_send_empty_segment (n_snd n)\<rparr>)"
| transmit: "sn_segments_out (n_snd n) = seg # q \<Longrightarrow>
    net_step capacity n (n\<lparr>n_snd := (n_snd n)\<lparr>sn_segments_out := q\<rparr>, n_wire := n_wire n @ [seg]\<rparr>)"
| deliver: "seg \<in> set (n_wire n) \<Longrightarrow> same_data seg seg' \<Longrightarrow>
    rc_status (n_rcv n) \<noteq> LISTEN \<or> th_syn (seg_header seg') \<Longrightarrow>
    net_step capacity n (n\<lparr>n_rcv := TCPReceiver_segment_received seg' (n_rcv n)\<rparr>)"
| app_read: "k \<le> length (bs_buf (TCPReceiver_stream_out (n_rcv n))) \<Longrightarrow>
    net_step capacity n (n\<lparr>n_rcv := TCPReceiver_pop k (n_rcv n),
      n_read := n_read n @ ByteStream_peek_output k (TCPReceiver_stream_out (n_rcv n))\<rparr>)"


section \<open>What every step keeps\<close>

definition net_inv :: "nat \<Rightarrow> (nat \<Rightarrow> byte) \<Rightarrow> net \<Rightarrow> bool" where
  "net_inv capacity S n \<longleftrightarrow>
     (let s = n_snd n; r = n_rcv n; T = bs_totRead (sn_stream s) in
      sn_inv S s \<and> bs_totWrite (sn_stream s) = length (n_written n) \<and>
      length (n_written n) + capacity < 2 ^ 31 - 2 \<and>
      (sn_finSent s \<longrightarrow> bs_buf (sn_stream s) = []) \<and>
      (\<forall>seg \<in> set (n_wire n). \<exists>a. seg_ok S s a seg) \<and>
      (r = TCPReceiver capacity \<or> rc_inv S (sn_isn s) r \<and> rc_capacity r = capacity) \<and>
      eof_inv (sn_finSent s) T (rc_reassembler r) \<and>
      n_read n = cut S 0 (bs_totRead (TCPReceiver_stream_out r)))"

text \<open>Steps of the sender alone.\<close>

lemma net_inv_sender:
  assumes "net_inv capacity S n" "sn_inv S s'" "sn_ext (n_snd n) s'"
    and "sn_finSent s' \<longrightarrow> bs_buf (sn_stream s') = []"
    and "\<forall>seg \<in> set w. \<exists>a. seg_ok S s' a seg" 
  shows "net_inv capacity S (n\<lparr>n_snd := s', n_wire := w\<rparr>)"
proof -
  have ext: "sn_isn s' = sn_isn (n_snd n)" "bs_totWrite (sn_stream s') = bs_totWrite (sn_stream (n_snd n))"
    "bs_totRead (sn_stream (n_snd n)) \<le> bs_totRead (sn_stream s')"
    using assms(3) by (simp_all add: sn_ext_def)
  have "sn_finSent s' \<and> bs_totRead (sn_stream s') = bs_totRead (sn_stream (n_snd n))" if "sn_finSent (n_snd n)"
  proof -
    have "sn_finSent s'" using assms(3) that by (simp add: sn_ext_def)
    moreover have "bs_totWrite (sn_stream (n_snd n)) = bs_totRead (sn_stream (n_snd n))"
      using sn_totWrite [of S "n_snd n"] assms(1) that by (simp add: net_inv_def Let_def)
    moreover have "bs_totWrite (sn_stream s') = bs_totRead (sn_stream s')"
      using sn_totWrite [OF assms(2)] assms(4) calculation(1) by simp
    ultimately show ?thesis using ext(2) by simp
  qed
  then have "eof_inv (sn_finSent s') (bs_totRead (sn_stream s')) (rc_reassembler (n_rcv n))"
    using assms(1) ext(3) by (auto simp: net_inv_def Let_def elim!: eof_inv_mono)
  then show ?thesis using assms ext by (simp add: net_inv_def Let_def)
qed

lemma net_inv_sender_only:
  assumes "net_inv capacity S n" "sn_inv S s' \<and> sn_ext (n_snd n) s'"
    and "sn_finSent s' \<longrightarrow> bs_buf (sn_stream s') = []"
  shows "net_inv capacity S (n\<lparr>n_snd := s'\<rparr>)"
proof -
  have "\<forall>seg \<in> set (n_wire n). \<exists>a. seg_ok S s' a seg"
    using assms(1,2) seg_ok_ext by (fastforce simp: net_inv_def Let_def)
  from net_inv_sender [OF assms(1) conjunct1 [OF assms(2)] conjunct2 [OF assms(2)] assms(3) this]
  show ?thesis by (simp add: net_inv_def Let_def)
qed

text \<open>A delivered segment.\<close>

lemma seg_ok_same_data: "seg_ok S s a seg \<Longrightarrow> same_data seg seg' \<Longrightarrow> seg_ok S s a seg'"
proof -
  assume ok: "seg_ok S s a seg" and same: "same_data seg seg'"
  then have "seg_size seg' = seg_size seg" "seq_len seg' = seq_len seg"
    by (simp_all add: seg_size_def seq_len_eq same_data_def)
  then show "seg_ok S s a seg'"
    using ok same unfolding seg_ok_def seg_true_def same_data_def by metis
qed

lemma push_true:
  assumes "sr_inv S rs" "window_end rs < 2 ^ 31" "d = cut S i (i + length d)" "i + length d < 2 ^ 64"
  shows "sr_inv S (push_substring d i e rs) \<and> known rs \<subseteq> known (push_substring d i e rs) \<and>
    known (push_substring d i e rs) \<subseteq> known rs \<union> {i..<i + length d}"
proof -
  note inv = push_substring_inv [OF assms(1,2,4,3), of e]
  then have "known (push_substring d i e rs) = known rs \<union> ({i..<i + length d} \<inter> {..<window_end rs})"
    by blast
  then show ?thesis using inv by (intro conjI) blast+
qed

lemma deliver_eof:
  assumes "sn_inv S s" "bs_totRead (sn_stream s) < 2 ^ 31 - 2" "seg_ok S s a seg"
    and "sr_inv S (rc_reassembler r)" "window_end (rc_reassembler r) < 2 ^ 31" "rc_cp r < 2 ^ 31"
    and "rc_inv S (sn_isn s) r \<or> th_syn (seg_header seg)"
    and "eof_inv (sn_finSent s) (bs_totRead (sn_stream s)) (rc_reassembler r)"
  shows "eof_inv (sn_finSent s) (bs_totRead (sn_stream s)) (rc_reassembler (TCPReceiver_segment_received seg r))"
proof -
  let ?T = "bs_totRead (sn_stream s)" and ?d = "Buffer_str (seg_payload seg)"
  have true: "seg_true S (sn_isn s) a seg" and seq: "a + seq_len seg \<le> sn_next_seqno s"
    and below: "1 \<le> seg_size seg \<Longrightarrow> a + seg_size seg \<le> 1 + ?T"
    and fin: "th_fin (seg_header seg) \<Longrightarrow> sn_finSent s \<and> a + seq_len seg = sn_next_seqno s"
    using assms(3) by (auto simp: seg_ok_def)
  have next_le: "sn_next_seqno s \<le> 2 + ?T" and next_fin: "sn_finSent s \<Longrightarrow> sn_next_seqno s = 2 + ?T"
    using assms(1) by (auto simp: sn_inv_def sn_numbers_def split: if_splits)
  have len: "length ?d = seg_size seg" by (simp add: seg_size_def)
  show ?thesis
  proof (cases "th_syn (seg_header seg)")
    case True
    have d: "?d = []" "a = 0" "seg_size seg = 0" using true True by (auto simp: seg_true_def seg_size_def)
    let ?rs = "push_substring [] (rc_cp r) (th_fin (seg_header seg)) (rc_reassembler r)"
    have "rc_reassembler (TCPReceiver_segment_received seg r) = ?rs"
      by (simp add: segment_received_syn [OF true True])
    moreover have "eof_inv (sn_finSent s) ?T ?rs"
    proof (rule eof_inv_push [OF assms(8) _ refl])
      have p: "sr_inv S ?rs \<and> known (rc_reassembler r) \<subseteq> known ?rs \<and>
          known ?rs \<subseteq> known (rc_reassembler r) \<union> {rc_cp r..<rc_cp r + length ([] :: bytes)}"
        by (rule push_true [OF assms(4,5)]) (use assms(6) in simp_all)
      then show "sr_inv S ?rs" "known (rc_reassembler r) \<subseteq> known ?rs" by simp_all
      have "known ?rs \<subseteq> known (rc_reassembler r)" using p by simp
      moreover have "known (rc_reassembler r) \<subseteq> {..<?T}" using assms(8) by (simp only: eof_inv_def)
      ultimately show "known ?rs \<subseteq> {..<?T}" by (rule order_trans)
      show "?T < 2 ^ 31" using assms(2) by simp
      assume "th_fin (seg_header seg)"
      with fin next_fin d True show "sn_finSent s \<and> ?T \<le> rc_cp r + length ([] :: bytes) \<and>
          rc_cp r + length ([] :: bytes) < 2 ^ 32"
        using assms(6) by (simp add: seq_len_eq)
    qed
    ultimately show ?thesis by simp
  next
    case False
    then have inv: "rc_inv S (sn_isn s) r" using assms(7) by simp
    have a: "1 \<le> a" "?d = cut S (a - 1) (a - 1 + seg_size seg)" using true False by (auto simp: seg_true_def)
    have small: "a + seg_size seg \<le> 2 + ?T" using seq next_le by (simp add: seq_len_eq)
    let ?rs = "push_substring ?d (a - 1) (th_fin (seg_header seg)) (rc_reassembler r)"
    have "rc_reassembler (TCPReceiver_segment_received seg r) = ?rs"
      by (subst segment_received_data [OF inv true False]) (use small assms(2) in simp_all)
    moreover have "eof_inv (sn_finSent s) ?T ?rs"
    proof (rule eof_inv_push [OF assms(8) _ refl])
      have p: "sr_inv S ?rs \<and> known (rc_reassembler r) \<subseteq> known ?rs \<and>
          known ?rs \<subseteq> known (rc_reassembler r) \<union> {a - 1..<a - 1 + length ?d}"
        by (rule push_true [OF assms(4,5)]) (use a(2) len small assms(2) in simp_all)
      then show "sr_inv S ?rs" "known (rc_reassembler r) \<subseteq> known ?rs" by simp_all
      have "{a - 1..<a - 1 + length ?d} \<subseteq> {..<?T}"
        using below a(1) len by (cases "1 \<le> seg_size seg") auto
      then show "known ?rs \<subseteq> {..<?T}" using p assms(8) unfolding eof_inv_def by blast
      show "?T < 2 ^ 31" using assms(2) by simp
      assume f: "th_fin (seg_header seg)"
      with fin next_fin False have "a + seg_size seg = 1 + ?T" by (simp add: seq_len_eq)
      then show "sn_finSent s \<and> ?T \<le> a - 1 + length ?d \<and> a - 1 + length ?d < 2 ^ 32"
        using f fin len a(1) assms(2) by simp
    qed
    ultimately show ?thesis by simp
  qed
qed

lemma net_inv_deliver:
  assumes "net_inv capacity S n" "seg \<in> set (n_wire n)" "same_data seg seg'"
    "rc_status (n_rcv n) \<noteq> LISTEN \<or> th_syn (seg_header seg')"
  shows "net_inv capacity S (n\<lparr>n_rcv := TCPReceiver_segment_received seg' (n_rcv n)\<rparr>)"
proof -
  let ?s = "n_snd n" and ?r = "n_rcv n"
  let ?T = "bs_totRead (sn_stream ?s)" and ?r' = "TCPReceiver_segment_received seg' ?r"
  have inv: "sn_inv S ?s" "bs_totWrite (sn_stream ?s) = length (n_written n)"
    "length (n_written n) + capacity < 2 ^ 31 - 2" "eof_inv (sn_finSent ?s) ?T (rc_reassembler ?r)"
    "?r = TCPReceiver capacity \<or> rc_inv S (sn_isn ?s) ?r \<and> rc_capacity ?r = capacity"
    "n_read n = cut S 0 (bs_totRead (TCPReceiver_stream_out ?r))"
    using assms(1) by (simp_all add: net_inv_def Let_def)
  obtain a where ok: "seg_ok S ?s a seg'"
    using assms(1-3) seg_ok_same_data by (fastforce simp: net_inv_def Let_def)
  then have true: "seg_true S (sn_isn ?s) a seg'" by (simp add: seg_ok_def)
  have T: "?T < 2 ^ 31 - 2" using sn_totWrite [OF inv(1)] inv(2,3) by simp
  have small: "a + seg_size seg' < 2 ^ 31"
    using ok inv(1) T by (auto simp: seg_ok_def seq_len_eq sn_inv_def sn_numbers_def split: if_splits)
  have new: "sr_inv S (StreamReassembler capacity)" "window_end (StreamReassembler capacity) = capacity"
    using inv(3) by (intro sr_inv_new) (simp_all add: window_end_def StreamReassembler_def ByteStream_def)
  have sr: "sr_inv S (rc_reassembler ?r)" "window_end (rc_reassembler ?r) < 2 ^ 31" "rc_cp ?r < 2 ^ 31"
    "rc_inv S (sn_isn ?s) ?r \<or> th_syn (seg_header seg')"
    using inv(3,5) new assms(4) by (auto simp: rc_inv_def TCPReceiver_def)
  have eof: "eof_inv (sn_finSent ?s) ?T (rc_reassembler ?r')"
    by (rule deliver_eof [OF inv(1) T ok sr inv(4)])
  have "rc_inv S (sn_isn ?s) ?r' \<and> rc_capacity ?r' = capacity \<and>
      bs_totRead (TCPReceiver_stream_out ?r') = bs_totRead (TCPReceiver_stream_out ?r)"
  proof (cases "rc_inv S (sn_isn ?s) ?r")
    case True
    have "rc_capacity ?r = capacity" using inv(5) by (auto simp: TCPReceiver_def)
    then show ?thesis using rc_inv_step [OF True true small] by simp
  next
    case False
    then have "?r = TCPReceiver capacity" "th_syn (seg_header seg')" using inv(5) sr(4) by auto
    moreover have "a = 0" using true calculation(2) by (simp add: seg_true_def)
    ultimately show ?thesis
      using rc_inv_first_syn [of capacity S "sn_isn ?s" seg'] true inv(3)
      by (simp add: TCPReceiver_stream_out_def TCPReceiver_def StreamReassembler_def ByteStream_def)
  qed
  then show ?thesis using assms(1) eof by (simp add: net_inv_def Let_def)
qed

lemma rc_inv_pop:
  assumes "rc_inv S isn r" "k \<le> length (bs_buf (TCPReceiver_stream_out r))"
    "window_end (rc_reassembler r) + k < 2 ^ 31"
  shows "rc_inv S isn (TCPReceiver_pop k r) \<and> rc_capacity (TCPReceiver_pop k r) = rc_capacity r \<and>
    bs_totRead (TCPReceiver_stream_out (TCPReceiver_pop k r)) = bs_totRead (TCPReceiver_stream_out r) + k"
proof -
  have sr: "sr_inv S (rc_reassembler r)" using assms(1) by (simp add: rc_inv_def)
  have "bs_totRead (sr_output (rc_reassembler r)) + k < 2 ^ 64"
    using assms(3) by (simp add: window_end_def)
  then show ?thesis
    using pop_stream_out_inv [OF sr, of k] assms
    by (simp add: rc_inv_def TCPReceiver_pop_def TCPReceiver_stream_out_def)
      (simp add: pop_stream_out_def ByteStream_pop_output_def no_wrap)
qed

lemma net_inv_read:
  assumes "net_inv capacity S n" "k \<le> length (bs_buf (TCPReceiver_stream_out (n_rcv n)))"
  shows "net_inv capacity S (n\<lparr>n_rcv := TCPReceiver_pop k (n_rcv n),
      n_read := n_read n @ ByteStream_peek_output k (TCPReceiver_stream_out (n_rcv n))\<rparr>)"
proof (cases "rc_inv S (sn_isn (n_snd n)) (n_rcv n)")
  case True
  let ?r = "n_rcv n" and ?s = "n_snd n"
  let ?o = "TCPReceiver_stream_out ?r" and ?T = "bs_totRead (sn_stream ?s)"
  have inv: "sn_inv S ?s" "bs_totWrite (sn_stream ?s) = length (n_written n)"
    "length (n_written n) + capacity < 2 ^ 31 - 2" "eof_inv (sn_finSent ?s) ?T (rc_reassembler ?r)"
    "n_read n = cut S 0 (bs_totRead ?o)" and cap: "rc_capacity ?r = capacity"
    using assms(1) by (auto simp: net_inv_def Let_def TCPReceiver_def)
  have sr: "sr_inv S (rc_reassembler ?r)" using True by (simp add: rc_inv_def)
  have u: "firstUnasb (rc_reassembler ?r) \<le> ?T" using first_le [OF sr] inv(4) by (simp add: eof_inv_def)
  have buf: "bs_buf ?o = cut S (bs_totRead ?o) (firstUnasb (rc_reassembler ?r))" by (rule rc_inv_output(1) [OF True])
  have "bs_totRead ?o \<le> firstUnasb (rc_reassembler ?r)"
    using sr by (simp add: sr_inv_def TCPReceiver_stream_out_def firstUnasb_def)
  then have k: "bs_totRead ?o + k \<le> firstUnasb (rc_reassembler ?r)" using assms(2) buf by simp
  have "?T \<le> length (n_written n)" using sn_totWrite [OF inv(1)] inv(2) by simp
  then have "window_end (rc_reassembler ?r) + k < 2 ^ 31"
    using k u inv(3) True cap by (simp add: window_end_def rc_inv_def TCPReceiver_stream_out_def)
  note pop = rc_inv_pop [OF True assms(2) this]
  have "eof_inv (sn_finSent ?s) ?T (rc_reassembler (TCPReceiver_pop k ?r))"
    using inv(4) by (simp add: eof_inv_def TCPReceiver_pop_def pop_stream_out_def known_def firstUnasb_def
        ByteStream_pop_output_def ByteStream_input_ended_def)
  moreover have "n_read n @ ByteStream_peek_output k ?o = cut S 0 (bs_totRead ?o + k)"
    using inv(5) k buf by (simp add: ByteStream_peek_output_def take_cut cut_append)
  ultimately show ?thesis
    using assms(1) pop cap by (simp add: net_inv_def Let_def)
next
  case False
  then have new: "n_rcv n = TCPReceiver capacity" using assms(1) by (auto simp: net_inv_def Let_def)
  then have "k = 0" using assms(2) by (simp add: TCPReceiver_stream_out_def TCPReceiver_def
        StreamReassembler_def ByteStream_def)
  moreover have "capacity < 2 ^ 64" using assms(1) by (simp add: net_inv_def Let_def)
  ultimately have "TCPReceiver_pop k (n_rcv n) = n_rcv n"
    by (simp add: new TCPReceiver_pop_def TCPReceiver_def pop_stream_out_def StreamReassembler_def
        ByteStream_pop_output_def ByteStream_def)
  moreover have "n\<lparr>n_rcv := n_rcv n, n_read := n_read n\<rparr> = n" by simp
  ultimately show ?thesis using assms(1) \<open>k = 0\<close> by (simp add: ByteStream_peek_output_def)
qed

lemma fill_fin_empty:
  assumes "sn_inv S s" "sn_finSent s \<longrightarrow> bs_buf (sn_stream s) = []"
  shows "sn_finSent (TCPSender_fill_window s) \<longrightarrow> bs_buf (sn_stream (TCPSender_fill_window s)) = []"
  using fill_window_inv [OF assms(1)] assms(2) by metis

text \<open>
  Every step keeps the invariant, for any stream whose beginning is what is written afterwards.
\<close>

lemma net_inv_step:
  assumes "net_step capacity n n'" "net_inv capacity S n"
    and "n_written n' = cut S 0 (length (n_written n'))"
  shows "net_inv capacity S n'"
  using assms(1)
proof cases
  case (app_write d k st)
  have inv: "sn_inv S (n_snd n)" "bs_totWrite (sn_stream (n_snd n)) = length (n_written n)"
    using assms(2) by (simp_all add: net_inv_def Let_def)
  have k: "k \<le> length d" using app_write(4) by (auto simp: ByteStream_write_def Let_def)
  have "take k d = drop (length (n_written n)) (n_written n')" by (simp add: app_write(1))
  also have "\<dots> = cut S (length (n_written n)) (length (n_written n) + k)"
    by (subst assms(3)) (simp add: drop_cut app_write(1) k)
  finally have d: "take k d = cut S (length (n_written n)) (length (n_written n) + k)" .
  note w = stream_write_inv [OF inv(1) app_write(4)]
  have fin: "\<not> sn_finSent (n_snd n)" using inv(1) app_write(2) by (auto simp: sn_inv_def sn_numbers_def)
  have st: "bs_totRead st = bs_totRead (sn_stream (n_snd n))"
    using app_write(4) by (auto simp: ByteStream_write_def Let_def)
  have "seg_ok S ((n_snd n)\<lparr>sn_stream := st\<rparr>) = seg_ok S (n_snd n)"
    by (simp add: fun_eq_iff seg_ok_def st)
  then show ?thesis
    using assms(2) w inv(2) d k app_write(3) fin st
    by (simp add: app_write(1) net_inv_def Let_def)
next
  case app_end
  let ?s = "TCPSender_stream_in ByteStream_end_input (n_snd n)"
  have "sn_inv S (n_snd n)" using assms(2) by (simp add: net_inv_def Let_def)
  moreover have "seg_ok S ?s = seg_ok S (n_snd n)"
    by (simp add: fun_eq_iff seg_ok_def TCPSender_stream_in_def ByteStream_end_input_def)
  ultimately show ?thesis
    using assms(2) stream_flags_inv(1) [of S "n_snd n"]
    by (simp add: app_end net_inv_def Let_def) (simp add: TCPSender_stream_in_def ByteStream_end_input_def)
next
  case fill
  show ?thesis unfolding fill
    by (rule net_inv_sender_only [OF assms(2)])
      (use assms(2) fill_window_inv fill_fin_empty in \<open>auto simp: net_inv_def Let_def\<close>)
next
  case (acked ackno win)
  have inv: "sn_inv S (n_snd n)" "sn_finSent (n_snd n) \<longrightarrow> bs_buf (sn_stream (n_snd n)) = []"
    using assms(2) by (simp_all add: net_inv_def Let_def)
  have "sn_finSent (TCPSender_ack_received ackno win (n_snd n)) = sn_finSent (n_snd n)"
    by (simp add: TCPSender_ack_received_def Let_def)
  then show ?thesis unfolding acked(1)
    by (intro net_inv_sender_only [OF assms(2)])
      (use inv ack_received_inv [OF inv(1) acked(2), of ackno win] in simp_all)
next
  case (tick ms s)
  have inv: "sn_inv S (n_snd n)" "sn_finSent (n_snd n) \<longrightarrow> bs_buf (sn_stream (n_snd n)) = []"
    using assms(2) by (simp_all add: net_inv_def Let_def)
  obtain s' where s': "TCPSender_tick ms (n_snd n) = Inr s'" "sn_inv S s'" "sn_ext (n_snd n) s'"
    "sn_stream s' = sn_stream (n_snd n)" "sn_finSent s' = sn_finSent (n_snd n)"
    by (rule tick_inv [OF inv(1), of ms])
  then show ?thesis unfolding tick(1)
    by (intro net_inv_sender_only [OF assms(2)]) (use inv s' tick(2) in auto)
next
  case empty
  have inv: "sn_inv S (n_snd n)" "sn_finSent (n_snd n) \<longrightarrow> bs_buf (sn_stream (n_snd n)) = []"
    using assms(2) by (simp_all add: net_inv_def Let_def)
  show ?thesis unfolding empty(1)
    by (rule net_inv_sender_only [OF assms(2) send_empty_inv [OF inv(1) empty(2)]])
      (use inv(2) in \<open>simp add: TCPSender_send_empty_segment_def\<close>)
next
  case (transmit seg q)
  have inv: "sn_inv S (n_snd n)" "sn_finSent (n_snd n) \<longrightarrow> bs_buf (sn_stream (n_snd n)) = []"
    using assms(2) by (simp_all add: net_inv_def Let_def)
  have t: "sn_inv S ((n_snd n)\<lparr>sn_segments_out := q\<rparr>)" "sn_ext (n_snd n) ((n_snd n)\<lparr>sn_segments_out := q\<rparr>)"
    using transmit_inv [OF inv(1)] transmit(2) by simp_all
  have "\<exists>a. seg_ok S (n_snd n) a seg" using inv(1) transmit(2) by (simp add: sn_inv_def)
  then have "\<forall>seg' \<in> set (n_wire n @ [seg]). \<exists>a. seg_ok S ((n_snd n)\<lparr>sn_segments_out := q\<rparr>) a seg'"
    using assms(2) seg_ok_ext [OF _ t(2)] by (fastforce simp: net_inv_def Let_def)
  from net_inv_sender [OF assms(2) t _ this] inv(2) show ?thesis by (simp add: transmit(1))
next
  case (deliver seg seg')
  then show ?thesis using net_inv_deliver [OF assms(2)] by simp
next
  case (app_read k)
  then show ?thesis using net_inv_read [OF assms(2)] by simp
qed

lemma step_written:
  assumes "net_step capacity n n'"
  obtains d where "n_written n' = n_written n @ d"
  using assms by cases (rule that, simp)+

lemma net_inv_start:
  assumes "capacity < 2 ^ 31 - 2" "cfg_send_capacity cfg < 2 ^ 62"
  shows "net_inv capacity S (net_start random cfg capacity)"
proof -
  have "sn_inv S (TCPSender random (cfg_send_capacity cfg) (cfg_rt_timeout cfg) (cfg_fixed_isn cfg))"
    by (rule sn_inv_new [OF assms(2)])
  moreover have "eof_inv fin T (rc_reassembler (TCPReceiver capacity))" for fin T
    using eof_inv_new by (simp add: TCPReceiver_def)
  ultimately show ?thesis
    using assms(1) by (simp add: net_inv_def Let_def net_start_def)
      (simp add: TCPSender_def TCPReceiver_def TCPReceiver_stream_out_def StreamReassembler_def ByteStream_def)
qed

abbreviation net_steps :: "nat \<Rightarrow> net \<Rightarrow> net \<Rightarrow> bool" where
  "net_steps capacity \<equiv> (net_step capacity)\<^sup>*\<^sup>*"

text \<open>The invariant holds for the stream that ends up being written.\<close>

lemma net_inv_steps:
  assumes "net_steps capacity n n'" "n_written n' = cut S 0 (length (n_written n'))" "net_inv capacity S n"
  shows "net_inv capacity S n'"
  using assms
proof (induction rule: rtranclp_induct)
  case (step y z)
  obtain d where d: "n_written z = n_written y @ d" by (rule step_written [OF step.hyps(2)])
  then have "n_written y = take (length (n_written y)) (n_written z)" by simp
  also have "\<dots> = cut S 0 (length (n_written y))"
    by (subst step.prems(1)) (simp add: take_cut d)
  finally show ?case using step net_inv_step by blast
qed

section \<open>A short run\<close>

text \<open>The states of a sender with initial sequence number \<open>isn\<close> that sends its SYN, has it
  acknowledged with a window of ten, sends one byte and then its FIN.\<close>

definition syn_sent :: "wrapping_int32 \<Rightarrow> tcp_sender" where
  "syn_sent isn = TCPSender_fill_window (TCPSender 0 10 1000 (Some isn))"

definition syn_acked :: "wrapping_int32 \<Rightarrow> tcp_sender" where
  "syn_acked isn = TCPSender_ack_received (wrap 1 isn) 10 (syn_sent isn)"

definition byte_sent :: "wrapping_int32 \<Rightarrow> byte \<Rightarrow> tcp_sender" where
  "byte_sent isn b = TCPSender_fill_window (TCPSender_stream_in (\<lambda>st. snd (ByteStream_write [b] st)) (syn_acked isn))"

definition fin_sent :: "wrapping_int32 \<Rightarrow> byte \<Rightarrow> tcp_sender" where
  "fin_sent isn b = TCPSender_fill_window (TCPSender_stream_in ByteStream_end_input (byte_sent isn b))"

definition the_syn :: "wrapping_int32 \<Rightarrow> tcp_segment" where
  "the_syn isn = header_segment (TCPHeader\<lparr>th_seqno := isn, th_syn := True\<rparr>)"

definition the_fin :: "wrapping_int32 \<Rightarrow> tcp_segment" where
  "the_fin isn = header_segment (TCPHeader\<lparr>th_seqno := wrap 2 isn, th_fin := True\<rparr>)"

lemma near_one:
  "unwrap (wrap (Suc 0) isn) isn 0 = Suc 0" "unwrap isn isn (Suc 0) = 0" "unwrap (wrap 2 isn) isn (Suc 0) = 2"
  "unwrap (wrap (Suc 0) isn) isn 2 = Suc 0" "unwrap (wrap 2 isn) isn 2 = 2"
  using unwrap_wrap_near [of 0 1 isn] unwrap_wrap_near [of 1 0 isn] unwrap_wrap_near [of 1 2 isn]
    unwrap_wrap_near [of 2 1 isn] unwrap_wrap_near [of 2 2 isn] by simp_all

lemma the_syn: "th_seqno (seg_header (the_syn isn)) = isn" "th_syn (seg_header (the_syn isn))"
  "\<not> th_fin (seg_header (the_syn isn))" "Buffer_str (seg_payload (the_syn isn)) = []"
  by (simp_all add: the_syn_def header_segment_def TCPHeader_def TCPSegment_def)

lemma the_fin: "th_seqno (seg_header (the_fin isn)) = wrap 2 isn" "\<not> th_syn (seg_header (the_fin isn))"
  "th_fin (seg_header (the_fin isn))" "Buffer_str (seg_payload (the_fin isn)) = []"
  by (simp_all add: the_fin_def header_segment_def TCPHeader_def TCPSegment_def)

lemma syn_sent_eq: "syn_sent isn =
    \<lparr>sn_isn = isn, sn_segments_out = [the_syn isn], sn_initial_retransmission_timeout = 1000,
     sn_stream = ByteStream 10, sn_next_seqno = 1, sn_now = 0, sn_window = 1, sn_acked = 0,
     sn_outstanding = [(0, 1000, the_syn isn)], sn_rto = 1000, sn_crtx = 0, sn_finSent = False, sn_zeroWindow = False\<rparr>"
  by (simp add: syn_sent_def TCPSender_fill_window_def TCPSender_def fill_window_syn_def ByteStream_eof_def
      ByteStream_def send_new_def the_syn_def no_wrap Let_def)

lemma syn_acked_eq: "syn_acked isn =
    (syn_sent isn)\<lparr>sn_acked := 1, sn_window := 10, sn_outstanding := []\<rparr>"
  by (simp add: syn_acked_def TCPSender_ack_received_def syn_sent_eq near_one the_syn add64_def Buffer_size_def)

lemma byte_sent_eq: "byte_sent isn b = (syn_acked isn)\<lparr>
    sn_segments_out := [the_syn isn, data_segment (wrap 1 isn) [b] False],
    sn_outstanding := [(0, 1000, data_segment (wrap 1 isn) [b] False)], sn_next_seqno := 2,
    sn_stream := \<lparr>bs_cap = 10, bs_rem = 10, bs_totRead = 1, bs_totWrite = 1, bs_eof2 = False,
      bs_buf = [], bs_error = False\<rparr>\<rparr>" (is "_ = ?s4")
proof -
  let ?st = "\<lparr>bs_cap = 10, bs_rem = 9, bs_totRead = 0, bs_totWrite = 1, bs_eof2 = False,
    bs_buf = [b], bs_error = False\<rparr>"
  have w: "snd (ByteStream_write [b] (ByteStream 10)) = ?st"
    by (simp add: ByteStream_write_def ByteStream_def no_wrap)
  have turn: "fill_window_turn ((syn_acked isn)\<lparr>sn_stream := ?st\<rparr>) = (True, ?s4)"
    by (simp add: fill_window_turn_def window_edge_def syn_acked_eq syn_sent_eq no_wrap MAX_PAYLOAD_SIZE_def
        ByteStream_buffer_size_def ByteStream_read_def ByteStream_eof_def send_new_def data_segment_def
        ByteStream_peek_output_def ByteStream_pop_output_def Let_def)
  have stop: "fill_window_turn ?s4 = (False, ?s4)"
    by (simp add: fill_window_turn_def window_edge_def syn_acked_eq syn_sent_eq no_wrap
        ByteStream_buffer_size_def ByteStream_eof_def Let_def)
  have "fill_window_loop ?s4 = ?s4"
    by (subst fill_window_loop.simps) (simp only: stop prod.case if_False if_cancel)
  moreover have "sn_next_seqno ((syn_acked isn)\<lparr>sn_stream := ?st\<rparr>) < window_edge ((syn_acked isn)\<lparr>sn_stream := ?st\<rparr>)"
    by (simp add: syn_acked_eq syn_sent_eq window_edge_def no_wrap)
  ultimately have "fill_window_loop ((syn_acked isn)\<lparr>sn_stream := ?st\<rparr>) = ?s4"
    by (subst fill_window_loop.simps) (simp only: turn prod.case if_True)
  moreover have "TCPSender_stream_in (\<lambda>st. snd (ByteStream_write [b] st)) (syn_acked isn) =
      (syn_acked isn)\<lparr>sn_stream := ?st\<rparr>"
    by (simp add: TCPSender_stream_in_def syn_acked_eq syn_sent_eq w)
  moreover have "\<not> sn_finSent (syn_acked isn)" "sn_window (syn_acked isn) \<noteq> -1"
    by (simp_all add: syn_acked_eq syn_sent_eq)
  ultimately show ?thesis by (simp add: byte_sent_def TCPSender_fill_window_def)
qed

lemma fin_sent_eq: "fin_sent isn b = (byte_sent isn b)\<lparr>
    sn_segments_out := [the_syn isn, data_segment (wrap 1 isn) [b] False, the_fin isn],
    sn_outstanding := [(0, 1000, data_segment (wrap 1 isn) [b] False), (0, 1000, the_fin isn)],
    sn_next_seqno := 3, sn_finSent := True, sn_stream := ByteStream_end_input (sn_stream (byte_sent isn b))\<rparr>"
  (is "_ = ?s6")
proof -
  let ?s5 = "TCPSender_stream_in ByteStream_end_input (byte_sent isn b)"
  have turn: "fill_window_turn ?s5 = (False, ?s6)"
    by (simp add: TCPSender_stream_in_def fill_window_turn_def window_edge_def byte_sent_eq syn_acked_eq
        syn_sent_eq no_wrap ByteStream_buffer_size_def ByteStream_eof_def ByteStream_end_input_def
        send_new_def the_fin_def Let_def)
  have "sn_next_seqno ?s5 < window_edge ?s5"
    by (simp add: TCPSender_stream_in_def byte_sent_eq syn_acked_eq syn_sent_eq window_edge_def no_wrap)
  then have "fill_window_loop ?s5 = ?s6"
    by (subst fill_window_loop.simps) (simp only: turn prod.case if_True if_False)
  moreover have "\<not> sn_finSent ?s5" "sn_window ?s5 \<noteq> -1"
    by (simp_all add: TCPSender_stream_in_def byte_sent_eq syn_acked_eq syn_sent_eq)
  ultimately show ?thesis by (simp add: fin_sent_def TCPSender_fill_window_def)
qed

text \<open>A receiver that has got the SYN and copies of that FIN, but not the byte before it.\<close>

lemma seg_true_the:
  "seg_true S isn 0 (the_syn isn)" "seg_true S isn 2 (the_fin isn)" "seg_size (the_fin isn) = 0"
  by (simp_all add: seg_true_def the_syn the_fin seg_size_def cut_def)

definition starved :: "wrapping_int32 \<Rightarrow> tcp_receiver \<Rightarrow> bool" where
  "starved isn r \<longleftrightarrow> rc_inv (\<lambda>_. 0) isn r \<and> known (rc_reassembler r) = {} \<and>
     bs_totRead (TCPReceiver_stream_out r) = 0"

lemma starved_syn: "starved isn (TCPReceiver_segment_received (the_syn isn) (TCPReceiver 10))"
  using rc_inv_first_syn [of 10 "\<lambda>_. 0" isn "the_syn isn"] seg_true_the(1) the_syn(2)
  by (simp add: starved_def)

lemma starved_fin:
  assumes "starved isn r"
  defines "r' \<equiv> TCPReceiver_segment_received (the_fin isn) r"
  shows "starved isn r' \<and> rc_status r' = FIN_RECV"
proof -
  have inv: "rc_inv (\<lambda>_. 0) isn r" using assms(1) by (simp add: starved_def)
  have "2 + seg_size (the_fin isn) < 2 ^ 31" by (simp add: seg_true_the)
  from rc_inv_step [OF inv seg_true_the(2) this] assms(1)
  have "starved isn r'" by (simp add: starved_def r'_def seg_positions_def seg_true_the)
  moreover have "rc_status r' = FIN_RECV"
    unfolding r'_def by (subst segment_received_data [OF inv seg_true_the(2)]) (simp_all add: the_fin)
  ultimately show ?thesis by simp
qed

lemma starved_state:
  assumes "starved isn r"
  shows "bs_buf (TCPReceiver_stream_out r) = []"
    "TCPReceiver_ackno r = Some (wrap (rc_status r) isn)"
proof -
  have sr: "sr_inv (\<lambda>_. 0) (rc_reassembler r)" "rc_status r = 1 \<or> rc_status r = 2" "rc_ISN r = isn"
    using assms by (auto simp: starved_def rc_inv_def)
  have u: "sr_unasb (rc_reassembler r) = 0" using assms by (simp add: starved_def known_def lessThan_empty_iff)
  show "bs_buf (TCPReceiver_stream_out r) = []"
    using rc_inv_output(1) [of "\<lambda>_. 0" isn r] assms u by (simp add: starved_def firstUnasb_def)
  have "unassembled_bytes (rc_reassembler r) = 0"
    using sr_inv_unassembled [OF sr(1)] assms by (simp add: starved_def)
  then show "TCPReceiver_ackno r = Some (wrap (rc_status r) isn)"
    using sr(2,3) by (auto simp: TCPReceiver_ackno_def firstUnasb_def u add64_def)
qed

section \<open>Properties\<close>

text \<open>What the invariant says of the reader's end.\<close>

lemma net_delivers:
  assumes "net_steps capacity (net_start random cfg capacity) n"
    and "capacity < 2 ^ 31 - 2" "cfg_send_capacity cfg < 2 ^ 62"
  defines "got \<equiv> n_read n @ bs_buf (TCPReceiver_stream_out (n_rcv n))"
  shows "got = take (length got) (n_written n) \<and>
    (ByteStream_input_ended (TCPReceiver_stream_out (n_rcv n)) \<longrightarrow>
       got = n_written n \<and> ByteStream_input_ended (sn_stream (n_snd n)) \<and> bs_buf (sn_stream (n_snd n)) = [])"
proof -
  define S where "S = (\<lambda>i. n_written n ! i)"
  have S: "n_written n = cut S 0 (length (n_written n))" by (simp add: S_def cut_def map_nth)
  note net_inv_steps [OF assms(1) S net_inv_start [OF assms(2,3)]]
  then have inv: "sn_inv S (n_snd n)" "bs_totWrite (sn_stream (n_snd n)) = length (n_written n)"
    "n_rcv n = TCPReceiver capacity \<or> rc_inv S (sn_isn (n_snd n)) (n_rcv n)"
    "eof_inv (sn_finSent (n_snd n)) (bs_totRead (sn_stream (n_snd n))) (rc_reassembler (n_rcv n))"
    "n_read n = cut S 0 (bs_totRead (TCPReceiver_stream_out (n_rcv n)))"
    "sn_finSent (n_snd n) \<longrightarrow> bs_buf (sn_stream (n_snd n)) = []" "capacity < 2 ^ 31"
    by (auto simp: net_inv_def Let_def)
  let ?u = "firstUnasb (rc_reassembler (n_rcv n))" and ?T = "bs_totRead (sn_stream (n_snd n))"
  have sr: "sr_inv S (rc_reassembler (n_rcv n))"
    using inv(3) sr_inv_new [of capacity S] inv(7) by (auto simp: rc_inv_def TCPReceiver_def)
  have got: "got = cut S 0 ?u"
    using sr inv(5) by (simp add: got_def sr_inv_def TCPReceiver_stream_out_def firstUnasb_def cut_append)
  have u: "?u \<le> ?T" using first_le [OF sr] inv(4) by (simp add: eof_inv_def)
  have T: "?T + length (bs_buf (sn_stream (n_snd n))) = length (n_written n)"
    using sn_totWrite [OF inv(1)] inv(2) by simp
  have "got = take (length got) (n_written n)"
    using u T by (subst S) (simp add: got take_cut)
  moreover have "got = n_written n \<and> ByteStream_input_ended (sn_stream (n_snd n)) \<and> bs_buf (sn_stream (n_snd n)) = []"
    if "ByteStream_input_ended (TCPReceiver_stream_out (n_rcv n))"
  proof -
    have fin: "sn_finSent (n_snd n)" "?u = ?T"
      using inv(4) that by (simp_all add: eof_inv_def TCPReceiver_stream_out_def)
    then have "bs_buf (sn_stream (n_snd n)) = []" "bs_eof2 (sn_stream (n_snd n))"
      using inv(1,6) by (simp_all add: sn_inv_def sn_numbers_def)
    then show ?thesis
      using T fin(2) S by (simp add: got ByteStream_input_ended_def)
  qed
  ultimately show ?thesis by blast
qed


lemma demo_net:
  defines "isn \<equiv> WrappingInt32 5"
  defines "r \<equiv> TCPReceiver_segment_received (data_segment (wrap 1 isn) [7] False)
    (TCPReceiver_segment_received (the_syn isn) (TCPReceiver 10))"
  obtains n where "net_steps 10 (net_start 0 (TCPConfig\<lparr>cfg_send_capacity := 10, cfg_fixed_isn := Some isn\<rparr>) 10) n"
    "n_written n = [7]" "n_read n = []" "n_rcv n = r"
proof -
  let ?cfg = "TCPConfig\<lparr>cfg_send_capacity := 10, cfg_fixed_isn := Some isn\<rparr>"
  let ?d = "data_segment (wrap 1 isn) [7] False"
  let ?n0 = "net_start 0 ?cfg 10"
  let ?r1 = "TCPReceiver_segment_received (the_syn isn) (TCPReceiver 10)"
  have snd0: "n_snd ?n0 = TCPSender 0 10 1000 (Some isn)"
    by (simp add: net_start_def TCPConfig_def TIMEOUT_DFLT_def)
  obtain k st where w: "ByteStream_write [7] (sn_stream (syn_acked isn)) = (k, st)" by fastforce
  then have k: "k = 1" by (simp add: syn_acked_eq syn_sent_eq ByteStream_write_def ByteStream_def Let_def)
  let ?n1 = "?n0\<lparr>n_snd := syn_sent isn\<rparr>" and ?n2 = "?n0\<lparr>n_snd := syn_acked isn\<rparr>"
  let ?n3 = "?n0\<lparr>n_snd := (syn_acked isn)\<lparr>sn_stream := st\<rparr>, n_written := [7]\<rparr>"
  let ?n4 = "?n0\<lparr>n_snd := byte_sent isn 7, n_written := [7]\<rparr>"
  let ?n5 = "?n4\<lparr>n_snd := (byte_sent isn 7)\<lparr>sn_segments_out := [?d]\<rparr>, n_wire := [the_syn isn]\<rparr>"
  let ?n6 = "?n4\<lparr>n_snd := (byte_sent isn 7)\<lparr>sn_segments_out := []\<rparr>, n_wire := [the_syn isn, ?d]\<rparr>"
  have "net_step 10 ?n0 ?n1"
    using net_step.fill [of 10 ?n0] by (simp add: snd0 syn_sent_def)
  moreover have "net_step 10 ?n1 ?n2"
    using net_step.acked [of ?n1 10 "wrap 1 isn" 10] by (simp add: syn_acked_def) (simp add: syn_sent_eq)
  moreover have "net_step 10 ?n2 ?n3"
    using net_step.app_write [of ?n2 "[7]" 10 k st] w k
    by (simp add: net_start_def) (simp add: syn_acked_eq syn_sent_eq ByteStream_def)
  moreover have "net_step 10 ?n3 ?n4"
    using net_step.fill [of 10 ?n3] w by (simp add: byte_sent_def TCPSender_stream_in_def net_start_def)
  moreover have "net_step 10 ?n4 ?n5"
    using net_step.transmit [of ?n4 "the_syn isn" "[?d]" 10] by (simp add: byte_sent_eq net_start_def)
  moreover have "net_step 10 ?n5 ?n6"
    using net_step.transmit [of ?n5 ?d "[]" 10] by simp
  moreover have "net_step 10 ?n6 (?n6\<lparr>n_rcv := ?r1\<rparr>)"
    using net_step.deliver [of "the_syn isn" ?n6 "the_syn isn" 10] by (simp add: same_data_def the_syn net_start_def)
  moreover have "rc_status ?r1 \<noteq> LISTEN"
    by (subst segment_received_syn [OF seg_true_the(1)]) (simp_all add: the_syn)
  then have "net_step 10 (?n6\<lparr>n_rcv := ?r1\<rparr>) (?n6\<lparr>n_rcv := r\<rparr>)"
    using net_step.deliver [of ?d "?n6\<lparr>n_rcv := ?r1\<rparr>" ?d 10] by (simp add: same_data_def r_def)
  ultimately have "net_steps 10 ?n0 (?n6\<lparr>n_rcv := r\<rparr>)"
    by (meson converse_rtranclp_into_rtranclp rtranclp.rtrancl_refl)
  then show ?thesis by (rule that) (simp_all add: net_start_def)
qed


text \<open>
  C11: a FIN that overtakes lost data loses it for good. A sender whose SYN is acknowledged sends one
  byte and then, in a segment of its own, the FIN; the byte's segment is lost. The receiver
  acknowledges the FIN as if the byte had come; the acknowledgment makes the sender forget the
  byte, only the FIN stays in flight and nothing is left to send; and however often the FIN comes
  again, the receiver has nothing for its reader.
\<close>

theorem early_fin_loses_byte:
  "sn_segments_out (fin_sent isn b) = [the_syn isn, data_segment (wrap 1 isn) [b] False, the_fin isn] \<and>
   (let r1 = TCPReceiver_segment_received (the_syn isn) (TCPReceiver 10);
        r2 = TCPReceiver_segment_received (the_fin isn) r1;
        s = TCPSender_ack_received (the (TCPReceiver_ackno r2)) 10 (fin_sent isn b)
    in TCPReceiver_ackno r1 = Some (wrap 1 isn) \<and> TCPReceiver_ackno r2 = Some (wrap 2 isn) \<and>
       in_flight s = {#the_fin isn#} \<and> bs_buf (sn_stream s) = [] \<and> sn_finSent s \<and>
       bs_buf (TCPReceiver_stream_out ((TCPReceiver_segment_received (the_fin isn) ^^ k) r2)) = [])"
proof -
  let ?r1 = "TCPReceiver_segment_received (the_syn isn) (TCPReceiver 10)"
  let ?r2 = "TCPReceiver_segment_received (the_fin isn) ?r1"
  let ?s = "TCPSender_ack_received (wrap 2 isn) 10 (fin_sent isn b)"
  have "rc_status ?r1 = 1"
    by (subst segment_received_syn [OF seg_true_the(1)]) (simp_all add: the_syn)
  then have a1: "TCPReceiver_ackno ?r1 = Some (wrap 1 isn)" using starved_state(2) [OF starved_syn] by metis
  have a2: "TCPReceiver_ackno ?r2 = Some (wrap 2 isn)"
    using starved_fin [OF starved_syn [of isn]] starved_state(2) [of isn ?r2] by simp
  have "starved isn ((TCPReceiver_segment_received (the_fin isn) ^^ k) ?r2)"
    by (induction k) (use starved_fin starved_syn in auto)
  then have k: "bs_buf (TCPReceiver_stream_out ((TCPReceiver_segment_received (the_fin isn) ^^ k) ?r2)) = []"
    by (rule starved_state(1))
  have "sn_outstanding ?s = [(0, add64 0 1000, the_fin isn)] \<and> sn_finSent ?s \<and> bs_buf (sn_stream ?s) = []"
    by (simp add: TCPSender_ack_received_def fin_sent_eq byte_sent_eq syn_acked_eq syn_sent_eq near_one
        the_fin Buffer_size_def add64_def ByteStream_end_input_def
        del: data_segment_simps add: data_segment_simps [where f = False])
  then have "in_flight ?s = {#the_fin isn#}" "sn_finSent ?s" "bs_buf (sn_stream ?s) = []"
    by (simp_all add: in_flight_def)
  then show ?thesis
    unfolding Let_def a1 a2 option.sel using k by (simp add: fin_sent_eq)
qed

end
