(* ===== verification/Handshake.thy ===== *)
theory Handshake
  imports End_To_End
begin

text \<open>
  Two \<^verbatim>\<open>TCPConnection\<close>s that open a connection: the three-way handshake, segment by segment, with
  the official name of the state each end is in.
\<close>

section \<open>The sender during the handshake\<close>

definition sender_syn :: "tcp_sender \<Rightarrow> tcp_sender" where
  "sender_syn s = s\<lparr>sn_segments_out := [], sn_next_seqno := 1, sn_window := 1,
     sn_outstanding := [(0, add64 0 (sn_rto s), the_syn (sn_isn s))]\<rparr>"

lemma fill_new:
  fixes random capacity retx fixed_isn
  defines "s \<equiv> TCPSender random capacity retx fixed_isn"
  shows "TCPSender_fill_window s = (sender_syn s)\<lparr>sn_segments_out := [the_syn (sn_isn s)]\<rparr>"
  by (simp add: s_def TCPSender_fill_window_def TCPSender_def fill_window_syn_def ByteStream_eof_def
      ByteStream_def send_new_def the_syn_def Let_def sender_syn_def)

text \<open>After the acknowledgment of the SYN there is nothing to send.\<close>

definition sender_open :: "u16 \<Rightarrow> tcp_sender \<Rightarrow> tcp_sender" where
  "sender_open win s = (sender_syn s)\<lparr>sn_acked := 1, sn_window := max 1 (int (unat win)),
     sn_zeroWindow := (win = 0), sn_rto := sn_initial_retransmission_timeout s, sn_outstanding := []\<rparr>"

lemma ack_syn:
  assumes "sn_acked s = 0"
  shows "TCPSender_ack_received (wrap 1 (sn_isn s)) win (sender_syn s) = sender_open win s"
  using assms
  by (simp add: TCPSender_ack_received_def sender_syn_def sender_open_def near_one the_syn Buffer_size_def
      add64_def Let_def)

lemma fill_open:
  fixes random capacity retx fixed_isn
  defines "s \<equiv> TCPSender random capacity retx fixed_isn"
  assumes "capacity < 2 ^ 64"
  shows "TCPSender_fill_window ((sender_open win s)\<lparr>sn_segments_out := q\<rparr>) = (sender_open win s)\<lparr>sn_segments_out := q\<rparr>"
    (is "_ = ?s")
proof -
  have "bs_inv (ByteStream capacity)" using assms(2) by auto
  then have "ByteStream_buffer_size (ByteStream capacity) = 0"
    by (simp add: buffer_size_length) (simp add: ByteStream_def)
  then have turn: "fill_window_turn ?s = (False, ?s)"
    by (simp add: fill_window_turn_def sender_open_def sender_syn_def s_def TCPSender_def Let_def
        ByteStream_eof_def) (simp add: ByteStream_def)
  have "fill_window_loop ?s = ?s"
    by (subst fill_window_loop.simps) (simp only: turn prod.case if_False if_cancel)
  moreover have "\<not> sn_finSent ?s" "sn_window ?s \<noteq> -1"
    by (simp_all add: sender_open_def sender_syn_def s_def TCPSender_def max_def)
  ultimately show ?thesis by (simp add: TCPSender_fill_window_def)
qed

lemma summary_syn:
  fixes random capacity retx fixed_isn
  defines "s \<equiv> TCPSender random capacity retx fixed_isn"
  shows "state_summary_sender s = Sender_CLOSED" "state_summary_sender (sender_syn s) = Sender_SYN_SENT"
    "state_summary_sender (sender_open win s) = Sender_SYN_ACKED" "TCPSender_bytes_in_flight (sender_syn s) = 1"
    "ByteStream_eof (sn_stream s) = False"
  by (simp_all add: state_summary_sender_def s_def TCPSender_def sender_syn_def sender_open_def
      ByteStream_error_def TCPSender_next_seqno_absolute_def TCPSender_bytes_in_flight_def the_syn Let_def
      Buffer_size_def add64_def ByteStream_eof_def ByteStream_def)

section \<open>The receiver during the handshake\<close>

definition recv_open :: "wrapping_int32 \<Rightarrow> tcp_receiver \<Rightarrow> bool" where
  "recv_open isn r \<longleftrightarrow> rc_inv (\<lambda>_. 0) isn r \<and> known (rc_reassembler r) = {} \<and> rc_status r = 1 \<and>
     sr_eof2 (rc_reassembler r) = size_max \<and> \<not> ByteStream_input_ended (TCPReceiver_stream_out r) \<and>
     \<not> bs_error (TCPReceiver_stream_out r)"

lemma recv_open_state:
  assumes "recv_open isn r"
  shows "TCPReceiver_ackno r = Some (wrap 1 isn)" "state_summary_receiver r = Receiver_SYN_RECV"
proof -
  have sr: "sr_inv (\<lambda>_. 0) (rc_reassembler r)" "rc_ISN r = isn" "known (rc_reassembler r) = {}" "rc_status r = 1"
    using assms by (simp_all add: recv_open_def rc_inv_def)
  have "sr_unasb (rc_reassembler r) = 0" using sr(3) by (simp add: known_def lessThan_empty_iff)
  moreover have "unassembled_bytes (rc_reassembler r) = 0" using sr_inv_unassembled [OF sr(1)] sr(3) by simp
  ultimately show "TCPReceiver_ackno r = Some (wrap 1 isn)"
    using sr(2,4) by (simp add: TCPReceiver_ackno_def firstUnasb_def add64_def)
  then show "state_summary_receiver r = Receiver_SYN_RECV"
    using assms by (simp add: recv_open_def state_summary_receiver_def ByteStream_error_def)
qed

lemma open_push:
  assumes "rc_inv (\<lambda>_. 0) isn r'" "known (rc_reassembler r') = {}" "rc_status r' = 1"
    "\<not> bs_error (TCPReceiver_stream_out r')"
    and "rc_reassembler r' = push_substring d i False rs" "sr_eof2 rs = size_max"
    "\<not> ByteStream_input_ended (sr_output rs)"
  shows "recv_open isn r'"
proof -
  have "firstUnasb (rc_reassembler r') = 0"
    using assms(2) by (simp add: known_def lessThan_empty_iff firstUnasb_def)
  then have "firstUnasb (push_substring d i False rs) \<noteq> size_max" using assms(5) by (simp add: size_max_def)
  then show ?thesis
    using assms push_substring_ended [of d i False rs]
    by (simp add: recv_open_def TCPReceiver_stream_out_def)
qed

lemma recv_syn:
  assumes "capacity < 2 ^ 31" "th_seqno (seg_header seg) = isn" "th_syn (seg_header seg)"
    "\<not> th_fin (seg_header seg)" "Buffer_str (seg_payload seg) = []"
  shows "recv_open isn (TCPReceiver_segment_received seg (TCPReceiver capacity))"
proof -
  have true: "seg_true (\<lambda>_. 0) isn 0 seg" using assms by (simp add: seg_true_def)
  show ?thesis
    by (rule open_push [where rs = "StreamReassembler capacity" and d = "[]" and i = 0])
      (use rc_inv_first_syn [OF assms(1) true assms(3)] assms in
        \<open>simp_all add: segment_received_syn [OF true assms(3)]\<close>,
       simp_all add: TCPReceiver_def StreamReassembler_def ByteStream_input_ended_def ByteStream_def)
qed

lemma recv_ack:
  assumes "recv_open isn r" "th_seqno (seg_header seg) = wrap 1 isn" "\<not> th_syn (seg_header seg)"
    "\<not> th_fin (seg_header seg)" "Buffer_str (seg_payload seg) = []"
  shows "recv_open isn (TCPReceiver_segment_received seg r)"
proof -
  have inv: "rc_inv (\<lambda>_. 0) isn r" using assms(1) by (simp add: recv_open_def)
  have true: "seg_true (\<lambda>_. 0) isn 1 seg" "1 + seg_size seg < 2 ^ 31" "seg_positions 1 seg = {}"
    using assms by (simp_all add: seg_true_def seg_size_def seg_positions_def)
  have r': "rc_status (TCPReceiver_segment_received seg r) = 1"
    "rc_reassembler (TCPReceiver_segment_received seg r) = push_substring [] 0 False (rc_reassembler r)"
    using assms by (simp_all add: segment_received_data [OF inv true(1) assms(3)] recv_open_def)
  show ?thesis
    by (rule open_push [OF _ _ r'(1) _ r'(2)])
      (use rc_inv_step [OF inv true(1,2)] true(3) assms(1) in \<open>simp_all add: recv_open_def TCPReceiver_stream_out_def\<close>)
qed

section \<open>The connections during the handshake\<close>

definition new_sender :: "u32 \<Rightarrow> tcp_config \<Rightarrow> tcp_sender" where
  "new_sender r cfg = TCPSender r (cfg_send_capacity cfg) (cfg_rt_timeout cfg) (cfg_fixed_isn cfg)"

lemma new_sender_fill:
  "TCPSender_fill_window (new_sender r cfg) =
     (sender_syn (new_sender r cfg))\<lparr>sn_segments_out := [the_syn (sn_isn (new_sender r cfg))]\<rparr>"
  unfolding new_sender_def by (rule fill_new)

lemma open_sender_fill:
  "cfg_send_capacity cfg < 2 ^ 64 \<Longrightarrow>
     TCPSender_fill_window ((sender_open w (new_sender r cfg))\<lparr>sn_segments_out := q\<rparr>) =
     (sender_open w (new_sender r cfg))\<lparr>sn_segments_out := q\<rparr>"
  unfolding new_sender_def by (rule fill_open)

lemma new_sender_simps:
  "sn_acked (new_sender r cfg) = 0" "sn_crtx (new_sender r cfg) = 0"
  by (simp_all add: new_sender_def TCPSender_def)

lemma new_sender_summary:
  "state_summary_sender (new_sender r cfg) = Sender_CLOSED"
  "state_summary_sender (sender_syn (new_sender r cfg)) = Sender_SYN_SENT"
  "state_summary_sender (sender_open win (new_sender r cfg)) = Sender_SYN_ACKED"
  "TCPSender_bytes_in_flight (sender_syn (new_sender r cfg)) = 1"
  unfolding new_sender_def by (rule summary_syn)+

lemma new_connection:
  "cn_sender (TCPConnection r cfg) = new_sender r cfg" "cn_segments_out (TCPConnection r cfg) = []"
  "cn_receiver (TCPConnection r cfg) = TCPReceiver (cfg_recv_capacity cfg)" "cn_active2 (TCPConnection r cfg)"
  "cn_linger_after_streams_finish (TCPConnection r cfg)"
  by (simp_all add: TCPConnection_def new_sender_def)

lemma new_receiver:
  "TCPReceiver_ackno (TCPReceiver n) = None" "state_summary_receiver (TCPReceiver n) = Receiver_LISTEN"
  by (simp_all add: TCPReceiver_ackno_def TCPReceiver_def state_summary_receiver_def ByteStream_error_def
      TCPReceiver_stream_out_def StreamReassembler_def ByteStream_def)

lemma sender_open_idem:
  "(sender_open w s)\<lparr>sn_segments_out := []\<rparr> = sender_open w s"
  "(sender_syn s)\<lparr>sn_segments_out := []\<rparr> = sender_syn s" "sn_segments_out (sender_open w s) = []"
  by (simp_all add: sender_open_def sender_syn_def)

text \<open>An empty segment that starts no stream and ends none, or one that starts it.\<close>

definition plain :: "bool \<Rightarrow> wrapping_int32 \<Rightarrow> tcp_segment \<Rightarrow> bool" where
  "plain syn n seg \<longleftrightarrow> th_seqno (seg_header seg) = n \<and> th_syn (seg_header seg) = syn \<and>
     \<not> th_fin (seg_header seg) \<and> \<not> th_rst (seg_header seg) \<and> Buffer_str (seg_payload seg) = []"

lemma plain_stamp:
  "plain True (sn_isn s) (stamp c (the_syn (sn_isn s)))"
  "plain False n (stamp c (header_segment (TCPHeader\<lparr>th_seqno := n\<rparr>)))"
  by (simp_all add: plain_def the_syn) (simp_all add: the_syn_def header_segment_def TCPHeader_def TCPSegment_def)

lemma stamp_sender: "stamp (c\<lparr>cn_sender := s\<rparr>) = stamp c"
  by (rule stamp_cong) simp_all

text \<open>The active end sends the SYN.\<close>

lemma connect_new:
  fixes r cfg
  defines "c \<equiv> TCPConnection r cfg" and "s \<equiv> new_sender r cfg"
  defines "p \<equiv> stamp c (the_syn (sn_isn s))"
  shows "TCPConnection_connect c = c\<lparr>cn_sender := sender_syn s, cn_segments_out := [p], cn_tlastsent := cn_tnow c\<rparr>"
    "plain True (sn_isn s) p" "\<not> th_ack (seg_header p)"
proof -
  show "TCPConnection_connect c = c\<lparr>cn_sender := sender_syn s, cn_segments_out := [p], cn_tlastsent := cn_tnow c\<rparr>"
    using new_connection [of r cfg] new_sender_fill [of r cfg]
    by (simp add: TCPConnection_connect_def fill_window_and_send_eq c_def [symmetric] s_def [symmetric]
        p_def sender_open_idem the_syn)
  show "plain True (sn_isn s) p" unfolding p_def by (rule plain_stamp)
  show "\<not> th_ack (seg_header p)"
    using new_connection [of r cfg]
    by (simp add: p_def stamp_def c_def new_receiver Let_def the_syn_def header_segment_def TCPHeader_def)
qed

text \<open>The passive end answers a SYN with its own, which acknowledges it.\<close>

lemma answer_syn:
  fixes r cfg seg
  defines "c \<equiv> TCPConnection r cfg" and "s \<equiv> new_sender r cfg"
  defines "c1 \<equiv> c\<lparr>cn_tlast := cn_tnow c, cn_receiver := TCPReceiver_segment_received seg (cn_receiver c)\<rparr>"
  defines "q \<equiv> stamp c1 (the_syn (sn_isn s))"
  assumes "plain True isn seg" "\<not> th_ack (seg_header seg)" "cfg_recv_capacity cfg < 2 ^ 31"
  shows "TCPConnection_segment_received seg c =
      c1\<lparr>cn_sender := sender_syn s, cn_segments_out := [q], cn_tlastsent := cn_tnow c\<rparr>"
    and "recv_open isn (cn_receiver c1)" "plain True (sn_isn s) q"
    "th_ack (seg_header q)" "th_ackno (seg_header q) = wrap 1 isn"
proof -
  have c: "cn_sender c = s" "cn_segments_out c = []" "cn_active2 c" "cn_linger_after_streams_finish c"
    and rc: "cn_receiver c = TCPReceiver (cfg_recv_capacity cfg)"
    using new_connection [of r cfg] by (simp_all add: c_def s_def)
  have "TCPConnection_segment_received seg c = snd (fill_window_and_send c1)"
    by (subst segment_received_ordinary)
      (use c assms(5,6) in \<open>simp_all add: plain_def TCPConnection_active_def c1_def fill_window_and_send_eq
         new_sender_fill s_def stamp_sender\<close>)
  then show "TCPConnection_segment_received seg c =
      c1\<lparr>cn_sender := sender_syn s, cn_segments_out := [q], cn_tlastsent := cn_tnow c\<rparr>"
    using c new_sender_fill [of r cfg, folded s_def]
    by (simp add: fill_window_and_send_eq c1_def q_def sender_open_idem the_syn)
  show "recv_open isn (cn_receiver c1)"
    using recv_syn [OF assms(7), of seg isn] assms(5) by (simp add: c1_def rc plain_def)
  then show "th_ack (seg_header q)" "th_ackno (seg_header q) = wrap 1 isn"
    using stamp_ack(2) recv_open_state(1) unfolding q_def by blast+
  show "plain True (sn_isn s) q" unfolding q_def by (rule plain_stamp)
qed

text \<open>The active end answers with an empty acknowledgment.\<close>

lemma answer_syn_ack:
  fixes r cfg c seg
  defines "s \<equiv> new_sender r cfg" and "win \<equiv> th_win (seg_header seg)"
  defines "c1 \<equiv> c\<lparr>cn_tlast := cn_tnow c, cn_receiver := TCPReceiver_segment_received seg (cn_receiver c),
    cn_sender := sender_open win s\<rparr>"
  defines "e \<equiv> stamp c1 (header_segment (TCPHeader\<lparr>th_seqno := wrap 1 (sn_isn s)\<rparr>))"
  assumes seg: "plain True isn seg" "th_ack (seg_header seg)" "th_ackno (seg_header seg) = wrap 1 (sn_isn s)"
    and c: "cn_sender c = sender_syn s" "cn_receiver c = TCPReceiver (cfg_recv_capacity cfg)"
      "cn_active2 c" "cn_linger_after_streams_finish c"
    and cap: "cfg_recv_capacity cfg < 2 ^ 31" "cfg_send_capacity cfg < 2 ^ 64"
  shows "TCPConnection_segment_received seg c =
      c1\<lparr>cn_segments_out := cn_segments_out c @ [e], cn_tlastsent := cn_tnow c\<rparr>"
    and "recv_open isn (cn_receiver c1)" "plain False (wrap 1 (sn_isn s)) e"
    "th_ack (seg_header e)" "th_ackno (seg_header e) = wrap 1 isn"
proof -
  let ?e = "header_segment (TCPHeader\<lparr>th_seqno := wrap 1 (sn_isn s)\<rparr>)"
  note fill = open_sender_fill [OF cap(2), where w = win and r = r, folded s_def]
  have quiet: "fill_window_and_send c1 = (0, c1)"
    using fill [of "[]"] by (simp add: fill_window_and_send_eq c1_def sender_open_idem)
  have empty: "TCPSender_send_empty_segment (sender_open win s) = (sender_open win s)\<lparr>sn_segments_out := [?e]\<rparr>"
    by (simp add: TCPSender_send_empty_segment_def sender_open_def sender_syn_def new_sender_simps s_def)
  have ack: "TCPSender_ack_received (th_ackno (seg_header seg)) (th_win (seg_header seg)) (cn_sender c) = sender_open win s"
    unfolding c seg(3) win_def by (rule ack_syn) (simp add: s_def new_sender_simps)
  have busy: "TCPSender_bytes_in_flight (cn_sender c) \<noteq> 0"
    using c(1) by (simp add: s_def new_sender_summary)
  have "TCPConnection_segment_received seg c =
      snd (fill_window_and_send (c1\<lparr>cn_sender := TCPSender_send_empty_segment (cn_sender c1)\<rparr>))"
    by (subst segment_received_ordinary)
      (use c(3,4) seg(1,2) in \<open>simp_all add: plain_def TCPConnection_active_def ack busy
         c1_def [symmetric] quiet\<close>)
  then show "TCPConnection_segment_received seg c =
      c1\<lparr>cn_segments_out := cn_segments_out c @ [e], cn_tlastsent := cn_tnow c\<rparr>"
    using fill by (simp add: fill_window_and_send_eq c1_def e_def empty sender_open_idem stamp_sender)
      (simp add: header_segment_def TCPHeader_def)
  show "recv_open isn (cn_receiver c1)"
    using recv_syn [OF cap(1), of seg isn] seg(1) by (simp add: c1_def c plain_def)
  then show "th_ack (seg_header e)" "th_ackno (seg_header e) = wrap 1 isn"
    using stamp_ack(2) recv_open_state(1) unfolding e_def by blast+
  show "plain False (wrap 1 (sn_isn s)) e" unfolding e_def by (rule plain_stamp)
qed

text \<open>The passive end takes the acknowledgment and sends nothing.\<close>

lemma take_ack:
  fixes r cfg c seg
  defines "s \<equiv> new_sender r cfg" and "win \<equiv> th_win (seg_header seg)"
  defines "c1 \<equiv> c\<lparr>cn_tlast := cn_tnow c, cn_receiver := TCPReceiver_segment_received seg (cn_receiver c),
    cn_sender := sender_open win s\<rparr>"
  assumes seg: "plain False (wrap 1 isn) seg" "th_ack (seg_header seg)" "th_ackno (seg_header seg) = wrap 1 (sn_isn s)"
    and c: "cn_sender c = sender_syn s" "recv_open isn (cn_receiver c)"
      "cn_active2 c" "cn_linger_after_streams_finish c"
    and cap: "cfg_send_capacity cfg < 2 ^ 64"
  shows "TCPConnection_segment_received seg c = c1" "recv_open isn (cn_receiver c1)"
proof -
  note fill = open_sender_fill [OF cap, where w = win and r = r, folded s_def]
  have quiet: "fill_window_and_send c1 = (0, c1)"
    using fill [of "[]"] by (simp add: fill_window_and_send_eq c1_def sender_open_idem)
  have ack: "TCPSender_ack_received (th_ackno (seg_header seg)) (th_win (seg_header seg)) (cn_sender c) = sender_open win s"
    unfolding c seg(3) win_def by (rule ack_syn) (simp add: s_def new_sender_simps)
  have busy: "TCPSender_bytes_in_flight (cn_sender c) \<noteq> 0"
    using c(1) by (simp add: s_def new_sender_summary)
  show "TCPConnection_segment_received seg c = c1"
    by (subst segment_received_ordinary)
      (use c(3,4) seg(1,2) in \<open>simp_all add: plain_def TCPConnection_active_def ack busy
         c1_def [symmetric] quiet Buffer_size_def\<close>)
  show "recv_open isn (cn_receiver c1)"
    using recv_ack [OF c(2), of seg] seg(1) by (simp add: c1_def plain_def)
qed

text \<open>The names of the states.\<close>

lemma handshake_states:
  fixes r cfg
  assumes "cn_active2 c" "cn_linger_after_streams_finish c"
  defines "s \<equiv> new_sender r cfg"
  shows "cn_sender c = s \<Longrightarrow> cn_receiver c = TCPReceiver n \<Longrightarrow>
      TCPConnection_state c = TCPState_official State_LISTEN"
    and "cn_sender c = sender_syn s \<Longrightarrow> cn_receiver c = TCPReceiver n \<Longrightarrow>
      TCPConnection_state c = TCPState_official State_SYN_SENT"
    and "cn_sender c = sender_syn s \<Longrightarrow> recv_open isn (cn_receiver c) \<Longrightarrow>
      TCPConnection_state c = TCPState_official State_SYN_RCVD"
    and "cn_sender c = sender_open w s \<Longrightarrow> recv_open isn (cn_receiver c) \<Longrightarrow>
      TCPConnection_state c = TCPState_official State_ESTABLISHED"
  using assms(1,2)
  by (simp_all add: TCPConnection_state_def TCPState_def TCPConnection_active_def s_def new_sender_summary
      new_receiver recv_open_state)

section \<open>Properties\<close>

text \<open>
  C7: the three-way handshake: of two new connections, with any configurations (receive windows below
  2 GiB) and any initial sequence numbers, one calls \<^verbatim>\<open>connect()\<close>. It sends one SYN; the other answers
  it with one SYN that acknowledges it; that is answered with one empty acknowledgment, which is
  not answered; and the ends go from LISTEN through SYN_SENT and SYN_RCVD, and come to ESTABLISHED.
\<close>

theorem three_way_handshake:
  fixes ra rb and cfgA cfgB :: tcp_config
  assumes "cfg_recv_capacity cfgA < 2 ^ 31" "cfg_recv_capacity cfgB < 2 ^ 31"
    and "cfg_send_capacity cfgA < 2 ^ 64" "cfg_send_capacity cfgB < 2 ^ 64"
  defines "A0 \<equiv> TCPConnection ra cfgA" and "B0 \<equiv> TCPConnection rb cfgB"
  defines "A1 \<equiv> TCPConnection_connect A0"
  defines "B1 \<equiv> TCPConnection_segment_received (last (cn_segments_out A1)) B0"
  defines "A2 \<equiv> TCPConnection_segment_received (last (cn_segments_out B1)) A1"
  defines "B2 \<equiv> TCPConnection_segment_received (last (cn_segments_out A2)) B1"
  shows "TCPConnection_state A0 = TCPState_official State_LISTEN \<and>
    TCPConnection_state B0 = TCPState_official State_LISTEN \<and>
    length (cn_segments_out A1) = 1 \<and> TCPConnection_state A1 = TCPState_official State_SYN_SENT \<and>
    length (cn_segments_out B1) = 1 \<and> TCPConnection_state B1 = TCPState_official State_SYN_RCVD \<and>
    length (cn_segments_out A2) = 2 \<and> TCPConnection_state A2 = TCPState_official State_ESTABLISHED \<and>
    length (cn_segments_out B2) = 1 \<and> TCPConnection_state B2 = TCPState_official State_ESTABLISHED"
proof -
  note A1 = connect_new [of ra cfgA, folded A0_def, folded A1_def]
  note newA = new_connection [of ra cfgA, folded A0_def] and newB = new_connection [of rb cfgB, folded B0_def]
  have A1': "cn_sender A1 = sender_syn (new_sender ra cfgA)" "cn_receiver A1 = TCPReceiver (cfg_recv_capacity cfgA)"
    "cn_active2 A1" "cn_linger_after_streams_finish A1" "length (cn_segments_out A1) = 1"
    using newA by (simp_all add: A1(1))
  have p: "plain True (sn_isn (new_sender ra cfgA)) (last (cn_segments_out A1))"
    "\<not> th_ack (seg_header (last (cn_segments_out A1)))"
    using A1 by simp_all
  note B1 = answer_syn [OF p assms(2), of rb, folded B0_def, folded B1_def]
  have B1': "cn_sender B1 = sender_syn (new_sender rb cfgB)" "recv_open (sn_isn (new_sender ra cfgA)) (cn_receiver B1)"
    "cn_active2 B1" "cn_linger_after_streams_finish B1" "length (cn_segments_out B1) = 1"
    using newB B1(2) by (simp_all add: B1(1))
  have q: "plain True (sn_isn (new_sender rb cfgB)) (last (cn_segments_out B1))"
    "th_ack (seg_header (last (cn_segments_out B1)))"
    "th_ackno (seg_header (last (cn_segments_out B1))) = wrap 1 (sn_isn (new_sender ra cfgA))"
    using B1(3-5) by (simp_all only: B1(1)) simp_all
  note A2 = answer_syn_ack [OF q A1'(1-4) assms(1,3), folded A2_def]
  have e: "plain False (wrap 1 (sn_isn (new_sender ra cfgA))) (last (cn_segments_out A2))"
    "th_ack (seg_header (last (cn_segments_out A2)))"
    "th_ackno (seg_header (last (cn_segments_out A2))) = wrap 1 (sn_isn (new_sender rb cfgB))"
    using A2(3-5) by (simp_all only: A2(1)) simp_all
  note B2 = take_ack [OF e B1'(1-4) assms(4), folded B2_def]
  have "length (cn_segments_out A2) = 2" "length (cn_segments_out B2) = 1"
    using A1'(5) B1'(5) by (simp_all add: A2(1) B2(1))
  moreover have "TCPConnection_state A2 = TCPState_official State_ESTABLISHED"
    "TCPConnection_state B2 = TCPState_official State_ESTABLISHED"
    by (rule handshake_states(4); use A2(2) B2(2) A1' B1' in \<open>simp add: A2(1) B2(1)\<close>)+
  ultimately show ?thesis
    using A1' B1' newA newB handshake_states by simp
qed

theorem three_way_handshake_witness:
  "let A1 = TCPConnection_connect (TCPConnection 7 TCPConfig);
       B1 = TCPConnection_segment_received (last (cn_segments_out A1)) (TCPConnection 9 TCPConfig);
       A2 = TCPConnection_segment_received (last (cn_segments_out B1)) A1;
       B2 = TCPConnection_segment_received (last (cn_segments_out A2)) B1
   in TCPConnection_state A2 = TCPState_official State_ESTABLISHED \<and>
      TCPConnection_state B2 = TCPState_official State_ESTABLISHED"
  using three_way_handshake [of TCPConfig TCPConfig 7 9]
  by (simp add: TCPConfig_def DEFAULT_CAPACITY_def Let_def)

end
