(* ===== verification/Connections.thy ===== *)
theory Connections
  imports Handshake
begin

text \<open>
  Two \<^verbatim>\<open>TCPConnection\<close>s (\<^verbatim>\<open>libsponge/tcp_connection.cc\<close>) that talk to each other over a network which may lose,
  repeat, delay and reorder segments in both directions, with their applications. Each direction is a run of
  the sender, network and receiver of \<open>End_To_End\<close>: what is known of these carries over to the connections.
\<close>

section \<open>What every sender keeps\<close>

text \<open>
  The segments a sender makes carry no acknowledgment (the connection adds it), and a sender that has not sent its SYN
  has nothing to retransmit.
\<close>

definition sn_ok :: "tcp_sender \<Rightarrow> bool" where
  "sn_ok s \<longleftrightarrow> (\<forall>seg \<in># mset (sn_segments_out s) + in_flight s. \<not> th_ack (seg_header seg)) \<and>
     (sn_window s = -1 \<longrightarrow> sn_outstanding s = [] \<and> sn_crtx s = 0 \<and> \<not> sn_finSent s)"

lemma sn_ok_new: "sn_ok (TCPSender random capacity timeout isn)"
  by (simp add: sn_ok_def TCPSender_def in_flight_def)

lemma sn_ok_stream [simp]: "sn_ok (s\<lparr>sn_stream := st\<rparr>) = sn_ok s"
  by (simp add: sn_ok_def in_flight_def)

lemma sn_ok_queue: "sn_ok s \<Longrightarrow> set q \<subseteq> set (sn_segments_out s) \<Longrightarrow> sn_ok (s\<lparr>sn_segments_out := q\<rparr>)"
  by (auto simp: sn_ok_def in_flight_def)

lemma sn_ok_send:
  "sn_ok s \<Longrightarrow> \<not> th_ack (seg_header seg) \<Longrightarrow> sn_window s \<noteq> -1 \<Longrightarrow> sn_ok (send_new seg s)"
  by (auto simp: sn_ok_def in_flight_def send_new_def)

lemma sn_ok_numbers:
  assumes "sn_ok s" "sn_window s \<noteq> -1" "sn_window s' \<noteq> -1" "sn_outstanding s' = sn_outstanding s"
    "sn_segments_out s' = sn_segments_out s"
  shows "sn_ok s'"
  using assms by (simp add: sn_ok_def in_flight_def)

lemma new_segment_plain [simp]: "\<not> th_ack TCPHeader" "seg_header (header_segment h) = h"
  by (simp_all add: header_segment_def TCPHeader_def)

lemma turn_ok:
  assumes "sn_ok s" "sn_window s \<noteq> -1"
  shows "sn_ok (snd (fill_window_turn s)) \<and> sn_window (snd (fill_window_turn s)) = sn_window s"
proof -
  have "sn_ok (snd (fill_window_turn s))"
    using assms by (simp add: fill_window_turn_def Let_def split_beta send_new_def sn_ok_def in_flight_def ball_Un)
  moreover have "sn_window (snd (fill_window_turn s)) = sn_window s"
    by (simp add: fill_window_turn_def Let_def split_beta send_new_def)
  ultimately show ?thesis by simp
qed

lemma loop_ok:
  assumes "sn_ok s" "sn_window s \<noteq> -1"
  shows "sn_ok (fill_window_loop s) \<and> sn_window (fill_window_loop s) = sn_window s"
  using assms
proof (induction s rule: fill_window_loop.induct)
  case (1 s)
  obtain again s' where t: "fill_window_turn s = (again, s')" by fastforce
  then have "sn_ok s'" "sn_window s' = sn_window s" using turn_ok [OF "1.prems"] by simp_all
  with "1.IH" [OF _ t [symmetric]] "1.prems" show ?case by (subst (1 2) fill_window_loop.simps) (simp add: t)
qed

lemma fill_ok:
  assumes "sn_ok s"
  shows "sn_ok (TCPSender_fill_window s) \<and> sn_window (TCPSender_fill_window s) \<noteq> -1"
proof (cases "sn_window s = -1")
  case True
  then show ?thesis using assms
    by (simp add: TCPSender_fill_window_def fill_window_syn_def Let_def send_new_def sn_ok_def in_flight_def ball_Un)
next
  case False
  then show ?thesis using loop_ok [OF assms False] assms by (simp add: TCPSender_fill_window_def)
qed

lemma ack_ok:
  assumes "sn_ok s" "sn_window s \<noteq> -1"
  shows "sn_ok (TCPSender_ack_received ackno win s) \<and> sn_window (TCPSender_ack_received ackno win s) \<noteq> -1"
proof -
  have "set_mset (segs_of (ack_outstanding isn acked isnew expiry c)) \<subseteq> set_mset (segs_of c)" for isn acked isnew expiry c
    by (induction c) (auto simp: Let_def split: if_splits)
  note sub = this [THEN subsetD]
  show ?thesis
    using assms by (auto simp: TCPSender_ack_received_def Let_def sn_ok_def in_flight_def max_def dest!: sub)
qed

lemma empty_ok:
  assumes "sn_ok s"
  shows "sn_window s \<noteq> -1 \<Longrightarrow> sn_ok (TCPSender_send_empty_segment s)"
    "sn_window (TCPSender_send_empty_segment s) = sn_window s"
  using assms by (auto simp: TCPSender_send_empty_segment_def sn_ok_def in_flight_def)

lemma tick_ok:
  assumes "sn_ok s" "sn_inv S s" "TCPSender_tick ms s = Inr s'"
  shows "sn_ok s' \<and> sn_window s' = sn_window s"
  using tick_cases [OF assms(2), of ms]
proof (elim disjE exE conjE)
  assume "TCPSender_tick ms s = Inr (s\<lparr>sn_now := add64 (sn_now s) ms\<rparr>)"
  then show ?thesis using assms by (auto simp: sn_ok_def in_flight_def)
next
  fix i s2
  assume i: "i \<in> set (expired (add64 (sn_now s) ms) (sn_outstanding s))" and eq: "TCPSender_tick ms s = Inr s2"
    and s2: "let rto = if sn_zeroWindow s then sn_rto s else mul32 (sn_rto s) 2;
         seg = snd (snd (sn_outstanding s ! i)); c = take i (sn_outstanding s) @ drop (Suc i) (sn_outstanding s)
     in s2 = s\<lparr>sn_now := add64 (sn_now s) ms, sn_rto := rto, sn_segments_out := sn_segments_out s @ [seg],
              sn_crtx := inc32 (sn_crtx s),
              sn_outstanding := map (\<lambda>(start, _, seg). (start, add64 (add64 (sn_now s) ms) rto, seg))
                (multimap_insert (add64 (sn_now s) ms) (add64 (add64 (sn_now s) ms) rto, seg) c)\<rparr>"
  have il: "i < length (sn_outstanding s)" using i by (simp add: expired_iff)
  then have w: "sn_window s \<noteq> -1" using assms(1) by (auto simp: sn_ok_def)
  have fl: "in_flight s2 = in_flight s"
    using s2 segs_of_move [OF il] by (simp add: Let_def in_flight_def)
  have "snd (snd (sn_outstanding s ! i)) \<in># in_flight s" using segs_of_nth [OF il] by (simp add: in_flight_def)
  then have "sn_ok s2" using assms(1) w fl s2 by (auto simp: Let_def sn_ok_def)
  then show ?thesis using s2 eq assms(3) by (simp add: Let_def)
qed

section \<open>One direction\<close>

text \<open>
  \<open>moves cap c n c' n'\<close>: while the connection goes from \<open>c\<close> to \<open>c'\<close> its sender makes steps of the network model. The
  segments the connection has queued are, but for what it stamps on them, on the wire of the model.
\<close>

definition moves :: "nat \<Rightarrow> tcp_connection \<Rightarrow> net \<Rightarrow> tcp_connection \<Rightarrow> net \<Rightarrow> bool" where
  "moves cap c n c' n' \<longleftrightarrow> net_steps cap n n' \<and> n_snd n' = cn_sender c' \<and> cn_receiver c' = cn_receiver c \<and>
     n_rcv n' = n_rcv n \<and> n_read n' = n_read n \<and> n_written n' = n_written n \<and> set (n_wire n) \<subseteq> set (n_wire n') \<and>
     sn_ok (cn_sender c') \<and> (sn_window (cn_sender c) \<noteq> -1 \<longrightarrow> sn_window (cn_sender c') \<noteq> -1) \<and>
     (\<forall>seg \<in> set (cn_segments_out c'). seg \<in> set (cn_segments_out c) \<or>
        sn_window (cn_sender c') \<noteq> -1 \<and> (th_ack (seg_header seg) \<longrightarrow> rc_status (cn_receiver c) \<noteq> LISTEN) \<and>
        (\<exists>seg0 \<in> set (n_wire n'). same_data seg0 seg))"

lemma moves_trans: "moves cap c n c' n' \<Longrightarrow> moves cap c' n' c'' n'' \<Longrightarrow> moves cap c n c'' n''"
  unfolding moves_def by (auto dest: rtranclp_trans) blast+

lemma moves_same:
  assumes "n_snd n = cn_sender c" "sn_ok (cn_sender c)" "cn_sender c' = cn_sender c" "cn_receiver c' = cn_receiver c"
    "cn_segments_out c' = cn_segments_out c"
  shows "moves cap c n c' n"
  using assms by (simp add: moves_def)

lemma moves_sender:
  assumes "net_step cap n (n\<lparr>n_snd := s\<rparr>)" "sn_ok s" "sn_window (cn_sender c) \<noteq> -1 \<longrightarrow> sn_window s \<noteq> -1"
  shows "moves cap c n (c\<lparr>cn_sender := s\<rparr>) (n\<lparr>n_snd := s\<rparr>)"
  using assms by (simp add: moves_def)

text \<open>The sender's queue goes onto the wire.\<close>

lemma transmit_all:
  assumes "sn_segments_out (n_snd n) = q @ q'"
  shows "net_steps cap n (n\<lparr>n_snd := (n_snd n)\<lparr>sn_segments_out := q'\<rparr>, n_wire := n_wire n @ q\<rparr>)"
  using assms
proof (induction q arbitrary: n)
  case Nil
  then have "n\<lparr>n_snd := (n_snd n)\<lparr>sn_segments_out := q'\<rparr>, n_wire := n_wire n @ []\<rparr> = n" by (auto simp flip: Nil)
  then show ?case by simp
next
  case (Cons seg q)
  let ?n = "n\<lparr>n_snd := (n_snd n)\<lparr>sn_segments_out := q @ q'\<rparr>, n_wire := n_wire n @ [seg]\<rparr>"
  have "net_step cap n ?n" using Cons.prems by (intro net_step.transmit) simp
  then show ?case using Cons.IH [of ?n] by (simp add: converse_rtranclp_into_rtranclp)
qed

lemma same_data_stamp: "same_data seg (stamp c seg)"
  by (simp add: same_data_def)

lemma ack_listen: "TCPReceiver_ackno r = None \<longleftrightarrow> rc_status r = LISTEN"
  by (simp add: TCPReceiver_ackno_def Let_def)

lemma stamp_ack_iff: "th_ack (seg_header (stamp c seg)) \<longleftrightarrow> rc_status (cn_receiver c) \<noteq> LISTEN \<or> th_ack (seg_header seg)"
  by (cases "TCPReceiver_ackno (cn_receiver c)")
    (auto simp: stamp_def Let_def ack_listen [symmetric] simp del: status_codes)

lemma moves_fill:
  assumes "n_snd n = cn_sender c" "sn_ok (cn_sender c)"
  shows "\<exists>n'. moves cap c n (snd (fill_window_and_send c)) n'"
proof -
  let ?s = "TCPSender_fill_window (cn_sender c)"
  let ?n1 = "n\<lparr>n_snd := ?s\<rparr>"
  let ?n2 = "?n1\<lparr>n_snd := ?s\<lparr>sn_segments_out := []\<rparr>, n_wire := n_wire n @ sn_segments_out ?s\<rparr>"
  have "net_step cap n ?n1" using net_step.fill [of cap n] by (simp add: assms(1))
  moreover have "net_steps cap ?n1 ?n2" using transmit_all [of ?n1 "sn_segments_out ?s" "[]" cap] by simp
  ultimately have "net_steps cap n ?n2" by (rule converse_rtranclp_into_rtranclp)
  moreover have ok: "sn_ok ?s" "sn_window ?s \<noteq> -1" using fill_ok [OF assms(2)] by simp_all
  moreover have "\<forall>seg \<in> set (sn_segments_out ?s). \<not> th_ack (seg_header seg)" using ok(1) by (simp add: sn_ok_def)
  ultimately have "moves cap c n (snd (fill_window_and_send c)) ?n2"
    using same_data_stamp by (auto simp: moves_def fill_window_and_send_eq stamp_ack_iff sn_ok_queue simp del: status_codes)
  then show ?thesis by blast
qed

lemma moves_empty:
  assumes "n_snd n = cn_sender c" "sn_ok (cn_sender c)" "sn_window (cn_sender c) \<noteq> -1"
  shows "\<exists>n'. moves cap c n (c\<lparr>cn_sender := TCPSender_send_empty_segment (cn_sender c)\<rparr>) n'"
  using moves_sender [OF net_step.empty [of n cap, unfolded assms(1)]] empty_ok [OF assms(2)] assms(3) by metis

lemma moves_ack:
  assumes "n_snd n = cn_sender c" "sn_ok (cn_sender c)" "sn_window (cn_sender c) \<noteq> -1"
  shows "\<exists>n'. moves cap c n (c\<lparr>cn_sender := TCPSender_ack_received ackno win (cn_sender c)\<rparr>) n'"
  using moves_sender [OF net_step.acked [of n cap ackno win, unfolded assms(1)]] ack_ok [OF assms(2,3), of ackno win] assms(3)
  by metis

lemma moves_tick:
  assumes "n_snd n = cn_sender c" "sn_ok (cn_sender c)" "sn_inv S (cn_sender c)" "TCPSender_tick ms (cn_sender c) = Inr s"
  shows "\<exists>n'. moves cap c n (c\<lparr>cn_sender := s\<rparr>) n'"
  using moves_sender [OF net_step.tick [of ms n s cap, unfolded assms(1), OF assms(4)]] tick_ok [OF assms(2-4)] by metis

section \<open>What an operation of a connection does to its sender and receiver\<close>

text \<open>A reset marks both streams as failed, and the connection takes part in nothing more.\<close>

definition outcome :: "tcp_connection \<Rightarrow> tcp_connection \<Rightarrow> bool" where
  "outcome c1 c' \<longleftrightarrow> cn_segments_out c' = cn_segments_out c1 \<and>
     (cn_sender c' = cn_sender c1 \<and> cn_receiver c' = cn_receiver c1 \<or>
      \<not> cn_active2 c' \<and> cn_sender c' = TCPSender_stream_in ByteStream_set_error (cn_sender c1) \<and>
      cn_receiver c' = TCPReceiver_stream_error (cn_receiver c1))"

lemma outcome_refl [simp]: "outcome c c"
  by (simp add: outcome_def)

lemma outcome_flags [simp]:
  "outcome c1 (c\<lparr>cn_active2 := a\<rparr>) \<longleftrightarrow> cn_segments_out c = cn_segments_out c1 \<and>
     (cn_sender c = cn_sender c1 \<and> cn_receiver c = cn_receiver c1 \<or>
      \<not> a \<and> cn_sender c = TCPSender_stream_in ByteStream_set_error (cn_sender c1) \<and>
      cn_receiver c = TCPReceiver_stream_error (cn_receiver c1))"
  by (simp add: outcome_def)

lemma moves_sendRST:
  assumes "n_snd n = cn_sender c" "sn_ok (cn_sender c)" "sn_window (cn_sender c) \<noteq> -1"
  shows "\<exists>c1 n'. moves cap c n c1 n' \<and> outcome c1 (sendRST c)"
proof -
  let ?s = "TCPSender_send_empty_segment (cn_sender c)"
  let ?seg = "hd (sn_segments_out ?s)"
  let ?rst = "?seg\<lparr>seg_header := (seg_header ?seg)\<lparr>th_rst := True\<rparr>\<rparr>"
  let ?c = "c\<lparr>cn_sender := ?s\<rparr>"
  let ?c1 = "c\<lparr>cn_sender := ?s\<lparr>sn_segments_out := tl (sn_segments_out ?s)\<rparr>, cn_segments_out := cn_segments_out c @ [?rst]\<rparr>"
  obtain n1 where n1: "moves cap c n ?c n1" using moves_empty [OF assms] by blast
  let ?n2 = "n1\<lparr>n_snd := ?s\<lparr>sn_segments_out := tl (sn_segments_out ?s)\<rparr>, n_wire := n_wire n1 @ [?seg]\<rparr>"
  have q: "sn_segments_out ?s = ?seg # tl (sn_segments_out ?s)" by (simp add: TCPSender_send_empty_segment_def)
  have snd: "n_snd n1 = ?s" "sn_ok ?s" using n1 by (simp_all add: moves_def)
  have ack: "\<not> th_ack (seg_header ?seg)" using snd(2) q unfolding sn_ok_def by (metis Un_iff list.set_intros(1) set_mset_mset set_mset_union)
  have "set (tl (sn_segments_out ?s)) \<subseteq> set (sn_segments_out ?s)" by (metis q set_subset_Cons)
  then have ok: "sn_ok (?s\<lparr>sn_segments_out := tl (sn_segments_out ?s)\<rparr>)" by (rule sn_ok_queue [OF snd(2)])
  have "net_step cap n1 ?n2"
    using net_step.transmit [of n1 ?seg "tl (sn_segments_out ?s)" cap] q by (simp add: snd(1))
  moreover have "same_data ?seg ?rst" by (simp add: same_data_def)
  ultimately have "moves cap ?c n1 ?c1 ?n2"
    using ok ack assms(3) empty_ok(2) [OF assms(2)] by (auto simp: moves_def)
  with n1 have "moves cap c n ?c1 ?n2" by (rule moves_trans)
  moreover have "outcome ?c1 (sendRST c)"
    by (simp add: outcome_def sendRST_def Let_def set_errors_def)
  ultimately show ?thesis by blast
qed

lemma tick_moves:
  assumes "n_snd n = cn_sender c" "sn_ok (cn_sender c)" "sn_inv S (cn_sender c)" "TCPConnection_tick ms c = Inr c'"
  shows "\<exists>c1 n'. moves cap c n c1 n' \<and> outcome c1 c'"
  using assms(4)
proof (cases rule: connection_tick_cases)
  case ignored
  then show ?thesis using moves_same [OF assms(1,2) refl refl refl] outcome_refl by blast
next
  case (ticked c0 s)
  note c0 = ticked(1-3) and s = ticked(4) and c' = ticked(5)
  let ?c = "c0\<lparr>cn_sender := s\<rparr>"
  have "moves cap c n c0 n" by (rule moves_same [OF assms(1,2) c0])
  moreover obtain n1 where n1: "moves cap c0 n ?c n1"
    using moves_tick [of n c0, unfolded c0(1), OF assms(1-3) s] by blast
  ultimately have m1: "moves cap c n ?c n1" by (rule moves_trans)
  have ok: "n_snd n1 = cn_sender ?c" "sn_ok (cn_sender ?c)" using n1 by (simp_all add: moves_def)
  show ?thesis
  proof (cases "TCPSender_consecutive_retransmissions s > MAX_RETX_ATTEMPTS")
    case True
    then have "sn_crtx s \<noteq> 0" by (simp add: TCPSender_consecutive_retransmissions_def MAX_RETX_ATTEMPTS_def)
    then have "sn_window s \<noteq> -1" using ok(2) by (auto simp: sn_ok_def)
    from moves_sendRST [OF ok, of cap] this obtain c1 n2 where "moves cap ?c n1 c1 n2" "outcome c1 (sendRST ?c)" by auto
    with m1 True c' show ?thesis using moves_trans by fastforce
  next
    case False
    from moves_fill [OF ok] obtain n2 where "moves cap ?c n1 (snd (fill_window_and_send ?c)) n2" by blast
    with m1 False c' show ?thesis using moves_trans by fastforce
  qed
qed

lemma end_moves:
  assumes "n_snd n = cn_sender c" "sn_ok (cn_sender c)"
  shows "\<exists>n'. moves cap c n (TCPConnection_end_input_stream c) n'"
proof (cases "TCPConnection_active c")
  case True
  let ?s = "TCPSender_stream_in ByteStream_end_input (cn_sender c)"
  have "sn_ok ?s" "sn_window ?s = sn_window (cn_sender c)" using assms(2) by (simp_all add: TCPSender_stream_in_def)
  then have m1: "moves cap c n (c\<lparr>cn_sender := ?s\<rparr>) (n\<lparr>n_snd := ?s\<rparr>)"
    using net_step.app_end [of cap n] by (intro moves_sender) (simp_all add: assms(1))
  have "n_snd (n\<lparr>n_snd := ?s\<rparr>) = cn_sender (c\<lparr>cn_sender := ?s\<rparr>)" "sn_ok (cn_sender (c\<lparr>cn_sender := ?s\<rparr>))"
    using \<open>sn_ok ?s\<close> by simp_all
  from moves_fill [OF this] obtain n' where
    "moves cap (c\<lparr>cn_sender := ?s\<rparr>) (n\<lparr>n_snd := ?s\<rparr>) (snd (fill_window_and_send (c\<lparr>cn_sender := ?s\<rparr>))) n'" by blast
  with m1 have "moves cap c n (snd (fill_window_and_send (c\<lparr>cn_sender := ?s\<rparr>))) n'" by (rule moves_trans)
  then show ?thesis using True by (auto simp: TCPConnection_end_input_stream_def)
next
  case False
  then have "TCPConnection_end_input_stream c = c" by (simp add: TCPConnection_end_input_stream_def)
  then show ?thesis using moves_same [OF assms refl refl refl] by auto
qed

text \<open>
  A segment is ignored, resets the connection, or is taken by the receiver, then by the sender, which sends what it can,
  and an empty segment if that is nothing and an answer is due.
\<close>

lemma received_cases:
  fixes c :: tcp_connection and seg :: tcp_segment
  defines "c' \<equiv> TCPConnection_segment_received seg c" and "h \<equiv> seg_header seg"
  obtains (ignored) "c' = c" | (reset) "outcome c c'" "\<not> cn_active2 c'"
    | (taken) c2 c3 c5 where "cn_sender c2 = cn_sender c" "cn_segments_out c2 = cn_segments_out c"
      "cn_receiver c2 = TCPReceiver_segment_received seg (cn_receiver c)"
      "c3 = (if th_ack h then c2\<lparr>cn_sender := TCPSender_ack_received (th_ackno h) (th_win h) (cn_sender c2)\<rparr> else c2)"
      "let c4 = snd (fill_window_and_send c3) in c5 = c4 \<or>
         c5 = snd (fill_window_and_send (c4\<lparr>cn_sender := TCPSender_send_empty_segment (cn_sender c4)\<rparr>))"
      "outcome c5 c'"
proof (cases "c' = c")
  case False
  have open_end: "\<not> \<not> TCPConnection_active c" "\<not> (TCPSender_bytes_in_flight (cn_sender c) = 0 \<and>
      \<not> ByteStream_eof (sn_stream (cn_sender c)) \<and> TCPReceiver_ackno (cn_receiver c) = None \<and> \<not> th_syn h)"
    by (rule notI; rule notE [OF False]; simp add: c'_def h_def TCPConnection_segment_received_def Let_def)+
  define c0 where "c0 = (if passive_closed c \<and> th_ack h \<and> th_ackno h = TCPSender_next_seqno (cn_sender c)
      then c\<lparr>cn_active2 := False\<rparr> else c)"
  have c0: "cn_sender c0 = cn_sender c" "cn_receiver c0 = cn_receiver c" "cn_segments_out c0 = cn_segments_out c"
    by (simp_all add: c0_def)
  note open_it = c'_def TCPConnection_segment_received_def Let_def h_def [symmetric] if_not_P [OF open_end(1)]
    if_not_P [OF open_end(2)] c0_def [symmetric]
  show ?thesis
  proof (cases "th_rst h \<and> (TCPReceiver_ackno (cn_receiver c0) = None \<or> Some (th_seqno h) = TCPReceiver_ackno (cn_receiver c0))")
    case True
    have "c' = (set_errors c0)\<lparr>cn_active2 := False\<rparr>" unfolding open_it if_P [OF True] ..
    then show ?thesis using c0 by (intro reset) (simp_all add: outcome_def set_errors_def)
  next
    case False
    define c1 where "c1 = (if th_fin h then c0\<lparr>cn_finreceived := True, cn_linger_after_streams_finish :=
        (if \<not> cn_finsent c0 then False else cn_linger_after_streams_finish c0)\<rparr> else c0)"
    define c2 where "c2 = c1\<lparr>cn_tlast := cn_tnow c1, cn_receiver := TCPReceiver_segment_received seg (cn_receiver c1)\<rparr>"
    define c3 where "c3 = (if th_ack h
      then c2\<lparr>cn_sender := TCPSender_ack_received (th_ackno h) (th_win h) (cn_sender c2)\<rparr> else c2)"
    define c4 where "c4 = snd (fill_window_and_send c3)"
    define c5 where "c5 = (if fst (fill_window_and_send c3) = 0 \<and> (Buffer_size (seg_payload seg) \<noteq> 0 \<or> th_syn h \<or> th_fin h)
      then snd (fill_window_and_send (c4\<lparr>cn_sender := TCPSender_send_empty_segment (cn_sender c4)\<rparr>)) else c4)"
    have eq: "c' = (if passive_closed c5 \<and> th_ack h then c5\<lparr>cn_active2 := False\<rparr> else c5)"
      unfolding open_it if_not_P [OF False] c1_def [symmetric] c2_def [symmetric] c3_def [symmetric] split_beta
        c4_def [symmetric] c5_def [symmetric] ..
    show ?thesis
    proof (rule taken)
      show "cn_sender c2 = cn_sender c" "cn_segments_out c2 = cn_segments_out c"
        "cn_receiver c2 = TCPReceiver_segment_received seg (cn_receiver c)" by (simp_all add: c2_def c1_def c0)
      show "let c4 = snd (fill_window_and_send c3) in c5 = c4 \<or>
         c5 = snd (fill_window_and_send (c4\<lparr>cn_sender := TCPSender_send_empty_segment (cn_sender c4)\<rparr>))"
        unfolding Let_def c4_def [symmetric] c5_def by auto
      show "outcome c5 c'" by (simp add: eq)
    qed (rule c3_def)
  qed
qed

lemma received_moves:
  assumes "n_snd n = cn_sender c" "sn_ok (cn_sender c)"
    and "th_ack (seg_header seg) \<longrightarrow> sn_window (cn_sender c) \<noteq> -1"
  defines "c' \<equiv> TCPConnection_segment_received seg c"
  shows "c' = c \<or> outcome c c' \<and> \<not> cn_active2 c' \<or>
    (let cr = c\<lparr>cn_receiver := TCPReceiver_segment_received seg (cn_receiver c)\<rparr>
     in \<exists>c1 n'. moves cap cr n c1 n' \<and> outcome c1 c')"
proof (cases rule: received_cases [of seg c])
  case (taken c2 c3 c5)
  let ?h = "seg_header seg"
  let ?cr = "c\<lparr>cn_receiver := TCPReceiver_segment_received seg (cn_receiver c)\<rparr>" and ?c4 = "snd (fill_window_and_send c3)"
  have m2: "moves cap ?cr n c2 n" by (rule moves_same) (simp_all add: assms(1,2) taken(1-3))
  have "\<exists>n3. moves cap c2 n c3 n3"
  proof (cases "th_ack ?h")
    case True
    have "n_snd n = cn_sender c2" "sn_ok (cn_sender c2)" "sn_window (cn_sender c2) \<noteq> -1"
      using True assms(1-3) by (simp_all add: taken(1))
    from moves_ack [OF this] show ?thesis using True by (simp add: taken(4))
  qed (use moves_same [of n c2 c2] assms(1,2) in \<open>auto simp: taken(1,4)\<close>)
  then obtain n3 where m3: "moves cap c2 n c3 n3" by blast
  then obtain n4 where m4: "moves cap c3 n3 ?c4 n4"
    using moves_fill [of n3 c3 cap] by (auto simp: moves_def)
  have s4: "n_snd n4 = cn_sender ?c4" "sn_ok (cn_sender ?c4)" using m4 by (simp_all add: moves_def)
  have "sn_ok (cn_sender c3)" using m3 by (simp add: moves_def)
  from fill_ok [OF this] have w4: "sn_window (cn_sender ?c4) \<noteq> -1" by simp
  let ?e = "?c4\<lparr>cn_sender := TCPSender_send_empty_segment (cn_sender ?c4)\<rparr>"
  obtain n5 where e: "moves cap ?c4 n4 ?e n5" using moves_empty [OF s4 w4] by blast
  then have "n_snd n5 = cn_sender ?e" "sn_ok (cn_sender ?e)" by (simp_all add: moves_def)
  from moves_fill [OF this] obtain n6 where "moves cap ?e n5 (snd (fill_window_and_send ?e)) n6" by blast
  with e have "moves cap ?c4 n4 (snd (fill_window_and_send ?e)) n6" by (rule moves_trans)
  moreover have "moves cap ?c4 n4 ?c4 n4" by (rule moves_same [OF s4 refl refl refl])
  ultimately obtain n7 where "moves cap ?c4 n4 c5 n7" using taken(5) unfolding Let_def by blast
  with m2 m3 m4 have "moves cap ?cr n c5 n7" by (blast intro: moves_trans)
  then show ?thesis using taken(6) unfolding c'_def Let_def by blast
qed (simp_all add: c'_def)

section \<open>Two connections and the network between them\<close>

text \<open>
  The two ends are the values of a function from \<open>bool\<close>. Each has its connection, the segments it has put on
  the wire, what its application has written and what it has read.
\<close>

record endpoint =
  ep_conn :: tcp_connection
  ep_wire :: "tcp_segment list"
  ep_written :: bytes
  ep_read :: bytes

type_synonym ends = "bool \<Rightarrow> endpoint"

definition ends_start :: "(bool \<Rightarrow> u32) \<Rightarrow> (bool \<Rightarrow> tcp_config) \<Rightarrow> ends" where
  "ends_start random cfg = (\<lambda>e. \<lparr>ep_conn = TCPConnection (random e) (cfg e), ep_wire = [], ep_written = [], ep_read = []\<rparr>)"

text \<open>
  The steps of the end \<open>e\<close>; its peer is \<open>\<not> e\<close>. An application does not write after it has ended its
  stream, reads no more than there is, connects only while the connection is active, and writes less than 2 GiB. A segment
  may arrive late, more than once, out of order, or never. An end that has no SYN yet sees the SYN first (what
  goes wrong otherwise is shown below).
\<close>

inductive ends_step :: "(bool \<Rightarrow> tcp_config) \<Rightarrow> ends \<Rightarrow> ends \<Rightarrow> bool" for cfg where
  connect: "TCPConnection_active (ep_conn (d e)) \<Longrightarrow>
    ends_step cfg d (d(e := (d e)\<lparr>ep_conn := TCPConnection_connect (ep_conn (d e))\<rparr>))"
| app_write: "\<not> bs_eof2 (sn_stream (cn_sender (ep_conn (d e)))) \<Longrightarrow>
    length (ep_written (d e)) + length data + cfg_recv_capacity (cfg (\<not> e)) < 2 ^ 31 - 2 \<Longrightarrow>
    TCPConnection_write data (ep_conn (d e)) = (k, c) \<Longrightarrow>
    ends_step cfg d (d(e := (d e)\<lparr>ep_conn := c, ep_written := ep_written (d e) @ take k data\<rparr>))"
| app_end: "ends_step cfg d (d(e := (d e)\<lparr>ep_conn := TCPConnection_end_input_stream (ep_conn (d e))\<rparr>))"
| tick: "TCPConnection_tick ms (ep_conn (d e)) = Inr c \<Longrightarrow> ends_step cfg d (d(e := (d e)\<lparr>ep_conn := c\<rparr>))"
| transmit: "cn_segments_out (ep_conn (d e)) = seg # q \<Longrightarrow>
    ends_step cfg d (d(e := (d e)\<lparr>ep_conn := TCPConnection_pop_segment (ep_conn (d e)), ep_wire := ep_wire (d e) @ [seg]\<rparr>))"
| deliver: "seg \<in> set (ep_wire (d (\<not> e))) \<Longrightarrow>
    TCPReceiver_ackno (cn_receiver (ep_conn (d e))) \<noteq> None \<or> th_syn (seg_header seg) \<Longrightarrow>
    ends_step cfg d (d(e := (d e)\<lparr>ep_conn := TCPConnection_segment_received seg (ep_conn (d e))\<rparr>))"
| app_read: "n \<le> length (bs_buf (TCPConnection_inbound_stream (ep_conn (d e)))) \<Longrightarrow>
    TCPConnection_read n (ep_conn (d e)) = (bs, c) \<Longrightarrow>
    ends_step cfg d (d(e := (d e)\<lparr>ep_conn := c, ep_read := ep_read (d e) @ bs\<rparr>))"

abbreviation ends_steps :: "(bool \<Rightarrow> tcp_config) \<Rightarrow> ends \<Rightarrow> ends \<Rightarrow> bool" where
  "ends_steps cfg \<equiv> (ends_step cfg)\<^sup>*\<^sup>*"

text \<open>All segments an end has let out of its sender.\<close>

definition shown :: "endpoint \<Rightarrow> tcp_segment set" where
  "shown p = set (cn_segments_out (ep_conn p)) \<union> set (ep_wire p)"

definition ends_ok :: "ends \<Rightarrow> bool" where
  "ends_ok d \<longleftrightarrow> (\<forall>e. let c = ep_conn (d e) in
     sn_ok (cn_sender c) \<and> (shown (d e) \<noteq> {} \<longrightarrow> sn_window (cn_sender c) \<noteq> -1) \<and>
     (rc_status (cn_receiver c) \<noteq> LISTEN \<longrightarrow> sn_window (cn_sender (ep_conn (d (\<not> e)))) \<noteq> -1) \<and>
     (\<forall>seg \<in> shown (d e). th_ack (seg_header seg) \<longrightarrow> rc_status (cn_receiver c) \<noteq> LISTEN))"

text \<open>The network model \<open>n\<close> describes the direction from \<open>e\<close> to its peer.\<close>

definition follows_snd :: "endpoint \<Rightarrow> net \<Rightarrow> bool" where
  "follows_snd p n \<longleftrightarrow> n_written n = ep_written p \<and> (\<forall>seg \<in> shown p. \<exists>seg0 \<in> set (n_wire n). same_data seg0 seg) \<and>
     (cn_sender (ep_conn p) = n_snd n \<or>
      \<not> cn_active2 (ep_conn p) \<and> cn_sender (ep_conn p) = TCPSender_stream_in ByteStream_set_error (n_snd n))"

definition follows_rcv :: "endpoint \<Rightarrow> net \<Rightarrow> bool" where
  "follows_rcv p n \<longleftrightarrow> n_read n = ep_read p \<and>
     (cn_receiver (ep_conn p) = n_rcv n \<or>
      \<not> cn_active2 (ep_conn p) \<and> cn_receiver (ep_conn p) = TCPReceiver_stream_error (n_rcv n))"

lemma follows_moves:
  assumes "follows_snd p n" "moves cap cr n c1 n'" "outcome c1 c'" "cn_segments_out cr = cn_segments_out (ep_conn p)"
  shows "follows_snd (p\<lparr>ep_conn := c'\<rparr>) n'"
  using assms unfolding follows_snd_def moves_def outcome_def shown_def by auto blast+

lemma follows_rcv_same:
  assumes "follows_rcv p n" "cn_active2 (ep_conn p)" "cn_receiver cr = cn_receiver (ep_conn p)" "outcome cr c'"
  shows "follows_rcv (p\<lparr>ep_conn := c'\<rparr>) n"
  using assms by (auto simp: follows_rcv_def outcome_def)

definition follows :: "(bool \<Rightarrow> u32) \<Rightarrow> (bool \<Rightarrow> tcp_config) \<Rightarrow> ends \<Rightarrow> bool \<Rightarrow> net \<Rightarrow> bool" where
  "follows random cfg d e n \<longleftrightarrow>
     (let cap = cfg_recv_capacity (cfg (\<not> e))
      in net_steps cap (net_start (random e) (cfg e) cap) n \<and> follows_snd (d e) n \<and> follows_rcv (d (\<not> e)) n)"

definition tracked :: "(bool \<Rightarrow> u32) \<Rightarrow> (bool \<Rightarrow> tcp_config) \<Rightarrow> ends \<Rightarrow> bool" where
  "tracked random cfg d \<longleftrightarrow> ends_ok d \<and> (\<forall>e. \<exists>n. follows random cfg d e n)"

definition small :: "(bool \<Rightarrow> tcp_config) \<Rightarrow> bool" where
  "small cfg \<longleftrightarrow> (\<forall>e. cfg_recv_capacity (cfg e) < 2 ^ 31 - 2 \<and> cfg_send_capacity (cfg e) < 2 ^ 62)"

lemma follows_net_inv:
  assumes "small cfg" "follows random cfg d e n"
  obtains S where "net_inv (cfg_recv_capacity (cfg (\<not> e))) S n"
proof -
  let ?cap = "cfg_recv_capacity (cfg (\<not> e))"
  have steps: "net_steps ?cap (net_start (random e) (cfg e) ?cap) n" using assms(2) by (simp add: follows_def Let_def)
  have written: "n_written n = cut (\<lambda>i. n_written n ! i) 0 (length (n_written n))" by (simp add: cut_def map_nth)
  have "?cap < 2 ^ 31 - 2" "cfg_send_capacity (cfg e) < 2 ^ 62" using assms(1) by (simp_all add: small_def)
  then have "net_inv ?cap (\<lambda>i. n_written n ! i) n" by (intro net_inv_steps [OF steps written] net_inv_start)
  then show ?thesis by (rule that)
qed

lemma follows_sn_inv:
  assumes "small cfg" "follows random cfg d e n"
  obtains S where "sn_inv S (n_snd n)"
  using follows_net_inv [OF assms] by (auto simp: net_inv_def Let_def)

lemma all_bool: "(\<forall>e. P e) \<longleftrightarrow> P e0 \<and> P (\<not> e0)" for P :: "bool \<Rightarrow> bool"
proof
  assume *: "P e0 \<and> P (\<not> e0)"
  show "\<forall>e. P e"
  proof
    fix e
    show "P e"
    proof (cases "e = e0")
      case False
      then have "e = (\<not> e0)" by blast
      then show ?thesis by (rule ssubst) (rule conjunct2 [OF *])
    qed (erule ssubst, rule conjunct1 [OF *])
  qed
qed simp

lemma tracked_at:
  "tracked random cfg d \<longleftrightarrow> ends_ok d \<and> (\<exists>n. follows random cfg d e n) \<and> (\<exists>m. follows random cfg d (\<not> e) m)"
  unfolding tracked_def using all_bool [of "\<lambda>e. \<exists>n. follows random cfg d e n" e] by simp

lemma ends_ok_at:
  "ends_ok d \<longleftrightarrow> (let c = ep_conn (d e); c' = ep_conn (d (\<not> e)) in
     sn_ok (cn_sender c) \<and> (shown (d e) \<noteq> {} \<longrightarrow> sn_window (cn_sender c) \<noteq> -1) \<and>
     (rc_status (cn_receiver c) \<noteq> LISTEN \<longrightarrow> sn_window (cn_sender c') \<noteq> -1) \<and>
     (\<forall>seg \<in> shown (d e). th_ack (seg_header seg) \<longrightarrow> rc_status (cn_receiver c) \<noteq> LISTEN) \<and>
     sn_ok (cn_sender c') \<and> (shown (d (\<not> e)) \<noteq> {} \<longrightarrow> sn_window (cn_sender c') \<noteq> -1) \<and>
     (rc_status (cn_receiver c') \<noteq> LISTEN \<longrightarrow> sn_window (cn_sender c) \<noteq> -1) \<and>
     (\<forall>seg \<in> shown (d (\<not> e)). th_ack (seg_header seg) \<longrightarrow> rc_status (cn_receiver c') \<noteq> LISTEN))"
  unfolding ends_ok_def Let_def by (subst all_bool [of _ e]) (simp only: not_not conj_assoc)

lemma outcome_status: "outcome c1 c' \<Longrightarrow> rc_status (cn_receiver c') = rc_status (cn_receiver c1) \<and>
    sn_window (cn_sender c') = sn_window (cn_sender c1) \<and> sn_ok (cn_sender c') = sn_ok (cn_sender c1)"
  by (auto simp: outcome_def TCPReceiver_stream_error_def TCPSender_stream_in_def)

lemma ends_ok_moves:
  assumes "ends_ok d" "moves cap cr n c1 n'" "outcome c1 c'"
    and "cn_sender cr = cn_sender (ep_conn (d e))" "cn_segments_out cr = cn_segments_out (ep_conn (d e))"
    and "rc_status (cn_receiver (ep_conn (d e))) \<noteq> LISTEN \<longrightarrow> rc_status (cn_receiver cr) \<noteq> LISTEN"
    and "rc_status (cn_receiver cr) \<noteq> LISTEN \<longrightarrow> sn_window (cn_sender (ep_conn (d (\<not> e)))) \<noteq> -1"
  shows "ends_ok (d(e := (d e)\<lparr>ep_conn := c'\<rparr>))"
proof -
  have c1: "sn_ok (cn_sender c1)" "cn_receiver c1 = cn_receiver cr"
    "sn_window (cn_sender (ep_conn (d e))) \<noteq> -1 \<longrightarrow> sn_window (cn_sender c1) \<noteq> -1"
    "\<forall>seg \<in> set (cn_segments_out c'). seg \<in> set (cn_segments_out (ep_conn (d e))) \<or> sn_window (cn_sender c1) \<noteq> -1 \<and>
       (th_ack (seg_header seg) \<longrightarrow> rc_status (cn_receiver cr) \<noteq> LISTEN)"
    using assms(2-5) by (auto simp: moves_def outcome_def)
  note out = outcome_status [OF assms(3)]
  let ?p = "(d e)\<lparr>ep_conn := c'\<rparr>"
  have sh: "\<forall>seg \<in> shown ?p. seg \<in> shown (d e) \<or> sn_window (cn_sender c1) \<noteq> -1 \<and>
       (th_ack (seg_header seg) \<longrightarrow> rc_status (cn_receiver cr) \<noteq> LISTEN)"
    using c1(4) by (auto simp: shown_def)
  note inv = assms(1) [unfolded ends_ok_at [of d e] Let_def]
  have "shown ?p \<noteq> {} \<longrightarrow> sn_window (cn_sender c') \<noteq> -1" using sh inv c1(3) out by auto
  moreover have "\<forall>seg \<in> shown ?p. th_ack (seg_header seg) \<longrightarrow> rc_status (cn_receiver c') \<noteq> LISTEN"
    using sh inv c1(2) out assms(6) by metis
  moreover have "rc_status (cn_receiver c') \<noteq> LISTEN \<longrightarrow> sn_window (cn_sender (ep_conn (d (\<not> e)))) \<noteq> -1"
    using out c1(2) assms(7) by simp
  moreover have "rc_status (cn_receiver (ep_conn (d (\<not> e)))) \<noteq> LISTEN \<longrightarrow> sn_window (cn_sender c') \<noteq> -1"
    using inv c1(3) out by simp
  ultimately show ?thesis using inv c1(1) out by (simp add: ends_ok_at [of _ e] Let_def del: status_codes)
qed

lemma follows_conn:
  assumes "follows random cfg d e n" "cn_active2 (ep_conn (d e))"
  shows "n_snd n = cn_sender (ep_conn (d e))"
  using assms by (simp add: follows_def follows_snd_def Let_def)

lemma follows_conn_rcv:
  assumes "follows random cfg d (\<not> e) m" "cn_active2 (ep_conn (d e))"
  shows "n_rcv m = cn_receiver (ep_conn (d e))"
  using assms by (simp add: follows_def follows_rcv_def Let_def)

lemma follows_moved:
  assumes "follows random cfg d e n" "moves (cfg_recv_capacity (cfg (\<not> e))) cr n c1 n'" "follows_snd p n'"
  shows "follows random cfg (d(e := p)) e n'"
  using assms rtranclp_trans [of "net_step (cfg_recv_capacity (cfg (\<not> e)))" _ n n']
  by (simp add: follows_def follows_rcv_def moves_def Let_def)

text \<open>An operation that leaves the receiver as it is or marks it as failed.\<close>

lemma tracked_moves:
  assumes "tracked random cfg d" "cn_active2 (ep_conn (d e))" "small cfg"
    and op: "\<And>cap n S. n_snd n = cn_sender (ep_conn (d e)) \<Longrightarrow> sn_ok (cn_sender (ep_conn (d e))) \<Longrightarrow>
      sn_inv S (cn_sender (ep_conn (d e))) \<Longrightarrow> \<exists>c1 n'. moves cap (ep_conn (d e)) n c1 n' \<and> outcome c1 c'"
  shows "tracked random cfg (d(e := (d e)\<lparr>ep_conn := c'\<rparr>))"
proof -
  obtain n m where n: "follows random cfg d e n" and m: "follows random cfg d (\<not> e) m" and ok: "ends_ok d"
    using assms(1) by (auto simp: tracked_at [of _ _ d e])
  note inv = ok [unfolded ends_ok_at [of d e] Let_def]
  obtain S where S: "sn_inv S (n_snd n)" by (rule follows_sn_inv [OF assms(3) n])
  note snd = follows_conn [OF n assms(2)]
  let ?cap = "cfg_recv_capacity (cfg (\<not> e))"
  obtain c1 n' where mv: "moves ?cap (ep_conn (d e)) n c1 n'" and out: "outcome c1 c'"
    using op [OF snd _ S [unfolded snd]] inv by blast
  have "cn_receiver c1 = cn_receiver (ep_conn (d e))" using mv by (simp add: moves_def)
  then have "follows_rcv ((d e)\<lparr>ep_conn := c'\<rparr>) m"
    using m by (intro follows_rcv_same [OF _ assms(2) _ out]) (simp_all add: follows_def Let_def)
  then have "follows random cfg (d(e := (d e)\<lparr>ep_conn := c'\<rparr>)) (\<not> e) m" using m by (simp add: follows_def Let_def)
  moreover have "follows_snd ((d e)\<lparr>ep_conn := c'\<rparr>) n'"
    using n by (intro follows_moves [OF _ mv out]) (simp_all add: follows_def Let_def)
  then have "follows random cfg (d(e := (d e)\<lparr>ep_conn := c'\<rparr>)) e n'" by (rule follows_moved [OF n mv])
  moreover have "ends_ok (d(e := (d e)\<lparr>ep_conn := c'\<rparr>))"
    by (rule ends_ok_moves [OF ok mv out]) (use inv in simp_all)
  ultimately show ?thesis by (auto simp: tracked_at [of _ _ _ e])
qed

lemma tracked_same: "tracked random cfg d \<Longrightarrow> d e = p \<Longrightarrow> tracked random cfg (d(e := p))"
  by (simp add: fun_upd_idem)

lemma tracked_write:
  assumes "tracked random cfg d" "small cfg" "\<not> bs_eof2 (sn_stream (cn_sender (ep_conn (d e))))"
    and "length (ep_written (d e)) + length data + cfg_recv_capacity (cfg (\<not> e)) < 2 ^ 31 - 2"
    and "TCPConnection_write data (ep_conn (d e)) = (k, c)"
  shows "tracked random cfg (d(e := (d e)\<lparr>ep_conn := c, ep_written := ep_written (d e) @ take k data\<rparr>))"
proof (cases "TCPConnection_active (ep_conn (d e))")
  case False
  then have "k = 0" "c = ep_conn (d e)" using assms(5) by (simp_all add: TCPConnection_write_def)
  then show ?thesis using assms(1) by (simp add: fun_upd_idem)
next
  case True
  then have act: "cn_active2 (ep_conn (d e))" by (simp add: TCPConnection_active_def)
  let ?c = "ep_conn (d e)" and ?cap = "cfg_recv_capacity (cfg (\<not> e))"
  obtain st where w: "ByteStream_write data (sn_stream (cn_sender ?c)) = (k, st)"
    and c: "c = snd (fill_window_and_send (?c\<lparr>cn_sender := (cn_sender ?c)\<lparr>sn_stream := st\<rparr>\<rparr>))"
    using assms(5) True by (auto simp: TCPConnection_write_def Let_def split_beta prod_eq_iff)
  let ?c1 = "?c\<lparr>cn_sender := (cn_sender ?c)\<lparr>sn_stream := st\<rparr>\<rparr>"
  let ?p = "(d e)\<lparr>ep_conn := ?c1, ep_written := ep_written (d e) @ take k data\<rparr>"
  obtain n m where n: "follows random cfg d e n" and m: "follows random cfg d (\<not> e) m" and ok: "ends_ok d"
    using assms(1) by (auto simp: tracked_at [of _ _ d e])
  have snd: "n_snd n = cn_sender ?c" and written: "n_written n = ep_written (d e)"
    using follows_conn [OF n act] n by (simp_all add: follows_def follows_snd_def Let_def)
  let ?n = "n\<lparr>n_snd := (n_snd n)\<lparr>sn_stream := st\<rparr>, n_written := n_written n @ take k data\<rparr>"
  have "net_step ?cap n ?n" using assms(3,4) w by (intro net_step.app_write) (simp_all add: snd written)
  then have "follows random cfg (d(e := ?p)) e ?n"
    using n snd by (auto simp: follows_def Let_def follows_snd_def follows_rcv_def shown_def intro: rtranclp.rtrancl_into_rtrancl)
  moreover have "follows random cfg (d(e := ?p)) (\<not> e) m"
    using m by (auto simp: follows_def Let_def follows_rcv_def)
  moreover have "ends_ok (d(e := ?p))"
    using ok by (simp add: ends_ok_at [of _ e] Let_def shown_def del: status_codes)
  ultimately have "tracked random cfg (d(e := ?p))" by (auto simp: tracked_at [of _ _ _ e])
  then have "tracked random cfg ((d(e := ?p))(e := (d(e := ?p)) e\<lparr>ep_conn := c\<rparr>))"
  proof (rule tracked_moves [OF _ _ assms(2)])
    fix cap and n :: net and S :: "nat \<Rightarrow> byte"
    assume "n_snd n = cn_sender (ep_conn ((d(e := ?p)) e))" "sn_ok (cn_sender (ep_conn ((d(e := ?p)) e)))"
    from moves_fill [OF this, of cap]
    show "\<exists>c1 n'. moves cap (ep_conn ((d(e := ?p)) e)) n c1 n' \<and> outcome c1 c"
      unfolding c using outcome_refl by auto
  qed (use act in simp)
  moreover have "?p\<lparr>ep_conn := c\<rparr> = (d e)\<lparr>ep_conn := c, ep_written := ep_written (d e) @ take k data\<rparr>"
    by (cases "d e") simp
  ultimately show ?thesis by (simp only: fun_upd_same fun_upd_upd)
qed

lemma stream_error_pop: "TCPReceiver_pop k (TCPReceiver_stream_error r) = TCPReceiver_stream_error (TCPReceiver_pop k r)"
  by (simp add: TCPReceiver_pop_def TCPReceiver_stream_error_def pop_stream_out_def ByteStream_pop_output_def ByteStream_set_error_def)

lemma stream_error_out: "TCPReceiver_stream_out (TCPReceiver_stream_error r) = ByteStream_set_error (TCPReceiver_stream_out r)"
  by (simp add: TCPReceiver_stream_out_def TCPReceiver_stream_error_def)

lemma pop_keeps: "rc_status (TCPReceiver_pop k r) = rc_status r"
  by (simp add: TCPReceiver_pop_def)

lemma tracked_read:
  assumes "tracked random cfg d" "k \<le> length (bs_buf (TCPConnection_inbound_stream (ep_conn (d e))))"
    and "TCPConnection_read k (ep_conn (d e)) = (bs, c)"
  shows "tracked random cfg (d(e := (d e)\<lparr>ep_conn := c, ep_read := ep_read (d e) @ bs\<rparr>))"
proof -
  let ?c = "ep_conn (d e)" and ?cap = "cfg_recv_capacity (cfg e)"
  let ?p = "(d e)\<lparr>ep_conn := c, ep_read := ep_read (d e) @ bs\<rparr>"
  have bs: "bs = ByteStream_peek_output k (TCPReceiver_stream_out (cn_receiver ?c))"
    and c: "c = ?c\<lparr>cn_receiver := TCPReceiver_pop k (cn_receiver ?c)\<rparr>"
    using assms(3) by (auto simp: TCPConnection_read_def TCPConnection_inbound_stream_def)
  obtain n m where n: "follows random cfg d e n" and m: "follows random cfg d (\<not> e) m" and ok: "ends_ok d"
    using assms(1) by (auto simp: tracked_at [of _ _ d e])
  let ?m = "m\<lparr>n_rcv := TCPReceiver_pop k (n_rcv m), n_read := n_read m @ ByteStream_peek_output k (TCPReceiver_stream_out (n_rcv m))\<rparr>"
  have rcv: "cn_receiver ?c = n_rcv m \<or> \<not> cn_active2 ?c \<and> cn_receiver ?c = TCPReceiver_stream_error (n_rcv m)"
    and read: "n_read m = ep_read (d e)" using m by (simp_all add: follows_def follows_rcv_def Let_def)
  have same: "bs_buf (TCPReceiver_stream_out (cn_receiver ?c)) = bs_buf (TCPReceiver_stream_out (n_rcv m))"
    using rcv by (auto simp: stream_error_out ByteStream_set_error_def)
  have "net_step ?cap m ?m"
    using assms(2) same by (intro net_step.app_read) (simp add: TCPConnection_inbound_stream_def)
  moreover have "follows_rcv ?p ?m"
    using rcv same by (auto simp: follows_rcv_def c bs read stream_error_pop ByteStream_peek_output_def)
  ultimately have "follows random cfg (d(e := ?p)) (\<not> e) ?m"
    using m by (auto simp: follows_def Let_def follows_snd_def intro: rtranclp.rtrancl_into_rtrancl)
  moreover have "follows random cfg (d(e := ?p)) e n"
    using n by (auto simp: follows_def Let_def follows_snd_def shown_def c)
  moreover have "ends_ok (d(e := ?p))"
    using ok by (simp add: ends_ok_at [of _ e] Let_def shown_def c pop_keeps del: status_codes)
  ultimately show ?thesis by (auto simp: tracked_at [of _ _ _ e])
qed

text \<open>A segment arrives: the receiver of one direction and the sender of the other take it.\<close>

lemma received_status:
  "rc_status r \<noteq> LISTEN \<Longrightarrow> rc_status (TCPReceiver_segment_received seg r) \<noteq> LISTEN"
  by (simp add: TCPReceiver_segment_received_def Let_def)

lemma tracked_deliver:
  assumes "tracked random cfg d" "small cfg" "seg \<in> set (ep_wire (d (\<not> e)))"
    and "TCPReceiver_ackno (cn_receiver (ep_conn (d e))) \<noteq> None \<or> th_syn (seg_header seg)"
  shows "tracked random cfg (d(e := (d e)\<lparr>ep_conn := TCPConnection_segment_received seg (ep_conn (d e))\<rparr>))"
proof -
  let ?c = "ep_conn (d e)"
  let ?c' = "TCPConnection_segment_received seg ?c"
  let ?cr = "?c\<lparr>cn_receiver := TCPReceiver_segment_received seg (cn_receiver ?c)\<rparr>"
  let ?p = "(d e)\<lparr>ep_conn := ?c'\<rparr>"
  obtain n m where n: "follows random cfg d e n" and m: "follows random cfg d (\<not> e) m" and ok: "ends_ok d"
    using assms(1) by (auto simp: tracked_at [of _ _ d e])
  note inv = ok [unfolded ends_ok_at [of d e] Let_def]
  have sh: "seg \<in> shown (d (\<not> e))" using assms(3) by (simp add: shown_def)
  have ack: "th_ack (seg_header seg) \<longrightarrow> sn_window (cn_sender ?c) \<noteq> -1" using inv sh by blast
  have peer: "sn_window (cn_sender (ep_conn (d (\<not> e)))) \<noteq> -1" using inv sh by blast
  show ?thesis
  proof (cases "cn_active2 ?c")
    case False
    then have "?c' = ?c" by (simp add: TCPConnection_segment_received_def TCPConnection_active_def Let_def)
    then show ?thesis using assms(1) by (simp add: fun_upd_idem)
  next
    case act: True
    note snd = follows_conn [OF n act] and rcv = follows_conn_rcv [OF m act]
    have ok1: "sn_ok (cn_sender ?c)" using inv by blast
    consider (same) "?c' = ?c" | (reset) "outcome ?c ?c'" "\<not> cn_active2 ?c'"
      | (taken) c1 n' where "moves (cfg_recv_capacity (cfg (\<not> e))) ?cr n c1 n'" "outcome c1 ?c'"
      using received_moves [OF snd ok1 ack, of "cfg_recv_capacity (cfg (\<not> e))"] by (auto simp: Let_def)
    then show ?thesis
    proof cases
      case same
      then show ?thesis using assms(1) by (simp add: fun_upd_idem)
    next
      case reset
      show ?thesis
      proof (rule tracked_moves [OF assms(1) act assms(2)])
        fix cap and n :: net and S :: "nat \<Rightarrow> byte"
        assume "n_snd n = cn_sender ?c" "sn_ok (cn_sender ?c)"
        from moves_same [OF this refl refl refl] reset(1)
        show "\<exists>c1 n'. moves cap ?c n c1 n' \<and> outcome c1 ?c'" by blast
      qed
    next
      case taken
      let ?cap = "cfg_recv_capacity (cfg e)"
      let ?m = "m\<lparr>n_rcv := TCPReceiver_segment_received seg (n_rcv m)\<rparr>"
      obtain seg0 where seg0: "seg0 \<in> set (n_wire m)" "same_data seg0 seg"
        using m sh by (auto simp: follows_def follows_snd_def Let_def)
      have "rc_status (n_rcv m) \<noteq> LISTEN \<or> th_syn (seg_header seg)"
        using assms(4) by (simp only: rcv ack_listen)
      then have "net_step ?cap m ?m" by (rule net_step.deliver [OF seg0])
      moreover have "follows_rcv ?p ?m"
        using taken rcv m by (auto simp: follows_rcv_def outcome_def moves_def follows_def Let_def)
      ultimately have "follows random cfg (d(e := ?p)) (\<not> e) ?m"
        using m by (auto simp: follows_def Let_def follows_snd_def intro: rtranclp.rtrancl_into_rtrancl)
      moreover have "follows_snd ?p n'"
        using n by (intro follows_moves [OF _ taken]) (simp_all add: follows_def Let_def)
      then have "follows random cfg (d(e := ?p)) e n'"
        by (rule follows_moved [OF n taken(1)])
      moreover have "ends_ok (d(e := ?p))"
        by (rule ends_ok_moves [OF ok taken]) (use peer received_status in auto)
      ultimately show ?thesis by (auto simp: tracked_at [of _ _ _ e])
    qed
  qed
qed

lemma tracked_transmit:
  assumes "tracked random cfg d" "cn_segments_out (ep_conn (d e)) = seg # q"
  shows "tracked random cfg (d(e := (d e)\<lparr>ep_conn := TCPConnection_pop_segment (ep_conn (d e)), ep_wire := ep_wire (d e) @ [seg]\<rparr>))"
proof -
  let ?p = "(d e)\<lparr>ep_conn := TCPConnection_pop_segment (ep_conn (d e)), ep_wire := ep_wire (d e) @ [seg]\<rparr>"
  obtain n m where n: "follows random cfg d e n" and m: "follows random cfg d (\<not> e) m" and ok: "ends_ok d"
    using assms(1) by (auto simp: tracked_at [of _ _ d e])
  have sh: "shown ?p = shown (d e)" using assms(2) by (auto simp: shown_def TCPConnection_pop_segment_def)
  have "follows_snd ?p n" "follows_rcv ?p m"
    using n m sh by (auto simp: follows_def follows_snd_def follows_rcv_def Let_def TCPConnection_pop_segment_def)
  then have "follows random cfg (d(e := ?p)) e n" "follows random cfg (d(e := ?p)) (\<not> e) m"
    using n m by (auto simp: follows_def Let_def)
  moreover have "ends_ok (d(e := ?p))"
    using ok sh by (simp add: ends_ok_at [of _ e] Let_def TCPConnection_pop_segment_def del: status_codes)
  ultimately show ?thesis by (auto simp: tracked_at [of _ _ _ e])
qed

lemma tracked_step:
  assumes "ends_step cfg d d'" "tracked random cfg d" "small cfg"
  shows "tracked random cfg d'"
  using assms(1)
proof cases
  case (connect e)
  show ?thesis unfolding connect(1)
  proof (rule tracked_moves [OF assms(2) _ assms(3)])
    show "cn_active2 (ep_conn (d e))" using connect(2) by (simp add: TCPConnection_active_def)
    fix cap and n :: net and S :: "nat \<Rightarrow> byte"
    assume "n_snd n = cn_sender (ep_conn (d e))" "sn_ok (cn_sender (ep_conn (d e)))"
    from moves_fill [OF this] show "\<exists>c1 n'. moves cap (ep_conn (d e)) n c1 n' \<and>
        outcome c1 (TCPConnection_connect (ep_conn (d e)))"
      unfolding TCPConnection_connect_def using outcome_refl by blast
  qed
next
  case (app_write e data k c)
  then show ?thesis using tracked_write [OF assms(2,3)] by simp
next
  case (app_end e)
  let ?c' = "TCPConnection_end_input_stream (ep_conn (d e))"
  show ?thesis
  proof (cases "cn_active2 (ep_conn (d e))")
    case True
    show ?thesis unfolding app_end
      by (rule tracked_moves [OF assms(2) True assms(3)]) (use end_moves outcome_refl in blast)
  next
    case False
    then have "?c' = ep_conn (d e)" by (simp add: TCPConnection_end_input_stream_def TCPConnection_active_def)
    then show ?thesis unfolding app_end by (intro tracked_same [OF assms(2)]) simp
  qed
next
  case (tick ms e c)
  show ?thesis
  proof (cases "cn_active2 (ep_conn (d e))")
    case True
    show ?thesis unfolding tick(1)
      by (rule tracked_moves [OF assms(2) True assms(3)]) (use tick_moves tick(2) in blast)
  next
    case False
    then have "c = ep_conn (d e)" using tick(2) by (simp add: TCPConnection_tick_def TCPConnection_active_def)
    then show ?thesis unfolding tick(1) by (intro tracked_same [OF assms(2)]) simp
  qed
next
  case (transmit e seg q)
  then show ?thesis using tracked_transmit [OF assms(2)] by simp
next
  case (deliver seg e)
  then show ?thesis using tracked_deliver [OF assms(2,3)] by simp
next
  case (app_read k e bs c)
  then show ?thesis using tracked_read [OF assms(2)] by simp
qed

lemma tracked_start: "tracked random cfg (ends_start random cfg)"
proof -
  have "ends_ok (ends_start random cfg)"
    using sn_ok_new by (auto simp: ends_ok_def ends_start_def TCPConnection_def shown_def TCPReceiver_def Let_def)
  moreover have "follows random cfg (ends_start random cfg) e
      (net_start (random e) (cfg e) (cfg_recv_capacity (cfg (\<not> e))))" for e
    by (simp add: follows_def Let_def ends_start_def net_start_def follows_snd_def follows_rcv_def shown_def TCPConnection_def)
  ultimately show ?thesis by (auto simp: tracked_def)
qed

lemma tracked_steps:
  assumes "ends_steps cfg (ends_start random cfg) d" "small cfg"
  shows "tracked random cfg d"
  using assms(1) by induction (auto intro: tracked_start tracked_step [OF _ _ assms(2)])

text \<open>An inbound stream is a proper byte stream, and a tick never goes wrong.\<close>

lemma tracked_inbound:
  assumes "tracked random cfg d" "small cfg"
  shows "bs_inv (TCPConnection_inbound_stream (ep_conn (d e)))"
proof -
  obtain n where n: "follows random cfg d (\<not> e) n" using assms(1) by (auto simp: tracked_def)
  obtain S where "net_inv (cfg_recv_capacity (cfg (\<not> \<not> e))) S n" by (rule follows_net_inv [OF assms(2) n])
  moreover have "cfg_recv_capacity (cfg e) < 2 ^ 31 - 2" using assms(2) by (simp add: small_def)
  then have "bs_inv (ByteStream (cfg_recv_capacity (cfg e)))" by (intro bs_inv_new) simp
  ultimately have "bs_inv (TCPReceiver_stream_out (n_rcv n))"
    by (auto simp: net_inv_def Let_def rc_inv_def sr_inv_def TCPReceiver_stream_out_def TCPReceiver_def StreamReassembler_def)
  then show ?thesis
    using n by (auto simp: follows_def follows_rcv_def Let_def TCPConnection_inbound_stream_def stream_error_out bs_inv_def
        ByteStream_set_error_def)
qed

lemma tracked_tick:
  assumes "tracked random cfg d" "small cfg"
  obtains c where "TCPConnection_tick ms (ep_conn (d e)) = Inr c"
proof (cases "cn_active2 (ep_conn (d e))")
  case True
  obtain n where n: "follows random cfg d e n" using assms(1) by (auto simp: tracked_def)
  obtain S where S: "sn_inv S (n_snd n)" by (rule follows_sn_inv [OF assms(2) n])
  obtain s where "TCPSender_tick ms (cn_sender (ep_conn (d e))) = Inr s"
    using tick_inv [OF S, of ms] follows_conn [OF n True] by metis
  then have "\<exists>c. TCPConnection_tick ms (ep_conn (d e)) = Inr c" by (auto simp: TCPConnection_tick_def Let_def)
  then show ?thesis using that by blast
next
  case False
  then show ?thesis using that by (simp add: TCPConnection_tick_def TCPConnection_active_def)
qed

text \<open>What the direction from the peer has delivered.\<close>

lemma tracked_delivers:
  assumes "tracked random cfg d" "small cfg"
  defines "got \<equiv> \<lambda>e. ep_read (d e) @ bs_buf (TCPConnection_inbound_stream (ep_conn (d e)))"
  shows "\<forall>e. got e = take (length (got e)) (ep_written (d (\<not> e))) \<and>
    (ByteStream_input_ended (TCPConnection_inbound_stream (ep_conn (d e))) \<longrightarrow>
       got e = ep_written (d (\<not> e)) \<and> ByteStream_input_ended (sn_stream (cn_sender (ep_conn (d (\<not> e))))) \<and>
       bs_buf (sn_stream (cn_sender (ep_conn (d (\<not> e))))) = [])"
proof
  fix e
  let ?c = "ep_conn (d e)" and ?c' = "ep_conn (d (\<not> e))"
  obtain n where n: "follows random cfg d (\<not> e) n"
    using assms(1) by (auto simp: tracked_def)
  then have *: "net_steps (cfg_recv_capacity (cfg e)) (net_start (random (\<not> e)) (cfg (\<not> e)) (cfg_recv_capacity (cfg e))) n"
    "n_written n = ep_written (d (\<not> e))" "n_read n = ep_read (d e)"
    "bs_buf (TCPConnection_inbound_stream ?c) = bs_buf (TCPReceiver_stream_out (n_rcv n))"
    "ByteStream_input_ended (TCPConnection_inbound_stream ?c) = ByteStream_input_ended (TCPReceiver_stream_out (n_rcv n))"
    "bs_buf (sn_stream (cn_sender ?c')) = bs_buf (sn_stream (n_snd n))"
    "ByteStream_input_ended (sn_stream (cn_sender ?c')) = ByteStream_input_ended (sn_stream (n_snd n))"
    by (auto simp: follows_def follows_snd_def follows_rcv_def Let_def TCPConnection_inbound_stream_def stream_error_out
        TCPSender_stream_in_def ByteStream_set_error_def ByteStream_input_ended_def)
  have small: "cfg_recv_capacity (cfg e) < 2 ^ 31 - 2" "cfg_send_capacity (cfg (\<not> e)) < 2 ^ 62"
    using assms(2) by (simp_all add: small_def)
  show "got e = take (length (got e)) (ep_written (d (\<not> e))) \<and>
    (ByteStream_input_ended (TCPConnection_inbound_stream ?c) \<longrightarrow>
       got e = ep_written (d (\<not> e)) \<and> ByteStream_input_ended (sn_stream (cn_sender ?c')) \<and>
       bs_buf (sn_stream (cn_sender ?c')) = [])"
    using net_delivers [OF *(1) small] unfolding got_def *(2-7) .
qed

section \<open>Properties\<close>


text \<open>One end ends its stream before it has said anything: its SYN carries the FIN, and ends the stream of the other.\<close>

definition demo_cfg :: "bool \<Rightarrow> tcp_config" where
  "demo_cfg e = TCPConfig\<lparr>cfg_fixed_isn := Some (WrappingInt32 (if e then 5 else 9))\<rparr>"

lemma received_syn_receiver:
  assumes "TCPConnection_active c" "th_syn (seg_header seg)" "\<not> th_rst (seg_header seg)"
  shows "cn_receiver (TCPConnection_segment_received seg c) = TCPReceiver_segment_received seg (cn_receiver c)"
proof -
  have "cn_receiver (if b then d\<lparr>cn_active2 := False\<rparr> else d) = cn_receiver d" for b d by simp
  then show ?thesis using assms
    by (simp add: TCPConnection_segment_received_def Let_def split_beta if_distrib [of cn_receiver] cong: if_cong)
qed

lemma demo_syn_fin:
  obtains seg q where "cn_segments_out (TCPConnection_end_input_stream (TCPConnection 0 (demo_cfg True))) = seg # q"
    "th_syn (seg_header seg)" "th_fin (seg_header seg)" "\<not> th_rst (seg_header seg)" "Buffer_str (seg_payload seg) = []"
proof -
  let ?c = "TCPConnection 0 (demo_cfg True)"
  let ?seg = "header_segment (TCPHeader\<lparr>th_seqno := WrappingInt32 5, th_syn := True, th_fin := True\<rparr>)"
  let ?s = "TCPSender_stream_in ByteStream_end_input (cn_sender ?c)"
  have "sn_segments_out (TCPSender_fill_window ?s) = [?seg]"
    by (simp add: TCPConnection_def TCPSender_def demo_cfg_def TCPConfig_def TCPSender_stream_in_def
        TCPSender_fill_window_def fill_window_syn_def ByteStream_eof_def ByteStream_def ByteStream_end_input_def
        send_new_def Let_def)
  then have "cn_segments_out (TCPConnection_end_input_stream ?c) = [stamp (?c\<lparr>cn_sender := ?s\<rparr>) ?seg]"
    by (simp add: TCPConnection_end_input_stream_def TCPConnection_active_def new_connection fill_window_and_send_eq)
  then show ?thesis by (rule that) (simp_all add: header_segment_def TCPHeader_def TCPSegment_def)
qed

lemma empty_push: "firstUnasb (push_substring [] 0 e (StreamReassembler 64000)) = 0"
proof -
  let ?rs = "StreamReassembler 64000" and ?S = "\<lambda>_. 0"
  have sr: "sr_inv ?S ?rs" by (rule sr_inv_new) simp
  have new: "known ?rs = {}" "window_end ?rs = 64000"
    by (simp_all add: known_def window_end_def StreamReassembler_def ByteStream_def)
  have "sr_inv ?S (push_substring [] 0 e ?rs) \<and> known ?rs \<subseteq> known (push_substring [] 0 e ?rs) \<and>
      known (push_substring [] 0 e ?rs) \<subseteq> known ?rs \<union> {0..<0 + length ([] :: bytes)}"
    by (rule push_true [OF sr]) (simp_all add: new cut_def)
  then show ?thesis using first_le [of ?S "push_substring [] 0 e ?rs" 0] new by simp
qed


end
