(* ===== verification/Lost_Answer.thy ===== *)
theory Lost_Answer
  imports Connections
begin

text \<open>
  What happens when the answer to a SYN is lost: the peer answers the repeated SYN with an empty acknowledgment, which
  reaches a \<^verbatim>\<open>TCPConnection\<close> (\<^verbatim>\<open>libsponge/tcp_connection.cc\<close>) whose \<^verbatim>\<open>TCPReceiver\<close> has no SYN yet. The run shows
  why the steps of \<open>Connections\<close> make an end see the SYN of its peer first.
\<close>

section \<open>The peer answers the repeated SYN\<close>

lemma syn_sender_quiet:
  fixes r and cfg :: tcp_config
  defines "s \<equiv> new_sender r cfg"
  shows "TCPSender_fill_window ((sender_syn s)\<lparr>sn_segments_out := q\<rparr>) = (sender_syn s)\<lparr>sn_segments_out := q\<rparr>"
proof -
  let ?s = "(sender_syn s)\<lparr>sn_segments_out := q\<rparr>"
  have "window_edge ?s = 1" "sn_next_seqno ?s = 1" "\<not> sn_finSent ?s" "sn_window ?s \<noteq> -1"
    by (simp_all add: window_edge_def sender_syn_def s_def new_sender_def TCPSender_def add64_def)
  then show ?thesis by (subst TCPSender_fill_window_def, subst fill_window_loop.simps) simp
qed

lemma recv_syn_again:
  assumes "recv_open isn r" "plain True isn seg"
  shows "recv_open isn (TCPReceiver_segment_received seg r)"
proof -
  have inv: "rc_inv (\<lambda>_. 0) isn r" using assms(1) by (simp add: recv_open_def)
  have seg: "seg_true (\<lambda>_. 0) isn 0 seg" "th_syn (seg_header seg)" "\<not> th_fin (seg_header seg)" "0 + seg_size seg < 2 ^ 31"
    "seg_positions 0 seg = {}"
    using assms(2) by (simp_all add: plain_def seg_true_def seg_size_def seg_positions_def)
  have r': "rc_status (TCPReceiver_segment_received seg r) = 1"
    "rc_reassembler (TCPReceiver_segment_received seg r) = push_substring [] (rc_cp r) False (rc_reassembler r)"
    using seg by (simp_all add: segment_received_syn [OF seg(1,2)])
  show ?thesis
    by (rule open_push [OF _ _ r'(1) _ r'(2)])
      (use rc_inv_step [OF inv seg(1,4)] seg(5) assms(1) in \<open>simp_all add: recv_open_def TCPReceiver_stream_out_def\<close>)
qed

text \<open>A SYN that comes again: it is answered with an empty segment that has the next sequence number.\<close>

lemma answer_syn_again:
  fixes r cfg c seg
  defines "s \<equiv> new_sender r cfg"
  defines "c1 \<equiv> c\<lparr>cn_tlast := cn_tnow c, cn_receiver := TCPReceiver_segment_received seg (cn_receiver c)\<rparr>"
  defines "e \<equiv> stamp c1 (header_segment (TCPHeader\<lparr>th_seqno := wrap 1 (sn_isn s)\<rparr>))"
  assumes "plain True isn seg" "\<not> th_ack (seg_header seg)"
    and "cn_sender c = sender_syn s" "recv_open isn (cn_receiver c)" "cn_active2 c" "cn_linger_after_streams_finish c"
  shows "cn_segments_out (TCPConnection_segment_received seg c) = cn_segments_out c @ [e]"
    and "plain False (wrap 1 (sn_isn s)) e" "th_ack (seg_header e)" "th_ackno (seg_header e) = wrap 1 isn"
proof -
  let ?e = "header_segment (TCPHeader\<lparr>th_seqno := wrap 1 (sn_isn s)\<rparr>)"
  note fill = syn_sender_quiet [where r = r and cfg = cfg, folded s_def]
  have quiet: "fill_window_and_send c1 = (0, c1)"
    using fill [of "[]"] assms(6) by (simp add: fill_window_and_send_eq c1_def sender_open_idem)
      (simp add: sender_syn_def)
  have empty: "TCPSender_send_empty_segment (sender_syn s) = (sender_syn s)\<lparr>sn_segments_out := [?e]\<rparr>"
    by (simp add: TCPSender_send_empty_segment_def sender_syn_def new_sender_simps s_def)
  have same: "c1\<lparr>cn_sender := cn_sender c\<rparr> = c1" by (simp add: c1_def)
  have "TCPConnection_segment_received seg c =
      snd (fill_window_and_send (c1\<lparr>cn_sender := TCPSender_send_empty_segment (cn_sender c1)\<rparr>))"
    by (subst segment_received_ordinary)
      (use assms(4,5,8,9) in \<open>simp_all add: plain_def TCPConnection_active_def c1_def [symmetric] same quiet\<close>)
  then show "cn_segments_out (TCPConnection_segment_received seg c) = cn_segments_out c @ [e]"
    using fill assms(6) by (simp add: fill_window_and_send_eq c1_def e_def empty stamp_sender)
  have "recv_open isn (cn_receiver c1)" using recv_syn_again [OF assms(7,4)] by (simp add: c1_def)
  then show "th_ack (seg_header e)" "th_ackno (seg_header e) = wrap 1 isn"
    using stamp_ack(2) recv_open_state(1) unfolding e_def by blast+
  show "plain False (wrap 1 (sn_isn s)) e" unfolding e_def by (rule plain_stamp)
qed

section \<open>The connection that gets it\<close>

lemma received_receiver:
  "cn_receiver (TCPConnection_segment_received seg c) \<in> {cn_receiver c, TCPReceiver_stream_error (cn_receiver c),
     TCPReceiver_segment_received seg (cn_receiver c), TCPReceiver_stream_error (TCPReceiver_segment_received seg (cn_receiver c))}"
proof (cases rule: received_cases [of seg c])
  case (taken c2 c3 c5)
  have "cn_receiver c3 = cn_receiver c2" by (simp add: taken(4))
  then have "cn_receiver c5 = cn_receiver c2" using taken(5) by (auto simp: Let_def)
  then show ?thesis using taken(3,6) by (auto simp: outcome_def)
qed (auto simp: outcome_def)

definition lost :: "nat \<Rightarrow> wrapping_int32 \<Rightarrow> tcp_receiver \<Rightarrow> bool" where
  "lost M isn r \<longleftrightarrow> wedged M r \<and> rc_status r \<in> {1, 2} \<and> rc_ISN r = isn"

lemma lost_received:
  assumes "lost M isn (cn_receiver c)" "seg_true S isn a seg" "a + seg_size seg < M"
  shows "lost M isn (cn_receiver (TCPConnection_segment_received seg c))"
proof -
  have err: "lost M isn (TCPReceiver_stream_error r) = lost M isn r" for r
    by (simp add: lost_def wedged_def TCPReceiver_stream_error_def TCPReceiver_stream_out_def ByteStream_set_error_def
        window_end_def firstUnasb_def)
  have "lost M isn (TCPReceiver_segment_received seg (cn_receiver c))"
    using wedged_step [of M "cn_receiver c" S isn a seg] assms by (simp add: lost_def)
  then show ?thesis
    using received_receiver [of seg c] assms(1) unfolding insert_iff empty_iff by (elim disjE FalseE) (simp_all only: err)
qed

text \<open>
  The empty acknowledgment reaches a connection that has no SYN: its receiver moves only the checkpoint, its sender takes the
  SYN for acknowledged.
\<close>

lemma stray_ack:
  fixes r cfg
  defines "s \<equiv> new_sender r cfg"
  assumes "cn_sender c = sender_syn s" "cn_receiver c = TCPReceiver capacity" "cn_active2 c" "cn_linger_after_streams_finish c"
    and seg: "plain False (WrappingInt32 w) seg" "th_ack (seg_header seg)" "th_ackno (seg_header seg) = wrap 1 (sn_isn s)"
    and small: "capacity < 2 ^ 31" "M \<le> 2 ^ 31 - 2" "2 ^ 31 + M < unat w" "cfg_send_capacity cfg < 2 ^ 64"
  shows "wedged M (cn_receiver (TCPConnection_segment_received seg c))"
    and "cn_sender (TCPConnection_segment_received seg c) = sender_open (th_win (seg_header seg)) s"
    and "cn_active2 (TCPConnection_segment_received seg c)"
proof -
  have busy: "TCPSender_bytes_in_flight (cn_sender c) \<noteq> 0" by (simp add: assms(2) s_def new_sender_summary)
  have ack: "TCPSender_ack_received (th_ackno (seg_header seg)) (th_win (seg_header seg)) (cn_sender c) =
      sender_open (th_win (seg_header seg)) s"
    unfolding assms(2) seg(3) by (rule ack_syn) (simp add: s_def new_sender_simps)
  note fill = open_sender_fill [OF small(4), where r = r and q = "[]", folded s_def]
  have eq: "TCPConnection_segment_received seg c = snd (fill_window_and_send (c\<lparr>cn_tlast := cn_tnow c,
      cn_receiver := TCPReceiver_segment_received seg (TCPReceiver capacity),
      cn_sender := sender_open (th_win (seg_header seg)) s\<rparr>))"
    by (subst segment_received_ordinary)
      (use assms(3-5) busy seg(1,2) in \<open>simp_all add: plain_def TCPConnection_active_def Let_def split_beta ack Buffer_size_def\<close>)
  show "wedged M (cn_receiver (TCPConnection_segment_received seg c))"
    using stray_wedges [OF small(1,2) _ small(3), of seg] seg(1) by (simp add: eq plain_def)
  show "cn_sender (TCPConnection_segment_received seg c) = sender_open (th_win (seg_header seg)) s"
    using fill by (simp add: eq sender_open_idem)
  show "cn_active2 (TCPConnection_segment_received seg c)" using assms(4) by (simp add: eq)
qed

lemma received_syn_lost:
  assumes "wedged M (cn_receiver c)" "seg_true S isn a seg" "th_syn (seg_header seg)"
    and "TCPConnection_active c" "\<not> th_rst (seg_header seg)"
  shows "lost M isn (cn_receiver (TCPConnection_segment_received seg c))"
  using wedged_first_syn [OF assms(1-3)] received_syn_receiver [OF assms(4,3,5)] by (simp add: lost_def)

lemma lost_foldl:
  assumes "lost M isn (cn_receiver c)" "\<forall>(a, seg) \<in> set ps. seg_true S isn a seg \<and> a + seg_size seg < M"
  shows "lost M isn (cn_receiver (foldl (\<lambda>c (a, seg). TCPConnection_segment_received seg c) c ps))"
  using assms
proof (induction ps arbitrary: c)
  case (Cons p ps)
  obtain a seg where p: "p = (a, seg)" by (cases p)
  with Cons.prems have "lost M isn (cn_receiver (TCPConnection_segment_received seg c))"
    by (intro lost_received [of M isn c S a]) auto
  from Cons.IH [OF this] Cons.prems(2) show ?case by (simp add: p)
qed simp

section \<open>Properties\<close>



end
