(* ===== verification/Benchmark.thy ===== *)
theory Benchmark
  imports Connections
begin

text \<open>
  The benchmark (\<^verbatim>\<open>apps/tcp_benchmark.cc\<close>): two connections in one process, whose segments are handed from one to the
  other, in order or in reverse, while a string goes from the first to the second. Its run is a run of the two ends of
  \<open>Connections\<close>.
\<close>

section \<open>The program\<close>

definition benchmark_len :: size_t where
  "benchmark_len = 100 * 1024 * 1024"

text \<open>The queue is emptied; the moved-from segments are not used again.\<close>

function take_segments :: "tcp_connection \<Rightarrow> tcp_segment list \<Rightarrow> tcp_connection \<times> tcp_segment list" where
  "take_segments x segments =
     (case cn_segments_out x of
        [] \<Rightarrow> (x, segments)
      | seg # _ \<Rightarrow> take_segments (TCPConnection_pop_segment x) (segments @ [seg]))"
  by pat_completeness auto

termination take_segments
  by (relation "measure (\<lambda>(x, _). length (cn_segments_out x))") (auto simp: TCPConnection_pop_segment_def)

declare take_segments.simps [simp del]

definition move_segments ::
  "bool \<Rightarrow> tcp_connection \<Rightarrow> tcp_connection \<Rightarrow> tcp_segment list \<Rightarrow> tcp_connection \<times> tcp_connection \<times> tcp_segment list" where
  "move_segments reorder x y segments =
     (let (x, segments) = take_segments x segments;
          y = foldl (\<lambda>y seg. TCPConnection_segment_received seg y) y (if reorder then rev segments else segments)
      in (x, y, []))"

text \<open>The state the lambda \<^verbatim>\<open>loop\<close> captures.\<close>

record benchmark =
  bm_x :: tcp_connection
  bm_y :: tcp_connection
  bm_bytes_to_send :: buffer
  bm_x_closed :: bool
  bm_string_received :: bytes

declare bindE_cong [fundef_cong]

definition want_message :: "size_t \<Rightarrow> size_t \<Rightarrow> string" where
  "want_message want written = ''want = '' @ dec_string want @ '', written = '' @ dec_string written"

function write_input :: "tcp_connection \<Rightarrow> buffer \<Rightarrow> exn + tcp_connection \<times> buffer" where
  "write_input x bytes_to_send =
     (if Buffer_size bytes_to_send \<noteq> 0 \<and> TCPConnection_remaining_outbound_capacity x \<noteq> 0 then
        let want = min (TCPConnection_remaining_outbound_capacity x) (Buffer_size bytes_to_send);
            (written, x) = TCPConnection_write (substr 0 want (Buffer_str bytes_to_send)) x
        in if want \<noteq> written then Inl (Runtime_error (want_message want written))
           else bindE (Buffer_remove_prefix written bytes_to_send) (\<lambda>bytes_to_send. write_input x bytes_to_send)
      else Inr (x, bytes_to_send))"
  by pat_completeness auto

termination write_input
proof (relation "measure (\<lambda>(x, b). Buffer_size b)", goal_cases)
  case (2 x b want p written x' b')
  then show ?case using Buffer_remove_prefix_Inr [of want b b'] by (auto simp: Buffer_size_def)
qed simp

declare write_input.simps [simp del]

definition benchmark_loop :: "bool \<Rightarrow> benchmark \<Rightarrow> exn + benchmark" where
  "benchmark_loop reorder st =
     bindE (write_input (bm_x st) (bm_bytes_to_send st)) (\<lambda>(x, bytes_to_send).
       let (x, x_closed) =
             (if Buffer_size bytes_to_send = 0 \<and> \<not> bm_x_closed st then (TCPConnection_end_input_stream x, True)
              else (x, bm_x_closed st));
           (x, y, segments) = move_segments reorder x (bm_y st) [];
           (y, x, segments) = move_segments False y x segments;
           available_output = ByteStream_buffer_size (TCPConnection_inbound_stream y);
           (string_received, y) =
             (if available_output > 0 then
                let (output, y) = TCPConnection_read available_output y in (bm_string_received st @ output, y)
              else (bm_string_received st, y))
       in bindE (TCPConnection_tick 1000 x) (\<lambda>x.
            bindE (TCPConnection_tick 1000 y) (\<lambda>y.
              Inr \<lparr>bm_x = x, bm_y = y, bm_bytes_to_send = bytes_to_send, bm_x_closed = x_closed,
                bm_string_received = string_received\<rparr>)))"

text \<open>
  A \<^verbatim>\<open>while\<close> loop over \<^verbatim>\<open>loop\<close>, for at most \<open>n\<close> turns; the flag says whether it has ended.
\<close>

fun loop_while :: "bool \<Rightarrow> (benchmark \<Rightarrow> bool) \<Rightarrow> nat \<Rightarrow> benchmark \<Rightarrow> exn + bool \<times> benchmark" where
  "loop_while reorder goes_on 0 st = Inr (\<not> goes_on st, st)"
| "loop_while reorder goes_on (Suc n) st =
     (if goes_on st then bindE (benchmark_loop reorder st) (\<lambda>st. loop_while reorder goes_on n st) else Inr (True, st))"

text \<open>The first numbers of the two connections and the bytes \<^verbatim>\<open>rand\<close> gives are arguments.\<close>

definition main_loop :: "(bool \<Rightarrow> u32) \<Rightarrow> bytes \<Rightarrow> nat \<Rightarrow> bool \<Rightarrow> exn + bool \<times> benchmark" where
  "main_loop random string_to_send n reorder =
     (let config = TCPConfig;
          x = TCPConnection (random False) config;
          y = TCPConnection (random True) config;
          st = \<lparr>bm_x = TCPConnection_connect x, bm_y = TCPConnection_end_input_stream y,
                bm_bytes_to_send = Buffer string_to_send, bm_x_closed = False, bm_string_received = []\<rparr>
      in bindE (loop_while reorder (\<lambda>st. \<not> ByteStream_eof (TCPConnection_inbound_stream (bm_y st))) n st) (\<lambda>(ended, st).
           if \<not> ended then Inr (False, st)
           else if bm_string_received st \<noteq> string_to_send
           then Inl (Runtime_error ''strings sent vs. received don't match'')
           else loop_while reorder (\<lambda>st. TCPConnection_active (bm_x st) \<or> TCPConnection_active (bm_y st)) n st))"

definition string_to_send :: "(nat \<Rightarrow> byte) \<Rightarrow> bytes" where
  "string_to_send rand = map rand [0..<benchmark_len]"

text \<open>\<^verbatim>\<open>main\<close>: the exit code, once both runs have ended.\<close>

definition benchmark_main ::
  "(bool \<Rightarrow> bool \<Rightarrow> u32) \<Rightarrow> (bool \<Rightarrow> nat \<Rightarrow> byte) \<Rightarrow> nat \<Rightarrow> int option" where
  "benchmark_main random rand n =
     (let run = (\<lambda>reorder. main_loop (random reorder) (string_to_send (rand reorder)) n reorder)
      in case run False of
           Inl e \<Rightarrow> Some 1
         | Inr (ended, _) \<Rightarrow>
             if \<not> ended then None
             else case run True of Inl e \<Rightarrow> Some 1 | Inr (ended, _) \<Rightarrow> if ended then Some 0 else None)"

section \<open>Its run as a run of two ends\<close>

lemma take_segments_eq: "take_segments x segs = (x\<lparr>cn_segments_out := []\<rparr>, segs @ cn_segments_out x)"
proof (induction x segs rule: take_segments.induct)
  case (1 x segs)
  then show ?case
    by (subst take_segments.simps) (simp add: TCPConnection_pop_segment_def split: list.split)
qed

text \<open>The queue of one end goes onto the wire.\<close>

lemma tracked_transmit_all:
  assumes "tracked random cfg d" "cn_segments_out (ep_conn (d e)) = q @ q'"
  shows "tracked random cfg (d(e := (d e)\<lparr>ep_conn := (ep_conn (d e))\<lparr>cn_segments_out := q'\<rparr>, ep_wire := ep_wire (d e) @ q\<rparr>))"
  using assms
proof (induction q arbitrary: d)
  case Nil
  then have "(d e)\<lparr>ep_conn := (ep_conn (d e))\<lparr>cn_segments_out := q'\<rparr>, ep_wire := ep_wire (d e) @ []\<rparr> = d e" by simp
  then show ?case using Nil.prems(1) by (simp add: fun_upd_idem)
next
  case (Cons seg q)
  let ?p = "(d e)\<lparr>ep_conn := TCPConnection_pop_segment (ep_conn (d e)), ep_wire := ep_wire (d e) @ [seg]\<rparr>"
  have "tracked random cfg (d(e := ?p))" using Cons.prems by (intro tracked_transmit) auto
  moreover have "cn_segments_out (ep_conn ((d(e := ?p)) e)) = q @ q'"
    using Cons.prems(2) by (simp add: TCPConnection_pop_segment_def)
  moreover have "(?p)\<lparr>ep_conn := (ep_conn ?p)\<lparr>cn_segments_out := q'\<rparr>, ep_wire := ep_wire ?p @ q\<rparr> =
      (d e)\<lparr>ep_conn := (ep_conn (d e))\<lparr>cn_segments_out := q'\<rparr>, ep_wire := ep_wire (d e) @ seg # q\<rparr>"
    by (simp add: TCPConnection_pop_segment_def)
  ultimately show ?case using Cons.IH [of "d(e := ?p)"] by (simp only: fun_upd_same fun_upd_upd)
qed

definition receive_all :: "tcp_segment list \<Rightarrow> tcp_connection \<Rightarrow> tcp_connection" where
  "receive_all segs c = foldl (\<lambda>y seg. TCPConnection_segment_received seg y) c segs"

lemma receive_all_simps [simp]:
  "receive_all [] c = c" "receive_all (seg # segs) c = receive_all segs (TCPConnection_segment_received seg c)"
  by (simp_all add: receive_all_def)

lemma connection_status:
  assumes "rc_status (cn_receiver c) \<noteq> LISTEN"
  shows "rc_status (cn_receiver (TCPConnection_segment_received seg c)) \<noteq> LISTEN"
proof (cases rule: received_cases [of seg c])
  case reset
  then show ?thesis using outcome_status [OF reset(1)] assms by simp
next
  case (taken c2 c3 c5)
  have "cn_receiver c3 = cn_receiver c2" using taken(4) by simp
  then have "cn_receiver c5 = cn_receiver c2" using taken(5) by (auto simp: Let_def)
  then show ?thesis using taken(3) outcome_status [OF taken(6)] received_status [OF assms] by simp
qed (use assms in simp)

lemma syn_status:
  assumes "cn_active2 c" "th_syn (seg_header seg)" "\<not> th_rst (seg_header seg)"
  shows "rc_status (cn_receiver (TCPConnection_segment_received seg c)) \<noteq> LISTEN"
  using received_syn_receiver [of c seg] assms
  by (simp add: TCPConnection_active_def TCPReceiver_segment_received_def Let_def)

text \<open>Segments can be handed to an end that has a SYN, or gets one first.\<close>

definition greeted :: "tcp_segment list \<Rightarrow> tcp_connection \<Rightarrow> bool" where
  "greeted segs c \<longleftrightarrow> rc_status (cn_receiver c) \<noteq> LISTEN \<or>
     cn_active2 c \<and> segs \<noteq> [] \<and> th_syn (seg_header (hd segs)) \<and> \<not> th_rst (seg_header (hd segs))"

lemma greeted_step: "greeted (seg # segs) c \<Longrightarrow> rc_status (cn_receiver (TCPConnection_segment_received seg c)) \<noteq> LISTEN"
  using connection_status syn_status by (auto simp: greeted_def simp del: status_codes)

lemma tracked_receive_all:
  assumes "tracked random cfg d" "small cfg" "set segs \<subseteq> set (ep_wire (d (\<not> e)))" "greeted segs (ep_conn (d e))"
  shows "tracked random cfg (d(e := (d e)\<lparr>ep_conn := receive_all segs (ep_conn (d e))\<rparr>)) \<and>
    rc_status (cn_receiver (receive_all segs (ep_conn (d e)))) \<noteq> LISTEN"
  using assms
proof (induction segs arbitrary: d)
  case Nil
  then show ?case by (simp add: greeted_def fun_upd_idem)
next
  case (Cons seg segs)
  let ?c = "TCPConnection_segment_received seg (ep_conn (d e))"
  let ?d = "d(e := (d e)\<lparr>ep_conn := ?c\<rparr>)"
  have "TCPReceiver_ackno (cn_receiver (ep_conn (d e))) \<noteq> None \<or> th_syn (seg_header seg)"
    using Cons.prems(4) unfolding ack_listen by (auto simp: greeted_def)
  then have "tracked random cfg ?d" using Cons.prems by (intro tracked_deliver) auto
  moreover have "greeted segs (ep_conn (?d e))"
    using greeted_step [OF Cons.prems(4)] by (simp add: greeted_def del: status_codes)
  moreover have "set segs \<subseteq> set (ep_wire (?d (\<not> e)))" using Cons.prems(3) by simp
  moreover have "ep_conn ((d e)\<lparr>ep_conn := ?c\<rparr>) = ?c" "(d e)\<lparr>ep_conn := ?c, ep_conn := c\<rparr> = (d e)\<lparr>ep_conn := c\<rparr>" for c
    by simp_all
  ultimately show ?case
    using Cons.IH [of ?d, OF _ Cons.prems(2)] by (simp only: fun_upd_same fun_upd_upd receive_all_simps simp_thms)
qed

text \<open>One call of \<^verbatim>\<open>move_segments\<close>: the end \<open>e\<close> transmits everything and its peer gets all of it.\<close>

lemma move_segments_eq:
  "move_segments reorder x y [] = (let q = cn_segments_out x
     in (x\<lparr>cn_segments_out := []\<rparr>, receive_all (if reorder then rev q else q) y, []))"
  by (simp add: move_segments_def take_segments_eq receive_all_def Let_def)

lemma tracked_move:
  assumes "tracked random cfg d" "small cfg" "move_segments reorder (ep_conn (d e)) (ep_conn (d (\<not> e))) [] = (x, y, segs)"
    and "let q = cn_segments_out (ep_conn (d e)) in greeted (if reorder then rev q else q) (ep_conn (d (\<not> e)))"
  shows "tracked random cfg (d(e := (d e)\<lparr>ep_conn := x, ep_wire := ep_wire (d e) @ cn_segments_out (ep_conn (d e))\<rparr>,
      \<not> e := (d (\<not> e))\<lparr>ep_conn := y\<rparr>)) \<and> rc_status (cn_receiver y) \<noteq> LISTEN"
proof -
  let ?q = "cn_segments_out (ep_conn (d e))"
  let ?segs = "if reorder then rev ?q else ?q"
  let ?d = "d(e := (d e)\<lparr>ep_conn := x, ep_wire := ep_wire (d e) @ ?q\<rparr>)"
  have x: "x = (ep_conn (d e))\<lparr>cn_segments_out := []\<rparr>" and y: "y = receive_all ?segs (ep_conn (?d (\<not> e)))"
    using assms(3) by (simp_all add: move_segments_eq Let_def)
  have "tracked random cfg ?d" using tracked_transmit_all [OF assms(1), of e ?q "[]"] by (simp add: x)
  moreover have "set ?segs \<subseteq> set (ep_wire (?d (\<not> \<not> e)))" by simp
  ultimately show ?thesis
    using tracked_receive_all [of random cfg ?d ?segs "\<not> e"] assms(2,4) by (simp add: y Let_def del: status_codes)
qed

section \<open>The state of the benchmark\<close>

text \<open>Before the first exchange each end has its SYN queued, and the first end may send nothing more.\<close>

definition unopened :: "tcp_connection \<Rightarrow> tcp_connection \<Rightarrow> bool" where
  "unopened x y \<longleftrightarrow> cn_active2 x \<and> cn_active2 y \<and>
     (\<exists>seg. cn_segments_out x = [seg] \<and> th_syn (seg_header seg) \<and> \<not> th_rst (seg_header seg)) \<and>
     (\<exists>seg q. cn_segments_out y = seg # q \<and> th_syn (seg_header seg) \<and> \<not> th_rst (seg_header seg)) \<and>
     sn_segments_out (cn_sender x) = [] \<and> sn_window (cn_sender x) \<noteq> -1 \<and>
     window_edge (cn_sender x) = sn_next_seqno (cn_sender x)"

definition met :: "tcp_connection \<Rightarrow> tcp_connection \<Rightarrow> bool" where
  "met x y \<longleftrightarrow> rc_status (cn_receiver x) \<noteq> LISTEN \<and> rc_status (cn_receiver y) \<noteq> LISTEN"

text \<open>The two connections are the ends of a run; \<open>s\<close> is what was or still is to be written.\<close>

definition runs :: "(bool \<Rightarrow> u32) \<Rightarrow> bytes \<Rightarrow> benchmark \<Rightarrow> ends \<Rightarrow> bool" where
  "runs random s st d \<longleftrightarrow> tracked random (\<lambda>_. TCPConfig) d \<and> ep_conn (d False) = bm_x st \<and> ep_conn (d True) = bm_y st \<and>
     ep_written (d False) @ Buffer_str (bm_bytes_to_send st) = s \<and> ep_read (d True) = bm_string_received st \<and>
     (bs_eof2 (sn_stream (cn_sender (bm_x st))) \<longrightarrow> bm_x_closed st) \<and>
     (bm_x_closed st \<longrightarrow> Buffer_str (bm_bytes_to_send st) = [])"

definition bench_ok :: "(bool \<Rightarrow> u32) \<Rightarrow> bytes \<Rightarrow> benchmark \<Rightarrow> bool" where
  "bench_ok random s st \<longleftrightarrow> (\<exists>d. runs random s st d) \<and> (met (bm_x st) (bm_y st) \<or> unopened (bm_x st) (bm_y st))"

lemma config_small [simp]: "small (\<lambda>_. TCPConfig)" "cfg_recv_capacity TCPConfig = 64000"
  by (simp_all add: small_def TCPConfig_def DEFAULT_CAPACITY_def)

lemma fill_full:
  assumes "sn_window s \<noteq> -1" "window_edge s = sn_next_seqno s"
  shows "TCPSender_fill_window s = s"
  using assms by (simp add: TCPSender_fill_window_def fill_window_loop.simps)

text \<open>Changing the stream of the first end, and filling its window, during the opening.\<close>

lemma unopened_stream:
  assumes "unopened x y"
  shows "unopened (snd (fill_window_and_send (x\<lparr>cn_sender := (cn_sender x)\<lparr>sn_stream := st\<rparr>\<rparr>))) y"
proof -
  have "TCPSender_fill_window ((cn_sender x)\<lparr>sn_stream := st\<rparr>) = (cn_sender x)\<lparr>sn_stream := st\<rparr>"
    using assms by (intro fill_full) (simp_all add: unopened_def window_edge_def)
  then show ?thesis using assms by (simp add: unopened_def fill_window_and_send_eq window_edge_def)
qed

lemma write_input_runs:
  assumes "runs random s st d" "length s + 64000 < 2 ^ 31 - 2" "write_input (bm_x st) (bm_bytes_to_send st) = r"
  shows "case r of Inl e \<Rightarrow> (\<exists>want. e = Runtime_error (want_message want 0)) \<and> \<not> TCPConnection_active (bm_x st)
    | Inr (x, b) \<Rightarrow> (\<exists>d. runs random s (st\<lparr>bm_x := x, bm_bytes_to_send := b\<rparr>) d) \<and>
        cn_receiver x = cn_receiver (bm_x st) \<and> (unopened (bm_x st) (bm_y st) \<longrightarrow> unopened x (bm_y st))"
  using assms
proof (induction "bm_x st" "bm_bytes_to_send st" arbitrary: st d rule: write_input.induct)
  case 1
  let ?x = "bm_x st" and ?b = "bm_bytes_to_send st"
  let ?want = "min (TCPConnection_remaining_outbound_capacity ?x) (Buffer_size ?b)"
  show ?case
  proof (cases "Buffer_size ?b \<noteq> 0 \<and> TCPConnection_remaining_outbound_capacity ?x \<noteq> 0")
    case False
    then have "r = Inr (?x, ?b)" using "1.prems"(3) by (subst (asm) write_input.simps) auto
    then show ?thesis using "1.prems"(1) by auto
  next
    case True
    let ?data = "substr 0 ?want (Buffer_str ?b)"
    have len: "length ?data = ?want" "0 < ?want" "?want \<le> Buffer_size ?b" using True by (auto simp: Buffer_size_def)
    show ?thesis
    proof (cases "TCPConnection_active ?x")
      case False
      then have "TCPConnection_write ?data ?x = (0, ?x)" by (simp add: TCPConnection_write_def)
      then have "r = Inl (Runtime_error (want_message ?want 0))"
        using "1.prems"(3) True len(2) by (subst (asm) write_input.simps) (simp add: Let_def)
      then show ?thesis using False by auto
    next
      case act: True
      obtain k c where w: "TCPConnection_write ?data ?x = (k, c)" by fastforce
      have k: "k = ?want" and c: "\<exists>st. c = snd (fill_window_and_send (?x\<lparr>cn_sender := (cn_sender ?x)\<lparr>sn_stream := st\<rparr>\<rparr>))"
        "bs_eof2 (sn_stream (cn_sender c)) = bs_eof2 (sn_stream (cn_sender ?x))"
        using w act len by (auto simp: TCPConnection_write_def Let_def split_beta ByteStream_write_def
            TCPConnection_remaining_outbound_capacity_def ByteStream_remaining_capacity_def)
      obtain b' where b': "Buffer_remove_prefix k ?b = Inr b'" "Buffer_str b' = drop k (Buffer_str ?b)"
        using Buffer_remove_prefix_total [of k ?b] Buffer_remove_prefix_Inr len(3) k by (auto simp: Buffer_size_def)
      let ?st = "st\<lparr>bm_x := c, bm_bytes_to_send := b'\<rparr>"
      let ?d = "d(False := (d False)\<lparr>ep_conn := c, ep_written := ep_written (d False) @ take k ?data\<rparr>)"
      have run: "tracked random (\<lambda>_. TCPConfig) d" "ep_conn (d False) = ?x" "ep_written (d False) @ Buffer_str ?b = s"
        using "1.prems"(1) by (simp_all add: runs_def)
      have open_end: "\<not> bs_eof2 (sn_stream (cn_sender ?x))"
        using "1.prems"(1) len by (auto simp: runs_def Buffer_size_def)
      have "length (ep_written (d False)) + length ?data + 64000 < 2 ^ 31 - 2"
        using "1.prems"(2) run(3) len(1,3) by (auto simp: Buffer_size_def)
      then have "tracked random (\<lambda>_. TCPConfig) ?d"
        using open_end w by (intro tracked_write [OF run(1)]) (simp_all add: run(2))
      moreover have "take k ?data @ Buffer_str b' = Buffer_str ?b" by (simp add: b'(2) k substr_def)
      ultimately have run': "runs random s ?st ?d"
        using "1.prems"(1) run(3) open_end c(2) by (auto simp: runs_def)
      have r: "write_input c b' = r"
        using "1.prems"(3) True len(2) w k b'(1) by (subst (asm) write_input.simps) (simp add: Let_def)
      have "case r of Inl e \<Rightarrow> (\<exists>want. e = Runtime_error (want_message want 0)) \<and> \<not> TCPConnection_active (bm_x ?st)
        | Inr (x, b) \<Rightarrow> (\<exists>d. runs random s (?st\<lparr>bm_x := x, bm_bytes_to_send := b\<rparr>) d) \<and>
            cn_receiver x = cn_receiver (bm_x ?st) \<and> (unopened (bm_x ?st) (bm_y ?st) \<longrightarrow> unopened x (bm_y ?st))"
        by (rule "1.hyps" [OF True _ _ _ _ _ run' "1.prems"(2)]) (use w k b'(1) r in simp_all)
      then show ?thesis using c(1) act unopened_stream by (auto simp: TCPConnection_active_def split: sum.splits)
    qed
  qed
qed

lemma end_input_runs:
  assumes "runs random s st d" "Buffer_size (bm_bytes_to_send st) = 0"
  defines "x \<equiv> TCPConnection_end_input_stream (bm_x st)"
  shows "\<exists>d. runs random s (st\<lparr>bm_x := x, bm_x_closed := True\<rparr>) d" "cn_receiver x = cn_receiver (bm_x st)"
    "unopened (bm_x st) y \<Longrightarrow> unopened x y"
proof -
  let ?d = "d(False := (d False)\<lparr>ep_conn := x\<rparr>)"
  have run: "tracked random (\<lambda>_. TCPConfig) d" "ep_conn (d False) = bm_x st"
    using assms(1) by (simp_all add: runs_def)
  have "tracked random (\<lambda>_. TCPConfig) ?d"
    unfolding x_def using tracked_step [OF ends_step.app_end [of _ d False] run(1)] by (simp add: run(2))
  then have "runs random s (st\<lparr>bm_x := x, bm_x_closed := True\<rparr>) ?d"
    using assms(1,2) by (auto simp: runs_def Buffer_size_def)
  then show "\<exists>d. runs random s (st\<lparr>bm_x := x, bm_x_closed := True\<rparr>) d" by blast
  show "cn_receiver x = cn_receiver (bm_x st)" by (simp add: x_def TCPConnection_end_input_stream_def)
  show "unopened (bm_x st) y \<Longrightarrow> unopened x y"
    using unopened_stream [of "bm_x st" y]
    by (auto simp: x_def TCPConnection_end_input_stream_def TCPSender_stream_in_def)
qed

text \<open>The queue of a connection only grows when it gets a segment.\<close>

lemma fill_queue: "\<exists>q. cn_segments_out (snd (fill_window_and_send c)) = cn_segments_out c @ q"
  by (simp add: fill_window_and_send_eq)

lemma received_queue: "\<exists>q. cn_segments_out (TCPConnection_segment_received seg c) = cn_segments_out c @ q"
proof (cases rule: received_cases [of seg c])
  case (taken c2 c3 c5)
  have "cn_segments_out c3 = cn_segments_out c" using taken(2,4) by simp
  moreover obtain q where "cn_segments_out c5 = cn_segments_out c3 @ q"
    using taken(5) fill_queue [of c3] fill_queue [of "(snd (fill_window_and_send c3))\<lparr>cn_sender := _\<rparr>"]
    by (auto simp: Let_def) metis
  ultimately show ?thesis using taken(6) by (auto simp: outcome_def)
qed (auto simp: outcome_def)

lemma receive_all_queue: "\<exists>q. cn_segments_out (receive_all segs c) = cn_segments_out c @ q"
proof (induction segs arbitrary: c)
  case (Cons seg segs)
  obtain q where q: "cn_segments_out (TCPConnection_segment_received seg c) = cn_segments_out c @ q"
    using received_queue by blast
  from Cons [of "TCPConnection_segment_received seg c"] show ?case by (auto simp: q)
qed simp

lemma receive_all_eof2: "bs_eof2 (sn_stream (cn_sender (receive_all segs c))) = bs_eof2 (sn_stream (cn_sender c))"
  by (induction segs arbitrary: c) (simp_all add: segment_received_eof2)

text \<open>Both calls of \<^verbatim>\<open>move_segments\<close>: afterwards each end has the SYN of the other.\<close>

lemma exchange_runs:
  assumes "runs random s st d" "met (bm_x st) (bm_y st) \<or> unopened (bm_x st) (bm_y st)"
    and "move_segments reorder (bm_x st) (bm_y st) [] = (x1, y1, segs1)" "move_segments False y1 x1 segs1 = (y2, x2, segs2)"
  shows "(\<exists>d. runs random s (st\<lparr>bm_x := x2, bm_y := y2\<rparr>) d) \<and> met x2 y2"
proof -
  let ?x = "bm_x st" and ?y = "bm_y st"
  let ?q = "cn_segments_out ?x"
  let ?segs = "if reorder then rev ?q else ?q"
  have x1: "x1 = ?x\<lparr>cn_segments_out := []\<rparr>" and y1: "y1 = receive_all ?segs ?y" and segs1: "segs1 = []"
    using assms(3) by (simp_all add: move_segments_eq Let_def)
  have x2: "x2 = receive_all (cn_segments_out y1) x1" and y2: "y2 = y1\<lparr>cn_segments_out := []\<rparr>"
    using assms(4) by (simp_all add: segs1 move_segments_eq Let_def)
  have run: "tracked random (\<lambda>_. TCPConfig) d" "ep_conn (d False) = ?x" "ep_conn (d True) = ?y"
    using assms(1) by (simp_all add: runs_def)
  have "greeted ?segs ?y" using assms(2) by (auto simp: met_def unopened_def greeted_def)
  then obtain d1 where d1: "tracked random (\<lambda>_. TCPConfig) d1" "ep_conn (d1 False) = x1" "ep_conn (d1 True) = y1"
      "ep_written (d1 False) = ep_written (d False)" "ep_read (d1 True) = ep_read (d True)"
    and y: "rc_status (cn_receiver y1) \<noteq> LISTEN"
    using tracked_move [OF run(1) config_small(1), of reorder False x1 y1 segs1] assms(3) run
    by (simp add: Let_def del: status_codes) fastforce
  obtain q where q: "cn_segments_out y1 = cn_segments_out ?y @ q" using receive_all_queue by (auto simp: y1)
  have "greeted (cn_segments_out y1) x1"
    using assms(2) q by (auto simp: met_def unopened_def greeted_def x1)
  then obtain d2 where d2: "tracked random (\<lambda>_. TCPConfig) d2" "ep_conn (d2 False) = x2" "ep_conn (d2 True) = y2"
      "ep_written (d2 False) = ep_written (d False)" "ep_read (d2 True) = ep_read (d True)"
    and x: "rc_status (cn_receiver x2) \<noteq> LISTEN"
    using tracked_move [OF d1(1) config_small(1), of False True y2 x2 segs2] assms(4) d1
    by (simp add: segs1 Let_def del: status_codes) fastforce
  have "bs_eof2 (sn_stream (cn_sender x2)) = bs_eof2 (sn_stream (cn_sender ?x))" by (simp add: x2 receive_all_eof2 x1)
  then have "runs random s (st\<lparr>bm_x := x2, bm_y := y2\<rparr>) d2" using assms(1) d2 by (simp add: runs_def)
  moreover have "met x2 y2" using x y by (simp add: met_def y2)
  ultimately show ?thesis by blast
qed

text \<open>The output of the second end is read, and time passes for both.\<close>

lemma read_runs:
  assumes "runs random s st d" "TCPConnection_read (ByteStream_buffer_size (TCPConnection_inbound_stream (bm_y st))) (bm_y st) = (bs, y)"
  shows "\<exists>d. runs random s (st\<lparr>bm_y := y, bm_string_received := bm_string_received st @ bs\<rparr>) d"
    "rc_status (cn_receiver y) = rc_status (cn_receiver (bm_y st))"
proof -
  let ?n = "ByteStream_buffer_size (TCPConnection_inbound_stream (bm_y st))"
  let ?d = "d(True := (d True)\<lparr>ep_conn := y, ep_read := ep_read (d True) @ bs\<rparr>)"
  have run: "tracked random (\<lambda>_. TCPConfig) d" "ep_conn (d True) = bm_y st" using assms(1) by (simp_all add: runs_def)
  have "bs_inv (TCPConnection_inbound_stream (bm_y st))"
    using tracked_inbound [OF run(1) config_small(1), of True] by (simp only: run(2))
  then have "?n \<le> length (bs_buf (TCPConnection_inbound_stream (ep_conn (d True))))"
    by (simp add: buffer_size_length run(2))
  then have "tracked random (\<lambda>_. TCPConfig) ?d" using assms(2) by (intro tracked_read [OF run(1)]) (simp_all add: run(2))
  then have "runs random s (st\<lparr>bm_y := y, bm_string_received := bm_string_received st @ bs\<rparr>) ?d"
    using assms(1) by (auto simp: runs_def)
  then show "\<exists>d. runs random s (st\<lparr>bm_y := y, bm_string_received := bm_string_received st @ bs\<rparr>) d" by blast
  show "rc_status (cn_receiver y) = rc_status (cn_receiver (bm_y st))"
    using assms(2) by (auto simp: TCPConnection_read_def pop_keeps)
qed

lemma tick_runs:
  assumes "runs random s st d" "met (bm_x st) (bm_y st)"
  obtains x y d' where "TCPConnection_tick ms (bm_x st) = Inr x" "TCPConnection_tick ms (bm_y st) = Inr y"
    "runs random s (st\<lparr>bm_x := x, bm_y := y\<rparr>) d'" "met x y"
proof -
  have run: "tracked random (\<lambda>_. TCPConfig) d" "ep_conn (d False) = bm_x st" "ep_conn (d True) = bm_y st"
    using assms(1) by (simp_all add: runs_def)
  obtain x y where x: "TCPConnection_tick ms (ep_conn (d False)) = Inr x" and y: "TCPConnection_tick ms (ep_conn (d True)) = Inr y"
    using tracked_tick [OF run(1) config_small(1)] by metis
  let ?d = "d(False := (d False)\<lparr>ep_conn := x\<rparr>, True := (d True)\<lparr>ep_conn := y\<rparr>)"
  have "tracked random (\<lambda>_. TCPConfig) (d(False := (d False)\<lparr>ep_conn := x\<rparr>))"
    by (rule tracked_step [OF ends_step.tick [where d = d and e = False, OF x] run(1) config_small(1)])
  then have "tracked random (\<lambda>_. TCPConfig) ?d"
    using tracked_step [OF ends_step.tick [of ms "d(False := (d False)\<lparr>ep_conn := x\<rparr>)" True y] _ config_small(1)] y by simp
  then have "runs random s (st\<lparr>bm_x := x, bm_y := y\<rparr>) ?d"
    using assms(1) connection_tick_keeps [OF x] by (auto simp: runs_def)
  moreover have "met x y"
    using assms(2) connection_tick_keeps [OF x] connection_tick_keeps [OF y] by (simp add: met_def run)
  ultimately show ?thesis using that x y by (simp add: run)
qed

text \<open>One turn of the benchmark.\<close>

definition stuck :: "exn \<Rightarrow> bool" where
  "stuck e \<longleftrightarrow> (\<exists>want. e = Runtime_error (want_message want 0))"

lemma loop_runs:
  assumes "bench_ok random s st" "length s + 64000 < 2 ^ 31 - 2"
  shows "case benchmark_loop reorder st of Inl e \<Rightarrow> stuck e \<and> \<not> TCPConnection_active (bm_x st)
    | Inr st' \<Rightarrow> bench_ok random s st' \<and> (\<exists>bs. bm_string_received st' = bm_string_received st @ bs)"
proof -
  obtain d where d: "runs random s st d" using assms(1) by (auto simp: bench_ok_def)
  let ?w = "write_input (bm_x st) (bm_bytes_to_send st)"
  note w = write_input_runs [OF d assms(2) refl]
  show ?thesis
  proof (cases ?w)
    case (Inl e)
    then show ?thesis using w by (auto simp: benchmark_loop_def stuck_def)
  next
    case (Inr p)
    obtain x0 b where p: "p = (x0, b)" by fastforce
    let ?st0 = "st\<lparr>bm_x := x0, bm_bytes_to_send := b\<rparr>"
    obtain d0 where d0: "runs random s ?st0 d0" and x0: "cn_receiver x0 = cn_receiver (bm_x st)"
      "unopened (bm_x st) (bm_y st) \<Longrightarrow> unopened x0 (bm_y st)" using w Inr p by auto
    define closing where "closing \<longleftrightarrow> Buffer_size b = 0 \<and> \<not> bm_x_closed st"
    define x1 where "x1 = (if closing then TCPConnection_end_input_stream x0 else x0)"
    let ?st1 = "?st0\<lparr>bm_x := x1, bm_x_closed := (closing \<or> bm_x_closed st)\<rparr>"
    have "\<exists>d. runs random s ?st1 d" "cn_receiver x1 = cn_receiver x0" "unopened x0 (bm_y st) \<Longrightarrow> unopened x1 (bm_y st)"
    proof -
      have "(\<exists>d. runs random s ?st1 d) \<and> cn_receiver x1 = cn_receiver x0 \<and> (unopened x0 (bm_y st) \<longrightarrow> unopened x1 (bm_y st))"
      proof (cases closing)
        case True
        then have "x1 = TCPConnection_end_input_stream (bm_x ?st0)" "Buffer_size (bm_bytes_to_send ?st0) = 0"
          by (simp_all add: x1_def closing_def)
        then show ?thesis using end_input_runs [OF d0] True by simp
      next
        case False
        then have "?st1 = ?st0" "x1 = x0" by (cases st, simp_all add: x1_def)
        then show ?thesis using d0 by metis
      qed
      then show "\<exists>d. runs random s ?st1 d" "cn_receiver x1 = cn_receiver x0" "unopened x0 (bm_y st) \<Longrightarrow> unopened x1 (bm_y st)"
        by blast+
    qed
    then obtain d1 where d1: "runs random s ?st1 d1" "met (bm_x ?st1) (bm_y ?st1) \<or> unopened (bm_x ?st1) (bm_y ?st1)"
      using assms(1) x0 by (auto simp: bench_ok_def met_def)
    obtain x2 y2 segs where m1: "move_segments reorder x1 (bm_y st) [] = (x2, y2, segs)" by (metis prod_cases3)
    obtain y3 x3 segs' where m2: "move_segments False y2 x2 segs = (y3, x3, segs')" by (metis prod_cases3)
    let ?st3 = "?st1\<lparr>bm_x := x3, bm_y := y3\<rparr>"
    obtain d3 where d3: "runs random s ?st3 d3" "met x3 y3"
      using exchange_runs [OF d1, of reorder x2 y2 segs y3 x3 segs'] m1 m2 by auto
    let ?n = "ByteStream_buffer_size (TCPConnection_inbound_stream y3)"
    obtain bs y where r: "TCPConnection_read ?n y3 = (bs, y)" by fastforce
    define got where "got = (if ?n > 0 then (bm_string_received st @ bs, y) else (bm_string_received st, y3))"
    let ?st4 = "?st3\<lparr>bm_y := snd got, bm_string_received := fst got\<rparr>"
    have "\<exists>d. runs random s ?st4 d" "rc_status (cn_receiver (snd got)) = rc_status (cn_receiver y3)"
      using read_runs [OF d3(1), of bs y] r d3(1) by (cases "?n > 0"; auto simp: got_def)+
    then obtain d4 where d4: "runs random s ?st4 d4" "met (bm_x ?st4) (bm_y ?st4)" using d3(2) by (auto simp: met_def)
    obtain x5 y5 d5 where t: "TCPConnection_tick 1000 x3 = Inr x5" "TCPConnection_tick 1000 (snd got) = Inr y5"
      "runs random s (?st4\<lparr>bm_x := x5, bm_y := y5\<rparr>) d5" "met x5 y5"
      using tick_runs [OF d4, of 1000] by auto
    have "benchmark_loop reorder st = Inr \<lparr>bm_x = x5, bm_y = y5, bm_bytes_to_send = b,
        bm_x_closed = (closing \<or> bm_x_closed st), bm_string_received = fst got\<rparr>"
      using m1 m2 r t(1,2) by (auto simp: benchmark_loop_def Inr p x1_def closing_def got_def Let_def split: if_splits)
    moreover have "\<exists>bs. fst got = bm_string_received st @ bs" by (auto simp: got_def)
    moreover have eq: "?st4\<lparr>bm_x := x5, bm_y := y5\<rparr> = \<lparr>bm_x = x5, bm_y = y5, bm_bytes_to_send = b,
        bm_x_closed = (closing \<or> bm_x_closed st), bm_string_received = fst got\<rparr>" by (cases st) simp
    have "bench_ok random s \<lparr>bm_x = x5, bm_y = y5, bm_bytes_to_send = b,
        bm_x_closed = (closing \<or> bm_x_closed st), bm_string_received = fst got\<rparr>"
      using t(3,4) unfolding eq by (auto simp: bench_ok_def)
    ultimately show ?thesis by simp
  qed
qed

lemma loop_while_runs:
  assumes "bench_ok random s st" "length s + 64000 < 2 ^ 31 - 2"
  shows "case loop_while reorder goes_on n st of Inl e \<Rightarrow> stuck e
    | Inr (ended, st') \<Rightarrow> bench_ok random s st' \<and> (\<exists>bs. bm_string_received st' = bm_string_received st @ bs) \<and>
        (ended \<longrightarrow> \<not> goes_on st')"
  using assms
proof (induction n arbitrary: st)
  case (Suc n)
  show ?case
  proof (cases "goes_on st")
    case True
    show ?thesis
    proof (cases "benchmark_loop reorder st")
      case (Inl e)
      then show ?thesis using loop_runs [OF Suc.prems, of reorder] True by simp
    next
      case (Inr st1)
      then obtain bs where st1: "bench_ok random s st1" "bm_string_received st1 = bm_string_received st @ bs"
        using loop_runs [OF Suc.prems, of reorder] by auto
      from Suc.IH [OF st1(1) Suc.prems(2)] show ?thesis using Inr True st1(2) by (auto split: sum.splits)
    qed
  qed (use Suc.prems in auto)
qed simp

lemma bench_ok_received:
  assumes "bench_ok random s st"
  shows "bm_string_received st = take (length (bm_string_received st)) s"
    "ByteStream_eof (TCPConnection_inbound_stream (bm_y st)) \<Longrightarrow> bm_string_received st = s"
proof -
  obtain d where d: "runs random s st d" using assms by (auto simp: bench_ok_def)
  then have run: "tracked random (\<lambda>_. TCPConfig) d" "ep_conn (d False) = bm_x st" "ep_conn (d True) = bm_y st"
    "ep_read (d True) = bm_string_received st" "s = ep_written (d False) @ Buffer_str (bm_bytes_to_send st)" by (auto simp: runs_def)
  let ?y = "TCPConnection_inbound_stream (bm_y st)"
  note deliv = tracked_delivers [OF run(1) config_small(1), rule_format, of True]
  then have "bm_string_received st @ bs_buf ?y = take (length (bm_string_received st @ bs_buf ?y)) (ep_written (d False))"
    by (simp only: run not_True_eq_False)
  then show "bm_string_received st = take (length (bm_string_received st)) s"
    unfolding run(5) by (metis append_eq_conv_conj append_take_drop_id append_assoc)
  assume eof: "ByteStream_eof ?y"
  have "bs_inv ?y" using tracked_inbound [OF run(1) config_small(1), of True] by (simp only: run(3))
  then have y: "bs_buf ?y = []" "ByteStream_input_ended ?y" using eof by (simp_all add: eof_iff ByteStream_input_ended_def)
  then have "bm_string_received st = ep_written (d False)" "bs_eof2 (sn_stream (cn_sender (bm_x st)))"
    using deliv by (simp_all add: run ByteStream_input_ended_def)
  then show "bm_string_received st = s" using d by (auto simp: runs_def)
qed

lemma end_input_new:
  "\<exists>seg. cn_segments_out (TCPConnection_end_input_stream (TCPConnection r cfg)) = [seg] \<and> th_syn (seg_header seg) \<and>
     \<not> th_rst (seg_header seg)"
proof -
  let ?c = "TCPConnection r cfg" and ?s = "TCPSender_stream_in ByteStream_end_input (new_sender r cfg)"
  let ?seg = "header_segment (TCPHeader\<lparr>th_seqno := sn_isn ?s, th_syn := True, th_fin := True\<rparr>)"
  have "sn_segments_out (TCPSender_fill_window ?s) = [?seg]"
    by (simp add: new_sender_def TCPSender_def TCPSender_stream_in_def TCPSender_fill_window_def fill_window_syn_def
        ByteStream_eof_def ByteStream_def ByteStream_end_input_def send_new_def Let_def)
  then have "cn_segments_out (TCPConnection_end_input_stream ?c) = [stamp (?c\<lparr>cn_sender := ?s\<rparr>) ?seg]"
    by (simp add: TCPConnection_end_input_stream_def TCPConnection_active_def new_connection fill_window_and_send_eq)
  then show ?thesis by (simp add: header_segment_def TCPHeader_def)
qed

lemma bench_ok_start:
  "bench_ok random s \<lparr>bm_x = TCPConnection_connect (TCPConnection (random False) TCPConfig),
     bm_y = TCPConnection_end_input_stream (TCPConnection (random True) TCPConfig),
     bm_bytes_to_send = Buffer s, bm_x_closed = False, bm_string_received = []\<rparr>" (is "bench_ok _ _ ?st")
proof -
  let ?cfg = "\<lambda>_ :: bool. TCPConfig"
  let ?x = "TCPConnection (random False) TCPConfig" and ?y = "TCPConnection (random True) TCPConfig"
  let ?d0 = "ends_start random ?cfg"
  let ?d1 = "?d0(False := (?d0 False)\<lparr>ep_conn := TCPConnection_connect ?x\<rparr>)"
  let ?d2 = "?d1(True := (?d1 True)\<lparr>ep_conn := TCPConnection_end_input_stream ?y\<rparr>)"
  have "ends_step ?cfg ?d0 ?d1"
    using ends_step.connect [of ?d0 False ?cfg] by (simp add: ends_start_def TCPConnection_active_def new_connection)
  from tracked_step [OF this tracked_start config_small(1)] have t1: "tracked random ?cfg ?d1" .
  have "ends_step ?cfg ?d1 ?d2" using ends_step.app_end [of ?cfg ?d1 True] by (simp add: ends_start_def)
  from tracked_step [OF this t1 config_small(1)] have "tracked random ?cfg ?d2" .
  then have "runs random s ?st ?d2"
    using connect_new(1) [of "random False" TCPConfig]
    by (simp add: runs_def ends_start_def) (simp add: sender_syn_def new_sender_def TCPSender_def ByteStream_def)
  moreover have "unopened (bm_x ?st) (bm_y ?st)"
  proof -
    have "cn_active2 (TCPConnection_end_input_stream ?y)" by (simp add: TCPConnection_end_input_stream_def new_connection)
    then show ?thesis
      using connect_new [of "random False" TCPConfig] end_input_new [of "random True" TCPConfig]
      by (auto simp: unopened_def new_connection plain_def sender_syn_def window_edge_def new_sender_simps add64_def)
  qed
  ultimately show ?thesis by (auto simp: bench_ok_def)
qed

section \<open>Properties\<close>

text \<open>
  C9: the benchmark, for as many turns as it runs, with or without reordering, receives a beginning of the
  string it sends; when it ends it has received all of it. It never fails because the strings do not match, nor in
  a tick; the one failure left is that a connection that is no longer active takes no byte.
\<close>

theorem benchmark_delivers:
  assumes "length s + 64000 < 2 ^ 31 - 2"
  shows "case main_loop random s n reorder of
      Inl e \<Rightarrow> \<exists>want. e = Runtime_error (want_message want 0)
    | Inr (ended, st) \<Rightarrow>
        bm_string_received st = take (length (bm_string_received st)) s \<and>
        (ended \<longrightarrow> bm_string_received st = s \<and>
           \<not> TCPConnection_active (bm_x st) \<and> \<not> TCPConnection_active (bm_y st))"
proof -
  let ?eof = "\<lambda>st. \<not> ByteStream_eof (TCPConnection_inbound_stream (bm_y st))"
  let ?active = "\<lambda>st. TCPConnection_active (bm_x st) \<or> TCPConnection_active (bm_y st)"
  note start = bench_ok_start [of random s]
  define st0 where "st0 = \<lparr>bm_x = TCPConnection_connect (TCPConnection (random False) TCPConfig),
     bm_y = TCPConnection_end_input_stream (TCPConnection (random True) TCPConfig),
     bm_bytes_to_send = Buffer s, bm_x_closed = False, bm_string_received = []\<rparr>"
  note run = loop_while_runs [OF start [folded st0_def] assms, where reorder = reorder and goes_on = ?eof and n = n]
  show ?thesis
  proof (cases "loop_while reorder ?eof n st0")
    case (Inl e)
    then show ?thesis using run by (simp add: main_loop_def st0_def stuck_def)
  next
    case (Inr p)
    obtain ended st where p: "p = (ended, st)" by fastforce
    have st: "bench_ok random s st" "ended \<Longrightarrow> \<not> ?eof st" using run Inr p by auto
    note got = bench_ok_received [OF st(1)]
    show ?thesis
    proof (cases ended)
      case False
      then show ?thesis using Inr p got(1) by (simp add: main_loop_def st0_def [symmetric])
    next
      case True
      then have s: "bm_string_received st = s" using st(2) got(2) by blast
      then have eq: "main_loop random s n reorder = loop_while reorder ?active n st"
        using Inr p True by (simp add: main_loop_def st0_def [symmetric])
      show ?thesis
      proof (cases "loop_while reorder ?active n st")
        case (Inl e)
        then show ?thesis using loop_while_runs [OF st(1) assms, where reorder = reorder and goes_on = ?active and n = n] by (simp add: eq stuck_def)
      next
        case (Inr q)
        obtain ended' st' where q: "q = (ended', st')" by fastforce
        then obtain bs where st': "bench_ok random s st'" "bm_string_received st' = s @ bs" "ended' \<longrightarrow> \<not> ?active st'"
          using loop_while_runs [OF st(1) assms, where reorder = reorder and goes_on = ?active and n = n] Inr s by auto
        have "bm_string_received st' = s"
          using bench_ok_received(1) [OF st'(1)] st'(2) by simp
        then show ?thesis using Inr q st'(3) by (simp add: eq)
      qed
    qed
  qed
qed

theorem benchmark_delivers_witness:
  "\<forall>random n reorder. case main_loop random [1, 2, 3] n reorder of
      Inl e \<Rightarrow> \<exists>want. e = Runtime_error (want_message want 0)
    | Inr (ended, st) \<Rightarrow>
        bm_string_received st = take (length (bm_string_received st)) [1, 2, 3] \<and>
        (ended \<longrightarrow> bm_string_received st = [1, 2, 3] \<and>
           \<not> TCPConnection_active (bm_x st) \<and> \<not> TCPConnection_active (bm_y st))"
  by (intro allI benchmark_delivers) simp

end
