(* ===== verification/Address.thy ===== *)
theory Address
  imports Parser
begin

text \<open>
  \<^verbatim>\<open>Address\<close> (\<^verbatim>\<open>util/address.hh\<close>, \<^verbatim>\<open>util/address.cc\<close>): a socket address as the bytes of a
  \<^verbatim>\<open>sockaddr_storage\<close> with the number of them in use. An IPv4 address is a \<^verbatim>\<open>sockaddr_in\<close> of 16
  bytes: the family in host byte order (little endian), the port and the address in network byte
  order, and eight zeros. The resolver functions of the C library, \<^verbatim>\<open>getaddrinfo\<close> and
  \<^verbatim>\<open>getnameinfo\<close>, are parameters.
\<close>

section \<open>State\<close>

record address =
  ad_size :: nat
  ad_storage :: bytes

text \<open>\<^verbatim>\<open>sizeof\<close> of the two structures and the family's bytes on Linux.\<close>

definition sizeof_sockaddr_storage :: nat where "sizeof_sockaddr_storage = 128"
definition sizeof_sockaddr_in :: nat where "sizeof_sockaddr_in = 16"
definition AF_INET_bytes :: bytes where "AF_INET_bytes = [2, 0]"

definition Address_of_sockaddr :: "bytes \<Rightarrow> size_t \<Rightarrow> exn + address" where
  "Address_of_sockaddr addr sz =
     (if sz > sizeof_sockaddr_storage then Inl (Runtime_error ''invalid sockaddr sz'')
      else if length addr < sz then Inl (Undefined_behaviour ''memcpy past the end of addr'')
      else Inr \<lparr>ad_size = sz,
                ad_storage = take sz addr @ replicate (sizeof_sockaddr_storage - sz) 0\<rparr>)"

section \<open>Resolving names\<close>

record addrinfo_hints =
  ai_flags :: "string set"
  ai_family :: string

definition make_hints :: "string set \<Rightarrow> string \<Rightarrow> addrinfo_hints" where
  "make_hints flags family = \<lparr>ai_flags = flags, ai_family = family\<rparr>"

text \<open>What \<^verbatim>\<open>getaddrinfo\<close> gives: its return value and the first entry of the list, if any.\<close>

type_synonym resolver = "string \<Rightarrow> string \<Rightarrow> addrinfo_hints \<Rightarrow> int \<times> bytes option"

definition Address_resolve :: "resolver \<Rightarrow> string \<Rightarrow> string \<Rightarrow> addrinfo_hints \<Rightarrow> exn + address" where
  "Address_resolve getaddrinfo node service hints =
     (let (gai_ret, resolved_address) = getaddrinfo node service hints
      in if gai_ret \<noteq> 0
         then Inl (Unix_error (''getaddrinfo('' @ node @ '', '' @ service @ '')''))
         else case resolved_address of
                None \<Rightarrow> Inl (Runtime_error ''getaddrinfo returned successfully but with no results'')
              | Some ai_addr \<Rightarrow> Address_of_sockaddr ai_addr (length ai_addr))"

definition Address_of_host :: "resolver \<Rightarrow> string \<Rightarrow> string \<Rightarrow> exn + address" where
  "Address_of_host getaddrinfo hostname service =
     Address_resolve getaddrinfo hostname service (make_hints {''AI_ALL''} ''AF_INET'')"

definition Address_of_ip :: "resolver \<Rightarrow> string \<Rightarrow> u16 \<Rightarrow> exn + address" where
  "Address_of_ip getaddrinfo ip port =
     Address_resolve getaddrinfo ip (dec_string (unat port))
       (make_hints {''AI_NUMERICHOST'', ''AI_NUMERICSERV''} ''AF_INET'')"

text \<open>\<^verbatim>\<open>std::stoi\<close>: leading white space, a sign, then at least one digit.\<close>

definition digit_val :: "char \<Rightarrow> nat" where
  "digit_val c = of_char c - 48"

definition is_digit :: "char \<Rightarrow> bool" where
  "is_digit c \<longleftrightarrow> 48 \<le> (of_char c :: nat) \<and> (of_char c :: nat) \<le> 57"

definition stoi :: "string \<Rightarrow> exn + int" where
  "stoi s =
     (let s = dropWhile (\<lambda>c. c \<in> set ('' '' @ [CHR 0x09, CHR 0x0A, CHR 0x0B, CHR 0x0C, CHR 0x0D])) s;
          neg = (s \<noteq> [] \<and> hd s = CHR ''-'');
          s = (if s \<noteq> [] \<and> (hd s = CHR ''-'' \<or> hd s = CHR ''+'') then tl s else s);
          ds = takeWhile is_digit s;
          v = int (foldl (\<lambda>n c. n * 10 + digit_val c) 0 ds);
          v = (if neg then - v else v)
      in if ds = [] then Inl (Runtime_error ''stoi'')
         else if v < - (2 ^ 31) \<or> v \<ge> 2 ^ 31 then Inl (Out_of_range ''stoi'')
         else Inr v)"

text \<open>\<^verbatim>\<open>getnameinfo\<close> with numeric flags: its return value, the host's and the service's text.\<close>

type_synonym name_lookup = "bytes \<Rightarrow> int \<times> string \<times> string"

definition Address_ip_port :: "name_lookup \<Rightarrow> address \<Rightarrow> exn + string \<times> u16" where
  "Address_ip_port getnameinfo a =
     (let (gni_ret, ip, port) = getnameinfo (take (ad_size a) (ad_storage a))
      in if gni_ret \<noteq> 0 then Inl (Unix_error ''getnameinfo'')
         else bindE (stoi port) (\<lambda>p. Inr (ip, word_of_int p)))"

definition Address_ip :: "name_lookup \<Rightarrow> address \<Rightarrow> exn + string" where
  "Address_ip getnameinfo a = bindE (Address_ip_port getnameinfo a) (\<lambda>p. Inr (fst p))"

definition Address_port :: "name_lookup \<Rightarrow> address \<Rightarrow> exn + u16" where
  "Address_port getnameinfo a = bindE (Address_ip_port getnameinfo a) (\<lambda>p. Inr (snd p))"

definition Address_to_string :: "name_lookup \<Rightarrow> address \<Rightarrow> exn + string" where
  "Address_to_string getnameinfo a =
     bindE (Address_ip_port getnameinfo a) (\<lambda>(ip, port). Inr (ip @ '':'' @ dec_string (unat port)))"

section \<open>Numeric addresses\<close>

definition Address_ipv4_numeric :: "address \<Rightarrow> exn + u32" where
  "Address_ipv4_numeric a =
     (if take 2 (ad_storage a) \<noteq> AF_INET_bytes \<or> ad_size a \<noteq> sizeof_sockaddr_in
      then Inl (Runtime_error ''ipv4_numeric called on non-IPV4 address'')
      else Inr (be_decode (take 4 (drop 4 (ad_storage a)))))"

text \<open>The structure is zero but for family and address, so the constructor cannot throw.\<close>

definition Address_from_ipv4_numeric :: "u32 \<Rightarrow> address" where
  "Address_from_ipv4_numeric ip_address =
     (case Address_of_sockaddr (AF_INET_bytes @ [0, 0] @ NetUnparser_u32 [] ip_address @ replicate 8 0)
             sizeof_sockaddr_in of
        Inr a \<Rightarrow> a | Inl e \<Rightarrow> \<lparr>ad_size = 0, ad_storage = replicate sizeof_sockaddr_storage 0\<rparr>)"

definition Address_eq :: "address \<Rightarrow> address \<Rightarrow> bool" where
  "Address_eq a other \<longleftrightarrow>
     (if ad_size a \<noteq> ad_size other then False
      else take (ad_size a) (ad_storage a) = take (ad_size a) (ad_storage other))"

definition Address_neq :: "address \<Rightarrow> address \<Rightarrow> bool" where
  "Address_neq a other \<longleftrightarrow> \<not> Address_eq a other"

lemma from_ipv4_numeric_eq:
  "Address_from_ipv4_numeric ip =
     \<lparr>ad_size = 16, ad_storage = [2, 0, 0, 0] @ be_encode ip @ replicate 120 0\<rparr>"
proof -
  let ?s = "AF_INET_bytes @ [0, 0] @ be_encode ip @ replicate 8 0"
  have "length ?s = 16" by (simp add: AF_INET_bytes_def)
  moreover have "?s @ replicate 112 0 = [2, 0, 0, 0] @ be_encode ip @ replicate 120 0"
    using replicate_add [of 8 112 "0 :: byte"] by (simp add: AF_INET_bytes_def)
  ultimately show ?thesis
    by (simp add: Address_from_ipv4_numeric_def Address_of_sockaddr_def sizeof_sockaddr_storage_def
        sizeof_sockaddr_in_def)
qed

lemma ipv4_numeric_from [simp]: "Address_ipv4_numeric (Address_from_ipv4_numeric ip) = Inr ip"
  by (simp add: from_ipv4_numeric_eq Address_ipv4_numeric_def AF_INET_bytes_def sizeof_sockaddr_in_def)

lemma ipv4_numeric_eq_Inr:
  "(\<exists>ip. Address_ipv4_numeric a = Inr ip) \<longleftrightarrow> take 2 (ad_storage a) = [2, 0] \<and> ad_size a = 16"
  by (auto simp: Address_ipv4_numeric_def AF_INET_bytes_def sizeof_sockaddr_in_def)

section \<open>Decimal numbers\<close>

definition dec_value :: "string \<Rightarrow> nat" where
  "dec_value ds = foldl (\<lambda>n c. n * 10 + digit_val c) 0 ds"

lemma digit_char_10: "d < 10 \<Longrightarrow> is_digit (digit_char d) \<and> digit_val (digit_char d) = d"
proof -
  have "d \<in> {0, 1, 2, 3, 4, 5, 6, 7, 8, 9}" if "d < 10" using that by auto
  then show "d < 10 \<Longrightarrow> ?thesis" by (auto simp: digit_char_def is_digit_def digit_val_def)
qed

lemma dec_string_value [simp]: "dec_value (dec_string n) = n"
  and dec_string_digits: "set (dec_string n) \<subseteq> Collect is_digit"
  and dec_string_ne [simp]: "dec_string n \<noteq> []"
proof -
  have "dec_value (dec_string n) = n \<and> set (dec_string n) \<subseteq> Collect is_digit \<and> dec_string n \<noteq> []"
  proof (induction n rule: less_induct)
    case (less n)
    have step: "dec_string n = (if n < 10 then [digit_char n] else dec_string (n div 10) @ [digit_char (n mod 10)])"
      unfolding dec_string_def by (subst number_string.simps) simp
    show ?case
    proof (cases "n < 10")
      case True
      then show ?thesis using digit_char_10 [OF True] by (simp add: step dec_value_def)
    next
      case False
      then have "n div 10 < n" by simp
      from less [OF this] False show ?thesis
        using digit_char_10 [of "n mod 10"] by (subst (1 2 3) step) (simp add: dec_value_def)
    qed
  qed
  then show "dec_value (dec_string n) = n" "set (dec_string n) \<subseteq> Collect is_digit" "dec_string n \<noteq> []" by auto
qed

lemma stoi_dec_string: "n < 2 ^ 31 \<Longrightarrow> stoi (dec_string n) = Inr (int n)"
proof -
  assume n: "n < 2 ^ 31"
  have digit: "is_digit (hd (dec_string n))" using dec_string_digits [of n] by (cases "dec_string n") auto
  then have hd: "hd (dec_string n) \<notin> set ('' '' @ [CHR 0x09, CHR 0x0A, CHR 0x0B, CHR 0x0C, CHR 0x0D])"
    "hd (dec_string n) \<noteq> CHR ''-''" "hd (dec_string n) \<noteq> CHR ''+''"
    by (auto simp: is_digit_def)
  have drop: "dropWhile (\<lambda>c. c \<in> set ('' '' @ [CHR 0x09, CHR 0x0A, CHR 0x0B, CHR 0x0C, CHR 0x0D])) (dec_string n) = dec_string n"
    using hd(1) by (cases "dec_string n") auto
  have take: "takeWhile is_digit (dec_string n) = dec_string n"
    using dec_string_digits [of n] by (auto simp: takeWhile_eq_all_conv)
  show ?thesis
    unfolding stoi_def drop Let_def using hd(2,3) n
    by (simp add: take dec_value_def [symmetric])
qed

text \<open>The bytes of the socket address with a given IPv4 address and port.\<close>

definition sockaddr_of :: "u32 \<Rightarrow> u16 \<Rightarrow> bytes" where
  "sockaddr_of ip port = AF_INET_bytes @ be_encode port @ be_encode ip @ replicate 8 0"

lemma length_sockaddr_of [simp]: "length (sockaddr_of ip port) = 16"
  by (simp add: sockaddr_of_def AF_INET_bytes_def)

definition ipv4_address :: "u32 \<Rightarrow> u16 \<Rightarrow> address" where
  "ipv4_address ip port = \<lparr>ad_size = 16, ad_storage = sockaddr_of ip port @ replicate 112 0\<rparr>"

lemma ipv4_address [simp]:
  "Address_of_sockaddr (sockaddr_of ip port) 16 = Inr (ipv4_address ip port)"
  "Address_ipv4_numeric (ipv4_address ip port) = Inr ip"
  by (simp_all add: ipv4_address_def Address_of_sockaddr_def sizeof_sockaddr_storage_def Address_ipv4_numeric_def
      sizeof_sockaddr_in_def) (simp_all add: sockaddr_of_def AF_INET_bytes_def)

section \<open>Properties\<close>

text \<open>
  numeric IPv4 addresses round trip through \<^verbatim>\<open>Address\<close>: \<^verbatim>\<open>ipv4_numeric\<close> recovers the number
  \<^verbatim>\<open>from_ipv4_numeric\<close> was given, two such addresses are \<^verbatim>\<open>==\<close> exactly when the numbers are equal,
  and any address the constructor makes from the bytes of a socket address is \<^verbatim>\<open>==\<close> to another
  exactly when the two are made of the same bytes.
\<close>

theorem Address_ipv4_roundtrip:
  "Address_ipv4_numeric (Address_from_ipv4_numeric ip) = Inr ip \<and>
   (Address_eq (Address_from_ipv4_numeric ip) (Address_from_ipv4_numeric ip') \<longleftrightarrow> ip = ip') \<and>
   (case (Address_of_sockaddr s (length s), Address_of_sockaddr s' (length s')) of
      (Inr a, Inr a') \<Rightarrow> Address_eq a a' \<longleftrightarrow> s = s'
    | _ \<Rightarrow> 128 < length s \<or> 128 < length s')"
proof (intro conjI)
  show "Address_eq (Address_from_ipv4_numeric ip) (Address_from_ipv4_numeric ip') \<longleftrightarrow> ip = ip'"
  proof
    assume "Address_eq (Address_from_ipv4_numeric ip) (Address_from_ipv4_numeric ip')"
    then have "be_encode ip = be_encode ip'"
      by (simp add: Address_eq_def from_ipv4_numeric_eq)
    then show "ip = ip'" by (metis be_decode_encode_32)
  qed (simp add: Address_eq_def)
qed (auto simp: Address_of_sockaddr_def Address_eq_def sizeof_sockaddr_storage_def split: if_splits)

end
