(* ===== verification/Ethernet.thy ===== *)
theory Ethernet
  imports Parser
begin

text \<open>
  Ethernet addresses, headers and frames (\<^verbatim>\<open>tcp_helpers/ethernet_header.hh\<close>, \<^verbatim>\<open>.cc\<close>,
  \<^verbatim>\<open>tcp_helpers/ethernet_frame.hh\<close>, \<^verbatim>\<open>.cc\<close>) and ARP messages (\<^verbatim>\<open>tcp_helpers/arp_message.hh\<close>,
  \<^verbatim>\<open>.cc\<close>): the parsers in the parser monad, the serialisers, and what they do to each other.
\<close>

section \<open>Addresses and headers\<close>

text \<open>\<^verbatim>\<open>std::array<uint8_t, 6>\<close>: a list of six bytes.\<close>

type_synonym ethernet_address = bytes

definition ETHERNET_BROADCAST :: ethernet_address where
  "ETHERNET_BROADCAST = replicate 6 0xff"

fun EthernetAddress_to_string :: "ethernet_address \<Rightarrow> string" where
  "EthernetAddress_to_string [] = ''''"
| "EthernetAddress_to_string [b] = zero_fill 2 (hex_string (unat b))"
| "EthernetAddress_to_string (b # bs) =
     zero_fill 2 (hex_string (unat b)) @ '':'' @ EthernetAddress_to_string bs"

record ethernet_header =
  eth_dst :: ethernet_address
  eth_src :: ethernet_address
  eth_type :: u16

definition EthernetHeader_LENGTH :: nat where
  "EthernetHeader_LENGTH = 14"

definition TYPE_IPv4 :: u16 where
  "TYPE_IPv4 = 0x800"

definition TYPE_ARP :: u16 where
  "TYPE_ARP = 0x806"

text \<open>\<^verbatim>\<open>EthernetHeader{}\<close>: every member is value-initialised.\<close>

definition EthernetHeader :: ethernet_header where
  "EthernetHeader = \<lparr>eth_dst = replicate 6 0, eth_src = replicate 6 0, eth_type = 0\<rparr>"

definition EthernetHeader_parse :: "ethernet_header \<Rightarrow> (net_parser, parse_result \<times> ethernet_header) state" where
  "EthernetHeader_parse h = do {
     p \<leftarrow> State_Monad.get;
     if Buffer_size (np_buffer p) < EthernetHeader_LENGTH
     then State_Monad.return (PacketTooShort, h)
     else do {
       dst \<leftarrow> State_Monad.traverse_list (\<lambda>_. NetParser_u8) (eth_dst h);
       src \<leftarrow> State_Monad.traverse_list (\<lambda>_. NetParser_u8) (eth_src h);
       type \<leftarrow> NetParser_u16;
       p' \<leftarrow> State_Monad.get;
       State_Monad.return (NetParser_get_error p', h\<lparr>eth_dst := dst, eth_src := src, eth_type := type\<rparr>)
     }
   }"

definition EthernetHeader_serialize :: "ethernet_header \<Rightarrow> bytes" where
  "EthernetHeader_serialize h =
     (let ret = [];
          ret = foldl NetUnparser_u8 ret (eth_dst h);
          ret = foldl NetUnparser_u8 ret (eth_src h)
      in NetUnparser_u16 ret (eth_type h))"

definition EthernetHeader_to_string :: "ethernet_header \<Rightarrow> string" where
  "EthernetHeader_to_string h =
     ''dst='' @ EthernetAddress_to_string (eth_dst h) @
     '', src='' @ EthernetAddress_to_string (eth_src h) @
     '', type='' @
     (if eth_type h = TYPE_IPv4 then ''IPv4''
      else if eth_type h = TYPE_ARP then ''ARP''
      else ''[unknown type '' @ hex_string (unat (eth_type h)) @ ''!]'')"

definition eth_ok :: "ethernet_header \<Rightarrow> bool" where
  "eth_ok h \<longleftrightarrow> length (eth_dst h) = 6 \<and> length (eth_src h) = 6"

lemma eth_ok_new [simp]: "eth_ok EthernetHeader"
  by (simp add: eth_ok_def EthernetHeader_def)

lemma EthernetHeader_serialize_eq:
  "EthernetHeader_serialize h = eth_dst h @ eth_src h @ be_encode (eth_type h)"
  by (simp add: EthernetHeader_serialize_def)

lemma length_EthernetHeader_serialize [simp]:
  "eth_ok h \<Longrightarrow> length (EthernetHeader_serialize h) = EthernetHeader_LENGTH"
  by (simp add: EthernetHeader_serialize_eq eth_ok_def EthernetHeader_LENGTH_def)

text \<open>The header parser takes the first 14 bytes apart, or touches nothing.\<close>

lemma EthernetHeader_parse_run:
  assumes "np_error p = NoError" "EthernetHeader_LENGTH \<le> length (np_content p)" "eth_ok h"
  obtains h' p' where
    "run_state (EthernetHeader_parse h) p = ((NoError, h'), p')" "eth_ok h'"
    "np_content p = EthernetHeader_serialize h' @ np_content p'" "np_error p' = NoError"
proof -
  let ?c = "np_content p"
  have len: "14 \<le> length ?c" using assms(2) by (simp add: EthernetHeader_LENGTH_def)
  have six: "length (eth_dst h) = 6" "length (eth_src h) = 6" using assms(3) by (simp_all add: eth_ok_def)
  obtain p1 where p1: "run_state (State_Monad.traverse_list (\<lambda>_. NetParser_u8) (eth_dst h)) p = (take 6 ?c, p1)"
      "np_content p1 = drop 6 ?c" "np_error p1 = NoError"
    using run_bytes [of p "eth_dst h"] assms(1) len six by auto
  have "length (eth_src h) \<le> length (np_content p1)" using p1(2) len six by simp
  from run_bytes [OF p1(3) this] p1(2) six
  obtain p2 where p2: "run_state (State_Monad.traverse_list (\<lambda>_. NetParser_u8) (eth_src h)) p1 =
      (take 6 (drop 6 ?c), p2)" "np_content p2 = drop 12 ?c" "np_error p2 = NoError"
    by auto
  let ?h = "h\<lparr>eth_dst := take 6 ?c, eth_src := take 6 (drop 6 ?c), eth_type := be_decode (take 2 (drop 12 ?c))\<rparr>"
  have "run_state (EthernetHeader_parse h) p = ((NoError, ?h), np_skip 2 p2)"
    using assms(2) p1 p2 len
    by (simp add: EthernetHeader_parse_def Buffer_size_def np_content_def [symmetric] NetParser_get_error_def)
  moreover have "eth_ok ?h" using len by (simp add: eth_ok_def)
  moreover have "?c = EthernetHeader_serialize ?h @ np_content (np_skip 2 p2)"
  proof -
    have "EthernetHeader_serialize ?h = take 14 ?c"
      using len take_add [of 6 6 ?c] take_add [of 12 2 ?c] by (simp add: EthernetHeader_serialize_eq)
    moreover have "np_content (np_skip 2 p2) = drop 14 ?c" using p2 len by simp
    ultimately show ?thesis by simp
  qed
  moreover have "np_error (np_skip 2 p2) = NoError" using p2(3) by simp
  ultimately show ?thesis by (rule that)
qed

lemma EthernetHeader_parse_short:
  "length (np_content p) < EthernetHeader_LENGTH \<Longrightarrow>
   run_state (EthernetHeader_parse h) p = ((PacketTooShort, h), p)"
  by (simp add: EthernetHeader_parse_def Buffer_size_def np_content_def)

text \<open>Equal serialisations of two well-formed headers come from equal headers.\<close>

lemma EthernetHeader_serialize_inject:
  assumes "eth_ok h" "eth_ok h'" "EthernetHeader_serialize h @ r = EthernetHeader_serialize h' @ r'"
  shows "h = h' \<and> r = r'"
  using assms by (auto simp: EthernetHeader_serialize_eq eth_ok_def u16.enc_inject)

section \<open>Frames\<close>

record ethernet_frame =
  ef_header :: ethernet_header
  ef_payload :: buffer_list

definition EthernetFrame :: ethernet_frame where
  "EthernetFrame = \<lparr>ef_header = EthernetHeader, ef_payload = BufferList_default\<rparr>"

text \<open>The result of the header's parser is dropped; the frame's result is the parser's error.\<close>

definition EthernetFrame_parse :: "buffer \<Rightarrow> ethernet_frame \<Rightarrow> parse_result \<times> ethernet_frame" where
  "EthernetFrame_parse buffer f =
     (let ((_, h), p) = run_state (EthernetHeader_parse (ef_header f)) (NetParser buffer)
      in (NetParser_get_error p, f\<lparr>ef_header := h, ef_payload := BufferList_of_buffer (np_buffer p)\<rparr>))"

definition EthernetFrame_serialize :: "ethernet_frame \<Rightarrow> buffer_list" where
  "EthernetFrame_serialize f =
     (let ret = BufferList_default;
          ret = BufferList_append (BufferList_of_string (EthernetHeader_serialize (ef_header f))) ret
      in BufferList_append (ef_payload f) ret)"

lemma EthernetFrame_serialize_content:
  "BufferList_concatenate (EthernetFrame_serialize f) =
     EthernetHeader_serialize (ef_header f) @ BufferList_concatenate (ef_payload f)"
  by (simp add: EthernetFrame_serialize_def)

lemma EthernetFrame_parse_long:
  assumes "EthernetHeader_LENGTH \<le> length (Buffer_str b)" "eth_ok (ef_header f)"
  obtains f' where "EthernetFrame_parse b f = (NoError, f')" "eth_ok (ef_header f')"
    "BufferList_concatenate (EthernetFrame_serialize f') = Buffer_str b"
proof -
  obtain h' p' where r: "run_state (EthernetHeader_parse (ef_header f)) (NetParser b) = ((NoError, h'), p')"
    "eth_ok h'" "Buffer_str b = EthernetHeader_serialize h' @ np_content p'" "np_error p' = NoError"
    using EthernetHeader_parse_run [of "NetParser b" "ef_header f"] assms by auto
  show ?thesis
    by (rule that [of "f\<lparr>ef_header := h', ef_payload := BufferList_of_buffer (np_buffer p')\<rparr>"])
      (use r in \<open>simp_all add: EthernetFrame_parse_def NetParser_get_error_def
         EthernetFrame_serialize_content np_content_def\<close>)
qed

section \<open>ARP messages\<close>

record arp_message =
  arp_hardware_type :: u16
  arp_protocol_type :: u16
  arp_hardware_address_size :: byte
  arp_protocol_address_size :: byte
  arp_opcode :: u16
  arp_sender_ethernet_address :: ethernet_address
  arp_sender_ip_address :: u32
  arp_target_ethernet_address :: ethernet_address
  arp_target_ip_address :: u32

definition ARPMessage_LENGTH :: nat where
  "ARPMessage_LENGTH = 28"

definition TYPE_ETHERNET :: u16 where
  "TYPE_ETHERNET = 1"

definition OPCODE_REQUEST :: u16 where
  "OPCODE_REQUEST = 1"

definition OPCODE_REPLY :: u16 where
  "OPCODE_REPLY = 2"

definition ARPMessage :: arp_message where
  "ARPMessage =
     \<lparr>arp_hardware_type = TYPE_ETHERNET, arp_protocol_type = TYPE_IPv4,
      arp_hardware_address_size = 6, arp_protocol_address_size = 4, arp_opcode = 0,
      arp_sender_ethernet_address = replicate 6 0, arp_sender_ip_address = 0,
      arp_target_ethernet_address = replicate 6 0, arp_target_ip_address = 0\<rparr>"

definition ARPMessage_supported :: "arp_message \<Rightarrow> bool" where
  "ARPMessage_supported m \<longleftrightarrow>
     arp_hardware_type m = TYPE_ETHERNET \<and> arp_protocol_type m = TYPE_IPv4 \<and>
     arp_hardware_address_size m = 6 \<and> arp_protocol_address_size m = 4 \<and>
     (arp_opcode m = OPCODE_REQUEST \<or> arp_opcode m = OPCODE_REPLY)"

definition ARPMessage_parse :: "buffer \<Rightarrow> arp_message \<Rightarrow> parse_result \<times> arp_message" where
  "ARPMessage_parse buffer m = fst (run_state (do {
     p \<leftarrow> State_Monad.get;
     if Buffer_size (np_buffer p) < ARPMessage_LENGTH
     then State_Monad.return (PacketTooShort, m)
     else do {
       hardware_type \<leftarrow> NetParser_u16;
       protocol_type \<leftarrow> NetParser_u16;
       hardware_address_size \<leftarrow> NetParser_u8;
       protocol_address_size \<leftarrow> NetParser_u8;
       opcode \<leftarrow> NetParser_u16;
       let m = m\<lparr>arp_hardware_type := hardware_type, arp_protocol_type := protocol_type,
                 arp_hardware_address_size := hardware_address_size,
                 arp_protocol_address_size := protocol_address_size, arp_opcode := opcode\<rparr>;
       if \<not> ARPMessage_supported m
       then State_Monad.return (Unsupported, m)
       else do {
         sender_eth \<leftarrow> State_Monad.traverse_list (\<lambda>_. NetParser_u8) (arp_sender_ethernet_address m);
         sender_ip \<leftarrow> NetParser_u32;
         target_eth \<leftarrow> State_Monad.traverse_list (\<lambda>_. NetParser_u8) (arp_target_ethernet_address m);
         target_ip \<leftarrow> NetParser_u32;
         p' \<leftarrow> State_Monad.get;
         State_Monad.return (NetParser_get_error p',
           m\<lparr>arp_sender_ethernet_address := sender_eth, arp_sender_ip_address := sender_ip,
             arp_target_ethernet_address := target_eth, arp_target_ip_address := target_ip\<rparr>)
       }
     }
   }) (NetParser buffer))"

definition ARPMessage_serialize :: "arp_message \<Rightarrow> exn + bytes" where
  "ARPMessage_serialize m =
     (if \<not> ARPMessage_supported m
      then Inl (Runtime_error ''ARPMessage::serialize(): unsupported field combination (must be Ethernet/IP, and request or reply)'')
      else
        let ret = [];
            ret = NetUnparser_u16 ret (arp_hardware_type m);
            ret = NetUnparser_u16 ret (arp_protocol_type m);
            ret = NetUnparser_u8 ret (arp_hardware_address_size m);
            ret = NetUnparser_u8 ret (arp_protocol_address_size m);
            ret = NetUnparser_u16 ret (arp_opcode m);
            ret = foldl NetUnparser_u8 ret (arp_sender_ethernet_address m);
            ret = NetUnparser_u32 ret (arp_sender_ip_address m);
            ret = foldl NetUnparser_u8 ret (arp_target_ethernet_address m);
            ret = NetUnparser_u32 ret (arp_target_ip_address m)
        in Inr ret)"

text \<open>\<^verbatim>\<open>inet_ntoa\<close> of the C library, applied to an address in host byte order, is a parameter.\<close>

definition ARPMessage_to_string :: "(u32 \<Rightarrow> string) \<Rightarrow> arp_message \<Rightarrow> string" where
  "ARPMessage_to_string inet_ntoa m =
     (let opcode_str = ''(unknown type)'';
          opcode_str = (if arp_opcode m = OPCODE_REQUEST then ''REQUEST'' else opcode_str);
          opcode_str = (if arp_opcode m = OPCODE_REPLY then ''REPLY'' else opcode_str)
      in ''opcode='' @ opcode_str @ '', sender='' @
         EthernetAddress_to_string (arp_sender_ethernet_address m) @ ''/'' @
         inet_ntoa (arp_sender_ip_address m) @ '', target='' @
         EthernetAddress_to_string (arp_target_ethernet_address m) @ ''/'' @
         inet_ntoa (arp_target_ip_address m))"

definition arp_ok :: "arp_message \<Rightarrow> bool" where
  "arp_ok m \<longleftrightarrow> length (arp_sender_ethernet_address m) = 6 \<and> length (arp_target_ethernet_address m) = 6"

text \<open>
  The parser on a message long enough: the fields are what the serialiser would write, or the
  field combination is refused.
\<close>

definition arp_fields :: "bytes \<Rightarrow> arp_message" where
  "arp_fields c =
     \<lparr>arp_hardware_type = be_decode (take 2 c), arp_protocol_type = be_decode (take 2 (drop 2 c)),
      arp_hardware_address_size = be_decode (take 1 (drop 4 c)),
      arp_protocol_address_size = be_decode (take 1 (drop 5 c)),
      arp_opcode = be_decode (take 2 (drop 6 c)),
      arp_sender_ethernet_address = take 6 (drop 8 c),
      arp_sender_ip_address = be_decode (take 4 (drop 14 c)),
      arp_target_ethernet_address = take 6 (drop 18 c),
      arp_target_ip_address = be_decode (take 4 (drop 24 c))\<rparr>"

lemma ARPMessage_supported_cong:
  "arp_hardware_type m = arp_hardware_type m' \<Longrightarrow> arp_protocol_type m = arp_protocol_type m' \<Longrightarrow>
   arp_hardware_address_size m = arp_hardware_address_size m' \<Longrightarrow>
   arp_protocol_address_size m = arp_protocol_address_size m' \<Longrightarrow> arp_opcode m = arp_opcode m' \<Longrightarrow>
   ARPMessage_supported m \<longleftrightarrow> ARPMessage_supported m'"
  by (simp add: ARPMessage_supported_def)

lemma ARPMessage_parse_run:
  assumes "arp_ok m" "ARPMessage_LENGTH \<le> length (Buffer_str b)"
  shows "(if ARPMessage_supported (arp_fields (Buffer_str b))
      then ARPMessage_parse b m = (NoError, arp_fields (Buffer_str b))
      else fst (ARPMessage_parse b m) = Unsupported)"
proof -
  let ?c = "Buffer_str b"
  let ?p1 = "np_skip 8 (NetParser b)"
  have len: "28 \<le> length ?c" and six: "length (arp_sender_ethernet_address m) = 6"
    "length (arp_target_ethernet_address m) = 6"
    using assms by (simp_all add: ARPMessage_LENGTH_def arp_ok_def)
  have c1: "np_content ?p1 = drop 8 ?c" "np_error ?p1 = NoError" using len by simp_all
  have "length (arp_sender_ethernet_address m) \<le> length (np_content ?p1)" using c1 len six by simp
  from run_bytes [OF c1(2) this] six c1
  obtain p2 where p2: "run_state (State_Monad.traverse_list (\<lambda>_. NetParser_u8) (arp_sender_ethernet_address m)) ?p1
      = (take 6 (drop 8 ?c), p2)" "np_content p2 = drop 14 ?c" "np_error p2 = NoError"
    by auto
  have "length (arp_target_ethernet_address m) \<le> length (np_content (np_skip 4 p2))"
    using p2 len six by simp
  then obtain p3 where p3: "run_state (State_Monad.traverse_list (\<lambda>_. NetParser_u8) (arp_target_ethernet_address m))
      (np_skip 4 p2) = (take 6 (drop 18 ?c), p3)" "np_content p3 = drop 24 ?c" "np_error p3 = NoError"
    using run_bytes [of "np_skip 4 p2" "arp_target_ethernet_address m"] p2 len six
    by auto
  show ?thesis
  proof (cases "ARPMessage_supported (arp_fields ?c)")
    case True
    then show ?thesis
      using p2 p3 len
      by (simp add: ARPMessage_parse_def Buffer_size_def ARPMessage_LENGTH_def Let_def
          NetParser_get_error_def arp_fields_def ARPMessage_supported_def)
  next
    case False
    then show ?thesis
      using len
      by (simp add: ARPMessage_parse_def Buffer_size_def ARPMessage_LENGTH_def Let_def
          arp_fields_def ARPMessage_supported_def)
  qed
qed

lemma ARPMessage_serialize_eq:
  "ARPMessage_supported m \<Longrightarrow> ARPMessage_serialize m =
     Inr (be_encode (arp_hardware_type m) @ be_encode (arp_protocol_type m) @
       be_encode (arp_hardware_address_size m) @ be_encode (arp_protocol_address_size m) @
       be_encode (arp_opcode m) @ arp_sender_ethernet_address m @ be_encode (arp_sender_ip_address m) @
       arp_target_ethernet_address m @ be_encode (arp_target_ip_address m))"
  by (simp add: ARPMessage_serialize_def)

lemma arp_fields_serialize:
  assumes "arp_ok m" "ARPMessage_serialize m = Inr s"
  shows "arp_fields (s @ rest) = m \<and> length s = ARPMessage_LENGTH \<and> ARPMessage_supported m"
proof -
  have sup: "ARPMessage_supported m" using assms(2) by (auto simp: ARPMessage_serialize_def split: if_splits)
  from assms(2) have s: "s = be_encode (arp_hardware_type m) @ be_encode (arp_protocol_type m) @
       be_encode (arp_hardware_address_size m) @ be_encode (arp_protocol_address_size m) @
       be_encode (arp_opcode m) @ arp_sender_ethernet_address m @ be_encode (arp_sender_ip_address m) @
       arp_target_ethernet_address m @ be_encode (arp_target_ip_address m)"
    by (simp add: ARPMessage_serialize_eq [OF sup])
  show ?thesis
    using assms(1) sup by (simp add: s arp_fields_def arp_ok_def ARPMessage_LENGTH_def)
qed

lemma serialize_arp_fields:
  assumes "ARPMessage_LENGTH \<le> length c" "ARPMessage_supported (arp_fields c)"
  shows "ARPMessage_serialize (arp_fields c) = Inr (take ARPMessage_LENGTH c)"
proof -
  have len: "28 \<le> length c" using assms(1) by (simp add: ARPMessage_LENGTH_def)
  have cuts: "take 28 c = take 2 c @ take 2 (drop 2 c) @ take 1 (drop 4 c) @ take 1 (drop 5 c) @
      take 2 (drop 6 c) @ take 6 (drop 8 c) @ take 4 (drop 14 c) @ take 6 (drop 18 c) @ take 4 (drop 24 c)"
    using take_add [of 2 26 c] take_add [of 2 24 "drop 2 c"] take_add [of 1 23 "drop 4 c"]
      take_add [of 1 22 "drop 5 c"] take_add [of 2 20 "drop 6 c"] take_add [of 6 14 "drop 8 c"]
      take_add [of 4 10 "drop 14 c"] take_add [of 6 4 "drop 18 c"]
    by simp
  show ?thesis
    unfolding ARPMessage_serialize_eq [OF assms(2)] ARPMessage_LENGTH_def cuts
    using len by (simp add: arp_fields_def)
qed

lemma EthernetFrame_parse_serialize:
  assumes "eth_ok (ef_header f)" "eth_ok (ef_header f')"
  obtains b where "EthernetFrame_parse (Buffer (BufferList_concatenate (EthernetFrame_serialize f))) f' =
      (NoError, f'\<lparr>ef_header := ef_header f, ef_payload := BufferList_of_buffer b\<rparr>)"
    "Buffer_str b = BufferList_concatenate (ef_payload f)"
proof -
  let ?w = "BufferList_concatenate (EthernetFrame_serialize f)"
  have "EthernetHeader_LENGTH \<le> length (np_content (NetParser (Buffer ?w)))"
    using assms(1) by (simp add: EthernetFrame_serialize_content)
  from EthernetHeader_parse_run [OF _ this assms(2)] obtain h p' where
    r: "run_state (EthernetHeader_parse (ef_header f')) (NetParser (Buffer ?w)) = ((NoError, h), p')"
      "eth_ok h" "?w = EthernetHeader_serialize h @ np_content p'" "np_error p' = NoError"
    by auto
  have "h = ef_header f \<and> np_content p' = BufferList_concatenate (ef_payload f)"
    using EthernetHeader_serialize_inject [OF r(2) assms(1), of "np_content p'" "BufferList_concatenate (ef_payload f)"] r(3)
    by (simp add: EthernetFrame_serialize_content)
  then show ?thesis
    by (intro that [of "np_buffer p'"])
      (use r in \<open>simp_all add: EthernetFrame_parse_def NetParser_get_error_def np_content_def\<close>)
qed

lemma ARPMessage_parse_serialize:
  assumes "arp_ok m" "ARPMessage_supported m"
  obtains s where "ARPMessage_serialize m = Inr s" "length s = ARPMessage_LENGTH"
    "\<And>b padding m'. Buffer_str b = s @ padding \<Longrightarrow> arp_ok m' \<Longrightarrow> ARPMessage_parse b m' = (NoError, m)"
proof -
  obtain s where s: "ARPMessage_serialize m = Inr s" using ARPMessage_serialize_eq [OF assms(2)] by blast
  note f = arp_fields_serialize [OF assms(1) s]
  show ?thesis
  proof (rule that [OF s])
    show "length s = ARPMessage_LENGTH" using f by simp
    show "ARPMessage_parse b m' = (NoError, m)" if "Buffer_str b = s @ padding" "arp_ok m'" for b padding m'
      using f [of padding] ARPMessage_parse_run [OF that(2), of b] that(1) by auto
  qed
qed

section \<open>Properties\<close>

text \<open>
  Ethernet frames round trip in both directions: what \<^verbatim>\<open>serialize\<close> puts on the wire for a frame
  parses back, without error, to the same header and payload bytes; and any byte string of at least
  14 bytes parses to a frame that serialises to exactly these bytes.
\<close>

theorem EthernetFrame_roundtrip:
  assumes "eth_ok (ef_header f)" "eth_ok (ef_header f')"
  shows "(let (r, g) = EthernetFrame_parse (Buffer (BufferList_concatenate (EthernetFrame_serialize f))) f'
          in r = NoError \<and> ef_header g = ef_header f \<and>
             BufferList_concatenate (ef_payload g) = BufferList_concatenate (ef_payload f)) \<and>
         (EthernetHeader_LENGTH \<le> length (Buffer_str b) \<longrightarrow>
           fst (EthernetFrame_parse b f') = NoError \<and>
           BufferList_concatenate (EthernetFrame_serialize (snd (EthernetFrame_parse b f'))) = Buffer_str b)"
proof
  let ?w = "BufferList_concatenate (EthernetFrame_serialize f)"
  obtain c where "EthernetFrame_parse (Buffer ?w) f' =
      (NoError, f'\<lparr>ef_header := ef_header f, ef_payload := BufferList_of_buffer c\<rparr>)"
      "Buffer_str c = BufferList_concatenate (ef_payload f)"
    by (rule EthernetFrame_parse_serialize [OF assms])
  then show "let (r, g) = EthernetFrame_parse (Buffer ?w) f'
      in r = NoError \<and> ef_header g = ef_header f \<and>
         BufferList_concatenate (ef_payload g) = BufferList_concatenate (ef_payload f)"
    by simp
  show "EthernetHeader_LENGTH \<le> length (Buffer_str b) \<longrightarrow>
     fst (EthernetFrame_parse b f') = NoError \<and>
     BufferList_concatenate (EthernetFrame_serialize (snd (EthernetFrame_parse b f'))) = Buffer_str b"
    using EthernetFrame_parse_long [OF _ assms(2)] by (metis fst_conv snd_conv)
qed

theorem EthernetFrame_roundtrip_witness:
  "let f = \<lparr>ef_header = \<lparr>eth_dst = ETHERNET_BROADCAST, eth_src = [2, 0, 0, 0, 0, 1], eth_type = TYPE_ARP\<rparr>,
            ef_payload = BufferList_of_string [7, 8]\<rparr>
   in ef_header (snd (EthernetFrame_parse (Buffer (BufferList_concatenate (EthernetFrame_serialize f)))
        EthernetFrame)) = ef_header f"
  using EthernetFrame_roundtrip [of "\<lparr>ef_header = \<lparr>eth_dst = ETHERNET_BROADCAST,
      eth_src = [2, 0, 0, 0, 0, 1], eth_type = TYPE_ARP\<rparr>, ef_payload = BufferList_of_string [7, 8]\<rparr>"
      EthernetFrame "Buffer []"]
  by (simp add: eth_ok_def ETHERNET_BROADCAST_def EthernetFrame_def EthernetHeader_def split_beta)

text \<open>
  a frame shorter than an Ethernet header is accepted: \<^verbatim>\<open>EthernetFrame::parse\<close> drops the result
  of the header's parser, so it reports \<^verbatim>\<open>NoError\<close>, keeps the header it had before and takes the
  whole input for its payload.
\<close>

theorem EthernetFrame_short_accepted:
  assumes "length (Buffer_str b) < EthernetHeader_LENGTH"
  shows "EthernetFrame_parse b f = (NoError, f\<lparr>ef_payload := BufferList_of_buffer b\<rparr>)"
  using assms EthernetHeader_parse_short [of "NetParser b" "ef_header f"]
  by (simp add: EthernetFrame_parse_def NetParser_get_error_def)

theorem EthernetFrame_short_accepted_witness:
  "EthernetFrame_parse (Buffer [1, 2, 3]) EthernetFrame =
     (NoError, EthernetFrame\<lparr>ef_payload := BufferList_of_buffer (Buffer [1, 2, 3])\<rparr>)"
  by (rule EthernetFrame_short_accepted) (simp add: EthernetHeader_LENGTH_def)

text \<open>
  ARP messages round trip: a supported message is written, and its bytes, with whatever padding
  after them, parse back to it; conversely \<^verbatim>\<open>parse\<close> reports \<^verbatim>\<open>NoError\<close> only on at least 28
  bytes, and the message it then returns is supported and serialises to the first 28 of them.
\<close>

theorem ARPMessage_roundtrip:
  assumes "arp_ok m" "ARPMessage_supported m" "arp_ok m'"
  shows "(\<exists>s. ARPMessage_serialize m = Inr s \<and>
            ARPMessage_parse (Buffer (s @ padding)) m' = (NoError, m)) \<and>
         (fst (ARPMessage_parse b m') = NoError \<longrightarrow>
            ARPMessage_LENGTH \<le> length (Buffer_str b) \<and>
            ARPMessage_serialize (snd (ARPMessage_parse b m')) = Inr (take ARPMessage_LENGTH (Buffer_str b)))"
proof
  show "\<exists>s. ARPMessage_serialize m = Inr s \<and> ARPMessage_parse (Buffer (s @ padding)) m' = (NoError, m)"
    by (rule ARPMessage_parse_serialize [OF assms(1,2)]) (use assms(3) in auto)
  have "fst (ARPMessage_parse b m') = PacketTooShort" if "length (Buffer_str b) < ARPMessage_LENGTH"
    using that by (simp add: ARPMessage_parse_def Buffer_size_def)
  then show "fst (ARPMessage_parse b m') = NoError \<longrightarrow> ARPMessage_LENGTH \<le> length (Buffer_str b) \<and>
      ARPMessage_serialize (snd (ARPMessage_parse b m')) = Inr (take ARPMessage_LENGTH (Buffer_str b))"
    using ARPMessage_parse_run [OF assms(3), of b] serialize_arp_fields [of "Buffer_str b"]
    by (cases "length (Buffer_str b) < ARPMessage_LENGTH"; cases "ARPMessage_supported (arp_fields (Buffer_str b))")
      (simp_all add: not_less)
qed

theorem ARPMessage_roundtrip_witness:
  "\<exists>s. ARPMessage_serialize (ARPMessage\<lparr>arp_opcode := OPCODE_REPLY\<rparr>) = Inr s \<and>
       ARPMessage_parse (Buffer (s @ [0, 0])) ARPMessage = (NoError, ARPMessage\<lparr>arp_opcode := OPCODE_REPLY\<rparr>)"
  using ARPMessage_roundtrip [of "ARPMessage\<lparr>arp_opcode := OPCODE_REPLY\<rparr>" ARPMessage "[0, 0]" "Buffer []"]
  by (simp add: arp_ok_def ARPMessage_def ARPMessage_supported_def)

end
