(* ===== verification/IPv4.thy ===== *)
theory IPv4
  imports Internet_Checksum
begin

text \<open>
  IPv4 headers and datagrams (\<^verbatim>\<open>tcp_helpers/ipv4_header.hh\<close>, \<^verbatim>\<open>.cc\<close>,
  \<^verbatim>\<open>tcp_helpers/ipv4_datagram.hh\<close>, \<^verbatim>\<open>.cc\<close>).
\<close>

section \<open>Header\<close>

record ipv4_header =
  ip_ver :: byte
  ip_hlen :: byte
  ip_tos :: byte
  ip_len :: u16
  ip_id :: u16
  ip_df :: bool
  ip_mf :: bool
  ip_offset :: u16
  ip_ttl :: byte
  ip_proto :: byte
  ip_cksum :: u16
  ip_src :: u32
  ip_dst :: u32

definition IPv4Header_LENGTH :: nat where
  "IPv4Header_LENGTH = 20"

definition DEFAULT_TTL :: byte where
  "DEFAULT_TTL = 128"

definition PROTO_TCP :: byte where
  "PROTO_TCP = 6"

definition IPv4Header :: ipv4_header where
  "IPv4Header =
     \<lparr>ip_ver = 4, ip_hlen = 5, ip_tos = 0, ip_len = 0, ip_id = 0, ip_df = True, ip_mf = False,
      ip_offset = 0, ip_ttl = DEFAULT_TTL, ip_proto = PROTO_TCP, ip_cksum = 0, ip_src = 0, ip_dst = 0\<rparr>"

text \<open>The checks after the fields have been read, in the order of the code.\<close>

definition IPv4Header_check :: "bytes \<Rightarrow> ipv4_header \<Rightarrow> (net_parser, parse_result \<times> ipv4_header) state" where
  "IPv4Header_check original h =
     (let data_size = length original in
      if data_size < 4 * unat (ip_hlen h) then State_Monad.return (PacketTooShort, h)
      else if ip_ver h \<noteq> 4 then State_Monad.return (WrongIPVersion, h)
      else if ip_hlen h < 5 then State_Monad.return (HeaderTooShort, h)
      else if data_size \<noteq> unat (ip_len h) then State_Monad.return (TruncatedPacket, h)
      else do {
        State_Monad.update (NetParser_remove_prefix (unat (ip_hlen h) * 4 - IPv4Header_LENGTH));
        p \<leftarrow> State_Monad.get;
        if NetParser_error p then State_Monad.return (NetParser_get_error p, h)
        else
          let check = InternetChecksum_add (take (4 * unat (ip_hlen h)) original) (InternetChecksum 0)
          in if InternetChecksum_value check \<noteq> 0 then State_Monad.return (BadChecksum, h)
             else State_Monad.return (NoError, h)
      })"

definition IPv4Header_parse :: "ipv4_header \<Rightarrow> (net_parser, parse_result \<times> ipv4_header) state" where
  "IPv4Header_parse h = do {
     p \<leftarrow> State_Monad.get;
     let original = Buffer_str (np_buffer p);
     if Buffer_size (np_buffer p) < IPv4Header_LENGTH
     then State_Monad.return (PacketTooShort, h)
     else do {
       first_byte \<leftarrow> NetParser_u8;
       tos \<leftarrow> NetParser_u8;
       len \<leftarrow> NetParser_u16;
       id \<leftarrow> NetParser_u16;
       fo_val \<leftarrow> NetParser_u16;
       ttl \<leftarrow> NetParser_u8;
       proto \<leftarrow> NetParser_u8;
       cksum \<leftarrow> NetParser_u16;
       src \<leftarrow> NetParser_u32;
       dst \<leftarrow> NetParser_u32;
       IPv4Header_check original
         \<lparr>ip_ver = drop_bit 4 first_byte, ip_hlen = and first_byte 0x0f, ip_tos = tos,
          ip_len = len, ip_id = id, ip_df = (and fo_val 0x4000 \<noteq> 0),
          ip_mf = (and fo_val 0x2000 \<noteq> 0), ip_offset = and fo_val 0x1fff, ip_ttl = ttl,
          ip_proto = proto, ip_cksum = cksum, ip_src = src, ip_dst = dst\<rparr>
     }
   }"

definition fo_val :: "ipv4_header \<Rightarrow> u16" where
  "fo_val h = or (or (if ip_df h then 0x4000 else 0) (if ip_mf h then 0x2000 else 0))
     (and (ip_offset h) 0x1fff)"

definition IPv4Header_serialize :: "ipv4_header \<Rightarrow> exn + bytes" where
  "IPv4Header_serialize h =
     (if ip_ver h \<noteq> 4 then Inl (Runtime_error ''wrong IP version'')
      else if 4 * unat (ip_hlen h) < IPv4Header_LENGTH
      then Inl (Runtime_error ''IP header too short'')
      else
        let ret = [];
            first_byte = or (push_bit 4 (ip_ver h)) (and (ip_hlen h) 0xf);
            ret = NetUnparser_u8 ret first_byte;
            ret = NetUnparser_u8 ret (ip_tos h);
            ret = NetUnparser_u16 ret (ip_len h);
            ret = NetUnparser_u16 ret (ip_id h);
            ret = NetUnparser_u16 ret (fo_val h);
            ret = NetUnparser_u8 ret (ip_ttl h);
            ret = NetUnparser_u8 ret (ip_proto h);
            ret = NetUnparser_u16 ret (ip_cksum h);
            ret = NetUnparser_u32 ret (ip_src h);
            ret = NetUnparser_u32 ret (ip_dst h)
        in Inr (resize (4 * unat (ip_hlen h)) ret))"

definition IPv4Header_payload_length :: "ipv4_header \<Rightarrow> u16" where
  "IPv4Header_payload_length h = ip_len h - 4 * ucast (ip_hlen h)"

definition IPv4Header_pseudo_cksum :: "ipv4_header \<Rightarrow> u32" where
  "IPv4Header_pseudo_cksum h =
     (let pcksum = drop_bit 16 (ip_src h) + and (ip_src h) 0xffff;
          pcksum = pcksum + (drop_bit 16 (ip_dst h) + and (ip_dst h) 0xffff);
          pcksum = pcksum + ucast (ip_proto h)
      in pcksum + ucast (IPv4Header_payload_length h))"

definition IPv4Header_to_string :: "ipv4_header \<Rightarrow> string" where
  "IPv4Header_to_string h =
     ''IP version: '' @ hex_string (unat (ip_ver h)) @ [CHR 0x0A] @
     ''IP hdr len: '' @ hex_string (unat (ip_hlen h)) @ [CHR 0x0A] @
     ''IP tos: '' @ hex_string (unat (ip_tos h)) @ [CHR 0x0A] @
     ''IP dgram len: '' @ hex_string (unat (ip_len h)) @ [CHR 0x0A] @
     ''IP id: '' @ hex_string (unat (ip_id h)) @ [CHR 0x0A] @
     ''Flags: df: '' @ bool_string (ip_df h) @ '' mf: '' @ bool_string (ip_mf h) @ [CHR 0x0A] @
     ''Offset: '' @ hex_string (unat (ip_offset h)) @ [CHR 0x0A] @
     ''TTL: '' @ hex_string (unat (ip_ttl h)) @ [CHR 0x0A] @
     ''Protocol: '' @ hex_string (unat (ip_proto h)) @ [CHR 0x0A] @
     ''Checksum: '' @ hex_string (unat (ip_cksum h)) @ [CHR 0x0A] @
     ''Src addr: '' @ hex_string (unat (ip_src h)) @ [CHR 0x0A] @
     ''Dst addr: '' @ hex_string (unat (ip_dst h)) @ [CHR 0x0A]"

text \<open>\<^verbatim>\<open>inet_ntoa\<close>, applied to an address in host byte order, is a parameter.\<close>

definition IPv4Header_summary :: "(u32 \<Rightarrow> string) \<Rightarrow> ipv4_header \<Rightarrow> string" where
  "IPv4Header_summary inet_ntoa h =
     ''IPv'' @ hex_string (unat (ip_ver h)) @ '', '' @
     ''len='' @ hex_string (unat (ip_len h)) @ '', '' @
     ''protocol='' @ hex_string (unat (ip_proto h)) @ '', '' @
     (if ip_ttl h \<ge> 10 then '''' else ''ttl='' @ dec_string (unat (ip_ttl h)) @ '', '') @
     ''src='' @ inet_ntoa (ip_src h) @ '', '' @ ''dst='' @ inet_ntoa (ip_dst h)"

section \<open>Datagram\<close>

record ipv4_datagram =
  dg_header :: ipv4_header
  dg_payload :: buffer_list

definition IPv4Datagram :: ipv4_datagram where
  "IPv4Datagram = \<lparr>dg_header = IPv4Header, dg_payload = BufferList_default\<rparr>"

definition IPv4Datagram_parse :: "buffer \<Rightarrow> ipv4_datagram \<Rightarrow> parse_result \<times> ipv4_datagram" where
  "IPv4Datagram_parse buffer d =
     (let ((_, h), p) = run_state (IPv4Header_parse (dg_header d)) (NetParser buffer);
          d1 = d\<lparr>dg_header := h, dg_payload := BufferList_of_buffer (np_buffer p)\<rparr>
      in if BufferList_size (dg_payload d1) \<noteq> unat (IPv4Header_payload_length h)
         then (PacketTooShort, d1)
         else (NetParser_get_error p, d1))"

definition IPv4Datagram_serialize :: "ipv4_datagram \<Rightarrow> exn + buffer_list" where
  "IPv4Datagram_serialize d =
     (if BufferList_size (dg_payload d) \<noteq> unat (IPv4Header_payload_length (dg_header d))
      then Inl (Runtime_error ''IPv4Datagram::serialize: payload is wrong size'')
      else
        let header_out = (dg_header d)\<lparr>ip_cksum := 0\<rparr>
        in bindE (IPv4Header_serialize header_out) (\<lambda>header_zero_checksum.
             let check = InternetChecksum_add header_zero_checksum (InternetChecksum 0);
                 header_out = header_out\<lparr>ip_cksum := InternetChecksum_value check\<rparr>
             in bindE (IPv4Header_serialize header_out) (\<lambda>header_bytes.
                  let ret = BufferList_append (BufferList_of_string header_bytes) BufferList_default
                  in Inr (BufferList_append (dg_payload d) ret))))"

section \<open>The parser's view of the bytes\<close>

definition ip_fields :: "bytes \<Rightarrow> ipv4_header" where
  "ip_fields c =
     \<lparr>ip_ver = drop_bit 4 (be_decode (take 1 c)), ip_hlen = and (be_decode (take 1 c)) 0x0f,
      ip_tos = be_decode (take 1 (drop 1 c)), ip_len = be_decode (take 2 (drop 2 c)),
      ip_id = be_decode (take 2 (drop 4 c)),
      ip_df = (and (be_decode (take 2 (drop 6 c)) :: u16) 0x4000 \<noteq> 0),
      ip_mf = (and (be_decode (take 2 (drop 6 c)) :: u16) 0x2000 \<noteq> 0),
      ip_offset = and (be_decode (take 2 (drop 6 c))) 0x1fff,
      ip_ttl = be_decode (take 1 (drop 8 c)), ip_proto = be_decode (take 1 (drop 9 c)),
      ip_cksum = be_decode (take 2 (drop 10 c)), ip_src = be_decode (take 4 (drop 12 c)),
      ip_dst = be_decode (take 4 (drop 16 c))\<rparr>"

text \<open>Which result the header's parser gives on at least 20 bytes, in the order of its checks.\<close>

definition ip_verdict :: "bytes \<Rightarrow> parse_result" where
  "ip_verdict c =
     (let h = ip_fields c in
      if length c < 4 * unat (ip_hlen h) then PacketTooShort
      else if ip_ver h \<noteq> 4 then WrongIPVersion
      else if ip_hlen h < 5 then HeaderTooShort
      else if length c \<noteq> unat (ip_len h) then TruncatedPacket
      else if InternetChecksum_value (InternetChecksum_add (take (4 * unat (ip_hlen h)) c)
                 (InternetChecksum 0)) \<noteq> 0 then BadChecksum
      else NoError)"

lemma IPv4Header_parse_short:
  "length (np_content p) < IPv4Header_LENGTH \<Longrightarrow>
   run_state (IPv4Header_parse h) p = ((PacketTooShort, h), p)"
  by (simp add: IPv4Header_parse_def Buffer_size_def np_content_def)

lemma IPv4Header_parse_run:
  assumes "np_error p = NoError" "IPv4Header_LENGTH \<le> length (np_content p)"
  obtains p' where
    "run_state (IPv4Header_parse h) p = ((ip_verdict (np_content p), ip_fields (np_content p)), p')"
    "np_error p' = NoError"
    "np_content p' = drop (if ip_verdict (np_content p) \<in> {NoError, BadChecksum}
        then 4 * unat (ip_hlen (ip_fields (np_content p))) else 20) (np_content p)"
proof -
  let ?c = "np_content p"
  let ?p1 = "np_skip 20 p"
  have len: "20 \<le> length ?c" using assms(2) by (simp add: IPv4Header_LENGTH_def)
  have p1: "np_error ?p1 = NoError" "np_content ?p1 = drop 20 ?c" using assms(1) len by simp_all
  let ?h = "ip_fields ?c"
  have fields: "run_state (IPv4Header_parse h) p = run_state (IPv4Header_check ?c ?h) ?p1"
    using assms(1) len
    by (simp add: IPv4Header_parse_def Buffer_size_def np_content_def [symmetric]
        IPv4Header_LENGTH_def ip_fields_def Let_def del: One_nat_def)
  show ?thesis
  proof (cases "length ?c < 4 * unat (ip_hlen ?h) \<or> ip_ver ?h \<noteq> 4 \<or> ip_hlen ?h < 5 \<or>
      length ?c \<noteq> unat (ip_len ?h)")
    case True
    then have "run_state (IPv4Header_parse h) p = ((ip_verdict ?c, ?h), ?p1)"
      "ip_verdict ?c \<notin> {NoError, BadChecksum}"
      unfolding fields by (auto simp: IPv4Header_check_def ip_verdict_def Let_def)
    with p1 show ?thesis by (intro that [of ?p1]) simp_all
  next
    case False
    let ?n = "unat (ip_hlen ?h) * 4 - 20"
    have five: "5 \<le> unat (ip_hlen ?h)" using False by (simp add: word_less_nat_alt not_less)
    then have n: "?n \<le> length (np_content ?p1)" "20 + ?n = 4 * unat (ip_hlen ?h)"
      using False p1(2) by auto
    have "run_state (IPv4Header_parse h) p = ((ip_verdict ?c, ?h), np_skip ?n ?p1)"
      "ip_verdict ?c \<in> {NoError, BadChecksum}"
      using False n(1) p1(1) unfolding fields
      by (auto simp: IPv4Header_check_def ip_verdict_def Let_def IPv4Header_LENGTH_def NetParser_error_def State_Monad.update_def)
    moreover have "np_content (np_skip ?n ?p1) = drop (4 * unat (ip_hlen ?h)) ?c"
      using n p1(2) by (simp add: add.commute)
    ultimately show ?thesis using p1(1) by (intro that [of "np_skip ?n ?p1"]) simp_all
  qed
qed

section \<open>The serialised header\<close>

definition ip_wf :: "ipv4_header \<Rightarrow> bool" where
  "ip_wf h \<longleftrightarrow> ip_ver h = 4 \<and> 5 \<le> unat (ip_hlen h) \<and> unat (ip_hlen h) < 16 \<and> unat (ip_offset h) < 0x2000"

definition ip_before_cksum :: "ipv4_header \<Rightarrow> bytes" where
  "ip_before_cksum h = be_encode (or (push_bit 4 (ip_ver h)) (and (ip_hlen h) 0xf)) @
     be_encode (ip_tos h) @ be_encode (ip_len h) @ be_encode (ip_id h) @ be_encode (fo_val h) @
     be_encode (ip_ttl h) @ be_encode (ip_proto h)"

definition ip_after_cksum :: "ipv4_header \<Rightarrow> bytes" where
  "ip_after_cksum h = be_encode (ip_src h) @ be_encode (ip_dst h) @
     replicate (4 * unat (ip_hlen h) - 20) 0"

lemma length_ip_parts [simp]:
  "length (ip_before_cksum h) = 10" "length (ip_after_cksum h) = 8 + (4 * unat (ip_hlen h) - 20)"
  by (simp_all add: ip_before_cksum_def ip_after_cksum_def)

lemma ip_parts_cksum [simp]:
  "ip_before_cksum (h\<lparr>ip_cksum := c\<rparr>) = ip_before_cksum h"
  "ip_after_cksum (h\<lparr>ip_cksum := c\<rparr>) = ip_after_cksum h"
  "ip_wf (h\<lparr>ip_cksum := c\<rparr>) = ip_wf h"
  by (simp_all add: ip_before_cksum_def ip_after_cksum_def ip_wf_def fo_val_def)

lemma IPv4Header_serialize_eq:
  assumes "ip_ver h = 4" "5 \<le> unat (ip_hlen h)"
  shows "IPv4Header_serialize h = Inr (ip_before_cksum h @ be_encode (ip_cksum h) @ ip_after_cksum h)"
  using assms
  by (simp add: IPv4Header_serialize_def IPv4Header_LENGTH_def resize_def ip_before_cksum_def
      ip_after_cksum_def not_less del: One_nat_def)

lemma and_mask_id: "unat (x :: 'a::len word) < 2 ^ n \<Longrightarrow> and x (mask n) = x"
  unfolding word_unat_eq_iff take_bit_eq_mask [symmetric] unsigned_take_bit_eq
  by (rule take_bit_nat_eq_self)

lemma nibbles:
  assumes "unat (l :: byte) < 16"
  shows "drop_bit 4 (or (push_bit 4 4) (and l 0xf)) = (4 :: byte)"
    "and (or (push_bit 4 4) (and l 0xf)) 0x0f = l"
proof -
  have l: "and l 0xf = l" using and_mask_id [of l 4] assms by (simp add: mask_eq_exp_minus_1)
  have "drop_bit 4 l = 0"
    using assms unfolding word_unat_eq_iff unsigned_drop_bit_eq
    by (simp add: drop_bit_eq_div take_bit_eq_mod)
  then show "drop_bit 4 (or (push_bit 4 4) (and l 0xf)) = (4 :: byte)" by (simp add: l)
  show "and (or (push_bit 4 4) (and l 0xf)) 0x0f = l" by (simp add: bit.conj_disj_distrib2 l)
qed

lemma flags_offset:
  fixes df mf :: bool
  assumes "unat (x :: u16) < 0x2000"
  defines "v \<equiv> or (or (if df then 0x4000 else 0) (if mf then 0x2000 else 0)) (and x 0x1fff)"
  shows "and v 0x4000 \<noteq> 0 \<longleftrightarrow> df" "and v 0x2000 \<noteq> 0 \<longleftrightarrow> mf" "and v 0x1fff = x"
proof -
  have x: "and x 0x1fff = x" using and_mask_id [of x 13] assms by (simp add: mask_eq_exp_minus_1)
  have "and x 0x4000 = and (and x 0x1fff) 0x4000" "and x 0x2000 = and (and x 0x1fff) 0x2000"
    by (simp_all only: x)
  then have "and x 0x4000 = 0" "and x 0x2000 = 0" by (simp_all add: and.assoc)
  then show "and v 0x4000 \<noteq> 0 \<longleftrightarrow> df" "and v 0x2000 \<noteq> 0 \<longleftrightarrow> mf" "and v 0x1fff = x"
    unfolding v_def x by (simp_all add: bit.conj_disj_distrib2 x)
qed

lemma ip_fields_serialize:
  assumes "ip_wf h"
  shows "ip_fields (ip_before_cksum h @ be_encode (ip_cksum h) @ ip_after_cksum h @ rest) = h"
proof -
  note n = nibbles [of "ip_hlen h"] flags_offset [of "ip_offset h" "ip_df h" "ip_mf h"]
  show ?thesis
    using assms n
    by (cases h) (simp add: ip_wf_def ip_fields_def ip_before_cksum_def ip_after_cksum_def fo_val_def
        del: One_nat_def)
qed

lemma unat_payload_length:
  assumes "unat (ip_len h) = 4 * unat (ip_hlen h) + n"
  shows "unat (IPv4Header_payload_length h) = n"
proof -
  have h: "unat (ip_hlen h) < 256" by (rule unat_byte)
  then have "unat (4 * ucast (ip_hlen h) :: u16) = 4 * unat (ip_hlen h)"
    by (simp add: unat_word_ariths unsigned_ucast_eq take_bit_eq_mod)
  moreover have "(4 * ucast (ip_hlen h) :: u16) \<le> ip_len h"
    using calculation assms by (simp add: word_le_nat_alt)
  ultimately show ?thesis
    using assms by (simp add: IPv4Header_payload_length_def unat_sub)
qed

lemma IPv4Datagram_parse_serialize:
  assumes "ip_wf (dg_header d)"
    and "unat (ip_len (dg_header d)) = 4 * unat (ip_hlen (dg_header d)) + BufferList_size (dg_payload d)"
  obtains bl ck where "IPv4Datagram_serialize d = Inr bl"
    "length (BufferList_concatenate bl) = unat (ip_len (dg_header d))"
    "ip_verdict (BufferList_concatenate bl) = NoError"
    "\<And>b d'. Buffer_str b = BufferList_concatenate bl \<Longrightarrow> \<exists>pl. IPv4Datagram_parse b d' =
        (NoError, \<lparr>dg_header = (dg_header d)\<lparr>ip_cksum := ck\<rparr>, dg_payload = pl\<rparr>) \<and>
        BufferList_concatenate pl = BufferList_concatenate (dg_payload d)"
proof -
  let ?h = "dg_header d" and ?pl = "BufferList_concatenate (dg_payload d)"
  define ck where "ck = InternetChecksum_value (InternetChecksum_add
    (ip_before_cksum ?h @ [0, 0] @ ip_after_cksum ?h) (InternetChecksum 0))"
  let ?hb = "ip_before_cksum ?h @ be_encode ck @ ip_after_cksum ?h"
  have wf: "ip_ver ?h = 4" "5 \<le> unat (ip_hlen ?h)" "unat (ip_hlen ?h) < 16"
    using assms(1) by (simp_all add: ip_wf_def)
  have pl: "unat (IPv4Header_payload_length ?h) = length ?pl"
    using unat_payload_length [OF assms(2)] by (simp add: BufferList_size_concatenate)
  have zero: "be_encode (0 :: u16) = [0, 0]" by (simp add: be_encode_16)
  obtain bl where bl: "IPv4Datagram_serialize d = Inr bl" "BufferList_concatenate bl = ?hb @ ?pl"
    using wf(1,2) pl
    by (simp add: IPv4Datagram_serialize_def IPv4Header_serialize_eq BufferList_size_concatenate ck_def zero)
  let ?w = "BufferList_concatenate bl"
  have lhb: "length ?hb = 4 * unat (ip_hlen ?h)" using wf(2) by simp
  have fields: "ip_fields ?w = ?h\<lparr>ip_cksum := ck\<rparr>"
    using ip_fields_serialize [of "?h\<lparr>ip_cksum := ck\<rparr>" ?pl] assms(1) bl(2) by simp
  have len: "length ?w = unat (ip_len ?h)"
    using bl(2) lhb assms(2) by (simp add: BufferList_size_concatenate)
  have "InternetChecksum_value (InternetChecksum_add ?hb (InternetChecksum 0)) = 0"
    using stored_checksum [of "ip_before_cksum ?h" 0 "ip_after_cksum ?h"] wf(3) by (simp add: ck_def)
  then have verdict: "ip_verdict ?w = NoError"
    using wf len fields bl(2) lhb assms(2) by (simp add: ip_verdict_def Let_def word_less_nat_alt)
  have payload: "unat (IPv4Header_payload_length (?h\<lparr>ip_cksum := ck\<rparr>)) = length ?pl"
    using pl by (simp add: IPv4Header_payload_length_def)
  show ?thesis
  proof (rule that [OF bl(1) len verdict])
    fix b and d' :: ipv4_datagram assume b: "Buffer_str b = ?w"
    obtain p' where p': "run_state (IPv4Header_parse (dg_header d')) (NetParser b) =
        ((NoError, ?h\<lparr>ip_cksum := ck\<rparr>), p')" "np_error p' = NoError"
        "np_content p' = drop (4 * unat (ip_hlen ?h)) ?w"
      using IPv4Header_parse_run [of "NetParser b" "dg_header d'"] verdict fields len assms(2) wf(2) b
      by (auto simp: IPv4Header_LENGTH_def)
    have rest: "Buffer_str (np_buffer p') = ?pl"
      using p'(3) bl(2) lhb by (simp add: np_content_def)
    then show "\<exists>pl. IPv4Datagram_parse b d' = (NoError, \<lparr>dg_header = ?h\<lparr>ip_cksum := ck\<rparr>, dg_payload = pl\<rparr>) \<and>
        BufferList_concatenate pl = ?pl"
      using p'(1,2) payload
      by (intro exI [of _ "BufferList_of_buffer (np_buffer p')"])
        (simp add: IPv4Datagram_parse_def BufferList_size_concatenate NetParser_get_error_def)
  qed
qed

section \<open>Properties\<close>

text \<open>
  C32: IPv4 datagrams round trip: a datagram whose header fields fit their bit widths and whose total
  length matches its payload is serialised; the bytes have that length; parsing them, whatever
  datagram object they are parsed into, gives \<^verbatim>\<open>NoError\<close>, for the header's own checks too, the
  same payload bytes and the same header but for the checksum, which now verifies.
\<close>

theorem IPv4Datagram_roundtrip:
  assumes "ip_wf (dg_header d)"
    and "unat (ip_len (dg_header d)) = 4 * unat (ip_hlen (dg_header d)) + BufferList_size (dg_payload d)"
  shows "\<exists>bl ck. IPv4Datagram_serialize d = Inr bl \<and>
     (let w = BufferList_concatenate bl; (r, d1) = IPv4Datagram_parse (Buffer w) d'
      in length w = unat (ip_len (dg_header d)) \<and> r = NoError \<and> ip_verdict w = NoError \<and>
         dg_header d1 = (dg_header d)\<lparr>ip_cksum := ck\<rparr> \<and>
         BufferList_concatenate (dg_payload d1) = BufferList_concatenate (dg_payload d))"
proof -
  obtain bl ck where bl: "IPv4Datagram_serialize d = Inr bl"
    "length (BufferList_concatenate bl) = unat (ip_len (dg_header d))"
    "ip_verdict (BufferList_concatenate bl) = NoError"
    and parse: "\<And>b d'. Buffer_str b = BufferList_concatenate bl \<Longrightarrow> \<exists>pl. IPv4Datagram_parse b d' =
        (NoError, \<lparr>dg_header = (dg_header d)\<lparr>ip_cksum := ck\<rparr>, dg_payload = pl\<rparr>) \<and>
        BufferList_concatenate pl = BufferList_concatenate (dg_payload d)"
    by (rule IPv4Datagram_parse_serialize [OF assms]) blast
  from parse [of "Buffer (BufferList_concatenate bl)" d'] bl show ?thesis by auto
qed

theorem IPv4Datagram_roundtrip_witness:
  "\<exists>bl. IPv4Datagram_serialize \<lparr>dg_header = IPv4Header\<lparr>ip_len := 23, ip_src := 7\<rparr>,
      dg_payload = BufferList_of_string [1, 2, 3]\<rparr> = Inr bl \<and> length (BufferList_concatenate bl) = 23"
proof -
  let ?d = "\<lparr>dg_header = IPv4Header\<lparr>ip_len := 23, ip_src := 7\<rparr>, dg_payload = BufferList_of_string [1, 2, 3]\<rparr>"
  have "ip_wf (dg_header ?d)" by (simp add: ip_wf_def IPv4Header_def)
  moreover have "unat (ip_len (dg_header ?d)) =
      4 * unat (ip_hlen (dg_header ?d)) + BufferList_size (dg_payload ?d)"
    by (simp add: IPv4Header_def BufferList_size_concatenate)
  ultimately obtain bl where "IPv4Datagram_serialize ?d = Inr bl"
    "length (BufferList_concatenate bl) = unat (ip_len (dg_header ?d))"
    using IPv4Datagram_roundtrip [of ?d IPv4Datagram] by (auto simp: Let_def split: prod.splits)
  then show ?thesis by simp
qed

text \<open>
  When \<^verbatim>\<open>IPv4Header::parse\<close> reports \<^verbatim>\<open>NoError\<close> the input has at least 20 bytes, is version 4
  with a header of at least 20 bytes and of the total length it states, the header's checksum
  verifies, and exactly the header has been consumed.
\<close>

theorem IPv4Header_parse_sound:
  assumes "run_state (IPv4Header_parse h) (NetParser b) = ((NoError, h'), p')"
  shows "ip_ver h' = 4 \<and> 20 \<le> 4 * unat (ip_hlen h') \<and> 4 * unat (ip_hlen h') \<le> length (Buffer_str b) \<and>
         length (Buffer_str b) = unat (ip_len h') \<and>
         InternetChecksum_value (InternetChecksum_add (take (4 * unat (ip_hlen h')) (Buffer_str b))
           (InternetChecksum 0)) = 0 \<and>
         np_content p' = drop (4 * unat (ip_hlen h')) (Buffer_str b)"
proof -
  have len: "IPv4Header_LENGTH \<le> length (np_content (NetParser b))"
    using IPv4Header_parse_short [of "NetParser b" h] assms by (fastforce simp: not_le [symmetric])
  obtain q where q: "run_state (IPv4Header_parse h) (NetParser b) =
      ((ip_verdict (Buffer_str b), ip_fields (Buffer_str b)), q)"
      "np_content q = drop (if ip_verdict (Buffer_str b) \<in> {NoError, BadChecksum}
        then 4 * unat (ip_hlen (ip_fields (Buffer_str b))) else 20) (Buffer_str b)"
    by (rule IPv4Header_parse_run [OF _ len, of h]) simp_all
  with assms have *: "ip_verdict (Buffer_str b) = NoError" "h' = ip_fields (Buffer_str b)" "p' = q"
    by simp_all
  have "\<not> ip_hlen h' < 5" using *(1,2) by (auto simp: ip_verdict_def Let_def split: if_splits)
  then have "20 \<le> 4 * unat (ip_hlen h')" by (simp add: word_less_nat_alt not_less)
  with * q(2) show ?thesis
    by (auto simp: ip_verdict_def Let_def split: if_splits)
qed

theorem IPv4Header_parse_sound_witness:
  "ip_ver (snd (fst (run_state (IPv4Header_parse IPv4Header) (NetParser (Buffer
     [0x45, 0, 0, 20, 0, 0, 0x40, 0, 128, 6, 0xfa, 0xe4, 0, 0, 0, 0, 0, 0, 0, 0]))))) = 4"
proof -
  let ?c = "[0x45, 0, 0, 20, 0, 0, 0x40, 0, 128, 6, 0xfa, 0xe4, 0, 0, 0, 0, 0, 0, 0, 0] :: bytes"
  have "ip_verdict ?c = NoError"
    by (simp add: ip_verdict_def ip_fields_def be_decode_def InternetChecksum_value_def
        InternetChecksum_add_def InternetChecksum_def InternetChecksum_add_byte_def fold_carries.simps Let_def)
  moreover obtain q where "run_state (IPv4Header_parse IPv4Header) (NetParser (Buffer ?c)) =
      ((ip_verdict ?c, ip_fields ?c), q)"
    using IPv4Header_parse_run [of "NetParser (Buffer ?c)" IPv4Header] by (auto simp: IPv4Header_LENGTH_def)
  ultimately show ?thesis
    using IPv4Header_parse_sound [of IPv4Header "Buffer ?c" "ip_fields ?c" q] by simp
qed

text \<open>
  \<^verbatim>\<open>IPv4Datagram::parse\<close> drops the result of the header's parser and only compares lengths: any
  input of at least 20 bytes that claims a 20-byte header and its true total length is accepted with
  \<^verbatim>\<open>NoError\<close>, whatever its version and whatever its checksum.
\<close>

theorem IPv4Datagram_parse_ignores_header_error:
  assumes "20 \<le> length (Buffer_str b)" "ip_hlen (ip_fields (Buffer_str b)) = 5"
    and "unat (ip_len (ip_fields (Buffer_str b))) = length (Buffer_str b)"
  shows "fst (IPv4Datagram_parse b d) = NoError \<and>
         dg_header (snd (IPv4Datagram_parse b d)) = ip_fields (Buffer_str b)"
proof -
  let ?c = "Buffer_str b"
  have len: "IPv4Header_LENGTH \<le> length (np_content (NetParser b))"
    using assms(1) by (simp add: IPv4Header_LENGTH_def)
  obtain q where q: "run_state (IPv4Header_parse (dg_header d)) (NetParser b) =
      ((ip_verdict ?c, ip_fields ?c), q)" "np_error q = NoError"
      "np_content q = drop (if ip_verdict ?c \<in> {NoError, BadChecksum}
        then 4 * unat (ip_hlen (ip_fields ?c)) else 20) ?c"
    by (rule IPv4Header_parse_run [OF _ len, of "dg_header d"]) simp_all
  have "np_content q = drop 20 ?c" using q(3) by (simp add: assms(2))
  have "unat (IPv4Header_payload_length (ip_fields ?c)) = length ?c - 20"
    by (rule unat_payload_length) (use assms in simp)
  then show ?thesis
    using q(1,2) \<open>np_content q = drop 20 ?c\<close>
    by (simp add: IPv4Datagram_parse_def BufferList_size_concatenate NetParser_get_error_def np_content_def)
qed

theorem IPv4Datagram_parse_ignores_header_error_witness:
  "let c = [0x65, 0, 0, 21, 0, 0, 0x40, 0, 128, 6, 0xde, 0xad, 0, 0, 0, 0, 0, 0, 0, 0, 9]
   in fst (IPv4Datagram_parse (Buffer c) IPv4Datagram) = NoError \<and> ip_verdict c = WrongIPVersion"
proof -
  let ?c = "[0x65, 0, 0, 21, 0, 0, 0x40, 0, 128, 6, 0xde, 0xad, 0, 0, 0, 0, 0, 0, 0, 0, 9] :: bytes"
  have f: "ip_hlen (ip_fields ?c) = 5" "unat (ip_len (ip_fields ?c)) = 21" "ip_ver (ip_fields ?c) = 6"
    by (simp_all add: ip_fields_def be_decode_def)
  moreover have "ip_verdict ?c = WrongIPVersion" using f by (simp add: ip_verdict_def Let_def)
  ultimately show ?thesis
    using IPv4Datagram_parse_ignores_header_error [of "Buffer ?c" IPv4Datagram] by simp
qed

end
