(* ===== verification/Network_Interface.thy ===== *)
theory Network_Interface
  imports Address Ethernet IPv4
begin

text \<open>
  \<^verbatim>\<open>NetworkInterface\<close> (\<^verbatim>\<open>libsponge/network_interface.hh\<close>, \<^verbatim>\<open>network_interface.cc\<close>): sends IPv4
  datagrams in Ethernet frames, learning Ethernet addresses with ARP. The two \<^verbatim>\<open>std::map\<close>s are
  partial functions; the \<^verbatim>\<open>std::multimap\<close> of pending datagrams is the list of its entries in
  order. The constructor's debug line is left out.
\<close>

section \<open>State\<close>

record network_interface =
  ni_ethernet_address :: ethernet_address
  ni_ip_address :: address
  ni_frames_out :: "ethernet_frame list"
  ni_now :: nat
  ni_cache :: "u32 \<rightharpoonup> ethernet_address \<times> nat"
  ni_cooldown :: "u32 \<rightharpoonup> nat"
  ni_pending :: "(u32 \<times> ipv4_datagram) list"

definition NetworkInterface :: "ethernet_address \<Rightarrow> address \<Rightarrow> network_interface" where
  "NetworkInterface ethernet_address ip_address =
     \<lparr>ni_ethernet_address = ethernet_address, ni_ip_address = ip_address, ni_frames_out = [],
      ni_now = 0, ni_cache = Map.empty, ni_cooldown = Map.empty, ni_pending = []\<rparr>"

section \<open>Operations\<close>

text \<open>A frame of this interface: \<^verbatim>\<open>src\<close>, \<^verbatim>\<open>type\<close>, \<^verbatim>\<open>dst\<close> and \<^verbatim>\<open>payload\<close> set on a new \<^verbatim>\<open>EthernetFrame\<close>.\<close>

definition frame_from :: "network_interface \<Rightarrow> u16 \<Rightarrow> ethernet_address \<Rightarrow> buffer_list \<Rightarrow> ethernet_frame" where
  "frame_from ni type dst payload =
     \<lparr>ef_header = \<lparr>eth_dst = dst, eth_src = ni_ethernet_address ni, eth_type = type\<rparr>, ef_payload = payload\<rparr>"

lemma src_frame_from [simp]: "eth_src (ef_header (frame_from ni type dst bl)) = ni_ethernet_address ni"
  by (simp add: frame_from_def)

definition push_frame :: "ethernet_frame \<Rightarrow> network_interface \<Rightarrow> network_interface" where
  "push_frame f ni = ni\<lparr>ni_frames_out := ni_frames_out ni @ [f]\<rparr>"

definition NetworkInterface_send_datagram ::
    "ipv4_datagram \<Rightarrow> address \<Rightarrow> network_interface \<Rightarrow> exn + network_interface" where
  "NetworkInterface_send_datagram dgram next_hop ni =
     bindE (Address_ipv4_numeric next_hop) (\<lambda>next_hop_ip.
       case ni_cache ni next_hop_ip of
         Some (eth, _) \<Rightarrow>
           bindE (IPv4Datagram_serialize dgram) (\<lambda>payload.
             Inr (push_frame (frame_from ni TYPE_IPv4 eth payload) ni))
       | None \<Rightarrow>
           if ni_cooldown ni next_hop_ip \<noteq> None then Inr ni
           else
             bindE (Address_ipv4_numeric (ni_ip_address ni)) (\<lambda>my_ip.
               let am = ARPMessage\<lparr>arp_opcode := OPCODE_REQUEST,
                          arp_sender_ethernet_address := ni_ethernet_address ni,
                          arp_sender_ip_address := my_ip, arp_target_ip_address := next_hop_ip\<rparr>
               in bindE (ARPMessage_serialize am) (\<lambda>payload.
                    Inr (push_frame (frame_from ni TYPE_ARP ETHERNET_BROADCAST (BufferList_of_string payload))
                      (ni\<lparr>ni_pending := multimap_insert next_hop_ip dgram (ni_pending ni),
                          ni_cooldown := (ni_cooldown ni)(next_hop_ip \<mapsto> ni_now ni)\<rparr>)))))"

text \<open>
  The loop over the pending datagrams, from \<^verbatim>\<open>lower_bound(ip)\<close> while the key is \<open>ip\<close>: each is
  sent to \<open>eth\<close> and erased.
\<close>

fun send_pending :: "u32 \<Rightarrow> ethernet_address \<Rightarrow> (u32 \<times> ipv4_datagram) list \<Rightarrow> network_interface \<Rightarrow>
    exn + (u32 \<times> ipv4_datagram) list \<times> network_interface" where
  "send_pending ip eth [] ni = Inr ([], ni)"
| "send_pending ip eth ((k, dgram) # c) ni =
     (if k < ip then
        bindE (send_pending ip eth c ni) (\<lambda>(c', ni'). Inr ((k, dgram) # c', ni'))
      else if k = ip then
        bindE (IPv4Datagram_serialize dgram) (\<lambda>payload.
          send_pending ip eth c (push_frame (frame_from ni TYPE_IPv4 eth payload) ni))
      else Inr ((k, dgram) # c, ni))"

text \<open>What an ARP message teaches: the mapping of its sender, and the pending datagrams leave.\<close>

definition learn :: "arp_message \<Rightarrow> network_interface \<Rightarrow> exn + network_interface" where
  "learn am ni =
     (let ni = ni\<lparr>ni_cache := (ni_cache ni)
                   (arp_sender_ip_address am \<mapsto> (arp_sender_ethernet_address am, ni_now ni))\<rparr>
      in bindE (send_pending (arp_sender_ip_address am) (arp_sender_ethernet_address am) (ni_pending ni) ni)
           (\<lambda>(pending, ni). Inr (ni\<lparr>ni_pending := pending\<rparr>)))"

text \<open>The answer to an ARP request for the interface's own address.\<close>

definition arp_reply :: "ethernet_address \<Rightarrow> arp_message \<Rightarrow> u32 \<Rightarrow> network_interface \<Rightarrow> exn + network_interface" where
  "arp_reply src am my_ip ni =
     (let am2 = ARPMessage\<lparr>arp_opcode := OPCODE_REPLY,
                  arp_sender_ethernet_address := ni_ethernet_address ni, arp_sender_ip_address := my_ip,
                  arp_target_ethernet_address := arp_sender_ethernet_address am,
                  arp_target_ip_address := arp_sender_ip_address am\<rparr>
      in bindE (ARPMessage_serialize am2) (\<lambda>payload.
           Inr (push_frame (frame_from ni TYPE_ARP src (BufferList_of_string payload)) ni)))"

definition NetworkInterface_recv_frame ::
    "ethernet_frame \<Rightarrow> network_interface \<Rightarrow> exn + ipv4_datagram option \<times> network_interface" where
  "NetworkInterface_recv_frame ef ni =
     (let h = ef_header ef in
      if (eth_type h \<noteq> TYPE_ARP \<and> eth_type h \<noteq> TYPE_IPv4) \<or>
         (eth_dst h \<noteq> ETHERNET_BROADCAST \<and> eth_dst h \<noteq> ni_ethernet_address ni)
      then Inr (None, ni)
      else case buffers (ef_payload ef) of
        [] \<Rightarrow> Inl (Undefined_behaviour ''front() of an empty deque'')
      | front # _ \<Rightarrow>
          if eth_type h = TYPE_IPv4 then
            let (pr, id) = IPv4Datagram_parse front IPv4Datagram
            in if pr \<noteq> NoError then Inr (None, ni) else Inr (Some id, ni)
          else
            let (pr, am) = ARPMessage_parse front ARPMessage
            in if pr \<noteq> NoError then Inr (None, ni)
               else
                 bindE (learn am ni) (\<lambda>ni.
                   if arp_opcode am \<noteq> OPCODE_REQUEST then Inr (None, ni)
                   else bindE (Address_ipv4_numeric (ni_ip_address ni)) (\<lambda>my_ip.
                     if arp_target_ip_address am \<noteq> my_ip then Inr (None, ni)
                     else bindE (arp_reply (eth_src h) am my_ip ni) (\<lambda>ni. Inr (None, ni)))))"

definition NetworkInterface_tick :: "nat \<Rightarrow> network_interface \<Rightarrow> network_interface" where
  "NetworkInterface_tick ms_since_last_tick ni =
     (let now = add64 (ni_now ni) ms_since_last_tick
      in ni\<lparr>ni_now := now,
            ni_cache := (\<lambda>ip. case ni_cache ni ip of
               Some (eth, t) \<Rightarrow> if add64 t 30000 \<le> now then None else Some (eth, t) | None \<Rightarrow> None),
            ni_cooldown := (\<lambda>ip. case ni_cooldown ni ip of
               Some t \<Rightarrow> if add64 t 5000 \<le> now then None else Some t | None \<Rightarrow> None)\<rparr>)"

text \<open>The owner takes a frame from the queue.\<close>

definition NetworkInterface_pop_frame :: "network_interface \<Rightarrow> network_interface" where
  "NetworkInterface_pop_frame ni = ni\<lparr>ni_frames_out := tl (ni_frames_out ni)\<rparr>"

section \<open>What sending needs\<close>

text \<open>A datagram that can be serialised: its fields fit and its total length is right.\<close>

definition dgram_ok :: "ipv4_datagram \<Rightarrow> bool" where
  "dgram_ok d \<longleftrightarrow> ip_wf (dg_header d) \<and>
     unat (ip_len (dg_header d)) = 4 * unat (ip_hlen (dg_header d)) + BufferList_size (dg_payload d)"

lemma dgram_ok_serialize: "dgram_ok d \<Longrightarrow> \<exists>bl. IPv4Datagram_serialize d = Inr bl"
  by (metis IPv4Datagram_parse_serialize dgram_ok_def)

lemma dgram_ok_ttl [simp]: "dgram_ok (d\<lparr>dg_header := (dg_header d)\<lparr>ip_ttl := t\<rparr>\<rparr>) \<longleftrightarrow> dgram_ok d"
  by (simp add: dgram_ok_def ip_wf_def)

definition is_ipv4 :: "address \<Rightarrow> bool" where
  "is_ipv4 a \<longleftrightarrow> (\<exists>ip. Address_ipv4_numeric a = Inr ip)"

lemma is_ipv4_from [simp]: "is_ipv4 (Address_from_ipv4_numeric ip)"
  by (simp add: is_ipv4_def)

text \<open>The frame of an ARP request.\<close>

definition request :: "network_interface \<Rightarrow> u32 \<Rightarrow> u32 \<Rightarrow> arp_message" where
  "request ni my_ip ip = ARPMessage\<lparr>arp_opcode := OPCODE_REQUEST,
     arp_sender_ethernet_address := ni_ethernet_address ni, arp_sender_ip_address := my_ip,
     arp_target_ip_address := ip\<rparr>"

lemma request_ok:
  "length (ni_ethernet_address ni) = 6 \<Longrightarrow> arp_ok (request ni my_ip ip)"
  "ARPMessage_supported (request ni my_ip ip)"
  by (simp_all add: request_def arp_ok_def ARPMessage_def ARPMessage_supported_def)

text \<open>The three cases of \<^verbatim>\<open>send_datagram\<close>.\<close>

lemma send_cases:
  assumes "Address_ipv4_numeric hop = Inr ip" "dgram_ok d" "Address_ipv4_numeric (ni_ip_address ni) = Inr my_ip"
  obtains (cached) eth t bl where "ni_cache ni ip = Some (eth, t)" "IPv4Datagram_serialize d = Inr bl"
      "NetworkInterface_send_datagram d hop ni = Inr (push_frame (frame_from ni TYPE_IPv4 eth bl) ni)"
    | (cooling) "ni_cache ni ip = None" "ni_cooldown ni ip \<noteq> None"
      "NetworkInterface_send_datagram d hop ni = Inr ni"
    | (asked) s where "ni_cache ni ip = None" "ni_cooldown ni ip = None"
      "ARPMessage_serialize (request ni my_ip ip) = Inr s"
      "NetworkInterface_send_datagram d hop ni =
         Inr (push_frame (frame_from ni TYPE_ARP ETHERNET_BROADCAST (BufferList_of_string s))
           (ni\<lparr>ni_pending := multimap_insert ip d (ni_pending ni),
               ni_cooldown := (ni_cooldown ni)(ip \<mapsto> ni_now ni)\<rparr>))"
proof (cases "ni_cache ni ip")
  case None
  obtain s where s: "ARPMessage_serialize (request ni my_ip ip) = Inr s"
    using ARPMessage_serialize_eq [OF request_ok(2), of ni my_ip ip] by blast
  show ?thesis
  proof (cases "ni_cooldown ni ip = None")
    case True
    show ?thesis
      by (rule asked [OF None True s])
        (use None True s assms in \<open>simp add: NetworkInterface_send_datagram_def request_def\<close>)
  next
    case False
    show ?thesis
      by (rule cooling [OF None False]) (use None False assms in \<open>simp add: NetworkInterface_send_datagram_def\<close>)
  qed
next
  case (Some c)
  obtain eth t where c: "ni_cache ni ip = Some (eth, t)" using Some by (cases c) auto
  obtain bl where bl: "IPv4Datagram_serialize d = Inr bl" using dgram_ok_serialize [OF assms(2)] by blast
  show ?thesis
    by (rule cached [OF c bl]) (use c bl assms in \<open>simp add: NetworkInterface_send_datagram_def\<close>)
qed

lemma send_keeps:
  assumes "is_ipv4 hop" "dgram_ok d" "is_ipv4 (ni_ip_address ni)"
  obtains ni' where "NetworkInterface_send_datagram d hop ni = Inr ni'"
    "ni_ip_address ni' = ni_ip_address ni" "ni_ethernet_address ni' = ni_ethernet_address ni"
proof -
  obtain ip my_ip where "Address_ipv4_numeric hop = Inr ip" "Address_ipv4_numeric (ni_ip_address ni) = Inr my_ip"
    using assms by (auto simp: is_ipv4_def)
  from send_cases [OF this(1) assms(2) this(2)] show ?thesis
    by cases (rule that, simp, simp add: push_frame_def, simp add: push_frame_def)+
qed

section \<open>Runs of an interface\<close>

text \<open>
  Any sequence of calls on a new interface, with the log of the frames it has queued and when. A
  call that throws ends the run; the guard of \<open>tick\<close> keeps the clock from wrapping around.
\<close>

definition queued :: "network_interface \<Rightarrow> network_interface \<Rightarrow> (nat \<times> ethernet_frame) list" where
  "queued ni ni' = map (Pair (ni_now ni)) (drop (length (ni_frames_out ni)) (ni_frames_out ni'))"

inductive ni_run :: "ethernet_address \<Rightarrow> address \<Rightarrow> (nat \<times> ethernet_frame) list \<Rightarrow> network_interface \<Rightarrow> bool"
  for eth ip where
  new: "ni_run eth ip [] (NetworkInterface eth ip)"
| send: "ni_run eth ip h ni \<Longrightarrow> NetworkInterface_send_datagram d hop ni = Inr ni' \<Longrightarrow>
    ni_run eth ip (h @ queued ni ni') ni'"
| recv: "ni_run eth ip h ni \<Longrightarrow> NetworkInterface_recv_frame f ni = Inr (res, ni') \<Longrightarrow>
    ni_run eth ip (h @ queued ni ni') ni'"
| tick: "ni_run eth ip h ni \<Longrightarrow> ni_now ni + ms + 30000 < 2 ^ 64 \<Longrightarrow>
    ni_run eth ip h (NetworkInterface_tick ms ni)"
| pop: "ni_run eth ip h ni \<Longrightarrow> ni_run eth ip h (NetworkInterface_pop_frame ni)"

text \<open>A frame that asks for the Ethernet address of an IP address.\<close>

definition asks :: "u32 \<Rightarrow> ethernet_frame \<Rightarrow> bool" where
  "asks ip f \<longleftrightarrow> eth_type (ef_header f) = TYPE_ARP \<and>
     (let (r, am) = ARPMessage_parse (Buffer (BufferList_concatenate (ef_payload f))) ARPMessage
      in r = NoError \<and> arp_opcode am = OPCODE_REQUEST \<and> arp_target_ip_address am = ip)"

lemma asks_frame_from:
  assumes "arp_ok am" "ARPMessage_serialize am = Inr s"
  shows "asks ip (frame_from ni TYPE_ARP dst (BufferList_of_string s)) \<longleftrightarrow>
    arp_opcode am = OPCODE_REQUEST \<and> arp_target_ip_address am = ip"
proof -
  have sup: "ARPMessage_supported am" using arp_fields_serialize [OF assms, of "[]"] by simp
  have "ARPMessage_parse (Buffer s) ARPMessage = (NoError, am)"
    by (rule ARPMessage_parse_serialize [OF assms(1) sup])
      (use assms(2) in \<open>auto simp: arp_ok_def ARPMessage_def\<close>)
  then show ?thesis by (simp add: asks_def frame_from_def)
qed

lemma asks_ipv4 [simp]: "\<not> asks ip (frame_from ni TYPE_IPv4 dst payload)"
  by (simp add: asks_def frame_from_def TYPE_IPv4_def TYPE_ARP_def)

lemma send_pending_spec:
  assumes "send_pending ip eth c ni = Inr (c', ni')"
  shows "\<exists>fs. ni' = ni\<lparr>ni_frames_out := ni_frames_out ni @ fs\<rparr> \<and>
     (\<forall>f \<in> set fs. \<exists>bl. f = frame_from ni TYPE_IPv4 eth bl) \<and>
     (sorted (map fst c) \<longrightarrow> c' = filter (\<lambda>(k, _). k \<noteq> ip) c)"
  using assms
proof (induction ip eth c ni arbitrary: c' ni' rule: send_pending.induct)
  case (2 ip eth k d c ni)
  consider "k < ip" | "k = ip" | "\<not> k < ip" "k \<noteq> ip" by blast
  then show ?case
  proof cases
    case 1
    with 2 show ?thesis by (fastforce simp: bindE_eq_Inr_iff)
  next
    case 2
    then obtain bl where bl: "IPv4Datagram_serialize d = Inr bl"
      "send_pending ip eth c (push_frame (frame_from ni TYPE_IPv4 eth bl) ni) = Inr (c', ni')"
      using "2.prems" by (auto simp: bindE_eq_Inr_iff)
    from "2.IH"(2) [OF _ 2 bl(2)] 2 obtain fs where
      "ni' = (push_frame (frame_from ni TYPE_IPv4 eth bl) ni)\<lparr>ni_frames_out :=
         ni_frames_out (push_frame (frame_from ni TYPE_IPv4 eth bl) ni) @ fs\<rparr>"
      "\<forall>f \<in> set fs. \<exists>b. f = frame_from (push_frame (frame_from ni TYPE_IPv4 eth bl) ni) TYPE_IPv4 eth b"
      "sorted (map fst c) \<longrightarrow> c' = filter (\<lambda>(k, _). k \<noteq> ip) c"
      by auto
    then show ?thesis using 2
      by (intro exI [of _ "frame_from ni TYPE_IPv4 eth bl # fs"]) (auto simp: push_frame_def frame_from_def)
  next
    case 3
    then have "ip < k" by simp
    with 3 "2.prems" show ?thesis
      by (intro exI [of _ "[]"]) (fastforce intro!: filter_True [symmetric])
  qed
qed (auto intro: exI [of _ "[]"])

lemma learn_spec:
  assumes "learn am ni = Inr ni'"
  shows "\<exists>fs pending. ni' = ni\<lparr>ni_cache := (ni_cache ni)
        (arp_sender_ip_address am \<mapsto> (arp_sender_ethernet_address am, ni_now ni)),
        ni_pending := pending, ni_frames_out := ni_frames_out ni @ fs\<rparr> \<and>
     (\<forall>f \<in> set fs. \<exists>bl. f = frame_from ni TYPE_IPv4 (arp_sender_ethernet_address am) bl) \<and>
     (sorted (map fst (ni_pending ni)) \<longrightarrow>
        pending = filter (\<lambda>(k, _). k \<noteq> arp_sender_ip_address am) (ni_pending ni))"
proof -
  let ?ni = "ni\<lparr>ni_cache := (ni_cache ni)
    (arp_sender_ip_address am \<mapsto> (arp_sender_ethernet_address am, ni_now ni))\<rparr>"
  obtain pending ni1 where sp: "send_pending (arp_sender_ip_address am) (arp_sender_ethernet_address am)
      (ni_pending ni) ?ni = Inr (pending, ni1)" and ni': "ni' = ni1\<lparr>ni_pending := pending\<rparr>"
    using assms by (auto simp: learn_def bindE_eq_Inr_iff)
  from send_pending_spec [OF sp] obtain fs where
    "ni1 = ?ni\<lparr>ni_frames_out := ni_frames_out ?ni @ fs\<rparr>"
    "\<forall>f \<in> set fs. \<exists>bl. f = frame_from ?ni TYPE_IPv4 (arp_sender_ethernet_address am) bl"
    "sorted (map fst (ni_pending ni)) \<longrightarrow>
       pending = filter (\<lambda>(k, _). k \<noteq> arp_sender_ip_address am) (ni_pending ni)"
    by blast
  with ni' show ?thesis by (intro exI [of _ fs] exI [of _ pending]) (simp add: frame_from_def)
qed

text \<open>The frame that answers a request.\<close>

definition reply_msg :: "network_interface \<Rightarrow> u32 \<Rightarrow> arp_message \<Rightarrow> arp_message" where
  "reply_msg ni my_ip am = ARPMessage\<lparr>arp_opcode := OPCODE_REPLY,
     arp_sender_ethernet_address := ni_ethernet_address ni, arp_sender_ip_address := my_ip,
     arp_target_ethernet_address := arp_sender_ethernet_address am,
     arp_target_ip_address := arp_sender_ip_address am\<rparr>"

lemma reply_ok:
  "length (ni_ethernet_address ni) = 6 \<Longrightarrow> length (arp_sender_ethernet_address am) = 6 \<Longrightarrow>
     arp_ok (reply_msg ni my_ip am)"
  "ARPMessage_supported (reply_msg ni my_ip am)"
  by (simp_all add: reply_msg_def arp_ok_def ARPMessage_def ARPMessage_supported_def)

lemma arp_reply_eq:
  "arp_reply src am my_ip ni = bindE (ARPMessage_serialize (reply_msg ni my_ip am))
     (\<lambda>s. Inr (push_frame (frame_from ni TYPE_ARP src (BufferList_of_string s)) ni))"
  by (simp add: arp_reply_def reply_msg_def)

text \<open>An ARP frame changes the interface only through the message in it.\<close>

lemma recv_cases:
  assumes "NetworkInterface_recv_frame ef ni = Inr (res, ni')"
  obtains (same) "ni' = ni"
    | (learned) am where "learn am ni = Inr ni'" "res = None" "ARPMessage_parse (hd (buffers (ef_payload ef))) ARPMessage = (NoError, am)"
    | (replied) am ni1 my_ip s where "learn am ni = Inr ni1" "res = None"
        "ARPMessage_parse (hd (buffers (ef_payload ef))) ARPMessage = (NoError, am)"
        "ARPMessage_serialize (reply_msg ni1 my_ip am) = Inr s"
        "ni' = push_frame (frame_from ni1 TYPE_ARP (eth_src (ef_header ef)) (BufferList_of_string s)) ni1"
proof (cases "ni' = ni")
  case False
  then obtain front bs where bs: "buffers (ef_payload ef) = front # bs"
    using assms by (auto simp: NetworkInterface_recv_frame_def Let_def split: if_splits list.splits)
  obtain pr am where am: "ARPMessage_parse front ARPMessage = (pr, am)" by fastforce
  have run: "pr = NoError" "bindE (learn am ni) (\<lambda>ni.
      if arp_opcode am \<noteq> OPCODE_REQUEST then Inr (None, ni)
      else bindE (Address_ipv4_numeric (ni_ip_address ni)) (\<lambda>my_ip.
        if arp_target_ip_address am \<noteq> my_ip then Inr (None, ni)
        else bindE (arp_reply (eth_src (ef_header ef)) am my_ip ni) (\<lambda>ni. Inr (None, ni)))) = Inr (res, ni')"
    using assms False bs am
    by (auto simp: NetworkInterface_recv_frame_def Let_def split: if_splits prod.splits)
  obtain ni1 where l: "learn am ni = Inr ni1" using run(2) by (auto simp: bindE_eq_Inr_iff)
  show ?thesis
  proof (cases "ni' = ni1")
    case True
    then show ?thesis
      using l am bs run by (intro learned [of am]) (auto simp: bindE_eq_Inr_iff split: if_splits)
  next
    case False
    then obtain my_ip s where "ARPMessage_serialize (reply_msg ni1 my_ip am) = Inr s" "res = None"
      "ni' = push_frame (frame_from ni1 TYPE_ARP (eth_src (ef_header ef)) (BufferList_of_string s)) ni1"
      using run(2) l by (auto simp: bindE_eq_Inr_iff arp_reply_eq split: if_splits)
    then show ?thesis using l am bs run(1) by (intro replied [of am ni1 my_ip s]) simp_all
  qed
qed (rule same)

text \<open>What every call keeps: the tables are fresh, and nothing waits for an address that is known.\<close>

definition ni_inv :: "network_interface \<Rightarrow> bool" where
  "ni_inv ni \<longleftrightarrow> ni_now ni + 30000 < 2 ^ 64 \<and> sorted (map fst (ni_pending ni)) \<and>
     (\<forall>(k, d) \<in> set (ni_pending ni). ni_cache ni k = None) \<and>
     (\<forall>ip eth t. ni_cache ni ip = Some (eth, t) \<longrightarrow> t \<le> ni_now ni \<and> ni_now ni < t + 30000) \<and>
     (\<forall>ip t. ni_cooldown ni ip = Some t \<longrightarrow> t \<le> ni_now ni \<and> ni_now ni < t + 5000)"

text \<open>The log: every request so far is on cooldown or five seconds old, and requests are spaced.\<close>

definition spaced :: "(nat \<times> ethernet_frame) list \<Rightarrow> bool" where
  "spaced h \<longleftrightarrow> sorted_wrt (\<lambda>(t, f) (t', f'). \<forall>ip. asks ip f \<longrightarrow> asks ip f' \<longrightarrow> t + 5000 \<le> t') h"

definition log_inv :: "(nat \<times> ethernet_frame) list \<Rightarrow> network_interface \<Rightarrow> bool" where
  "log_inv h ni \<longleftrightarrow> spaced h \<and> (\<forall>(t, f) \<in> set h. t \<le> ni_now ni \<and>
     eth_src (ef_header f) = ni_ethernet_address ni \<and>
     (\<forall>ip. asks ip f \<longrightarrow> ni_cooldown ni ip = Some t \<or> t + 5000 \<le> ni_now ni))"

lemma log_inv_quiet:
  assumes "log_inv h ni" "ni_frames_out ni' = ni_frames_out ni @ fs" "ni_now ni' = ni_now ni"
    "ni_cooldown ni' = ni_cooldown ni" "ni_ethernet_address ni' = ni_ethernet_address ni"
    "\<forall>f \<in> set fs. eth_src (ef_header f) = ni_ethernet_address ni \<and> (\<forall>ip. \<not> asks ip f)"
  shows "log_inv (h @ queued ni ni') ni'"
proof -
  have q: "queued ni ni' = map (Pair (ni_now ni)) fs" by (simp add: queued_def assms(2))
  have "spaced (map (Pair (ni_now ni)) fs)"
    unfolding spaced_def sorted_wrt_map using assms(6) by (simp add: sorted_wrt_iff_nth_less)
  then show ?thesis
    using assms(1,3-6) by (auto simp: log_inv_def spaced_def sorted_wrt_append q)
qed

lemma log_inv_ask:
  assumes "log_inv h ni" "ni_frames_out ni' = ni_frames_out ni @ [f]" "ni_now ni' = ni_now ni"
    "ni_cooldown ni ip = None" "ni_cooldown ni' = (ni_cooldown ni)(ip \<mapsto> ni_now ni)"
    "ni_ethernet_address ni' = ni_ethernet_address ni"
    "eth_src (ef_header f) = ni_ethernet_address ni" "\<And>ip'. asks ip' f \<Longrightarrow> ip' = ip"
  shows "log_inv (h @ queued ni ni') ni'"
proof -
  have q: "queued ni ni' = [(ni_now ni, f)]" by (simp add: queued_def assms(2))
  have old: "t + 5000 \<le> ni_now ni" if "(t, g) \<in> set h" "asks ip g" for t g
    using assms(1,4) that by (fastforce simp: log_inv_def)
  have "spaced (h @ queued ni ni')"
    using assms(1,8) old by (fastforce simp: log_inv_def spaced_def sorted_wrt_append q)
  then show ?thesis
    using assms old by (fastforce simp: log_inv_def q)
qed

lemma send_Inr:
  assumes "NetworkInterface_send_datagram d hop ni = Inr ni'"
  obtains (cached) eth bl where "ni' = push_frame (frame_from ni TYPE_IPv4 eth bl) ni"
    | (cooling) "ni' = ni"
    | (asked) ip my_ip s where "ni_cache ni ip = None" "ni_cooldown ni ip = None"
      "ARPMessage_serialize (request ni my_ip ip) = Inr s"
      "ni' = push_frame (frame_from ni TYPE_ARP ETHERNET_BROADCAST (BufferList_of_string s))
           (ni\<lparr>ni_pending := multimap_insert ip d (ni_pending ni),
               ni_cooldown := (ni_cooldown ni)(ip \<mapsto> ni_now ni)\<rparr>)"
proof -
  obtain ip where ip: "Address_ipv4_numeric hop = Inr ip"
    using assms by (auto simp: NetworkInterface_send_datagram_def bindE_eq_Inr_iff)
  show ?thesis
  proof (cases "ni_cache ni ip")
    case (Some c)
    then obtain eth t where "ni_cache ni ip = Some (eth, t)" by (cases c) simp
    with assms ip obtain bl where "ni' = push_frame (frame_from ni TYPE_IPv4 eth bl) ni"
      by (auto simp: NetworkInterface_send_datagram_def bindE_eq_Inr_iff)
    then show ?thesis by (rule cached)
  next
    case None
    show ?thesis
    proof (cases "ni_cooldown ni ip = None")
      case True
      obtain my_ip where my: "Address_ipv4_numeric (ni_ip_address ni) = Inr my_ip"
        using assms ip None True by (auto simp: NetworkInterface_send_datagram_def bindE_eq_Inr_iff)
      obtain s where s: "ARPMessage_serialize (request ni my_ip ip) = Inr s"
        using ARPMessage_serialize_eq [OF request_ok(2), of ni my_ip ip] by blast
      show ?thesis
        by (rule asked [OF None True s])
          (use assms ip None True my s in \<open>simp add: NetworkInterface_send_datagram_def request_def\<close>)
    next
      case False
      with assms ip None show ?thesis
        by (intro cooling) (auto simp: NetworkInterface_send_datagram_def)
    qed
  qed
qed

lemma run_keeps_address: "ni_run eth ip h ni \<Longrightarrow> ni_ethernet_address ni = eth \<and> ni_ip_address ni = ip"
proof (induction rule: ni_run.induct)
  case (send h ni d hop ni')
  from send(2) show ?case by (cases rule: send_Inr) (use send in \<open>simp_all add: push_frame_def\<close>)
next
  case (recv h ni f res ni')
  from recv(2) show ?case
    by (cases rule: recv_cases) (use recv in \<open>auto simp: push_frame_def dest!: learn_spec\<close>)
qed (simp_all add: NetworkInterface_def NetworkInterface_tick_def NetworkInterface_pop_frame_def Let_def)

lemma learn_inv:
  assumes "learn am ni = Inr ni'" "ni_inv ni"
  shows "ni_inv ni'"
proof -
  from learn_spec [OF assms(1)] assms(2) obtain fs where
    ni': "ni' = ni\<lparr>ni_cache := (ni_cache ni)
        (arp_sender_ip_address am \<mapsto> (arp_sender_ethernet_address am, ni_now ni)),
        ni_pending := filter (\<lambda>(k, _). k \<noteq> arp_sender_ip_address am) (ni_pending ni),
        ni_frames_out := ni_frames_out ni @ fs\<rparr>"
    by (auto simp: ni_inv_def)
  have "sorted (map fst (filter P c))" if "sorted (map fst c)" for P and c :: "(u32 \<times> ipv4_datagram) list"
    using that by (rule sorted_filter)
  then show ?thesis using assms(2) unfolding ni' ni_inv_def by auto
qed

lemma learn_quiet:
  assumes "learn am ni = Inr ni'" 
  obtains fs where "ni_frames_out ni' = ni_frames_out ni @ fs" "ni_now ni' = ni_now ni"
    "ni_cooldown ni' = ni_cooldown ni" "ni_ethernet_address ni' = ni_ethernet_address ni"
    "\<forall>f \<in> set fs. eth_src (ef_header f) = ni_ethernet_address ni \<and> (\<forall>ip. \<not> asks ip f)"
proof -
  from learn_spec [OF assms] obtain fs pending where
    ni': "ni' = ni\<lparr>ni_cache := (ni_cache ni)
        (arp_sender_ip_address am \<mapsto> (arp_sender_ethernet_address am, ni_now ni)),
        ni_pending := pending, ni_frames_out := ni_frames_out ni @ fs\<rparr>" and
    fs: "\<forall>f \<in> set fs. \<exists>bl. f = frame_from ni TYPE_IPv4 (arp_sender_ethernet_address am) bl"
    by blast
  from fs have "\<forall>f \<in> set fs. eth_src (ef_header f) = ni_ethernet_address ni \<and> (\<forall>ip. \<not> asks ip f)"
    by auto
  then show ?thesis by (rule that [rotated 4]) (simp_all add: ni')
qed

lemma tick_inv_ni:
  assumes "ni_inv ni" "log_inv h ni" "ni_now ni + ms + 30000 < 2 ^ 64"
  shows "ni_inv (NetworkInterface_tick ms ni)" "log_inv h (NetworkInterface_tick ms ni)"
proof -
  have now: "add64 (ni_now ni) ms = ni_now ni + ms" using assms(3) by (intro no_wrap) simp
  have c: "add64 t 30000 = t + 30000" if "ni_cache ni ip = Some (e, t)" for ip e t
    using assms(1) that by (intro no_wrap) (fastforce simp: ni_inv_def)
  have k: "add64 t 5000 = t + 5000" if "ni_cooldown ni ip = Some t" for ip t
    using assms(1) that by (intro no_wrap) (fastforce simp: ni_inv_def)
  show "ni_inv (NetworkInterface_tick ms ni)"
    using assms(1,3) unfolding ni_inv_def NetworkInterface_tick_def Let_def now
    by (auto simp: c k split: option.splits if_splits) (fastforce+)
  show "log_inv h (NetworkInterface_tick ms ni)"
    using assms(2) unfolding log_inv_def NetworkInterface_tick_def Let_def now
    by (fastforce simp: k split: option.splits)
qed

lemma ni_inv_push [simp]: "ni_inv (push_frame f ni) = ni_inv ni"
  by (simp add: ni_inv_def push_frame_def)

lemma parsed_sender: "ARPMessage_parse b ARPMessage = (NoError, am) \<Longrightarrow> arp_ok am"
proof -
  assume parse: "ARPMessage_parse b ARPMessage = (NoError, am)"
  have ok: "arp_ok ARPMessage" by (simp add: arp_ok_def ARPMessage_def)
  have "ARPMessage_LENGTH \<le> length (Buffer_str b)"
    using parse by (auto simp: ARPMessage_parse_def Buffer_size_def not_less [symmetric])
  with ARPMessage_parse_run [OF ok this] parse have "am = arp_fields (Buffer_str b)" "28 \<le> length (Buffer_str b)"
    by (auto simp: ARPMessage_LENGTH_def split: if_splits)
  then show "arp_ok am" by (simp add: arp_ok_def arp_fields_def)
qed

lemma run_inv:
  assumes "ni_run eth ip h ni" "length eth = 6"
  shows "ni_inv ni \<and> log_inv h ni"
  using assms
proof (induction rule: ni_run.induct)
  case new
  then show ?case by (simp add: ni_inv_def log_inv_def spaced_def NetworkInterface_def)
next
  case (send h ni d hop ni')
  note inv = send.IH [OF send.prems]
  have eth: "length (ni_ethernet_address ni) = 6" using run_keeps_address [OF send.hyps(1)] send.prems by simp
  from send.hyps(2) show ?case
  proof (cases rule: send_Inr)
    case (cached eth bl)
    have "log_inv (h @ queued ni ni') ni'"
      by (rule log_inv_quiet [where fs = "[frame_from ni TYPE_IPv4 eth bl]"])
        (use inv in \<open>simp_all add: cached push_frame_def\<close>)
    then show ?thesis using inv by (simp add: cached)
  next
    case cooling
    then show ?thesis using inv by (simp add: queued_def)
  next
    case (asked ip' my_ip s)
    have "log_inv (h @ queued ni ni') ni'"
      by (rule log_inv_ask [where ip = ip' and f = "frame_from ni TYPE_ARP ETHERNET_BROADCAST (BufferList_of_string s)"])
        (use inv asked in \<open>simp_all add: push_frame_def asks_frame_from [OF request_ok(1) [OF eth]], simp add: request_def\<close>)
    moreover have "ni_inv ni'"
      using inv asked(1,4) by (auto simp: ni_inv_def push_frame_def sorted_multimap_insert)
    ultimately show ?thesis by simp
  qed
next
  case (recv h ni f res ni')
  note inv = recv.IH [OF recv.prems]
  have eth: "length (ni_ethernet_address ni) = 6" using run_keeps_address [OF recv.hyps(1)] recv.prems by simp
  from recv.hyps(2) show ?case
  proof (cases rule: recv_cases)
    case same
    then show ?thesis using inv by (simp add: queued_def)
  next
    case (learned am)
    from learn_quiet [OF learned(1)] obtain fs where
      "ni_frames_out ni' = ni_frames_out ni @ fs" "ni_now ni' = ni_now ni"
      "ni_cooldown ni' = ni_cooldown ni" "ni_ethernet_address ni' = ni_ethernet_address ni"
      "\<forall>f \<in> set fs. eth_src (ef_header f) = ni_ethernet_address ni \<and> (\<forall>ip. \<not> asks ip f)" .
    then show ?thesis using inv learn_inv [OF learned(1)] log_inv_quiet by blast
  next
    case (replied am ni1 my_ip s)
    let ?f = "frame_from ni1 TYPE_ARP (eth_src (ef_header f)) (BufferList_of_string s)"
    from learn_quiet [OF replied(1)] obtain fs where fs:
      "ni_frames_out ni1 = ni_frames_out ni @ fs" "ni_now ni1 = ni_now ni"
      "ni_cooldown ni1 = ni_cooldown ni" "ni_ethernet_address ni1 = ni_ethernet_address ni"
      "\<forall>f \<in> set fs. eth_src (ef_header f) = ni_ethernet_address ni \<and> (\<forall>ip. \<not> asks ip f)" .
    have "arp_ok (reply_msg ni1 my_ip am)"
      using parsed_sender [OF replied(3)] eth fs(4) by (intro reply_ok) (simp_all add: arp_ok_def)
    then have "\<not> asks ip' ?f" for ip'
      using asks_frame_from [OF _ replied(4)]
      by (simp add: reply_msg_def OPCODE_REPLY_def OPCODE_REQUEST_def)
    then have "log_inv (h @ queued ni ni') ni'"
      by (intro log_inv_quiet [where fs = "fs @ [?f]"]) (use inv fs replied(5) in \<open>auto simp: push_frame_def\<close>)
    then show ?thesis using inv learn_inv [OF replied(1)] replied(5) by simp
  qed
next
  case (tick h ni ms)
  then show ?case using tick_inv_ni by blast
next
  case (pop h ni)
  then show ?case by (simp add: ni_inv_def log_inv_def NetworkInterface_pop_frame_def)
qed

section \<open>Frames on the wire\<close>

text \<open>What the receiving end parses from the bytes of a frame.\<close>

definition wire :: "ethernet_frame \<Rightarrow> ethernet_frame" where
  "wire f = snd (EthernetFrame_parse (Buffer (BufferList_concatenate (EthernetFrame_serialize f))) EthernetFrame)"

lemma wire_frame:
  assumes "eth_ok (ef_header f)"
  obtains b where "wire f = \<lparr>ef_header = ef_header f, ef_payload = BufferList_of_buffer b\<rparr>"
    "Buffer_str b = BufferList_concatenate (ef_payload f)"
proof -
  have "eth_ok (ef_header EthernetFrame)" by (simp add: eth_ok_def EthernetFrame_def EthernetHeader_def)
  from EthernetFrame_parse_serialize [OF assms this] that show ?thesis
    by (metis (no_types, lifting) EthernetFrame_def ethernet_frame.update_convs(1,2) snd_conv wire_def)
qed

text \<open>A frame that arrives: the same header, and the payload's bytes in one buffer.\<close>

definition arrives :: "ethernet_frame \<Rightarrow> ethernet_frame \<Rightarrow> bool" where
  "arrives f g \<longleftrightarrow> ef_header g = ef_header f \<and>
     (\<exists>b. buffers (ef_payload g) = [b] \<and> Buffer_str b = BufferList_concatenate (ef_payload f))"

lemma wire_arrives:
  assumes "eth_ok (ef_header f)"
  shows "arrives f (wire f)"
proof -
  from wire_frame [OF assms] obtain b where
    "wire f = \<lparr>ef_header = ef_header f, ef_payload = BufferList_of_buffer b\<rparr>"
    "Buffer_str b = BufferList_concatenate (ef_payload f)" .
  then show ?thesis by (simp add: arrives_def BufferList_of_buffer_def)
qed

lemma eth_ok_frame_from [simp]:
  "eth_ok (ef_header (frame_from ni type dst bl)) \<longleftrightarrow> length dst = 6 \<and> length (ni_ethernet_address ni) = 6"
  by (simp add: eth_ok_def frame_from_def)

lemma recv_arp:
  assumes "arrives (frame_from sender TYPE_ARP dst (BufferList_of_string s)) g"
    and "arp_ok am" "ARPMessage_serialize am = Inr s"
    and "dst = ETHERNET_BROADCAST \<or> dst = ni_ethernet_address ni" "Address_ipv4_numeric (ni_ip_address ni) = Inr my_ip"
  shows "NetworkInterface_recv_frame g ni =
    bindE (learn am ni) (\<lambda>ni1.
      if arp_opcode am = OPCODE_REQUEST \<and> arp_target_ip_address am = my_ip
      then bindE (arp_reply (ni_ethernet_address sender) am my_ip ni1) (\<lambda>ni2. Inr (None, ni2))
      else Inr (None, ni1))"
proof -
  have sup: "ARPMessage_supported am" using arp_fields_serialize [OF assms(2,3), of "[]"] by simp
  from assms(1) obtain b where hdr: "ef_header g = \<lparr>eth_dst = dst, eth_src = ni_ethernet_address sender, eth_type = TYPE_ARP\<rparr>"
    and w: "buffers (ef_payload g) = [b]" and b: "Buffer_str b = s"
    by (auto simp: arrives_def frame_from_def)
  have parse: "ARPMessage_parse b ARPMessage = (NoError, am)"
    by (rule ARPMessage_parse_serialize [OF assms(2) sup])
      (use assms(3) b in \<open>auto simp: arp_ok_def ARPMessage_def\<close>)
  have keep: "ni_ip_address ni1 = ni_ip_address ni" if "learn am ni = Inr ni1" for ni1
    using learn_spec [OF that] by auto
  have "NetworkInterface_recv_frame g ni = bindE (learn am ni) (\<lambda>ni.
      if arp_opcode am \<noteq> OPCODE_REQUEST then Inr (None, ni)
      else bindE (Address_ipv4_numeric (ni_ip_address ni)) (\<lambda>my_ip.
        if arp_target_ip_address am \<noteq> my_ip then Inr (None, ni)
        else bindE (arp_reply (ni_ethernet_address sender) am my_ip ni) (\<lambda>ni. Inr (None, ni))))"
    using assms(4) unfolding w hdr NetworkInterface_recv_frame_def
    by (auto simp: Let_def parse TYPE_ARP_def TYPE_IPv4_def cong: if_cong)
  then show ?thesis using assms(5) keep by (cases "learn am ni") auto
qed

lemma recv_ipv4:
  assumes "arrives (frame_from sender TYPE_IPv4 dst bl) g"
    and "dgram_ok d" "IPv4Datagram_serialize d = Inr bl" "dst = ni_ethernet_address ni"
  shows "\<exists>ck pl. NetworkInterface_recv_frame g ni =
    Inr (Some \<lparr>dg_header = (dg_header d)\<lparr>ip_cksum := ck\<rparr>, dg_payload = pl\<rparr>, ni) \<and>
    BufferList_concatenate pl = BufferList_concatenate (dg_payload d)"
proof -
  from assms(1) obtain b where hdr: "ef_header g = \<lparr>eth_dst = dst, eth_src = ni_ethernet_address sender, eth_type = TYPE_IPv4\<rparr>"
    and w: "buffers (ef_payload g) = [b]" and b: "Buffer_str b = BufferList_concatenate bl"
    by (auto simp: arrives_def frame_from_def)
  have wf: "ip_wf (dg_header d)"
    "unat (ip_len (dg_header d)) = 4 * unat (ip_hlen (dg_header d)) + BufferList_size (dg_payload d)"
    using assms(2) by (simp_all add: dgram_ok_def)
  obtain bl' ck where "IPv4Datagram_serialize d = Inr bl'"
    and parse: "\<And>b d'. Buffer_str b = BufferList_concatenate bl' \<Longrightarrow> \<exists>pl. IPv4Datagram_parse b d' =
        (NoError, \<lparr>dg_header = (dg_header d)\<lparr>ip_cksum := ck\<rparr>, dg_payload = pl\<rparr>) \<and>
        BufferList_concatenate pl = BufferList_concatenate (dg_payload d)"
    by (rule IPv4Datagram_parse_serialize [OF wf]) blast
  with parse [of b IPv4Datagram] b assms(3) obtain pl where
    "IPv4Datagram_parse b IPv4Datagram = (NoError, \<lparr>dg_header = (dg_header d)\<lparr>ip_cksum := ck\<rparr>, dg_payload = pl\<rparr>)"
    "BufferList_concatenate pl = BufferList_concatenate (dg_payload d)"
    by auto
  then show ?thesis
    using assms(4) unfolding w hdr NetworkInterface_recv_frame_def
    by (intro exI [of _ ck] exI [of _ pl]) (simp add: Let_def)
qed

section \<open>The ARP exchange\<close>

text \<open>An interface that has asked and holds a datagram, and one that has learned an address.\<close>

definition waiting :: "u32 \<Rightarrow> ipv4_datagram \<Rightarrow> network_interface \<Rightarrow> network_interface" where
  "waiting hop_ip d ni = ni\<lparr>ni_pending := [(hop_ip, d)], ni_cooldown := (ni_cooldown ni)(hop_ip \<mapsto> ni_now ni)\<rparr>"

definition knows :: "u32 \<Rightarrow> ethernet_address \<Rightarrow> network_interface \<Rightarrow> network_interface" where
  "knows peer_ip eth ni = ni\<lparr>ni_cache := (ni_cache ni)(peer_ip \<mapsto> (eth, ni_now ni))\<rparr>"

definition same_datagram :: "ipv4_datagram \<Rightarrow> ipv4_datagram \<Rightarrow> bool" where
  "same_datagram d d' \<longleftrightarrow> (\<exists>ck. dg_header d' = (dg_header d)\<lparr>ip_cksum := ck\<rparr>) \<and>
     BufferList_concatenate (dg_payload d') = BufferList_concatenate (dg_payload d)"

lemma frame_from_cong: "ni_ethernet_address ni' = ni_ethernet_address ni \<Longrightarrow> frame_from ni' = frame_from ni"
  by (intro ext) (simp add: frame_from_def)

lemma arp_steps:
  assumes "length (ni_ethernet_address A) = 6" "length (ni_ethernet_address B) = 6"
    and "Address_ipv4_numeric (ni_ip_address A) = Inr ipA" "Address_ipv4_numeric (ni_ip_address B) = Inr ipB"
    and "Address_ipv4_numeric hop = Inr ipB"
    and "ni_cache A ipB = None" "ni_cooldown A ipB = None" "ni_pending A = []" "ni_pending B = []"
    and "dgram_ok d"
  obtains f1 f2 f3 where
    "NetworkInterface_send_datagram d hop A = Inr (push_frame f1 (waiting ipB d A))"
    "eth_dst (ef_header f1) = ETHERNET_BROADCAST" "eth_ok (ef_header f1)"
    "\<And>g fs. arrives f1 g \<Longrightarrow> NetworkInterface_recv_frame g (B\<lparr>ni_frames_out := fs\<rparr>) =
       Inr (None, (knows ipA (ni_ethernet_address A) B)\<lparr>ni_frames_out := fs @ [f2]\<rparr>)"
    "eth_dst (ef_header f2) = ni_ethernet_address A" "eth_ok (ef_header f2)"
    "\<And>g fs. arrives f2 g \<Longrightarrow> NetworkInterface_recv_frame g ((waiting ipB d A)\<lparr>ni_frames_out := fs\<rparr>) =
       Inr (None, (knows ipB (ni_ethernet_address B) (waiting ipB d A))\<lparr>ni_pending := [], ni_frames_out := fs @ [f3]\<rparr>)"
    "eth_dst (ef_header f3) = ni_ethernet_address B" "eth_ok (ef_header f3)"
    "\<And>g B'. arrives f3 g \<Longrightarrow> ni_ethernet_address B' = ni_ethernet_address B \<Longrightarrow>
       \<exists>d'. NetworkInterface_recv_frame g B' = Inr (Some d', B') \<and> same_datagram d d'"
proof -
  let ?q = "request A ipA ipB"
  obtain s where s: "ARPMessage_serialize ?q = Inr s"
    using ARPMessage_serialize_eq [OF request_ok(2)] by blast
  define f1 where "f1 = frame_from A TYPE_ARP ETHERNET_BROADCAST (BufferList_of_string s)"
  have send: "NetworkInterface_send_datagram d hop A = Inr (push_frame f1 (waiting ipB d A))"
    using assms(3,5-8) s by (simp add: NetworkInterface_send_datagram_def waiting_def f1_def request_def)
  have q: "arp_ok ?q" "arp_opcode ?q = OPCODE_REQUEST" "arp_target_ip_address ?q = ipB"
    "arp_sender_ip_address ?q = ipA" "arp_sender_ethernet_address ?q = ni_ethernet_address A"
    using request_ok(1) [OF assms(1)] by (simp_all add: request_def)
  let ?r = "reply_msg B ipB ?q"
  obtain s' where s': "ARPMessage_serialize ?r = Inr s'"
    using ARPMessage_serialize_eq [OF reply_ok(2)] by blast
  define f2 where "f2 = frame_from B TYPE_ARP (ni_ethernet_address A) (BufferList_of_string s')"
  have recvB: "NetworkInterface_recv_frame g (B\<lparr>ni_frames_out := fs\<rparr>) =
      Inr (None, (knows ipA (ni_ethernet_address A) B)\<lparr>ni_frames_out := fs @ [f2]\<rparr>)" if "arrives f1 g" for g fs
  proof -
    have learnB: "learn ?q (B\<lparr>ni_frames_out := fs\<rparr>) = Inr ((knows ipA (ni_ethernet_address A) B)\<lparr>ni_frames_out := fs\<rparr>)"
      using assms(9) q by (simp add: learn_def knows_def)
    have "reply_msg ((knows ipA (ni_ethernet_address A) B)\<lparr>ni_frames_out := fs\<rparr>) ipB ?q = ?r"
      by (simp add: reply_msg_def knows_def)
    then show ?thesis
      using recv_arp [OF that [unfolded f1_def] q(1) s, of "B\<lparr>ni_frames_out := fs\<rparr>"] assms(4) learnB q(2,3) s'
      by (simp add: arp_reply_eq f2_def push_frame_def knows_def frame_from_def)
  qed
  have r: "arp_ok ?r" "arp_opcode ?r = OPCODE_REPLY" "arp_sender_ip_address ?r = ipB"
    "arp_sender_ethernet_address ?r = ni_ethernet_address B"
    using reply_ok(1) [of B ?q ipB] assms(1,2) q(5) by (simp_all add: reply_msg_def)
  obtain bl where bl: "IPv4Datagram_serialize d = Inr bl" using dgram_ok_serialize [OF assms(10)] by blast
  define f3 where "f3 = frame_from A TYPE_IPv4 (ni_ethernet_address B) bl"
  have recvA: "NetworkInterface_recv_frame g ((waiting ipB d A)\<lparr>ni_frames_out := fs\<rparr>) =
      Inr (None, (knows ipB (ni_ethernet_address B) (waiting ipB d A))\<lparr>ni_pending := [], ni_frames_out := fs @ [f3]\<rparr>)"
    if "arrives f2 g" for g fs
  proof -
    have "learn ?r ((waiting ipB d A)\<lparr>ni_frames_out := fs\<rparr>) =
        Inr ((knows ipB (ni_ethernet_address B) (waiting ipB d A))\<lparr>ni_pending := [], ni_frames_out := fs @ [f3]\<rparr>)"
      using r(3,4) bl by (simp add: learn_def knows_def waiting_def f3_def push_frame_def frame_from_def)
    then show ?thesis
      using recv_arp [OF that [unfolded f2_def] r(1) s', of "(waiting ipB d A)\<lparr>ni_frames_out := fs\<rparr>"] assms(3) r(2)
      by (simp add: waiting_def OPCODE_REPLY_def OPCODE_REQUEST_def)
  qed
  have recvB': "\<exists>d'. NetworkInterface_recv_frame g B' = Inr (Some d', B') \<and> same_datagram d d'"
    if "arrives f3 g" "ni_ethernet_address B' = ni_ethernet_address B" for g B'
    using recv_ipv4 [OF that(1) [unfolded f3_def] assms(10) bl, of B'] that(2) by (fastforce simp: same_datagram_def)
  have "eth_ok (ef_header f1)" "eth_ok (ef_header f2)" "eth_ok (ef_header f3)"
    using assms(1,2) by (simp_all add: f1_def f2_def f3_def ETHERNET_BROADCAST_def)
  moreover have "eth_dst (ef_header f1) = ETHERNET_BROADCAST" "eth_dst (ef_header f2) = ni_ethernet_address A"
    "eth_dst (ef_header f3) = ni_ethernet_address B"
    by (simp_all add: f1_def f2_def f3_def frame_from_def)
  ultimately show ?thesis using send recvB recvA recvB' by (intro that [of f1 f2 f3])
qed

section \<open>Properties\<close>

text \<open>
  \<^verbatim>\<open>send_datagram\<close> to an IPv4 next hop, in its three cases. Known address: the datagram leaves at
  once in one frame to that address. Unknown, and not asked for in the last five seconds: one
  broadcast ARP request that parses back to the question leaves, and the datagram waits. Otherwise
  nothing happens at all: a datagram sent while the request is on its cooldown is lost.
\<close>

theorem NetworkInterface_send_datagram_spec:
  assumes "Address_ipv4_numeric hop = Inr ip" "Address_ipv4_numeric (ni_ip_address ni) = Inr my_ip"
    and "length (ni_ethernet_address ni) = 6" "dgram_ok d"
  shows "\<exists>ni' fs. NetworkInterface_send_datagram d hop ni = Inr ni' \<and>
     ni_frames_out ni' = ni_frames_out ni @ fs \<and>
     (case ni_cache ni ip of
        Some (eth, _) \<Rightarrow> (\<exists>bl. fs = [frame_from ni TYPE_IPv4 eth bl] \<and> IPv4Datagram_serialize d = Inr bl) \<and>
          ni_pending ni' = ni_pending ni
      | None \<Rightarrow>
          if ni_cooldown ni ip = None
          then (\<exists>s. fs = [frame_from ni TYPE_ARP ETHERNET_BROADCAST (BufferList_of_string s)] \<and>
                 ARPMessage_parse (Buffer s) ARPMessage = (NoError, request ni my_ip ip)) \<and>
               ni_pending ni' = multimap_insert ip d (ni_pending ni) \<and>
               ni_cooldown ni' = (ni_cooldown ni)(ip \<mapsto> ni_now ni)
          else ni' = ni \<and> fs = [])"
  using assms(1,4,2)
proof (cases rule: send_cases)
  case (cached eth t bl)
  then show ?thesis by (auto simp: push_frame_def)
next
  case cooling
  then show ?thesis by auto
next
  case (asked s)
  have "ARPMessage_parse (Buffer s) ARPMessage = (NoError, request ni my_ip ip)"
    by (rule ARPMessage_parse_serialize [OF request_ok(1) [OF assms(3)] request_ok(2), of my_ip ip])
      (use asked(3) in \<open>auto simp: arp_ok_def ARPMessage_def\<close>)
  then show ?thesis using asked by (auto simp: push_frame_def)
qed

definition demo_ni :: "byte \<Rightarrow> network_interface" where
  "demo_ni n = NetworkInterface [2, 0, 0, 0, 0, n] (Address_from_ipv4_numeric (ucast n))"

definition demo_dgram :: ipv4_datagram where
  "demo_dgram = \<lparr>dg_header = IPv4Header\<lparr>ip_len := 23, ip_src := 7\<rparr>, dg_payload = BufferList_of_string [1, 2, 3]\<rparr>"

lemma demo_ok: "dgram_ok demo_dgram" "Address_ipv4_numeric (ni_ip_address (demo_ni n)) = Inr (ucast n)"
  "length (ni_ethernet_address (demo_ni n)) = 6" "ni_cache (demo_ni n) ip = None"
  "ni_cooldown (demo_ni n) ip = None" "ni_pending (demo_ni n) = []" "ni_frames_out (demo_ni n) = []"
  by (simp_all add: demo_ni_def demo_dgram_def NetworkInterface_def dgram_ok_def ip_wf_def IPv4Header_def
      BufferList_size_concatenate)

theorem NetworkInterface_send_datagram_spec_witness:
  "\<exists>ni'. NetworkInterface_send_datagram demo_dgram (Address_from_ipv4_numeric 9) (demo_ni 1) = Inr ni' \<and>
     ni_pending ni' = [(9, demo_dgram)]"
  using NetworkInterface_send_datagram_spec [of "Address_from_ipv4_numeric 9" 9 "demo_ni 1" 1 demo_dgram]
  by (auto simp: demo_ok)

text \<open>
  C16: in every run of an interface, whatever is sent, received and popped and however time passes, an
  interface asks for the Ethernet address of the same IP address at most once in five seconds.
\<close>

theorem NetworkInterface_arp_rate:
  assumes "ni_run eth ip h ni" "length eth = 6"
    and "i < j" "j < length h" "asks target (snd (h ! i))" "asks target (snd (h ! j))"
  shows "fst (h ! i) + 5000 \<le> fst (h ! j)"
proof -
  have "spaced h" using run_inv [OF assms(1,2)] by (simp add: log_inv_def)
  from sorted_wrt_nth_less [OF this [unfolded spaced_def] assms(3,4)] assms(5,6)
  show ?thesis by (simp add: split_beta)
qed

text \<open>Two questions for the same address, five seconds apart.\<close>

lemma demo_run:
  obtains h ni where "ni_run [2, 0, 0, 0, 0, 1] (Address_from_ipv4_numeric 1) h ni" "length h = 2"
    "asks 9 (snd (h ! 0))" "asks 9 (snd (h ! 1))" "ni_cooldown ni 9 = Some 5000"
proof -
  let ?run = "ni_run [2, 0, 0, 0, 0, 1] (Address_from_ipv4_numeric 1)" and ?hop = "Address_from_ipv4_numeric 9"
  have asking: "\<exists>s. asks 9 (frame_from ni TYPE_ARP ETHERNET_BROADCAST (BufferList_of_string s)) \<and>
      NetworkInterface_send_datagram demo_dgram ?hop ni = Inr
        (push_frame (frame_from ni TYPE_ARP ETHERNET_BROADCAST (BufferList_of_string s))
          (ni\<lparr>ni_pending := multimap_insert 9 demo_dgram (ni_pending ni),
              ni_cooldown := (ni_cooldown ni)(9 \<mapsto> ni_now ni)\<rparr>))"
    if "ni_cache ni 9 = None" "ni_cooldown ni 9 = None" "ni_ip_address ni = Address_from_ipv4_numeric 1"
      "length (ni_ethernet_address ni) = 6" for ni
  proof -
    from that(3) have my: "Address_ipv4_numeric (ni_ip_address ni) = Inr 1" by simp
    from ipv4_numeric_from [of 9] demo_ok(1) my show ?thesis
    proof (cases rule: send_cases)
      case (asked s)
      then show ?thesis
        using asks_frame_from [OF request_ok(1) [OF that(4)] asked(3), of 9]
        by (intro exI [of _ s]) (simp add: request_def)
    qed (use that in simp_all)
  qed
  let ?n0 = "demo_ni 1"
  obtain f1 n1 where n1: "NetworkInterface_send_datagram demo_dgram ?hop ?n0 = Inr n1" "asks 9 f1"
    "n1 = push_frame f1 (?n0\<lparr>ni_pending := multimap_insert 9 demo_dgram (ni_pending ?n0),
              ni_cooldown := (ni_cooldown ?n0)(9 \<mapsto> ni_now ?n0)\<rparr>)"
    using asking [of ?n0] demo_ok(3,4,5) by (auto simp: demo_ni_def NetworkInterface_def)
  let ?t = "NetworkInterface_tick 5000 n1"
  have t: "ni_cache ?t 9 = None" "ni_cooldown ?t 9 = None" "ni_ip_address ?t = Address_from_ipv4_numeric 1"
    "length (ni_ethernet_address ?t) = 6" "ni_now ?t = 5000" "ni_now n1 = 0" "ni_now ?n0 = 0"
    by (simp_all add: n1(3) push_frame_def NetworkInterface_tick_def Let_def demo_ni_def
        NetworkInterface_def add64_def)
  obtain f2 n2 where n2: "NetworkInterface_send_datagram demo_dgram ?hop ?t = Inr n2" "asks 9 f2"
    "n2 = push_frame f2 (?t\<lparr>ni_pending := multimap_insert 9 demo_dgram (ni_pending ?t),
              ni_cooldown := (ni_cooldown ?t)(9 \<mapsto> ni_now ?t)\<rparr>)"
    using asking [OF t(1-4)] by blast
  have "?run [] ?n0" unfolding demo_ni_def by simp (rule ni_run.new)
  from ni_run.send [OF this n1(1)] have "?run [(0, f1)] n1"
    by (simp add: queued_def n1(3) push_frame_def t)
  then have "?run [(0, f1)] ?t" by (rule ni_run.tick) (simp add: t)
  from ni_run.send [OF this n2(1)] have "?run [(0, f1), (5000, f2)] n2"
    by (simp add: queued_def n2(3) push_frame_def t)
  then show ?thesis
    by (rule that) (simp_all add: n1(2) n2(2), simp add: n2(3) push_frame_def t)
qed

theorem NetworkInterface_arp_rate_witness:
  "\<exists>h ni. ni_run [2, 0, 0, 0, 0, 1] (Address_from_ipv4_numeric 1) h ni \<and> asks 9 (snd (h ! 0)) \<and>
     asks 9 (snd (h ! 1)) \<and> fst (h ! 0) + 5000 \<le> fst (h ! 1)"
proof -
  obtain h ni where "ni_run [2, 0, 0, 0, 0, 1] (Address_from_ipv4_numeric 1) h ni" "length h = 2"
    "asks 9 (snd (h ! 0))" "asks 9 (snd (h ! 1))"
    by (rule demo_run)
  with NetworkInterface_arp_rate [OF this(1), of 0 1 9] show ?thesis by auto
qed

text \<open>
  C20: in every run the tables stay consistent: what is learned is less than 30 seconds old, a cooldown
  less than five, no datagram waits for an address that is known, and every frame sent carries the
  interface's own source address.
\<close>

theorem NetworkInterface_invariant:
  assumes "ni_run eth ip h ni" "length eth = 6"
  shows "(\<forall>k e t. ni_cache ni k = Some (e, t) \<longrightarrow> t \<le> ni_now ni \<and> ni_now ni < t + 30000) \<and>
    (\<forall>k t. ni_cooldown ni k = Some t \<longrightarrow> t \<le> ni_now ni \<and> ni_now ni < t + 5000) \<and>
    (\<forall>(k, d) \<in> set (ni_pending ni). ni_cache ni k = None) \<and>
    (\<forall>(t, f) \<in> set h. eth_src (ef_header f) = eth)"
  using run_inv [OF assms] run_keeps_address [OF assms(1)] by (auto simp: ni_inv_def log_inv_def)

theorem NetworkInterface_invariant_witness:
  "\<exists>h ni t. ni_run [2, 0, 0, 0, 0, 1] (Address_from_ipv4_numeric 1) h ni \<and> ni_cooldown ni 9 = Some t \<and>
     t \<le> ni_now ni"
proof -
  obtain h ni where run: "ni_run [2, 0, 0, 0, 0, 1] (Address_from_ipv4_numeric 1) h ni"
    and "ni_cooldown ni 9 = Some 5000"
    by (rule demo_run)
  then show ?thesis using NetworkInterface_invariant [OF run] run by (intro exI [of _ h] exI [of _ ni]) auto
qed

text \<open>
  The ARP exchange delivers: on a link with two interfaces, a datagram sent to an IP address whose
  Ethernet address is not known makes the sender broadcast one ARP request; the owner of the address
  answers it with one ARP reply; the reply makes the sender send the datagram; and its owner takes
  from that frame the same datagram, but for the header checksum. The frames travel as their bytes.
\<close>

theorem NetworkInterface_arp_exchange:
  assumes "length (ni_ethernet_address A) = 6" "length (ni_ethernet_address B) = 6"
    and "Address_ipv4_numeric (ni_ip_address A) = Inr ipA" "Address_ipv4_numeric (ni_ip_address B) = Inr ipB"
    and "ni_cache A ipB = None" "ni_cooldown A ipB = None" "ni_pending A = []" "ni_pending B = []"
    and "dgram_ok d"
  shows "\<exists>A1 f1 B1 f2 A2 f3 d'.
     NetworkInterface_send_datagram d (Address_from_ipv4_numeric ipB) A = Inr A1 \<and>
     ni_frames_out A1 = ni_frames_out A @ [f1] \<and> eth_dst (ef_header f1) = ETHERNET_BROADCAST \<and>
     NetworkInterface_recv_frame (wire f1) B = Inr (None, B1) \<and>
     ni_frames_out B1 = ni_frames_out B @ [f2] \<and> eth_dst (ef_header f2) = ni_ethernet_address A \<and>
     NetworkInterface_recv_frame (wire f2) A1 = Inr (None, A2) \<and>
     ni_frames_out A2 = ni_frames_out A1 @ [f3] \<and> eth_dst (ef_header f3) = ni_ethernet_address B \<and>
     NetworkInterface_recv_frame (wire f3) B1 = Inr (Some d', B1) \<and>
     (\<exists>ck. dg_header d' = (dg_header d)\<lparr>ip_cksum := ck\<rparr>) \<and>
     BufferList_concatenate (dg_payload d') = BufferList_concatenate (dg_payload d)"
proof -
  obtain f1 f2 f3 where
    send: "NetworkInterface_send_datagram d (Address_from_ipv4_numeric ipB) A = Inr (push_frame f1 (waiting ipB d A))"
    and f: "eth_dst (ef_header f1) = ETHERNET_BROADCAST" "eth_ok (ef_header f1)"
      "eth_dst (ef_header f2) = ni_ethernet_address A" "eth_ok (ef_header f2)"
      "eth_dst (ef_header f3) = ni_ethernet_address B" "eth_ok (ef_header f3)"
    and recvB: "\<And>g fs. arrives f1 g \<Longrightarrow> NetworkInterface_recv_frame g (B\<lparr>ni_frames_out := fs\<rparr>) =
       Inr (None, (knows ipA (ni_ethernet_address A) B)\<lparr>ni_frames_out := fs @ [f2]\<rparr>)"
    and recvA: "\<And>g fs. arrives f2 g \<Longrightarrow> NetworkInterface_recv_frame g ((waiting ipB d A)\<lparr>ni_frames_out := fs\<rparr>) =
       Inr (None, (knows ipB (ni_ethernet_address B) (waiting ipB d A))\<lparr>ni_pending := [], ni_frames_out := fs @ [f3]\<rparr>)"
    and recvB': "\<And>g B'. arrives f3 g \<Longrightarrow> ni_ethernet_address B' = ni_ethernet_address B \<Longrightarrow>
       \<exists>d'. NetworkInterface_recv_frame g B' = Inr (Some d', B') \<and> same_datagram d d'"
    by (rule arp_steps [OF assms(1-4) _ assms(5-9), of "Address_from_ipv4_numeric ipB"]) (simp, blast)
  let ?A1 = "push_frame f1 (waiting ipB d A)"
  let ?B1 = "(knows ipA (ni_ethernet_address A) B)\<lparr>ni_frames_out := ni_frames_out B @ [f2]\<rparr>"
  have A1: "?A1 = (waiting ipB d A)\<lparr>ni_frames_out := ni_frames_out A @ [f1]\<rparr>" by (simp add: push_frame_def waiting_def)
  have B1: "NetworkInterface_recv_frame (wire f1) B = Inr (None, ?B1)"
    using recvB [OF wire_arrives [OF f(2)], of "ni_frames_out B"] by simp
  note A2 = recvA [OF wire_arrives [OF f(4)], of "ni_frames_out A @ [f1]", folded A1]
  obtain d' where d': "NetworkInterface_recv_frame (wire f3) ?B1 = Inr (Some d', ?B1)" "same_datagram d d'"
    using recvB' [OF wire_arrives [OF f(6)], of ?B1] by (auto simp: knows_def)
  show ?thesis
    by (rule exI [of _ ?A1], rule exI [of _ f1], rule exI [of _ ?B1], rule exI [of _ f2], rule exI,
        rule exI [of _ f3], rule exI [of _ d'])
      (use send f(1,3,5) B1 A2 d' in \<open>auto simp: A1 knows_def same_datagram_def\<close>)
qed

theorem NetworkInterface_arp_exchange_witness:
  "\<exists>A1 f1. NetworkInterface_send_datagram demo_dgram (Address_from_ipv4_numeric 2) (demo_ni 1) = Inr A1 \<and>
     ni_frames_out A1 = [f1] \<and> eth_dst (ef_header f1) = ETHERNET_BROADCAST"
  using NetworkInterface_arp_exchange [of "demo_ni 1" "demo_ni 2" 1 2 demo_dgram] by (auto simp: demo_ok)

section \<open>Types\<close>

text \<open>
  An Ethernet address of the code is an array of 6 bytes, one of the model a list: the interface is well typed when
  its own address, every address it has learned and every address in a queued frame has 6 bytes, and only
  the two types of frames it knows are queued.
\<close>

definition frame_typed :: "ethernet_frame \<Rightarrow> bool" where
  "frame_typed f \<longleftrightarrow> eth_ok (ef_header f) \<and> eth_type (ef_header f) \<in> {TYPE_IPv4, TYPE_ARP}"

definition ni_typed :: "network_interface \<Rightarrow> bool" where
  "ni_typed ni \<longleftrightarrow> length (ni_ethernet_address ni) = 6 \<and>
     (\<forall>(e, t) \<in> ran (ni_cache ni). length e = 6) \<and> (\<forall>f \<in> set (ni_frames_out ni). frame_typed f)"

lemma frame_typed_from [simp]:
  "frame_typed (frame_from ni type dst bl) \<longleftrightarrow>
     length dst = 6 \<and> length (ni_ethernet_address ni) = 6 \<and> (type = TYPE_IPv4 \<or> type = TYPE_ARP)"
  by (simp add: frame_typed_def) (simp add: frame_from_def)

lemma ni_typed_push [simp]: "ni_typed (push_frame f ni) \<longleftrightarrow> ni_typed ni \<and> frame_typed f"
  by (auto simp: ni_typed_def push_frame_def)

lemma send_typed:
  assumes "ni_typed ni" "NetworkInterface_send_datagram d hop ni = Inr ni'"
  shows "ni_typed ni'"
proof -
  obtain ip where ip: "Address_ipv4_numeric hop = Inr ip"
    using assms(2) by (auto simp: NetworkInterface_send_datagram_def bindE_eq_Inr_iff)
  show ?thesis
  proof (cases "ni_cache ni ip")
    case (Some c)
    then have "c \<in> ran (ni_cache ni)" by (rule ranI)
    with assms Some ip show ?thesis
      by (cases c) (auto simp: NetworkInterface_send_datagram_def bindE_eq_Inr_iff ni_typed_def [of ni])
  next
    case None
    with assms ip show ?thesis
      by (auto simp: NetworkInterface_send_datagram_def bindE_eq_Inr_iff Let_def ni_typed_def [of ni] ETHERNET_BROADCAST_def
          split: if_splits) (auto simp: ni_typed_def)
  qed
qed

lemma learn_typed:
  assumes "ni_typed ni" "arp_ok am" "learn am ni = Inr ni'"
  shows "ni_typed ni'"
proof -
  have "(\<forall>(e, t) \<in> ran ((ni_cache ni)(arp_sender_ip_address am \<mapsto> (arp_sender_ethernet_address am, ni_now ni))). length e = 6)"
    using assms(1,2) by (auto simp: ni_typed_def arp_ok_def ran_def split: if_splits)
  moreover obtain fs pending where "ni' = ni\<lparr>ni_cache := (ni_cache ni)
        (arp_sender_ip_address am \<mapsto> (arp_sender_ethernet_address am, ni_now ni)),
        ni_pending := pending, ni_frames_out := ni_frames_out ni @ fs\<rparr>"
    and "\<forall>f \<in> set fs. \<exists>bl. f = frame_from ni TYPE_IPv4 (arp_sender_ethernet_address am) bl"
    using learn_spec [OF assms(3)] by blast
  moreover from this(2) have "\<forall>f \<in> set fs. frame_typed f" using assms(1,2) by (auto simp: ni_typed_def arp_ok_def)
  ultimately show ?thesis using assms(1) by (auto simp: ni_typed_def)
qed

lemma recv_typed:
  assumes "ni_typed ni" "eth_ok (ef_header f)" "NetworkInterface_recv_frame f ni = Inr (res, ni')"
  shows "ni_typed ni'"
  using assms(3)
proof (cases rule: recv_cases)
  case (learned am)
  then show ?thesis using learn_typed [OF assms(1)] parsed_sender by blast
next
  case (replied am ni1 my_ip s)
  then have "ni_typed ni1" using learn_typed [OF assms(1)] parsed_sender by blast
  then show ?thesis using replied(5) assms(2) by (simp add: ni_typed_def [of ni1] eth_ok_def)
qed (simp add: assms(1))

lemma tick_typed: "ni_typed ni \<Longrightarrow> ni_typed (NetworkInterface_tick ms ni)"
  by (fastforce simp: ni_typed_def NetworkInterface_tick_def Let_def ran_def split: option.splits if_splits prod.splits)



end
