(* ===== verification/Router.thy ===== *)
theory Router
  imports Network_Interface
begin

text \<open>
  \<^verbatim>\<open>AsyncNetworkInterface\<close> and \<^verbatim>\<open>Router\<close> (\<^verbatim>\<open>libsponge/router.hh\<close>, \<^verbatim>\<open>router.cc\<close>): a router moves the
  datagrams its interfaces have received to the interface and next hop its table gives for their
  destination. The debug line of \<^verbatim>\<open>add_route\<close> is left out.
\<close>

section \<open>State\<close>

record async_network_interface =
  an_interface :: network_interface
  an_datagrams_out :: "ipv4_datagram list"

type_synonym route = "(u32 \<times> byte) \<times> address option \<times> nat"

record router =
  rt_interfaces :: "async_network_interface list"
  rt_routing_table :: "route list"

definition AsyncNetworkInterface :: "network_interface \<Rightarrow> async_network_interface" where
  "AsyncNetworkInterface interface = \<lparr>an_interface = interface, an_datagrams_out = []\<rparr>"

definition Router :: router where
  "Router = \<lparr>rt_interfaces = [], rt_routing_table = []\<rparr>"

section \<open>Operations\<close>

definition AsyncNetworkInterface_recv_frame ::
    "ethernet_frame \<Rightarrow> async_network_interface \<Rightarrow> exn + async_network_interface" where
  "AsyncNetworkInterface_recv_frame frame a =
     bindE (NetworkInterface_recv_frame frame (an_interface a)) (\<lambda>(optional_dgram, ni).
       let a = a\<lparr>an_interface := ni\<rparr>
       in Inr (case optional_dgram of
                 Some dgram \<Rightarrow> a\<lparr>an_datagrams_out := an_datagrams_out a @ [dgram]\<rparr>
               | None \<Rightarrow> a))"

definition Router_add_interface :: "async_network_interface \<Rightarrow> router \<Rightarrow> nat \<times> router" where
  "Router_add_interface interface r =
     (let r = r\<lparr>rt_interfaces := rt_interfaces r @ [interface]\<rparr> in (length (rt_interfaces r) - 1, r))"

definition Router_interface :: "nat \<Rightarrow> router \<Rightarrow> exn + async_network_interface" where
  "Router_interface N r =
     (if N < length (rt_interfaces r) then Inr (rt_interfaces r ! N) else Inl (Out_of_range ''vector::at''))"

text \<open>The loop of \<^verbatim>\<open>add_route\<close>: a route with the same prefix and length gets the new next hop.\<close>

fun replace_route :: "u32 \<Rightarrow> byte \<Rightarrow> address option \<Rightarrow> route list \<Rightarrow> route list option" where
  "replace_route route_prefix prefix_length next_hop [] = None"
| "replace_route route_prefix prefix_length next_hop (((p, l), (hop, i)) # t) =
     (if p = route_prefix \<and> l = prefix_length
      then Some (((p, l), (next_hop, i)) # t)
      else map_option (Cons ((p, l), (hop, i))) (replace_route route_prefix prefix_length next_hop t))"

definition Router_add_route :: "u32 \<Rightarrow> byte \<Rightarrow> address option \<Rightarrow> nat \<Rightarrow> router \<Rightarrow> router" where
  "Router_add_route route_prefix prefix_length next_hop interface_num r =
     (case replace_route route_prefix prefix_length next_hop (rt_routing_table r) of
        Some t \<Rightarrow> r\<lparr>rt_routing_table := t\<rparr>
      | None \<Rightarrow> r\<lparr>rt_routing_table :=
                   rt_routing_table r @ [((route_prefix, prefix_length), (next_hop, interface_num))]\<rparr>)"

text \<open>
  The test of one route, \<open>longest\<close> being the code's \<^verbatim>\<open>MAX\<close>: \<^verbatim>\<open>(MAX == len && len == 0) || (dst >> (32 - len) == prefix >> (32 - len) &&
  len >= MAX)\<close>. A shift of a 32-bit number by 32 places or by a negative number is undefined.
\<close>

definition route_applies :: "u32 \<Rightarrow> byte \<Rightarrow> u32 \<Rightarrow> byte \<Rightarrow> exn + bool" where
  "route_applies dst longest prefix len =
     (if longest = len \<and> len = 0 then Inr True
      else if len = 0 \<or> 32 < len then Inl (Undefined_behaviour ''Router::route_one_datagram: shift'')
      else Inr (drop_bit (32 - unat len) dst = drop_bit (32 - unat len) prefix \<and> longest \<le> len))"

text \<open>
  The loop over the table. \<^verbatim>\<open>addr\<close> and \<^verbatim>\<open>interface_num\<close> are always set together; \<^verbatim>\<open>break\<close> ends the
  loop at a direct route.
\<close>

fun find_route :: "u32 \<Rightarrow> byte \<Rightarrow> (address \<times> nat) option \<Rightarrow> route list \<Rightarrow> exn + (address \<times> nat) option" where
  "find_route dst longest best [] = Inr best"
| "find_route dst longest best (((prefix, len), (hop, interface_num)) # t) =
     bindE (route_applies dst longest prefix len) (\<lambda>applies.
       if applies then
         (case hop of
            None \<Rightarrow> Inr (Some (Address_from_ipv4_numeric dst, interface_num))
          | Some addr \<Rightarrow> find_route dst len (Some (addr, interface_num)) t)
       else find_route dst longest best t)"

definition Router_route_one_datagram :: "ipv4_datagram \<Rightarrow> router \<Rightarrow> exn + router" where
  "Router_route_one_datagram dgram r =
     (let ttl = ip_ttl (dg_header dgram);
          dgram = dgram\<lparr>dg_header := (dg_header dgram)\<lparr>ip_ttl := ttl - 1\<rparr>\<rparr>
      in if ttl \<le> 1 then Inr r
         else
           bindE (find_route (ip_dst (dg_header dgram)) 0 None (rt_routing_table r)) (\<lambda>best.
             case best of
               None \<Rightarrow> Inr r
             | Some (addr, interface_num) \<Rightarrow>
                 bindE (Router_interface interface_num r) (\<lambda>a.
                   bindE (NetworkInterface_send_datagram dgram addr (an_interface a)) (\<lambda>ni.
                     Inr (r\<lparr>rt_interfaces := (rt_interfaces r)[interface_num := a\<lparr>an_interface := ni\<rparr>]\<rparr>)))))"

text \<open>
  The loop over one interface's queue, whose contents are the second argument: routing a datagram
  does not touch the queues.
\<close>

definition pop_datagram :: "nat \<Rightarrow> router \<Rightarrow> router" where
  "pop_datagram i r =
     (let a = rt_interfaces r ! i
      in r\<lparr>rt_interfaces := (rt_interfaces r)[i := a\<lparr>an_datagrams_out := tl (an_datagrams_out a)\<rparr>]\<rparr>)"

fun route_queue :: "nat \<Rightarrow> ipv4_datagram list \<Rightarrow> router \<Rightarrow> exn + router" where
  "route_queue i [] r = Inr r"
| "route_queue i (dgram # q) r =
     bindE (Router_route_one_datagram dgram r) (\<lambda>r. route_queue i q (pop_datagram i r))"

fun route_interfaces :: "nat list \<Rightarrow> router \<Rightarrow> exn + router" where
  "route_interfaces [] r = Inr r"
| "route_interfaces (i # ks) r =
     bindE (route_queue i (an_datagrams_out (rt_interfaces r ! i)) r) (route_interfaces ks)"

definition Router_route :: "router \<Rightarrow> exn + router" where
  "Router_route r = route_interfaces [0..<length (rt_interfaces r)] r"

section \<open>Longest prefix match\<close>

abbreviation route_len :: "route \<Rightarrow> byte" where "route_len e \<equiv> snd (fst e)"
abbreviation route_hop :: "route \<Rightarrow> address option" where "route_hop e \<equiv> fst (snd e)"

definition matches :: "u32 \<Rightarrow> route \<Rightarrow> bool" where
  "matches dst e \<longleftrightarrow> drop_bit (32 - unat (route_len e)) dst = drop_bit (32 - unat (route_len e)) (fst (fst e))"

lemma matches_default [simp]: "route_len e = 0 \<Longrightarrow> matches dst e"
proof -
  have "drop_bit 32 (w :: u32) = 0" for w
    by (rule bit_word_eqI) (simp add: bit_drop_bit_eq)
  then show "route_len e = 0 \<Longrightarrow> matches dst e" by (simp add: matches_def)
qed

text \<open>Default routes stand before the others, so that no shift by 32 is computed.\<close>

fun table_ok :: "route list \<Rightarrow> bool" where
  "table_ok [] \<longleftrightarrow> True"
| "table_ok (e # t) \<longleftrightarrow> route_len e \<le> 32 \<and> (route_len e \<noteq> 0 \<longrightarrow> (\<forall>e' \<in> set t. route_len e' \<noteq> 0)) \<and> table_ok t"

definition route_target :: "u32 \<Rightarrow> route \<Rightarrow> address \<times> nat" where
  "route_target dst e =
     (case route_hop e of None \<Rightarrow> (Address_from_ipv4_numeric dst, snd (snd e)) | Some a \<Rightarrow> (a, snd (snd e)))"

text \<open>A best route: it matches, and no matching one is longer.\<close>

definition best_route :: "u32 \<Rightarrow> route list \<Rightarrow> route \<Rightarrow> bool" where
  "best_route dst t e \<longleftrightarrow> e \<in> set t \<and> matches dst e \<and>
     (\<forall>e' \<in> set t. matches dst e' \<longrightarrow> route_len e' \<le> route_len e)"

definition direct_routes_longest :: "u32 \<Rightarrow> route list \<Rightarrow> bool" where
  "direct_routes_longest dst t \<longleftrightarrow>
     (\<forall>e \<in> set t. \<forall>e' \<in> set t. route_hop e = None \<longrightarrow> matches dst e \<longrightarrow> matches dst e' \<longrightarrow>
        route_len e' \<le> route_len e)"

lemma route_applies_eq:
  assumes "route_len e \<le> 32" "longest \<noteq> 0 \<Longrightarrow> route_len e \<noteq> 0"
  shows "route_applies dst longest (fst (fst e)) (route_len e) = Inr (matches dst e \<and> longest \<le> route_len e)"
proof (cases "route_len e = 0")
  case True
  then show ?thesis using assms(2) by (auto simp: route_applies_def)
next
  case False
  then show ?thesis using assms(1) by (auto simp: route_applies_def matches_def not_less)
qed

text \<open>The loop, with the best of the routes seen before.\<close>

lemma find_route_best:
  assumes "table_ok t" "longest \<noteq> 0 \<Longrightarrow> \<forall>e \<in> set t. route_len e \<noteq> 0" "direct_routes_longest dst t"
  shows "\<exists>res. find_route dst longest best t = Inr res \<and>
     (if \<exists>e \<in> set t. matches dst e \<and> longest \<le> route_len e
      then \<exists>e. best_route dst t e \<and> res = Some (route_target dst e) else res = best)"
  using assms
proof (induction t arbitrary: longest best)
  case Nil
  then show ?case by simp
next
  case (Cons e t)
  obtain p l hop i where e: "e = ((p, l), (hop, i))" by (metis surj_pair)
  have ok: "table_ok t" "direct_routes_longest dst t" "route_len e \<le> 32"
    using Cons.prems(1,3) by (simp_all add: direct_routes_longest_def)
  have applies: "route_applies dst longest p l = Inr (matches dst e \<and> longest \<le> route_len e)"
    using route_applies_eq [of e longest dst] Cons.prems(2) ok(3) by (simp add: e)
  show ?case
  proof (cases "matches dst e \<and> longest \<le> route_len e")
    case False
    then have "route_applies dst longest p l = Inr False" unfolding applies by simp
    then have step: "find_route dst longest best (e # t) = find_route dst longest best t" by (simp add: e)
    from False Cons.IH [OF ok(1) _ ok(2), of longest best] Cons.prems(2) obtain res where
      res: "find_route dst longest best t = Inr res"
        "if \<exists>e \<in> set t. matches dst e \<and> longest \<le> route_len e
         then \<exists>e. best_route dst t e \<and> res = Some (route_target dst e) else res = best"
      by auto
    show ?thesis
    proof (cases "\<exists>e \<in> set t. matches dst e \<and> longest \<le> route_len e")
      case True
      with res(2) obtain e' where "best_route dst t e'" "res = Some (route_target dst e')" by auto
      moreover have "best_route dst (e # t) e'"
        using calculation(1) True False by (fastforce simp: best_route_def)
      ultimately have "\<exists>e'. best_route dst (e # t) e' \<and> res = Some (route_target dst e')" by blast
      moreover have "\<exists>e' \<in> set (e # t). matches dst e' \<and> longest \<le> route_len e'" using True by auto
      moreover have "find_route dst longest best (e # t) = Inr res" using res(1) step by simp
      ultimately show ?thesis by (simp only: if_True) blast
    next
      case none: False
      then have "\<not> (\<exists>e' \<in> set (e # t). matches dst e' \<and> longest \<le> route_len e')" using False by auto
      moreover have "find_route dst longest best (e # t) = Inr res" using res(1) step by simp
      moreover have "res = best" using res(2) none by simp
      ultimately show ?thesis by (simp only: if_False) blast
    qed
  next
    case True
    then have ex: "\<exists>e' \<in> set (e # t). matches dst e' \<and> longest \<le> route_len e'" by auto
    show ?thesis
    proof (cases hop)
      case None
      then have "best_route dst (e # t) e"
        using True Cons.prems(3) by (auto simp: best_route_def direct_routes_longest_def e)
      moreover have "find_route dst longest best (e # t) = Inr (Some (route_target dst e))"
        using True applies None by (simp add: e route_target_def)
      ultimately show ?thesis unfolding if_P [OF ex] by blast
    next
      case (Some addr)
      have "\<forall>e' \<in> set t. route_len e' \<noteq> 0" if "route_len e \<noteq> 0" using Cons.prems(1) that by simp
      with Cons.IH [OF ok(1) _ ok(2), of "route_len e" "Some (addr, i)"] obtain res where
        res: "find_route dst (route_len e) (Some (addr, i)) t = Inr res"
          "if \<exists>e' \<in> set t. matches dst e' \<and> route_len e \<le> route_len e'
           then \<exists>e. best_route dst t e \<and> res = Some (route_target dst e) else res = Some (addr, i)"
        by auto
      have "\<exists>e'. best_route dst (e # t) e' \<and> res = Some (route_target dst e')"
      proof (cases "\<exists>e' \<in> set t. matches dst e' \<and> route_len e \<le> route_len e'")
        case True
        with res(2) obtain e' where "best_route dst t e'" "res = Some (route_target dst e')" by auto
        moreover have "best_route dst (e # t) e'"
          using calculation(1) True by (fastforce simp: best_route_def)
        ultimately show ?thesis by blast
      next
        case False
        then have "best_route dst (e # t) e" using True by (auto simp: best_route_def not_le)
        moreover have "res = Some (route_target dst e)" using False res(2) Some by (simp add: route_target_def e)
        ultimately show ?thesis by blast
      qed
      moreover have "find_route dst longest best (e # t) = Inr res"
        using True applies Some res(1) by (simp add: e)
      ultimately show ?thesis unfolding if_P [OF ex] by blast
    qed
  qed
qed

section \<open>Routing empties the queues\<close>

definition queues :: "router \<Rightarrow> ipv4_datagram list list" where
  "queues r = map an_datagrams_out (rt_interfaces r)"

lemma length_queues [simp]: "length (queues r) = length (rt_interfaces r)"
  by (simp add: queues_def)

lemma queues_nth: "i < length (rt_interfaces r) \<Longrightarrow> an_datagrams_out (rt_interfaces r ! i) = queues r ! i"
  by (simp add: queues_def)

lemma queues_update:
  "i < length (rt_interfaces r) \<Longrightarrow>
   queues (r\<lparr>rt_interfaces := (rt_interfaces r)[i := a]\<rparr>) = (queues r)[i := an_datagrams_out a]"
  by (simp add: queues_def map_update)

lemma route_one_cases:
  assumes "Router_route_one_datagram d r = Inr r'"
  obtains (same) "r' = r"
    | (sent) i ni where "i < length (rt_interfaces r)"
        "r' = r\<lparr>rt_interfaces := (rt_interfaces r)[i := (rt_interfaces r ! i)\<lparr>an_interface := ni\<rparr>]\<rparr>"
proof (cases "ip_ttl (dg_header d) \<le> 1")
  case True
  then show ?thesis using assms that(1) by (simp add: Router_route_one_datagram_def Let_def)
next
  case False
  then obtain best where best: "(case best of None \<Rightarrow> Inr r | Some (addr, i) \<Rightarrow>
      bindE (Router_interface i r) (\<lambda>a. bindE (NetworkInterface_send_datagram
          (d\<lparr>dg_header := (dg_header d)\<lparr>ip_ttl := ip_ttl (dg_header d) - 1\<rparr>\<rparr>) addr (an_interface a))
        (\<lambda>ni. Inr (r\<lparr>rt_interfaces := (rt_interfaces r)[i := a\<lparr>an_interface := ni\<rparr>]\<rparr>)))) = Inr r'"
    using assms unfolding Router_route_one_datagram_def Let_def if_not_P [OF False] bindE_eq_Inr_iff by blast
  show ?thesis
  proof (cases best)
    case None
    then show ?thesis using best that(1) by simp
  next
    case (Some p)
    then obtain addr i where "best = Some (addr, i)" by (cases p) simp
    with best obtain ni where "i < length (rt_interfaces r)"
      "r' = r\<lparr>rt_interfaces := (rt_interfaces r)[i := (rt_interfaces r ! i)\<lparr>an_interface := ni\<rparr>]\<rparr>"
      by (auto simp: bindE_eq_Inr_iff Router_interface_def split: if_splits)
    then show ?thesis by (rule that(2))
  qed
qed

lemma queues_route_one:
  assumes "Router_route_one_datagram d r = Inr r'"
  shows "queues r' = queues r \<and> rt_routing_table r' = rt_routing_table r"
  using assms by (cases rule: route_one_cases) (simp_all add: queues_update queues_nth)

lemma queues_pop:
  "i < length (rt_interfaces r) \<Longrightarrow> queues (pop_datagram i r) = (queues r)[i := tl (queues r ! i)]"
  by (simp add: pop_datagram_def Let_def queues_update queues_nth)

lemma route_queue_spec:
  assumes "route_queue i (queues r ! i) r = Inr r'" "i < length (rt_interfaces r)"
  shows "queues r' = (queues r)[i := []] \<and> rt_routing_table r' = rt_routing_table r"
  using assms
proof (induction "queues r ! i" arbitrary: r)
  case Nil
  then show ?case by (metis list_update_id route_queue.simps(1) sum.inject(2))
next
  case (Cons d q)
  from Cons.prems(1) obtain r1 where r1: "Router_route_one_datagram d r = Inr r1"
    "route_queue i q (pop_datagram i r1) = Inr r'"
    by (auto simp: bindE_eq_Inr_iff simp flip: Cons.hyps(2))
  have one: "queues r1 = queues r" "rt_routing_table r1 = rt_routing_table r"
    using queues_route_one [OF r1(1)] by simp_all
  then have i: "i < length (rt_interfaces r1)" using Cons.prems(2) by (metis length_queues)
  have pop: "queues (pop_datagram i r1) = (queues r)[i := q]"
    using queues_pop [OF i] one Cons.hyps(2) by (metis list.sel(3))
  then have "queues (pop_datagram i r1) ! i = q" using i one by (metis length_queues nth_list_update_eq)
  moreover have "i < length (rt_interfaces (pop_datagram i r1))" using i by (simp add: pop_datagram_def Let_def)
  ultimately have "queues r' = (queues (pop_datagram i r1))[i := []] \<and>
      rt_routing_table r' = rt_routing_table (pop_datagram i r1)"
    using Cons.hyps(1) [of "pop_datagram i r1"] r1(2) by simp
  then show ?case using pop one by (simp add: pop_datagram_def Let_def)
qed

lemma route_interfaces_spec:
  assumes "route_interfaces ks r = Inr r'" "\<forall>i \<in> set ks. i < length (rt_interfaces r)"
  shows "length (queues r') = length (queues r) \<and> rt_routing_table r' = rt_routing_table r \<and>
    (\<forall>i < length (queues r). queues r' ! i = (if i \<in> set ks then [] else queues r ! i))"
  using assms
proof (induction ks arbitrary: r)
  case Nil
  then show ?case by simp
next
  case (Cons k ks)
  from Cons.prems obtain r1 where r1: "route_queue k (queues r ! k) r = Inr r1" "route_interfaces ks r1 = Inr r'"
    by (auto simp: bindE_eq_Inr_iff queues_nth)
  from route_queue_spec [OF r1(1)] Cons.prems(2)
  have q: "queues r1 = (queues r)[k := []]" "rt_routing_table r1 = rt_routing_table r" by simp_all
  then have "length (rt_interfaces r1) = length (rt_interfaces r)" by (metis length_list_update length_queues)
  with Cons.IH [OF r1(2)] Cons.prems(2) q show ?case by (simp add: nth_list_update)
qed

section \<open>Routing never fails on a well-formed router\<close>

definition router_ok :: "router \<Rightarrow> bool" where
  "router_ok r \<longleftrightarrow> table_ok (rt_routing_table r) \<and>
     (\<forall>e \<in> set (rt_routing_table r). snd (snd e) < length (rt_interfaces r) \<and>
        (case route_hop e of None \<Rightarrow> True | Some a \<Rightarrow> is_ipv4 a)) \<and>
     (\<forall>a \<in> set (rt_interfaces r). is_ipv4 (ni_ip_address (an_interface a)) \<and>
        (\<forall>d \<in> set (an_datagrams_out a). dgram_ok d))"

text \<open>The target of any lookup is one of the table, whether or not it is the best.\<close>

lemma find_route_target:
  assumes "table_ok t" "longest \<noteq> 0 \<Longrightarrow> \<forall>e \<in> set t. route_len e \<noteq> 0"
  shows "\<exists>res. find_route dst longest best t = Inr res \<and>
     (res = best \<or> (\<exists>e \<in> set t. res = Some (route_target dst e)))"
  using assms
proof (induction t arbitrary: longest best)
  case Nil
  then show ?case by simp
next
  case (Cons e t)
  obtain p l hop i where e: "e = ((p, l), (hop, i))" by (metis surj_pair)
  have applies: "route_applies dst longest p l = Inr (matches dst e \<and> longest \<le> route_len e)"
    using route_applies_eq [of e longest dst] Cons.prems by (simp add: e)
  have IH: "\<exists>res. find_route dst m b t = Inr res \<and> (res = b \<or> (\<exists>e \<in> set t. res = Some (route_target dst e)))"
    if "m = longest \<or> m = route_len e" for m b
    using Cons.IH [of m b] Cons.prems that by auto
  show ?case
  proof (cases "matches dst e \<and> longest \<le> route_len e")
    case True
    then have "route_applies dst longest p l = Inr True" unfolding applies by simp
    then show ?thesis
      using IH [of "route_len e" "Some (route_target dst e)"]
      by (cases hop) (auto simp: e route_target_def)
  next
    case False
    then have "route_applies dst longest p l = Inr False" unfolding applies by simp
    then show ?thesis using IH [of longest best] by (auto simp: e)
  qed
qed

lemma route_one_total:
  assumes "router_ok r" "dgram_ok d"
  obtains r' where "Router_route_one_datagram d r = Inr r'" "router_ok r'"
    "rt_routing_table r' = rt_routing_table r" "queues r' = queues r"
proof (cases "ip_ttl (dg_header d) \<le> 1")
  case True
  then have "Router_route_one_datagram d r = Inr r" by (simp add: Router_route_one_datagram_def Let_def)
  then show ?thesis by (rule that) (use assms(1) in simp_all)
next
  case False
  let ?d = "d\<lparr>dg_header := (dg_header d)\<lparr>ip_ttl := ip_ttl (dg_header d) - 1\<rparr>\<rparr>"
  let ?dst = "ip_dst (dg_header d)"
  obtain best where best: "find_route ?dst 0 None (rt_routing_table r) = Inr best"
    "best = None \<or> (\<exists>e \<in> set (rt_routing_table r). best = Some (route_target ?dst e))"
    using find_route_target [of "rt_routing_table r" 0 ?dst None] assms(1) by (auto simp: router_ok_def)
  show ?thesis
  proof (cases best)
    case None
    then have "Router_route_one_datagram d r = Inr r"
      using False best(1) by (simp add: Router_route_one_datagram_def Let_def)
    then show ?thesis by (rule that) (use assms(1) in simp_all)
  next
    case (Some p)
    with best(2) obtain e where e: "e \<in> set (rt_routing_table r)" "best = Some (route_target ?dst e)" by auto
    obtain addr k where target: "route_target ?dst e = (addr, k)" by (metis surj_pair)
    have k: "k < length (rt_interfaces r)" and hop: "is_ipv4 addr"
      using assms(1) e(1) target by (auto simp: router_ok_def route_target_def split: option.splits)
    let ?a = "rt_interfaces r ! k"
    have a: "?a \<in> set (rt_interfaces r)" using k by simp
    then have "is_ipv4 (ni_ip_address (an_interface ?a))" using assms(1) by (simp add: router_ok_def)
    with hop assms(2) obtain ni where ni: "NetworkInterface_send_datagram ?d addr (an_interface ?a) = Inr ni"
      "ni_ip_address ni = ni_ip_address (an_interface ?a)"
      by (auto intro: send_keeps [of addr ?d "an_interface ?a"])
    let ?r = "r\<lparr>rt_interfaces := (rt_interfaces r)[k := ?a\<lparr>an_interface := ni\<rparr>]\<rparr>"
    have run: "Router_route_one_datagram d r = Inr ?r"
      using False best(1) e(2) target k ni(1)
      by (simp add: Router_route_one_datagram_def Let_def Router_interface_def)
    moreover have "router_ok ?r"
      using assms(1) a ni(2) by (auto simp: router_ok_def dest!: set_update_subset_insert [THEN subsetD])
    ultimately show ?thesis using queues_route_one [OF run] by (intro that [of ?r]) simp_all
  qed
qed

lemma router_ok_pop: "router_ok r \<Longrightarrow> i < length (rt_interfaces r) \<Longrightarrow> router_ok (pop_datagram i r)"
  by (auto simp: router_ok_def pop_datagram_def Let_def dest!: set_update_subset_insert [THEN subsetD]
      dest: list.set_sel(2) [rotated])
    (metis (no_types, lifting) list.sel(2) list.set_sel(2) nth_mem)

lemma route_queue_total:
  assumes "router_ok r" "i < length (rt_interfaces r)" "\<forall>d \<in> set q. dgram_ok d"
  shows "\<exists>r'. route_queue i q r = Inr r' \<and> router_ok r' \<and> length (rt_interfaces r') = length (rt_interfaces r)"
  using assms
proof (induction q arbitrary: r)
  case Nil
  then show ?case by simp
next
  case (Cons d q)
  then obtain r1 where r1: "Router_route_one_datagram d r = Inr r1" "router_ok r1" "queues r1 = queues r"
    by (metis list.set_intros(1) route_one_total)
  then have len: "length (rt_interfaces r1) = length (rt_interfaces r)" by (metis length_queues)
  have "\<exists>r'. route_queue i q (pop_datagram i r1) = Inr r' \<and> router_ok r' \<and>
      length (rt_interfaces r') = length (rt_interfaces (pop_datagram i r1))"
    using Cons.IH [of "pop_datagram i r1"] Cons.prems router_ok_pop [OF r1(2)] len
    by (simp add: pop_datagram_def Let_def)
  then show ?case using r1(1) len by (simp add: pop_datagram_def Let_def)
qed

lemma route_interfaces_total:
  assumes "router_ok r" "\<forall>i \<in> set ks. i < length (rt_interfaces r)"
  shows "\<exists>r'. route_interfaces ks r = Inr r' \<and> router_ok r'"
  using assms
proof (induction ks arbitrary: r)
  case Nil
  then show ?case by simp
next
  case (Cons k ks)
  have "\<forall>d \<in> set (an_datagrams_out (rt_interfaces r ! k)). dgram_ok d"
    using Cons.prems by (auto simp: router_ok_def)
  with route_queue_total [of r k "an_datagrams_out (rt_interfaces r ! k)"] Cons.prems obtain r1 where
    "route_queue k (an_datagrams_out (rt_interfaces r ! k)) r = Inr r1" "router_ok r1"
    "length (rt_interfaces r1) = length (rt_interfaces r)"
    by auto
  then show ?case using Cons.IH [of r1] Cons.prems by simp
qed

lemma map_of_snoc: "map_of t k = None \<Longrightarrow> map_of (t @ [(k, v)]) = (map_of t)(k \<mapsto> v)"
  by (induction t) (auto split: if_splits)

lemma replace_route_None: "replace_route p l hop t = None \<longleftrightarrow> map_of t (p, l) = None"
  by (induction p l hop t rule: replace_route.induct) auto

lemma replace_route_Some:
  "replace_route p l hop t = Some t' \<Longrightarrow> map fst t' = map fst t \<and>
     map_of t' = (map_of t)((p, l) \<mapsto> (hop, case map_of t (p, l) of None \<Rightarrow> i | Some (_, old) \<Rightarrow> old))"
  by (induction p l hop t arbitrary: t' rule: replace_route.induct) (auto split: if_splits option.splits)

section \<open>Properties\<close>

text \<open>
  C17: longest prefix match: on a table whose default routes come first and where no route to a
  directly attached network is shorter than another route that matches, a datagram with time to
  live is sent, with its time to live decremented, on the interface and to the next hop (its own
  destination for a direct route) of a route that matches and than which no matching one is longer;
  when no route matches it is dropped.
\<close>

theorem Router_longest_prefix_match:
  assumes "table_ok (rt_routing_table r)" "direct_routes_longest (ip_dst (dg_header d)) (rt_routing_table r)"
    and "1 < ip_ttl (dg_header d)"
  shows "if \<exists>e \<in> set (rt_routing_table r). matches (ip_dst (dg_header d)) e
     then \<exists>e. best_route (ip_dst (dg_header d)) (rt_routing_table r) e \<and>
       Router_route_one_datagram d r =
         (let (hop, i) = route_target (ip_dst (dg_header d)) e
          in bindE (Router_interface i r) (\<lambda>a.
               bindE (NetworkInterface_send_datagram
                  (d\<lparr>dg_header := (dg_header d)\<lparr>ip_ttl := ip_ttl (dg_header d) - 1\<rparr>\<rparr>) hop (an_interface a))
                 (\<lambda>ni. Inr (r\<lparr>rt_interfaces := (rt_interfaces r)[i := a\<lparr>an_interface := ni\<rparr>]\<rparr>))))
     else Router_route_one_datagram d r = Inr r"
proof -
  let ?dst = "ip_dst (dg_header d)"
  have ttl: "\<not> ip_ttl (dg_header d) \<le> 1" using assms(3) by (simp add: not_le)
  obtain res where res: "find_route ?dst 0 None (rt_routing_table r) = Inr res"
    "if \<exists>e \<in> set (rt_routing_table r). matches ?dst e
     then \<exists>e. best_route ?dst (rt_routing_table r) e \<and> res = Some (route_target ?dst e) else res = None"
    using find_route_best [of "rt_routing_table r" 0 ?dst None] assms(1,2) by auto
  show ?thesis
  proof (cases "\<exists>e \<in> set (rt_routing_table r). matches ?dst e")
    case True
    with res(2) obtain e where "best_route ?dst (rt_routing_table r) e" "res = Some (route_target ?dst e)" by auto
    then show ?thesis
      unfolding if_P [OF True] using res(1) ttl
      by (intro exI [of _ e]) (simp add: Router_route_one_datagram_def Let_def split_beta)
  next
    case False
    then show ?thesis
      unfolding if_not_P [OF False] using res ttl by (simp add: Router_route_one_datagram_def Let_def)
  qed
qed

definition demo_interface :: "byte \<Rightarrow> async_network_interface" where
  "demo_interface n = AsyncNetworkInterface
     (NetworkInterface [2, 0, 0, 0, 0, n] (Address_from_ipv4_numeric (0x0a000000 + ucast n)))"

definition demo_datagram :: "u32 \<Rightarrow> ipv4_datagram" where
  "demo_datagram dst = \<lparr>dg_header = IPv4Header\<lparr>ip_len := 20, ip_dst := dst\<rparr>, dg_payload = BufferList_default\<rparr>"

lemma demo_datagram_ok: "dgram_ok (demo_datagram dst)" "ip_ttl (dg_header (demo_datagram dst)) = 128"
  "ip_dst (dg_header (demo_datagram dst)) = dst"
  by (simp_all add: dgram_ok_def demo_datagram_def ip_wf_def IPv4Header_def BufferList_size_concatenate
      DEFAULT_TTL_def)

definition demo_router :: router where
  "demo_router = \<lparr>rt_interfaces = [demo_interface 1, demo_interface 2],
     rt_routing_table = [((0, 0), (Some (Address_from_ipv4_numeric 0x0a000009), 0)),
                         ((0x0b000000, 8), (None, 1))]\<rparr>"

theorem Router_longest_prefix_match_witness:
  "Router_route_one_datagram (demo_datagram 0x0b000007) demo_router =
     bindE (NetworkInterface_send_datagram
        ((demo_datagram 0x0b000007)\<lparr>dg_header := (dg_header (demo_datagram 0x0b000007))\<lparr>ip_ttl := 127\<rparr>\<rparr>)
        (Address_from_ipv4_numeric 0x0b000007) (an_interface (demo_interface 2)))
       (\<lambda>ni. Inr (demo_router\<lparr>rt_interfaces := [demo_interface 1, (demo_interface 2)\<lparr>an_interface := ni\<rparr>]\<rparr>))"
proof -
  let ?e = "((0x0b000000, 8), (None, 1)) :: route" and ?t = "rt_routing_table demo_router"
  have t: "?t = [((0, 0), (Some (Address_from_ipv4_numeric 0x0a000009), 0)), ?e]" by (simp add: demo_router_def)
  have m: "matches 0x0b000007 ?e" by (simp add: matches_def drop_bit_eq_div word_unat_eq_iff unat_div)
  have "e = ?e" if "best_route 0x0b000007 ?t e" for e
    using that m by (auto simp: best_route_def t)
  then have unique: "best_route 0x0b000007 ?t e \<Longrightarrow> e = ?e" for e by blast
  have "table_ok ?t" "direct_routes_longest 0x0b000007 ?t"
    by (auto simp: t direct_routes_longest_def)
  moreover have ex: "\<exists>e \<in> set ?t. matches 0x0b000007 e" using m by (simp add: t)
  ultimately obtain e where "best_route 0x0b000007 ?t e" "Router_route_one_datagram (demo_datagram 0x0b000007) demo_router =
      (let (hop, i) = route_target 0x0b000007 e
       in bindE (Router_interface i demo_router) (\<lambda>a. bindE (NetworkInterface_send_datagram
           ((demo_datagram 0x0b000007)\<lparr>dg_header := (dg_header (demo_datagram 0x0b000007))\<lparr>ip_ttl := 127\<rparr>\<rparr>)
             hop (an_interface a))
           (\<lambda>ni. Inr (demo_router\<lparr>rt_interfaces := (rt_interfaces demo_router)[i := a\<lparr>an_interface := ni\<rparr>]\<rparr>))))"
    using Router_longest_prefix_match [of demo_router "demo_datagram 0x0b000007"]
    by (auto simp: demo_datagram_ok)
  then show ?thesis
    using unique [of e] by (simp add: route_target_def Router_interface_def demo_router_def)
qed

text \<open>
  A direct route hides every longer route after it: the loop leaves at the first direct route
  that matches, so whatever routes follow, also longer matching ones, the datagram goes out on the
  direct route's interface with its own destination as the next hop.
\<close>

theorem Router_direct_route_hides_longer:
  assumes "1 \<le> len" "len \<le> 32" "matches (ip_dst (dg_header d)) ((prefix, len), (None, i))"
    and "1 < ip_ttl (dg_header d)"
    and "rt_routing_table r = ((prefix, len), (None, i)) # later"
  shows "Router_route_one_datagram d r =
     bindE (Router_interface i r) (\<lambda>a.
       bindE (NetworkInterface_send_datagram
          (d\<lparr>dg_header := (dg_header d)\<lparr>ip_ttl := ip_ttl (dg_header d) - 1\<rparr>\<rparr>)
          (Address_from_ipv4_numeric (ip_dst (dg_header d))) (an_interface a))
         (\<lambda>ni. Inr (r\<lparr>rt_interfaces := (rt_interfaces r)[i := a\<lparr>an_interface := ni\<rparr>]\<rparr>)))"
proof -
  have "route_applies (ip_dst (dg_header d)) 0 prefix len = Inr True"
    using route_applies_eq [of "((prefix, len), (None, i))" 0 "ip_dst (dg_header d)"] assms(2,3) by simp
  then show ?thesis
    using assms(4,5) by (simp add: Router_route_one_datagram_def Let_def not_le [symmetric])
qed

theorem Router_direct_route_hides_longer_witness:
  "let later = [((0x0b010000, 16), (Some (Address_from_ipv4_numeric 0x0a000009), 0))];
       t = ((0x0b000000, 8), (None, 1)) # later
   in (\<forall>e. best_route 0x0b010007 t e \<longrightarrow> snd (snd e) = 0) \<and>
      Router_route_one_datagram (demo_datagram 0x0b010007) (demo_router\<lparr>rt_routing_table := t\<rparr>) =
      bindE (Router_interface 1 demo_router) (\<lambda>a.
        bindE (NetworkInterface_send_datagram
          ((demo_datagram 0x0b010007)\<lparr>dg_header := (dg_header (demo_datagram 0x0b010007))\<lparr>ip_ttl := 127\<rparr>\<rparr>)
          (Address_from_ipv4_numeric 0x0b010007) (an_interface a))
        (\<lambda>ni. Inr (demo_router\<lparr>rt_routing_table := t,
            rt_interfaces := (rt_interfaces demo_router)[1 := a\<lparr>an_interface := ni\<rparr>]\<rparr>)))"
proof -
  let ?e = "((0x0b000000, 8), (None, 1)) :: route"
  let ?later = "[((0x0b010000, 16), (Some (Address_from_ipv4_numeric 0x0a000009), 0))] :: route list"
  have m: "matches 0x0b010007 ?e" "matches 0x0b010007 (hd ?later)"
    by (simp_all add: matches_def drop_bit_eq_div word_unat_eq_iff unat_div)
  then have "\<forall>e. best_route 0x0b010007 (?e # ?later) e \<longrightarrow> snd (snd e) = 0"
    by (auto simp: best_route_def)
  moreover have "Router_interface 1 (demo_router\<lparr>rt_routing_table := t\<rparr>) = Router_interface 1 demo_router" for t
    by (simp add: Router_interface_def)
  ultimately show ?thesis
    using Router_direct_route_hides_longer [of 8 "demo_datagram 0x0b010007" "0x0b000000" 1
        "demo_router\<lparr>rt_routing_table := ?e # ?later\<rparr>" ?later] m(1)
    by (simp add: demo_datagram_ok Let_def)
qed

text \<open>
  \<^verbatim>\<open>add_route\<close> keeps at most one route per prefix and length, and the table as a map from them
  to the next hop and interface changes only there; but for a prefix and length it already has, the
  interface it was given is ignored and the old one stays.
\<close>

theorem Router_add_route_spec:
  assumes "distinct (map fst (rt_routing_table r))"
  shows "distinct (map fst (rt_routing_table (Router_add_route p l hop i r))) \<and>
    map_of (rt_routing_table (Router_add_route p l hop i r)) = (map_of (rt_routing_table r))((p, l) \<mapsto>
      (hop, case map_of (rt_routing_table r) (p, l) of None \<Rightarrow> i | Some (_, old) \<Rightarrow> old))"
proof (cases "replace_route p l hop (rt_routing_table r)")
  case None
  then have none: "map_of (rt_routing_table r) (p, l) = None" by (simp add: replace_route_None)
  then have "(p, l) \<notin> fst ` set (rt_routing_table r)" by (simp add: map_of_eq_None_iff)
  then show ?thesis
    using None none assms by (simp add: Router_add_route_def map_of_snoc del: map_of_append)
next
  case (Some t)
  from replace_route_Some [OF this] show ?thesis using Some assms by (auto simp: Router_add_route_def)
qed

theorem Router_add_route_spec_witness:
  "let r = Router_add_route 7 8 None 5 (Router_add_route 7 8 None 3 Router)
   in distinct (map fst (rt_routing_table r)) \<and> map_of (rt_routing_table r) (7, 8) = Some (None, 3)"
proof -
  let ?r = "Router_add_route 7 8 None 3 Router"
  have "distinct (map fst (rt_routing_table ?r))" "map_of (rt_routing_table ?r) (7, 8) = Some (None, 3)"
    by (simp_all add: Router_add_route_def Router_def)
  then show ?thesis using Router_add_route_spec [of ?r 7 8 None 5] by simp
qed

text \<open>
  C22: \<^verbatim>\<open>route\<close> ends and moves everything: on a router whose table and datagrams are well formed and
  whose addresses are IPv4 it returns without an exception, every queue of received datagrams is
  then empty, the table is as before and the router is still well formed.
\<close>

theorem Router_route_total:
  assumes "router_ok r"
  shows "\<exists>r'. Router_route r = Inr r' \<and> router_ok r' \<and> rt_routing_table r' = rt_routing_table r \<and>
     length (rt_interfaces r') = length (rt_interfaces r) \<and>
     (\<forall>a \<in> set (rt_interfaces r'). an_datagrams_out a = [])"
proof -
  obtain r' where r': "Router_route r = Inr r'" "router_ok r'"
    using route_interfaces_total [OF assms, of "[0..<length (rt_interfaces r)]"] by (auto simp: Router_route_def)
  have "length (queues r') = length (queues r) \<and> rt_routing_table r' = rt_routing_table r \<and>
    (\<forall>i < length (queues r). queues r' ! i = [])"
    using route_interfaces_spec [OF r'(1) [unfolded Router_route_def]] by simp
  with r' show ?thesis by (auto simp: in_set_conv_nth queues_nth)
qed

theorem Router_route_total_witness:
  "\<exists>r'. Router_route (demo_router\<lparr>rt_interfaces := [demo_interface 1,
      (demo_interface 2)\<lparr>an_datagrams_out := [demo_datagram 0x0b000007]\<rparr>]\<rparr>) = Inr r' \<and>
    (\<forall>a \<in> set (rt_interfaces r'). an_datagrams_out a = [])"
proof -
  let ?r = "demo_router\<lparr>rt_interfaces := [demo_interface 1,
      (demo_interface 2)\<lparr>an_datagrams_out := [demo_datagram 0x0b000007]\<rparr>]\<rparr>"
  have "router_ok ?r"
    by (simp add: router_ok_def demo_router_def demo_interface_def AsyncNetworkInterface_def
        NetworkInterface_def demo_datagram_ok)
  from Router_route_total [OF this] show ?thesis by blast
qed

end
