(* ===== verification/File_Descriptor.thy ===== *)
theory File_Descriptor
  imports Address Internet_Checksum
begin

text \<open>
  \<^verbatim>\<open>FileDescriptor\<close> and the sockets (\<^verbatim>\<open>util/file_descriptor.hh\<close>, \<^verbatim>\<open>.cc\<close>, \<^verbatim>\<open>util/socket.hh\<close>, \<^verbatim>\<open>.cc\<close>): thin
  wrappers around system calls. A system call is a parameter, the function from its arguments to
  its return value and \<^verbatim>\<open>errno\<close> (and what it delivers); what reaches the kernel by writing is part
  of the result. The handle shared by the copies of a \<^verbatim>\<open>FileDescriptor\<close> is the record of its state.
\<close>

section \<open>State\<close>

record fd_wrapper =
  fd_num :: int
  fd_eof :: bool
  fd_closed :: bool
  fd_read_count :: nat
  fd_write_count :: nat

definition FDWrapper :: "int \<Rightarrow> exn + fd_wrapper" where
  "FDWrapper fd =
     (if fd < 0 then Inl (Runtime_error ''invalid fd number'')
      else Inr \<lparr>fd_num = fd, fd_eof = False, fd_closed = False, fd_read_count = 0, fd_write_count = 0\<rparr>)"

text \<open>Return value and \<^verbatim>\<open>errno\<close>; \<^verbatim>\<open>SystemCall\<close> with the default mask.\<close>

type_synonym sysret = "int \<times> int"

definition syscall :: "string \<Rightarrow> sysret \<Rightarrow> exn + int" where
  "syscall attempt r = SystemCall (snd r) attempt (fst r) 0"

definition FDWrapper_close :: "sysret \<Rightarrow> fd_wrapper \<Rightarrow> exn + fd_wrapper" where
  "FDWrapper_close close fd =
     bindE (syscall ''close'' close) (\<lambda>_. Inr (fd\<lparr>fd_eof := True, fd_closed := True\<rparr>))"

text \<open>The destructor swallows the exception of \<^verbatim>\<open>close\<close>; the result is the state of the descriptor.\<close>

definition FDWrapper_destroy :: "sysret \<Rightarrow> fd_wrapper \<Rightarrow> fd_wrapper" where
  "FDWrapper_destroy close fd =
     (if fd_closed fd then fd
      else case FDWrapper_close close fd of Inl _ \<Rightarrow> fd | Inr fd' \<Rightarrow> fd')"

definition register_read :: "fd_wrapper \<Rightarrow> fd_wrapper" where
  "register_read fd = fd\<lparr>fd_read_count := inc32 (fd_read_count fd)\<rparr>"

definition register_write :: "fd_wrapper \<Rightarrow> fd_wrapper" where
  "register_write fd = fd\<lparr>fd_write_count := inc32 (fd_write_count fd)\<rparr>"

section \<open>Reading and writing\<close>

definition BUFFER_SIZE :: nat where "BUFFER_SIZE = 1024 * 1024"

text \<open>\<open>read n\<close> is what \<^verbatim>\<open>read(2)\<close> of \<open>n\<close> bytes returns and delivers; \<^verbatim>\<open>resize\<close> of a negative size throws.\<close>

definition FileDescriptor_read ::
    "(nat \<Rightarrow> sysret \<times> bytes) \<Rightarrow> nat \<Rightarrow> fd_wrapper \<Rightarrow> exn + bytes \<times> fd_wrapper" where
  "FileDescriptor_read read_call limit fd =
     (let size_to_read = min BUFFER_SIZE limit;
          (ret, delivered) = read_call size_to_read
      in bindE (syscall ''read'' ret) (\<lambda>bytes_read.
           let fd = (if limit > 0 \<and> bytes_read = 0 then fd\<lparr>fd_eof := True\<rparr> else fd)
           in if bytes_read > int size_to_read then Inl (Runtime_error ''read() read more than requested'')
              else if bytes_read < 0 then Inl (Runtime_error ''basic_string::resize'')
              else Inr (resize (nat bytes_read) delivered, register_read fd)))"

declare bindE_cong [fundef_cong]

text \<open>
  The loop of \<^verbatim>\<open>write\<close>: \<open>writev k iovecs\<close> is what the \<open>k\<close>-th \<^verbatim>\<open>writev(2)\<close> returns. The bytes the
  kernel took are collected in \<open>out\<close>.
\<close>

function write_loop :: "(nat \<Rightarrow> bytes list \<Rightarrow> sysret) \<Rightarrow> bool \<Rightarrow> nat \<Rightarrow> buffer_view_list \<Rightarrow> nat \<Rightarrow> bytes \<Rightarrow>
    fd_wrapper \<Rightarrow> exn + nat \<times> bytes \<times> fd_wrapper" where
  "write_loop writev write_all k buffer written out fd =
     bindE (syscall ''writev'' (writev k (BufferViewList_as_iovecs buffer))) (\<lambda>bytes_written.
       if bytes_written = 0 \<and> BufferViewList_size buffer \<noteq> 0
       then Inl (Runtime_error ''write returned 0 given non-empty input buffer'')
       else if bytes_written > int (BufferViewList_size buffer)
       then Inl (Runtime_error ''write wrote more than length of input buffer'')
       else if bytes_written < 0 then Inl (Out_of_range ''BufferListView::remove_prefix'')
       else
         bindE (BufferViewList_remove_prefix (nat bytes_written) buffer) (\<lambda>rest.
           if write_all \<and> BufferViewList_size rest \<noteq> 0
           then write_loop writev write_all (Suc k) rest (written + nat bytes_written)
             (out @ take (nat bytes_written) (concat (BufferViewList_as_iovecs buffer))) (register_write fd)
           else Inr (written + nat bytes_written,
             out @ take (nat bytes_written) (concat (BufferViewList_as_iovecs buffer)), register_write fd)))"
  by pat_completeness auto
termination
proof (relation "measure (\<lambda>(_, _, _, buffer, _). BufferViewList_size buffer)")
  fix writev :: "nat \<Rightarrow> bytes list \<Rightarrow> sysret" and write_all :: bool and k written :: nat and out :: bytes and fd :: fd_wrapper
  fix buffer rest :: buffer_view_list and n :: int
  assume n: "\<not> (n = 0 \<and> BufferViewList_size buffer \<noteq> 0)" "\<not> n < 0"
    and rest: "BufferViewList_remove_prefix (nat n) buffer = Inr rest"
    and left: "write_all \<and> BufferViewList_size rest \<noteq> 0"
  have "BufferViewList_size rest = BufferViewList_size buffer - nat n"
    using buffer_views.discard_Inr [OF rest] by (simp add: BufferViewList_size_content)
  with n left show "((writev, write_all, Suc k, rest, written + nat n,
      out @ take (nat n) (concat (BufferViewList_as_iovecs buffer)), register_write fd),
     writev, write_all, k, buffer, written, out, fd) \<in> measure (\<lambda>(_, _, _, buffer, _). BufferViewList_size buffer)"
    by auto
qed simp

declare write_loop.simps [simp del]

definition FileDescriptor_write :: "(nat \<Rightarrow> bytes list \<Rightarrow> sysret) \<Rightarrow> buffer_view_list \<Rightarrow> bool \<Rightarrow> fd_wrapper \<Rightarrow>
    exn + nat \<times> bytes \<times> fd_wrapper" where
  "FileDescriptor_write writev buffer write_all fd = write_loop writev write_all 0 buffer 0 [] fd"

text \<open>The flags of the descriptor as \<^verbatim>\<open>fcntl(2)\<close> gives them; the flags that are set are the result.\<close>

definition O_NONBLOCK :: u32 where "O_NONBLOCK = 0x800"

definition FileDescriptor_set_blocking :: "sysret \<Rightarrow> (u32 \<Rightarrow> sysret) \<Rightarrow> bool \<Rightarrow> exn + u32" where
  "FileDescriptor_set_blocking getfl setfl blocking_state =
     bindE (syscall ''fcntl'' getfl) (\<lambda>r.
       let flags = word_of_int r;
           flags = (if blocking_state then xor flags (and flags O_NONBLOCK) else or flags O_NONBLOCK)
       in bindE (syscall ''fcntl'' (setfl flags)) (\<lambda>_. Inr flags))"

lemma set_blocking_sets: "and (xor flags (and flags O_NONBLOCK)) O_NONBLOCK = 0"
  "and (or flags O_NONBLOCK) O_NONBLOCK = O_NONBLOCK"
  by (rule bit_eqI; auto simp: bit_simps)+

section \<open>Sockets\<close>

definition Socket :: "sysret \<Rightarrow> exn + fd_wrapper" where
  "Socket socket = bindE (syscall ''socket'' socket) FDWrapper"

text \<open>Adopting a descriptor: \<^verbatim>\<open>getsockopt(2)\<close> gives its domain and type, with their lengths.\<close>

definition Socket_of_fd :: "sysret \<times> int \<times> nat \<Rightarrow> sysret \<times> int \<times> nat \<Rightarrow> int \<Rightarrow> int \<Rightarrow> fd_wrapper \<Rightarrow> exn + fd_wrapper" where
  "Socket_of_fd so_domain so_type domain type fd =
     bindE (syscall ''getsockopt'' (fst so_domain)) (\<lambda>_.
     if snd (snd so_domain) \<noteq> 4 \<or> fst (snd so_domain) \<noteq> domain
     then Inl (Runtime_error ''socket domain mismatch'')
     else
       bindE (syscall ''getsockopt'' (fst so_type)) (\<lambda>_.
       if snd (snd so_type) \<noteq> 4 \<or> fst (snd so_type) \<noteq> type
       then Inl (Runtime_error ''socket type mismatch'')
       else Inr fd))"

definition Socket_get_address :: "string \<Rightarrow> sysret \<times> bytes \<times> nat \<Rightarrow> exn + address" where
  "Socket_get_address name_of_function result =
     bindE (syscall name_of_function (fst result)) (\<lambda>_. Address_of_sockaddr (fst (snd result)) (snd (snd result)))"

definition Socket_bind :: "(bytes \<Rightarrow> sysret) \<Rightarrow> address \<Rightarrow> exn + unit" where
  "Socket_bind bind_call address =
     bindE (syscall ''bind'' (bind_call (take (ad_size address) (ad_storage address)))) (\<lambda>_. Inr ())"

definition Socket_connect :: "(bytes \<Rightarrow> sysret) \<Rightarrow> address \<Rightarrow> exn + unit" where
  "Socket_connect connect_call address =
     bindE (syscall ''connect'' (connect_call (take (ad_size address) (ad_storage address)))) (\<lambda>_. Inr ())"

datatype shutdown_how = SHUT_RD | SHUT_WR | SHUT_RDWR | SHUT_other int

definition Socket_shutdown :: "(shutdown_how \<Rightarrow> sysret) \<Rightarrow> shutdown_how \<Rightarrow> fd_wrapper \<Rightarrow> exn + fd_wrapper" where
  "Socket_shutdown shutdown how fd =
     bindE (syscall ''shutdown'' (shutdown how)) (\<lambda>_.
       case how of
         SHUT_RD \<Rightarrow> Inr (register_read fd)
       | SHUT_WR \<Rightarrow> Inr (register_write fd)
       | SHUT_RDWR \<Rightarrow> Inr (register_write (register_read fd))
       | SHUT_other _ \<Rightarrow> Inl (Runtime_error ''Socket::shutdown() called with invalid `how`''))"

text \<open>
  A received datagram: return value, the bytes in the buffer, the sender's socket address and its
  length, as \<^verbatim>\<open>recvfrom(2)\<close> with \<^verbatim>\<open>MSG_TRUNC\<close> delivers them.
\<close>

definition UDPSocket_recv ::
    "(nat \<Rightarrow> sysret \<times> bytes \<times> bytes \<times> nat) \<Rightarrow> nat \<Rightarrow> fd_wrapper \<Rightarrow> exn + (address \<times> bytes) \<times> fd_wrapper" where
  "UDPSocket_recv recvfrom mtu fd =
     (let (ret, payload, source, fromlen) = recvfrom mtu
      in bindE (syscall ''recvfrom'' ret) (\<lambda>recv_len.
         if recv_len > int mtu then Inl (Runtime_error ''recvfrom (oversized datagram)'')
         else
           bindE (Address_of_sockaddr source fromlen) (\<lambda>source_address.
             if recv_len < 0 then Inl (Runtime_error ''basic_string::resize'')
             else Inr ((source_address, resize (nat recv_len) payload), register_read fd))))"

definition sendmsg_helper :: "(bytes option \<Rightarrow> bytes list \<Rightarrow> sysret) \<Rightarrow> bytes option \<Rightarrow> buffer_view_list \<Rightarrow> exn + unit" where
  "sendmsg_helper sendmsg destination_address payload =
     bindE (syscall ''sendmsg'' (sendmsg destination_address (BufferViewList_as_iovecs payload))) (\<lambda>bytes_sent.
       if nat (bytes_sent mod 2 ^ 64) \<noteq> BufferViewList_size payload
       then Inl (Runtime_error ''datagram payload too big for sendmsg()'')
       else Inr ())"

definition UDPSocket_sendto ::
    "(bytes option \<Rightarrow> bytes list \<Rightarrow> sysret) \<Rightarrow> address \<Rightarrow> buffer_view_list \<Rightarrow> fd_wrapper \<Rightarrow> exn + fd_wrapper" where
  "UDPSocket_sendto sendmsg destination payload fd =
     bindE (sendmsg_helper sendmsg (Some (take (ad_size destination) (ad_storage destination))) payload)
       (\<lambda>_. Inr (register_write fd))"

definition UDPSocket_send ::
    "(bytes option \<Rightarrow> bytes list \<Rightarrow> sysret) \<Rightarrow> buffer_view_list \<Rightarrow> fd_wrapper \<Rightarrow> exn + fd_wrapper" where
  "UDPSocket_send sendmsg payload fd =
     bindE (sendmsg_helper sendmsg None payload) (\<lambda>_. Inr (register_write fd))"

definition TCPSocket_listen :: "(int \<Rightarrow> sysret) \<Rightarrow> int \<Rightarrow> exn + unit" where
  "TCPSocket_listen listen backlog = bindE (syscall ''listen'' (listen backlog)) (\<lambda>_. Inr ())"

text \<open>The counter of the listening socket, and the descriptor of the new connection.\<close>

definition TCPSocket_accept ::
    "sysret \<Rightarrow> sysret \<times> int \<times> nat \<Rightarrow> sysret \<times> int \<times> nat \<Rightarrow> int \<Rightarrow> int \<Rightarrow> fd_wrapper \<Rightarrow> exn + fd_wrapper \<times> fd_wrapper" where
  "TCPSocket_accept accept so_domain so_type AF_INET SOCK_STREAM fd =
     (let fd = register_read fd
      in bindE (syscall ''accept'' accept) (\<lambda>n.
         bindE (FDWrapper n) (\<lambda>new.
         bindE (Socket_of_fd so_domain so_type AF_INET SOCK_STREAM new) (\<lambda>new. Inr (fd, new)))))"

section \<open>Writing everything\<close>

lemma write_loop_spec:
  assumes "write_loop writev write_all k buffer written out fd = Inr (n, out', fd')"
  shows "\<exists>m. n = written + m \<and> m \<le> BufferViewList_size buffer \<and> out' = out @ take m (views_content buffer) \<and>
    (write_all \<longrightarrow> m = BufferViewList_size buffer) \<and> fd_eof fd' = fd_eof fd \<and> fd_closed fd' = fd_closed fd"
  using assms
proof (induction writev write_all k buffer written out fd rule: write_loop.induct)
  case (1 writev write_all k buffer written out fd)
  let ?call = "syscall ''writev'' (writev k (BufferViewList_as_iovecs buffer))"
  note unfolded = "1.prems" [unfolded write_loop.simps [of writev write_all k buffer written out fd]]
  obtain b where b1: "?call = Inr b" using unfolded by (cases ?call) simp_all
  note step = unfolded [unfolded b1 bindE_simps]
  have b2: "\<not> (b = 0 \<and> BufferViewList_size buffer \<noteq> 0)" by (rule notI) (use step in simp)
  note step = step [unfolded if_not_P [OF b2]]
  have b3: "\<not> int (BufferViewList_size buffer) < b" by (rule notI) (use step in simp)
  note step = step [unfolded if_not_P [OF b3]]
  have b4: "\<not> b < 0" by (rule notI) (use step in simp)
  note step = step [unfolded if_not_P [OF b4]]
  obtain rest where rest: "BufferViewList_remove_prefix (nat b) buffer = Inr rest"
    using step by (cases "BufferViewList_remove_prefix (nat b) buffer") simp_all
  note cont = step [unfolded rest bindE_simps as_iovecs_content]
  note b = b1 b2 b3 b4
  have le: "nat b \<le> BufferViewList_size buffer" using b by simp
  have content: "views_content rest = drop (nat b) (views_content buffer)"
    "BufferViewList_size rest = BufferViewList_size buffer - nat b"
    using buffer_views.discard_Inr [OF rest] by (simp_all add: BufferViewList_size_content)
  show ?case
  proof (cases "write_all \<and> BufferViewList_size rest \<noteq> 0")
    case True
    from "1.IH" [OF b rest True, unfolded as_iovecs_content, OF cont [unfolded if_P [OF True]]] obtain m where
      m: "n = written + nat b + m" "m \<le> BufferViewList_size rest"
        "out' = (out @ take (nat b) (views_content buffer)) @ take m (views_content rest)"
        "write_all \<longrightarrow> m = BufferViewList_size rest"
        "fd_eof fd' = fd_eof (register_write fd)" "fd_closed fd' = fd_closed (register_write fd)" by blast
    have "take (nat b + m) (views_content buffer) = take (nat b) (views_content buffer) @ take m (views_content rest)"
      unfolding content(1) by (rule take_add)
    then show ?thesis
      using m le content(2) by (intro exI [of _ "nat b + m"]) (simp add: register_write_def)
  next
    case False
    then show ?thesis
      using cont [unfolded if_not_P [OF False]] le content(2) False
      by (intro exI [of _ "nat b"]) (auto simp: register_write_def)
  qed
qed

text \<open>A kernel that takes at least one byte of those it is offered, and none of none.\<close>

definition takes_some :: "(nat \<Rightarrow> bytes list \<Rightarrow> sysret) \<Rightarrow> bool" where
  "takes_some writev \<longleftrightarrow> (\<forall>k v. fst (writev k v) \<le> int (length (concat v)) \<and>
     (if concat v = [] then fst (writev k v) = 0 else 1 \<le> fst (writev k v)))"

lemma write_loop_total:
  assumes "takes_some writev"
  shows "\<exists>r. write_loop writev write_all k buffer written out fd = Inr r"
  using assms
proof (induction writev write_all k buffer written out fd rule: write_loop.induct)
  case (1 writev write_all k buffer written out fd)
  define b where "b = fst (writev k (BufferViewList_as_iovecs buffer))"
  have bound: "0 \<le> b" "b \<le> int (BufferViewList_size buffer)" "BufferViewList_size buffer \<noteq> 0 \<longrightarrow> b \<noteq> 0"
    using "1.prems" [unfolded takes_some_def, THEN spec, THEN spec, of k "BufferViewList_as_iovecs buffer"]
    unfolding b_def [symmetric] as_iovecs_content BufferViewList_size_content by (auto split: if_splits)
  then have call: "syscall ''writev'' (writev k (BufferViewList_as_iovecs buffer)) = Inr b"
    by (simp add: syscall_def SystemCall_def b_def)
  obtain rest where rest: "BufferViewList_remove_prefix (nat b) buffer = Inr rest"
    using buffer_views.discard_ok [of "nat b" buffer] bound(1,2) by (fastforce simp: BufferViewList_size_content nat_le_iff)
  have ok: "\<not> (b = 0 \<and> BufferViewList_size buffer \<noteq> 0)" "\<not> int (BufferViewList_size buffer) < b" "\<not> b < 0"
    using bound by auto
  show ?case
    unfolding write_loop.simps [of writev write_all k buffer written out fd] call bindE_simps
      if_not_P [OF ok(1)] if_not_P [OF ok(2)] if_not_P [OF ok(3)] rest
    using "1.IH" [OF call ok rest _ "1.prems"] by simp
qed

section \<open>Properties\<close>

text \<open>
  \<^verbatim>\<open>FileDescriptor::write\<close> on a kernel that takes at least one byte per call returns, and the bytes
  the kernel has then taken, over however many calls and whatever the boundaries between the
  buffers, are the first bytes of the content, as many as the result says; with \<^verbatim>\<open>write_all\<close> they are
  all of it.
\<close>

theorem FileDescriptor_write_spec:
  assumes "takes_some writev"
  shows "\<exists>n fd'. FileDescriptor_write writev buffer write_all fd = Inr (n, take n (views_content buffer), fd') \<and>
    n \<le> BufferViewList_size buffer \<and> (write_all \<longrightarrow> n = BufferViewList_size buffer) \<and>
    fd_eof fd' = fd_eof fd \<and> fd_closed fd' = fd_closed fd"
proof -
  obtain n out fd' where w: "write_loop writev write_all 0 buffer 0 [] fd = Inr (n, out, fd')"
    using write_loop_total [OF assms, of write_all 0 buffer 0 "[]" fd] by (auto simp: split_paired_Ex)
  from write_loop_spec [OF this] show ?thesis using w by (auto simp: FileDescriptor_write_def)
qed

text \<open>A kernel that takes two bytes at a time.\<close>

definition demo_writev :: "nat \<Rightarrow> bytes list \<Rightarrow> sysret" where
  "demo_writev k v = (int (min 2 (length (concat v))), 0)"

lemma demo_writev_takes: "takes_some demo_writev"
  unfolding takes_some_def demo_writev_def
  by (simp add: min_def Suc_le_eq flip: length_greater_0_conv del: concat_eq_Nil_conv)

theorem FileDescriptor_write_spec_witness:
  "\<exists>fd'. FileDescriptor_write demo_writev (BufferViewList [[1, 2, 3], [], [4, 5]]) True
     \<lparr>fd_num = 3, fd_eof = False, fd_closed = False, fd_read_count = 0, fd_write_count = 0\<rparr> = Inr (5, [1, 2, 3, 4, 5], fd')"
proof -
  from FileDescriptor_write_spec [OF demo_writev_takes, of "BufferViewList [[1, 2, 3], [], [4, 5]]" True]
  show ?thesis by (simp add: BufferViewList_size_content views_content_def eval_nat_numeral) blast
qed

end
