(* ===== verification/Tcpdump.thy ===== *)
theory Tcpdump
  imports TCP_Segment
begin

text \<open>
  The packet dissector of \<^verbatim>\<open>apps/udp_tcpdump.cc\<close>, which looks for TCP segments in captured UDP datagrams, and
  \<^verbatim>\<open>hexdump\<close> (\<^verbatim>\<open>util/util.cc\<close>). A captured packet is the list of its \<^verbatim>\<open>caplen\<close> bytes; a read past its end is
  undefined behaviour. \<^verbatim>\<open>inet_ntop\<close> is a parameter (the number of bytes tells the address family);
  the capture itself (\<^verbatim>\<open>libpcap\<close>) and the command line are not modelled.
\<close>

section \<open>IP headers\<close>

definition byte_at :: "bytes \<Rightarrow> nat \<Rightarrow> exn + byte" where
  "byte_at data i = (if i < length data then Inr (data ! i) else Inl (Undefined_behaviour ''read past the packet''))"

definition inet_addr :: "(bytes \<Rightarrow> string option) \<Rightarrow> nat \<Rightarrow> bytes \<Rightarrow> nat \<Rightarrow> exn + string" where
  "inet_addr inet_ntop width data i =
     (if length data < i + width then Inl (Undefined_behaviour ''read past the packet'')
      else Inr (case inet_ntop (take width (drop i data)) of None \<Rightarrow> ''unknown'' | Some s \<Rightarrow> s))"

definition inet4_addr :: "(bytes \<Rightarrow> string option) \<Rightarrow> bytes \<Rightarrow> nat \<Rightarrow> exn + string" where
  "inet4_addr inet_ntop = inet_addr inet_ntop 4"

definition inet6_addr :: "(bytes \<Rightarrow> string option) \<Rightarrow> bytes \<Rightarrow> nat \<Rightarrow> exn + string" where
  "inet6_addr inet_ntop = inet_addr inet_ntop 16"

text \<open>The loop over the extension headers of IPv6; -1 when it gives up.\<close>

function next_headers :: "int \<Rightarrow> bytes \<Rightarrow> byte \<Rightarrow> int \<Rightarrow> exn + int" where
  "next_headers len data nxt data_offset =
     (if nxt = 0x11 then Inr data_offset
      else if nxt \<noteq> 0 \<and> nxt \<noteq> 43 \<and> nxt \<noteq> 60 then Inr (-1)
      else
        case byte_at data (nat data_offset) of Inl x \<Rightarrow> Inl x | Inr nxt \<Rightarrow>
        (case byte_at data (nat data_offset + 1) of Inl x \<Rightarrow> Inl x | Inr l \<Rightarrow>
        let data_offset = data_offset + 8 * (1 + uint l)
        in if len < data_offset + 2 then Inr (-1) else next_headers len data nxt data_offset))"
  by pat_completeness auto
termination
proof (relation "measure (\<lambda>(len, _, _, data_offset). nat (len - data_offset))")
  fix len data_offset x :: int and data :: bytes and nxt b l :: byte
  assume x: "x = data_offset + 8 * (1 + uint l)" "\<not> len < x + 2"
  define n where "n = uint l"
  have "0 \<le> n" by (simp add: n_def)
  then have "len - x < len - data_offset" "0 < len - data_offset" using x by (simp_all add: n_def [symmetric])
  then have "nat (len - x) < nat (len - data_offset)" by (simp only: zless_nat_conj)
  then show "((len, data, b, x), (len, data, nxt, data_offset)) \<in> measure (\<lambda>(len, _, _, data_offset). nat (len - data_offset))"
    by simp
qed simp

declare next_headers.simps [simp del]

definition process_ipv4_ipv6 :: "(bytes \<Rightarrow> string option) \<Rightarrow> int \<Rightarrow> bytes \<Rightarrow> exn + int \<times> string \<times> string" where
  "process_ipv4_ipv6 inet_ntop len data =
     (if len < 1 then Inr (-1, [], [])
      else
        bindE (byte_at data 0) (\<lambda>b.
        let pt = and b 0xf0 in
        if pt = 0x40 then
          let data_offset = int (unat (and b 0x0f) * 4) in
          if len < data_offset then Inr (-1, [], [])
          else
            bindE (byte_at data 9) (\<lambda>proto.
            if proto \<noteq> 0x11 then Inr (-1, [], [])
            else
              bindE (inet4_addr inet_ntop data 12) (\<lambda>src_addr.
              bindE (inet4_addr inet_ntop data 16) (\<lambda>dst_addr.
                Inr (data_offset + 8, src_addr, dst_addr))))
        else if pt = 0x60 then
          if len < 42 then Inr (-1, [], [])
          else
            bindE (byte_at data 6) (\<lambda>nxt.
            bindE (next_headers len data nxt 40) (\<lambda>data_offset.
            if data_offset = -1 then Inr (-1, [], [])
            else
              bindE (inet6_addr inet_ntop data 8) (\<lambda>src_addr.
              bindE (inet6_addr inet_ntop data 24) (\<lambda>dst_addr.
                Inr (data_offset + 8, src_addr, dst_addr)))))
        else Inr (-1, [], [])))"

section \<open>One packet\<close>

datatype link_type = DLT_RAW | DLT_NULL | DLT_EN10MB | DLT_LINUX_SLL | DLT_LINUX_SLL2 | DLT_other int

text \<open>What the loop of \<^verbatim>\<open>main\<close> does with a packet: skip it with a message, end the program, or go on.\<close>

datatype 'a packet_step = Skip string | Give_up string | Go_on 'a

definition ethertype :: "byte \<Rightarrow> byte \<Rightarrow> u16" where
  "ethertype a b = or (push_bit 8 (ucast a)) (ucast b)"

definition ethertype_step :: "bytes \<Rightarrow> nat \<Rightarrow> nat \<Rightarrow> nat \<Rightarrow> exn + nat packet_step" where
  "ethertype_step pkt_data hdr_off i j =
     (if length pkt_data < hdr_off then Inr (Skip ''[INFO] Skipping malformed packet.'')
      else
        bindE (byte_at pkt_data i) (\<lambda>a. bindE (byte_at pkt_data j) (\<lambda>b.
          if ethertype a b \<noteq> 0x0800 \<and> ethertype a b \<noteq> 0x86dd then Inr (Skip ''[INFO] Skipping non-IP packet.'')
          else Inr (Go_on hdr_off))))"

fun link_header :: "link_type \<Rightarrow> bytes \<Rightarrow> exn + nat packet_step" where
  "link_header DLT_NULL pkt_data =
     (if length pkt_data < 4 then Inr (Skip ''[INFO] Skipping malformed packet.'')
      else bindE (byte_at pkt_data 3) (\<lambda>pt.
        if pt \<notin> {2, 24, 28, 30} then Inr (Skip ''[INFO] Skipping non-IP packet.'') else Inr (Go_on 4)))"
| "link_header DLT_EN10MB pkt_data = ethertype_step pkt_data 14 12 13"
| "link_header DLT_LINUX_SLL pkt_data = ethertype_step pkt_data 16 14 15"
| "link_header DLT_LINUX_SLL2 pkt_data = ethertype_step pkt_data 20 0 1"
| "link_header DLT_RAW pkt_data = Inr (Go_on 0)"
| "link_header (DLT_other _) pkt_data = Inr (Give_up ''Mysterious datalink type. Giving up.'')"

definition flag_letters :: "tcp_header \<Rightarrow> string" where
  "flag_letters h =
     (if th_urg h then ''U'' else '''') @ (if th_psh h then ''P'' else '''') @ (if th_rst h then ''R'' else '''') @
     (if th_syn h then ''S'' else '''') @ (if th_fin h then ''F'' else '''') @ (if th_ack h then ''.'' else '''')"

text \<open>The line printed for a UDP payload.\<close>

definition segment_line :: "string \<Rightarrow> string \<Rightarrow> bytes \<Rightarrow> string" where
  "segment_line src dst payload =
     (let (res, seg) = TCPSegment_parse (Buffer payload) 0 TCPSegment in
      if BadChecksum < res then ''(did not recognize TCP header) src: '' @ src @ '' dst: '' @ dst @ [CHR 0x0A]
      else
        let tcp_hdr = seg_header seg; seqlen = TCPSegment_length_in_sequence_space seg in
        src @ '':'' @ dec_string (unat (th_sport tcp_hdr)) @ '' > '' @ dst @ '':'' @ dec_string (unat (th_dport tcp_hdr)) @
        [CHR 0x0A] @ ''    Flags ['' @ flag_letters tcp_hdr @ ''] cksum 0x'' @
        zero_fill 4 (hex_string (unat (th_cksum tcp_hdr))) @
        (if res = NoError then '' (correct)'' else '' (incorrect!)'') @
        '' seq '' @ dec_string (unat (raw_value (th_seqno tcp_hdr))) @
        (if seqlen > 0 then '':'' @ dec_string (unat (raw_value (wi_plus (th_seqno tcp_hdr) (word_of_nat seqlen)))) else '''') @
        '' ack '' @ dec_string (unat (raw_value (th_ackno tcp_hdr))) @ '' win '' @ dec_string (unat (th_win tcp_hdr)) @
        '' length '' @ dec_string (length payload) @ [CHR 0x0A])"

text \<open>The body of the loop of \<^verbatim>\<open>main\<close>: the line, and the payload that is given to \<^verbatim>\<open>hexdump\<close>.\<close>

definition dump_packet :: "(bytes \<Rightarrow> string option) \<Rightarrow> link_type \<Rightarrow> bytes \<Rightarrow> exn + (string \<times> bytes) packet_step" where
  "dump_packet inet_ntop dl_type pkt_data =
     bindE (link_header dl_type pkt_data) (\<lambda>s. case s of
       Skip m \<Rightarrow> Inr (Skip m)
     | Give_up m \<Rightarrow> Inr (Give_up m)
     | Go_on hdr_off \<Rightarrow>
         bindE (process_ipv4_ipv6 inet_ntop (int (length pkt_data - hdr_off)) (drop hdr_off pkt_data)) (\<lambda>(start_off, src, dst).
           if start_off < 0 then Inr (Skip ''Error parsing IPv4/IPv6 packet. Skipping.'')
           else
             let payload_off = hdr_off + nat start_off;
                 payload_len = sub64 (length pkt_data) payload_off
             in if length pkt_data < payload_off + payload_len
                then Inl (Undefined_behaviour ''string_view past the packet'')
                else let payload = take payload_len (drop payload_off pkt_data)
                  in Inr (Go_on (segment_line src dst payload, payload))))"

section \<open>Hexdump\<close>

text \<open>
  The stream \<^verbatim>\<open>pchars\<close> starts with one space, which the first character written to it overwrites: it is
  kept as the characters written, and read by \<open>pchars_str\<close>.
\<close>

definition pchars_str :: "string \<Rightarrow> string" where
  "pchars_str pchars = (if pchars = [] then '' '' else pchars)"

definition printable :: "byte \<Rightarrow> char" where
  "printable b = (if 32 \<le> b \<and> b < 127 then char_of (unat b) else CHR ''.'')"

definition hex_byte :: "byte \<Rightarrow> string" where
  "hex_byte b = zero_fill 2 (hex_string (unat b))"

fun hexdump_loop :: "string \<Rightarrow> nat \<Rightarrow> string \<Rightarrow> bytes \<Rightarrow> string" where
  "hexdump_loop indent_string printed pchars [] =
     (let print_rem = (16 - printed mod 16) mod 16
      in replicate (2 * print_rem + print_rem div 2 + 4) (CHR '' '') @ pchars_str pchars @ [CHR 0x0A, CHR 0x0A])"
| "hexdump_loop indent_string printed pchars (b # data) =
     (let fresh = printed mod 16 = 0 \<and> printed \<noteq> 0;
          between = (if printed mod 16 = 0
            then (if printed \<noteq> 0 then ''    '' @ pchars_str pchars @ [CHR 0x0A] else []) @
              indent_string @ zero_fill 8 (hex_string printed) @ '':    ''
            else if printed mod 2 = 0 then '' '' else [])
      in between @ hex_byte b @
         hexdump_loop indent_string (printed + 1) ((if fresh then [] else pchars) @ [printable b]) data)"

definition hexdump :: "bytes \<Rightarrow> nat \<Rightarrow> string" where
  "hexdump data indent = hexdump_loop (replicate indent (CHR '' '')) 0 [] data"

section \<open>Bounds\<close>

lemma byte_at_in: "i < length data \<Longrightarrow> byte_at data i = Inr (data ! i)"
  by (simp add: byte_at_def)

lemma inet_addr_in: "i + width \<le> length data \<Longrightarrow> \<exists>s. inet_addr inet_ntop width data i = Inr s"
  by (simp add: inet_addr_def)

text \<open>The loop over the extension headers reads only what it has checked to be there.\<close>

lemma next_headers_in:
  assumes "len = int (length data)" "0 \<le> data_offset" "data_offset + 2 \<le> len"
  shows "\<exists>off. next_headers len data nxt data_offset = Inr off \<and>
    (off = -1 \<or> data_offset \<le> off \<and> off + 2 \<le> len)"
  using assms
proof (induction len data nxt data_offset rule: next_headers.induct)
  case (1 len data nxt data_offset)
  have reads: "byte_at data (nat data_offset) = Inr (data ! nat data_offset)"
    "byte_at data (nat data_offset + 1) = Inr (data ! (nat data_offset + 1))"
    using "1.prems" by (simp_all add: byte_at_def nat_less_iff)
  let ?off = "data_offset + 8 * (1 + uint (data ! (nat data_offset + 1)))"
  have ge: "data_offset \<le> ?off" by simp
  show ?case
  proof (cases "nxt = 0x11 \<or> nxt \<noteq> 0 \<and> nxt \<noteq> 43 \<and> nxt \<noteq> 60 \<or> len < ?off + 2")
    case True
    then show ?thesis
      using "1.prems" reads by (subst next_headers.simps) (auto simp: Let_def)
  next
    case False
    then have step: "next_headers len data nxt data_offset = next_headers len data (data ! nat data_offset) ?off"
      using reads by (subst next_headers.simps) (auto simp: Let_def)
    have "\<exists>off. next_headers len data (data ! nat data_offset) ?off = Inr off \<and>
        (off = -1 \<or> ?off \<le> off \<and> off + 2 \<le> len)"
      using False "1.prems" ge by (intro "1.IH" [OF _ _ reads refl]) auto
    then show ?thesis unfolding step using order_trans [OF ge] by blast
  qed
qed

lemma process_ipv4_eq:
  assumes "data \<noteq> []" "and (data ! 0) 0xf0 = 0x40" "20 \<le> hl" "hl = unat (and (data ! 0) 0x0f) * 4" "hl \<le> length data"
  shows "\<exists>src dst. process_ipv4_ipv6 inet_ntop (int (length data)) data =
    Inr (if data ! 9 = 0x11 then (int hl + 8, src, dst) else (-1, [], []))"
proof -
  obtain src dst where "inet4_addr inet_ntop data 12 = Inr src" "inet4_addr inet_ntop data 16 = Inr dst"
    using inet_addr_in [of 12 4 data inet_ntop] inet_addr_in [of 16 4 data inet_ntop] assms(3,5) by (auto simp: inet4_addr_def)
  moreover have "\<not> int (length data) < int hl" using assms(5) by simp
  ultimately show ?thesis
    using assms(1-3,5) unfolding process_ipv4_ipv6_def byte_at_in [OF length_greater_0_conv [THEN iffD2, OF assms(1)]] bindE_simps
      Let_def assms(2) assms(4) [symmetric]
    by (auto simp: byte_at_in Suc_le_eq)
qed

lemma process_ipv6_in:
  assumes "data \<noteq> []" "and (data ! 0) 0xf0 = 0x60"
  shows "\<exists>off src dst. process_ipv4_ipv6 inet_ntop (int (length data)) data = Inr (off, src, dst) \<and>
    (off = -1 \<or> 48 \<le> off \<and> off \<le> int (length data) + 6)"
proof (cases "length data < 42")
  case True
  then show ?thesis using assms by (simp add: process_ipv4_ipv6_def byte_at_in Let_def Suc_le_eq)
next
  case False
  obtain off where off: "next_headers (int (length data)) data (data ! 6) 40 = Inr off"
    "off = -1 \<or> 40 \<le> off \<and> off + 2 \<le> int (length data)"
    using next_headers_in [of "int (length data)" data 40 "data ! 6"] False by auto
  obtain src dst where "inet6_addr inet_ntop data 8 = Inr src" "inet6_addr inet_ntop data 24 = Inr dst"
    using inet_addr_in [of 8 16 data inet_ntop] inet_addr_in [of 24 16 data inet_ntop] False by (auto simp: inet6_addr_def)
  then show ?thesis
    using assms off False by (auto simp: process_ipv4_ipv6_def byte_at_in Let_def Suc_le_eq)
qed


text \<open>
  But the caller does not check the offset: on a raw IPv4 packet that carries UDP, with a header of
  at least 20 bytes that is all there, the loop of \<^verbatim>\<open>main\<close> prints a line for the bytes after the UDP header when the packet has
  room for a UDP header, and otherwise makes a \<^verbatim>\<open>string_view\<close> of almost \<open>2 ^ 64\<close> bytes past its end.
\<close>

theorem dump_packet_overruns:
  assumes "pkt_data \<noteq> []" "length pkt_data < 2 ^ 16" "and (pkt_data ! 0) 0xf0 = 0x40" "20 \<le> hl"
    and "hl = unat (and (pkt_data ! 0) 0x0f) * 4" "hl \<le> length pkt_data" "pkt_data ! 9 = 0x11"
  shows "if hl + 8 \<le> length pkt_data
    then \<exists>src dst. dump_packet inet_ntop DLT_RAW pkt_data =
      Inr (Go_on (segment_line src dst (drop (hl + 8) pkt_data), drop (hl + 8) pkt_data))
    else dump_packet inet_ntop DLT_RAW pkt_data = Inl (Undefined_behaviour ''string_view past the packet'')"
proof -
  obtain src dst where ip: "process_ipv4_ipv6 inet_ntop (int (length pkt_data)) pkt_data = Inr (int hl + 8, src, dst)"
    using process_ipv4_eq [OF assms(1,3-6), of inet_ntop] assms(7) by auto
  have off: "nat (int hl + 8) = hl + 8" by simp
  show ?thesis
  proof (cases "hl + 8 \<le> length pkt_data")
    case True
    then have "sub64 (length pkt_data) (hl + 8) = length pkt_data - (hl + 8)" using assms(2) by (simp add: no_wrap)
    then show ?thesis using True by (simp add: dump_packet_def ip off Let_def) blast
  next
    case False
    then have "length pkt_data < hl + 8 + sub64 (length pkt_data) (hl + 8)" by (simp add: add.assoc)
    then show ?thesis using False by (simp add: dump_packet_def ip off Let_def)
  qed
qed


text \<open>A header of 20 bytes with two more bytes; and, with a header length of 0, a packet of one byte.\<close>

theorem dump_packet_overruns_witness:
  "dump_packet (\<lambda>_. None) DLT_RAW (0x45 # replicate 21 0x11) =
     Inl (Undefined_behaviour ''string_view past the packet'')"
proof -
  let ?p = "0x45 # replicate 21 0x11 :: bytes"
  have "and (?p ! 0) 0xf0 = 0x40" "20 = unat (and (?p ! 0) 0x0f) * 4" "?p ! 9 = 0x11" by simp_all
  from dump_packet_overruns [OF _ _ this(1) _ this(2) _ this(3), of "\<lambda>_. None"]
  have "if 20 + 8 \<le> length ?p
    then \<exists>src dst. dump_packet (\<lambda>_. None) DLT_RAW ?p = Inr (Go_on (segment_line src dst (drop 28 ?p), drop 28 ?p))
    else dump_packet (\<lambda>_. None) DLT_RAW ?p = Inl (Undefined_behaviour ''string_view past the packet'')"
    by simp
  moreover have "\<not> 20 + 8 \<le> length ?p" by simp
  ultimately show ?thesis by (simp only: if_False)
qed

lemma short_header_reads_past: "process_ipv4_ipv6 inet_ntop 1 [0x40] = Inl (Undefined_behaviour ''read past the packet'')"
  by (simp add: process_ipv4_ipv6_def byte_at_def Let_def)

text \<open>A segment with a wrong checksum is shown with the fields of an empty header, since none has been parsed.\<close>

lemma bad_checksum_shows_nothing:
  assumes "InternetChecksum_value (InternetChecksum_add payload (InternetChecksum 0)) \<noteq> 0"
  shows "segment_line src dst payload =
    src @ '':0 > '' @ dst @ '':0'' @ [CHR 0x0A] @ ''    Flags [] cksum 0x0000 (incorrect!) seq 0 ack 0 win 0 length '' @
    dec_string (length payload) @ [CHR 0x0A]"
proof -
  have "dec_string 0 = ''0''" "zero_fill 4 (hex_string 0) = ''0000''" by code_simp+
  moreover have "Buffer_str (Buffer payload) = payload" "Buffer_str Buffer_default = []" by simp_all
  ultimately show ?thesis
    using assms by (simp add: segment_line_def TCPSegment_parse_def TCPSegment_def TCPHeader_def flag_letters_def Let_def
        TCPSegment_length_in_sequence_space_def less_parse_result_def)
qed

section \<open>The lines of a hexdump\<close>

fun hex_pairs :: "bytes \<Rightarrow> string" where
  "hex_pairs [] = []"
| "hex_pairs [b] = hex_byte b"
| "hex_pairs (b # c # data) = hex_byte b @ hex_byte c @ (if data = [] then [] else '' '' @ hex_pairs data)"

text \<open>One line of up to 16 bytes: its offset, its bytes in a column of 39 characters, and their characters.\<close>

definition hexdump_line :: "string \<Rightarrow> nat \<Rightarrow> bytes \<Rightarrow> string" where
  "hexdump_line indent_string printed row =
     indent_string @ zero_fill 8 (hex_string printed) @ '':    '' @ hex_pairs row @
     replicate (39 - length (hex_pairs row)) (CHR '' '') @ ''    '' @ map printable row"

function hexdump_lines :: "string \<Rightarrow> nat \<Rightarrow> bytes \<Rightarrow> string" where
  "hexdump_lines indent_string printed data =
     hexdump_line indent_string printed (take 16 data) @ [CHR 0x0A] @
     (if length data \<le> 16 then [CHR 0x0A] else hexdump_lines indent_string (printed + 16) (drop 16 data))"
  by pat_completeness auto
termination by (relation "measure (\<lambda>(_, _, data). length data)") auto

declare hexdump_lines.simps [simp del]

lemma length_hex_byte: "length (hex_byte b) = 2"
proof -
  have "length (hex_string n) \<le> 2" if "n < 256" for n
  proof (cases "n < 16")
    case True
    then show ?thesis by (simp add: hex_string_def number_string.simps [of 16 n])
  next
    case False
    then have "n div 16 < 16" using that by simp
    then show ?thesis
      using False by (simp add: hex_string_def number_string.simps [of 16 n] number_string.simps [of 16 "n div 16"])
  qed
  from this [of "unat b"] show ?thesis using unsigned_less [of b, where ?'a = nat] by (simp add: hex_byte_def zero_fill_def)
qed

lemma length_hex_pairs: "row \<noteq> [] \<Longrightarrow> length (hex_pairs row) = 2 * length row + (length row - 1) div 2"
  by (induction row rule: hex_pairs.induct) (auto simp: length_hex_byte Suc_diff_le length_greater_0_conv [symmetric] simp del: length_greater_0_conv)

lemma hex_pairs_snoc:
  "row \<noteq> [] \<Longrightarrow> hex_pairs (row @ [b]) = hex_pairs row @ (if even (length row) then '' '' else []) @ hex_byte b"
  by (induction row rule: hex_pairs.induct) auto

lemma pad_end:
  assumes "row \<noteq> []" "length row \<le> 16" "p mod 16 = 0"
  defines "print_rem \<equiv> (16 - (p + length row) mod 16) mod 16"
  shows "2 * print_rem + print_rem div 2 = 39 - length (hex_pairs row)"
proof -
  have mod: "(p + length row) mod 16 = length row mod 16"
    using mod_add_left_eq [of p 16 "length row"] assms(3) by simp
  have rem: "print_rem = 16 - length row"
    using assms(1,2) unfolding print_rem_def mod by (cases "length row = 16") (simp_all add: Suc_le_eq)
  have eq: "2 * (16 - n) + (16 - n) div 2 = 39 - (2 * n + (n - 1) div 2)" if "n \<in> {1..16}" for n :: nat
  proof -
    have "\<forall>n \<in> set [1..<17]. 2 * (16 - n) + (16 - n) div 2 = 39 - (2 * n + (n - 1 :: nat) div 2)" by code_simp
    then show ?thesis using that by (auto simp del: upt_conv_Cons)
  qed
  show ?thesis unfolding rem length_hex_pairs [OF assms(1)]
    by (rule eq) (use assms(1,2) in \<open>simp add: Suc_le_eq\<close>)
qed

text \<open>Within a line: \<open>row\<close> has been printed, at the offset \<open>p\<close>.\<close>

lemma hexdump_loop_row:
  assumes "row \<noteq> []" "length row \<le> 16" "p mod 16 = 0"
  shows "hex_pairs row @ hexdump_loop ind (p + length row) (map printable row) data =
    (let R = take 16 (row @ data) in
     hex_pairs R @ replicate (39 - length (hex_pairs R)) (CHR '' '') @ ''    '' @ map printable R @ [CHR 0x0A] @
     (if length (row @ data) \<le> 16 then [CHR 0x0A] else hexdump_lines ind (p + 16) (drop 16 (row @ data))))"
  using assms
proof (induction data arbitrary: row p)
  case Nil
  have four: "replicate (n + 4) c = replicate n c @ [c, c, c, c]" for n and c :: char
    by (simp add: replicate_add numeral_eq_Suc replicate_app_Cons_same)
  show ?case
    using Nil pad_end [OF Nil.prems] by (simp add: Let_def pchars_str_def four)
next
  case (Cons b data)
  show ?case
  proof (cases "length row = 16")
    case False
    then have len: "length row < 16" "0 < length row" using Cons.prems by simp_all
    have "(p + length row) mod 16 = length row" using len mod_add_left_eq [of p 16 "length row"] Cons.prems(3) by simp
    moreover have "even (p + length row) \<longleftrightarrow> even (length row)"
    proof -
      have "even p" using Cons.prems(3) by presburger
      then show ?thesis by simp
    qed
    ultimately have "hexdump_loop ind (p + length row) (map printable row) (b # data) =
        (if even (length row) then '' '' else []) @ hex_byte b @
        hexdump_loop ind (p + length (row @ [b])) (map printable (row @ [b])) data"
      using len by (simp add: Let_def even_iff_mod_2_eq_zero)
    then show ?thesis
      using Cons.IH [of "row @ [b]" p] Cons.prems(3) len hex_pairs_snoc [OF Cons.prems(1), of b] by simp
  next
    case True
    have "(p + 16) mod 16 = 0" using Cons.prems(3) by simp
    note IH = Cons.IH [of "[b]" "p + 16", OF _ _ this]
    have "hexdump_loop ind (p + 16) (map printable row) (b # data) =
        ''    '' @ map printable row @ [CHR 0x0A] @ ind @ zero_fill 8 (hex_string (p + 16)) @ '':    '' @
        hex_pairs [b] @ hexdump_loop ind (p + 16 + length [b]) (map printable [b]) data"
      using True Cons.prems(1,3) by (simp add: Let_def pchars_str_def)
    then show ?thesis
      using True IH length_hex_pairs [OF Cons.prems(1)]
      by (simp add: Let_def hexdump_lines.simps [of ind "p + 16"] hexdump_line_def)
  qed
qed

text \<open>
  \<^verbatim>\<open>hexdump\<close> prints, for data of any length, exactly the lines of a reference definition by rows of 16
  bytes: each has its offset, its bytes in pairs, padded to the same column in every line, the last one included, and then the
  characters of just these bytes; an empty line follows.
\<close>

theorem hexdump_rows:
  assumes "data \<noteq> []"
  shows "hexdump data indent = hexdump_lines (replicate indent (CHR '' '')) 0 data \<and>
    (\<forall>row. row \<noteq> [] \<and> length row \<le> 16 \<longrightarrow> length (hex_pairs row) \<le> 39)"
proof
  obtain b rest where data: "data = b # rest" using assms by (cases data) simp_all
  have "hexdump data indent = replicate indent (CHR '' '') @ zero_fill 8 (hex_string 0) @ '':    '' @
      hex_pairs [b] @ hexdump_loop (replicate indent (CHR '' '')) (0 + length [b]) (map printable [b]) rest"
    by (simp add: hexdump_def data Let_def)
  then show "hexdump data indent = hexdump_lines (replicate indent (CHR '' '')) 0 data"
    using hexdump_loop_row [of "[b]" 0 "replicate indent (CHR '' '')" rest]
    by (simp add: data hexdump_lines.simps [of _ 0] hexdump_line_def Let_def)
  show "\<forall>row. row \<noteq> [] \<and> length row \<le> 16 \<longrightarrow> length (hex_pairs row) \<le> 39"
    by (auto simp: length_hex_pairs)
qed

theorem hexdump_rows_witness:
  "hexdump [0x48, 0x69, 0x0a] 0 = hexdump_lines [] 0 [0x48, 0x69, 0x0a]"
  using hexdump_rows [of "[0x48, 0x69, 0x0a]" 0] by simp

end
