(* ===== verification/Adapters.thy ===== *)
theory Adapters
  imports Network_Interface TCP_Segment
begin

text \<open>
  The adapters that carry TCP segments over something else (\<^verbatim>\<open>tcp_helpers/fd_adapter.hh\<close>, \<^verbatim>\<open>.cc\<close>,
  \<^verbatim>\<open>tcp_over_ip.hh\<close>, \<^verbatim>\<open>.cc\<close>, \<^verbatim>\<open>tuntap_adapter.hh\<close>, \<^verbatim>\<open>.cc\<close>, \<^verbatim>\<open>lossy_fd_adapter.hh\<close>): over UDP, over
  IPv4 on a TUN device, over IPv4 and Ethernet on a TAP device, and the adapter that drops some of
  them. What a device or socket delivers is an argument of \<^verbatim>\<open>read\<close>, what is written to it is part of
  the result of \<^verbatim>\<open>write\<close>. The resolver functions of the C library are a record of parameters.
\<close>

section \<open>Configuration\<close>

record libc =
  lc_getaddrinfo :: resolver
  lc_getnameinfo :: name_lookup
  lc_inet_ntoa :: "u32 \<Rightarrow> string"

abbreviation port_of :: "libc \<Rightarrow> address \<Rightarrow> exn + u16" where
  "port_of l \<equiv> Address_port (lc_getnameinfo l)"

record fd_adapter_config =
  fc_source :: address
  fc_destination :: address
  fc_loss_rate_dn :: u16
  fc_loss_rate_up :: u16

definition FdAdapterConfig :: "libc \<Rightarrow> exn + fd_adapter_config" where
  "FdAdapterConfig l =
     bindE (Address_of_ip (lc_getaddrinfo l) ''0'' 0) (\<lambda>source.
     bindE (Address_of_ip (lc_getaddrinfo l) ''0'' 0) (\<lambda>destination.
       Inr \<lparr>fc_source = source, fc_destination = destination, fc_loss_rate_dn = 0, fc_loss_rate_up = 0\<rparr>))"

record fd_adapter_base =
  fa_cfg :: fd_adapter_config
  fa_listen :: bool

definition FdAdapterBase :: "libc \<Rightarrow> exn + fd_adapter_base" where
  "FdAdapterBase l = bindE (FdAdapterConfig l) (\<lambda>cfg. Inr \<lparr>fa_cfg = cfg, fa_listen = False\<rparr>)"

definition FdAdapter_set_listening :: "bool \<Rightarrow> fd_adapter_base \<Rightarrow> fd_adapter_base" where
  "FdAdapter_set_listening l a = a\<lparr>fa_listen := l\<rparr>"

text \<open>The ports of the configuration on a segment, for both kinds of adapter.\<close>

definition set_ports :: "libc \<Rightarrow> tcp_segment \<Rightarrow> fd_adapter_base \<Rightarrow> exn + tcp_segment" where
  "set_ports l seg a =
     bindE (port_of l (fc_source (fa_cfg a))) (\<lambda>sport.
     bindE (port_of l (fc_destination (fa_cfg a))) (\<lambda>dport.
       Inr (seg\<lparr>seg_header := (seg_header seg)\<lparr>th_sport := sport, th_dport := dport\<rparr>\<rparr>)))"

section \<open>TCP in IPv4\<close>

definition unwrap_tcp_in_ip ::
    "libc \<Rightarrow> ipv4_datagram \<Rightarrow> fd_adapter_base \<Rightarrow> exn + tcp_segment option \<times> fd_adapter_base" where
  "unwrap_tcp_in_ip l ip_dgram a =
     (let h = dg_header ip_dgram in
      bindE (if fa_listen a then Inr False
             else bindE (Address_ipv4_numeric (fc_source (fa_cfg a))) (\<lambda>ip. Inr (ip_dst h \<noteq> ip))) (\<lambda>stray.
      if stray then Inr (None, a) else
      bindE (if fa_listen a then Inr False
             else bindE (Address_ipv4_numeric (fc_destination (fa_cfg a))) (\<lambda>ip. Inr (ip_src h \<noteq> ip))) (\<lambda>stray.
      if stray then Inr (None, a)
      else if ip_proto h \<noteq> PROTO_TCP then Inr (None, a)
      else
        bindE (BufferList_to_buffer (dg_payload ip_dgram)) (\<lambda>payload.
        let (r, tcp_seg) = TCPSegment_parse payload (IPv4Header_pseudo_cksum h) TCPSegment in
        if r \<noteq> NoError then Inr (None, a)
        else
          bindE (port_of l (fc_source (fa_cfg a))) (\<lambda>port.
          if th_dport (seg_header tcp_seg) \<noteq> port then Inr (None, a)
          else
            bindE
              (if \<not> fa_listen a then Inr (Some a)
               else if th_syn (seg_header tcp_seg) \<and> \<not> th_rst (seg_header tcp_seg) then
                 bindE (port_of l (fc_source (fa_cfg a))) (\<lambda>port.
                 bindE (Address_of_ip (lc_getaddrinfo l) (lc_inet_ntoa l (ip_dst h)) port) (\<lambda>source.
                 bindE (Address_of_ip (lc_getaddrinfo l) (lc_inet_ntoa l (ip_src h))
                          (th_sport (seg_header tcp_seg))) (\<lambda>destination.
                   Inr (Some (FdAdapter_set_listening False
                     (a\<lparr>fa_cfg := (fa_cfg a)\<lparr>fc_source := source, fc_destination := destination\<rparr>\<rparr>))))))
               else Inr None) (\<lambda>target.
            case target of None \<Rightarrow> Inr (None, a)
            | Some a \<Rightarrow>
                bindE (port_of l (fc_destination (fa_cfg a))) (\<lambda>port.
                  if th_sport (seg_header tcp_seg) \<noteq> port then Inr (None, a)
                  else Inr (Some tcp_seg, a))))))))"

text \<open>The segment is passed by reference: its new ports are part of the result.\<close>

definition wrap_tcp_in_ip :: "libc \<Rightarrow> tcp_segment \<Rightarrow> fd_adapter_base \<Rightarrow> exn + tcp_segment \<times> ipv4_datagram" where
  "wrap_tcp_in_ip l seg a =
     bindE (set_ports l seg a) (\<lambda>seg.
     bindE (Address_ipv4_numeric (fc_source (fa_cfg a))) (\<lambda>src.
     bindE (Address_ipv4_numeric (fc_destination (fa_cfg a))) (\<lambda>dst.
       let h = IPv4Header\<lparr>ip_src := src, ip_dst := dst\<rparr>;
           h = h\<lparr>ip_len := word_of_nat (unat (ip_hlen h) * 4 + unat (th_doff (seg_header seg)) * 4 +
                  Buffer_size (seg_payload seg))\<rparr>
       in bindE (TCPSegment_serialize (IPv4Header_pseudo_cksum h) seg) (\<lambda>payload.
            Inr (seg, \<lparr>dg_header = h, dg_payload = payload\<rparr>)))))"

section \<open>The adapters\<close>

text \<open>Over UDP: a datagram is the peer's address, that it came from or goes to, and its bytes.\<close>

definition TCPOverUDPSocketAdapter_read ::
    "address \<times> bytes \<Rightarrow> fd_adapter_base \<Rightarrow> tcp_segment option \<times> fd_adapter_base" where
  "TCPOverUDPSocketAdapter_read datagram a =
     (let (source_address, payload) = datagram in
      if \<not> fa_listen a \<and> Address_neq source_address (fc_destination (fa_cfg a)) then (None, a)
      else
        let (r, seg) = TCPSegment_parse (Buffer payload) 0 TCPSegment in
        if r \<noteq> NoError then (None, a)
        else if fa_listen a then
          if th_syn (seg_header seg) \<and> \<not> th_rst (seg_header seg)
          then (Some seg, FdAdapter_set_listening False
                  (a\<lparr>fa_cfg := (fa_cfg a)\<lparr>fc_destination := source_address\<rparr>\<rparr>))
          else (None, a)
        else (Some seg, a))"

definition TCPOverUDPSocketAdapter_write ::
    "libc \<Rightarrow> tcp_segment \<Rightarrow> fd_adapter_base \<Rightarrow> exn + tcp_segment \<times> address \<times> bytes" where
  "TCPOverUDPSocketAdapter_write l seg a =
     bindE (set_ports l seg a) (\<lambda>seg.
     bindE (TCPSegment_serialize 0 seg) (\<lambda>payload.
       Inr (seg, fc_destination (fa_cfg a), BufferList_concatenate payload)))"

text \<open>Over a TUN device: the bytes of one IPv4 datagram.\<close>

definition TCPOverIPv4OverTunFdAdapter_read ::
    "libc \<Rightarrow> bytes \<Rightarrow> fd_adapter_base \<Rightarrow> exn + tcp_segment option \<times> fd_adapter_base" where
  "TCPOverIPv4OverTunFdAdapter_read l packet a =
     (let (r, ip_dgram) = IPv4Datagram_parse (Buffer packet) IPv4Datagram
      in if r \<noteq> NoError then Inr (None, a) else unwrap_tcp_in_ip l ip_dgram a)"

definition TCPOverIPv4OverTunFdAdapter_write ::
    "libc \<Rightarrow> tcp_segment \<Rightarrow> fd_adapter_base \<Rightarrow> exn + tcp_segment \<times> bytes" where
  "TCPOverIPv4OverTunFdAdapter_write l seg a =
     bindE (wrap_tcp_in_ip l seg a) (\<lambda>(seg, ip_dgram).
     bindE (IPv4Datagram_serialize ip_dgram) (\<lambda>packet.
       Inr (seg, BufferList_concatenate packet)))"

text \<open>Over a TAP device: the bytes of Ethernet frames; what is written is listed in order.\<close>

record tap_adapter =
  ta_base :: fd_adapter_base
  ta_interface :: network_interface
  ta_next_hop :: address

fun TAP_send_pending :: "ethernet_frame list \<Rightarrow> tap_adapter \<Rightarrow> bytes list \<times> tap_adapter" where
  "TAP_send_pending [] t = ([], t)"
| "TAP_send_pending (f # fs) t =
     (let (out, t') = TAP_send_pending fs (t\<lparr>ta_interface := NetworkInterface_pop_frame (ta_interface t)\<rparr>)
      in (BufferList_concatenate (EthernetFrame_serialize f) # out, t'))"

definition send_pending_frames :: "tap_adapter \<Rightarrow> bytes list \<times> tap_adapter" where
  "send_pending_frames t = TAP_send_pending (ni_frames_out (ta_interface t)) t"

definition TCPOverIPv4OverEthernetAdapter ::
    "libc \<Rightarrow> ethernet_address \<Rightarrow> address \<Rightarrow> address \<Rightarrow> exn + bytes list \<times> tap_adapter" where
  "TCPOverIPv4OverEthernetAdapter l eth_address ip_address next_hop =
     bindE (FdAdapterBase l) (\<lambda>base.
       Inr ([BufferList_concatenate (EthernetFrame_serialize EthernetFrame)],
            \<lparr>ta_base = base, ta_interface = NetworkInterface eth_address ip_address, ta_next_hop = next_hop\<rparr>))"

definition TCPOverIPv4OverEthernetAdapter_read ::
    "libc \<Rightarrow> bytes \<Rightarrow> tap_adapter \<Rightarrow> exn + tcp_segment option \<times> bytes list \<times> tap_adapter" where
  "TCPOverIPv4OverEthernetAdapter_read l raw t =
     (let (r, frame) = EthernetFrame_parse (Buffer raw) EthernetFrame in
      if r \<noteq> NoError then Inr (None, [], t)
      else
        bindE (NetworkInterface_recv_frame frame (ta_interface t)) (\<lambda>(ip_dgram, ni).
          let (out, t) = send_pending_frames (t\<lparr>ta_interface := ni\<rparr>) in
          case ip_dgram of
            Some d \<Rightarrow> bindE (unwrap_tcp_in_ip l d (ta_base t)) (\<lambda>(seg, base).
              Inr (seg, out, t\<lparr>ta_base := base\<rparr>))
          | None \<Rightarrow> Inr (None, out, t)))"

definition TCPOverIPv4OverEthernetAdapter_tick :: "nat \<Rightarrow> tap_adapter \<Rightarrow> bytes list \<times> tap_adapter" where
  "TCPOverIPv4OverEthernetAdapter_tick ms_since_last_tick t =
     send_pending_frames (t\<lparr>ta_interface := NetworkInterface_tick ms_since_last_tick (ta_interface t)\<rparr>)"

definition TCPOverIPv4OverEthernetAdapter_write ::
    "libc \<Rightarrow> tcp_segment \<Rightarrow> tap_adapter \<Rightarrow> exn + tcp_segment \<times> bytes list \<times> tap_adapter" where
  "TCPOverIPv4OverEthernetAdapter_write l seg t =
     bindE (wrap_tcp_in_ip l seg (ta_base t)) (\<lambda>(seg, ip_dgram).
     bindE (NetworkInterface_send_datagram ip_dgram (ta_next_hop t) (ta_interface t)) (\<lambda>ni.
       let (out, t) = send_pending_frames (t\<lparr>ta_interface := ni\<rparr>) in Inr (seg, out, t)))"

section \<open>Loss\<close>

text \<open>
  The random generator is its state with the function that draws from it. \<^verbatim>\<open>_should_drop\<close> draws only
  when the loss rate is not zero. The adapter below is given by its \<^verbatim>\<open>config\<close>, \<^verbatim>\<open>read\<close> and \<^verbatim>\<open>write\<close>.
\<close>

record ('r, 'a) lossy_adapter =
  lo_rand :: 'r
  lo_adapter :: 'a

definition should_drop :: "('r \<Rightarrow> u32 \<times> 'r) \<Rightarrow> ('a \<Rightarrow> fd_adapter_config) \<Rightarrow> bool \<Rightarrow>
    ('r, 'a) lossy_adapter \<Rightarrow> bool \<times> ('r, 'a) lossy_adapter" where
  "should_drop next_rand config uplink lo =
     (let cfg = config (lo_adapter lo);
          loss = (if uplink then fc_loss_rate_up cfg else fc_loss_rate_dn cfg)
      in if loss = 0 then (False, lo)
         else let (r, rand) = next_rand (lo_rand lo) in ((ucast r :: u16) < loss, lo\<lparr>lo_rand := rand\<rparr>))"

definition LossyFdAdapter_read :: "('r \<Rightarrow> u32 \<times> 'r) \<Rightarrow> ('a \<Rightarrow> fd_adapter_config) \<Rightarrow>
    ('p \<Rightarrow> 'a \<Rightarrow> exn + tcp_segment option \<times> 'a) \<Rightarrow> 'p \<Rightarrow> ('r, 'a) lossy_adapter \<Rightarrow>
    exn + tcp_segment option \<times> ('r, 'a) lossy_adapter" where
  "LossyFdAdapter_read next_rand config read packet lo =
     bindE (read packet (lo_adapter lo)) (\<lambda>(ret, adapter).
       let (drop, lo) = should_drop next_rand config False (lo\<lparr>lo_adapter := adapter\<rparr>)
       in Inr (if drop then None else ret, lo))"

definition LossyFdAdapter_write :: "('r \<Rightarrow> u32 \<times> 'r) \<Rightarrow> ('a \<Rightarrow> fd_adapter_config) \<Rightarrow>
    (tcp_segment \<Rightarrow> 'a \<Rightarrow> exn + tcp_segment \<times> 'p) \<Rightarrow> tcp_segment \<Rightarrow> ('r, 'a) lossy_adapter \<Rightarrow>
    exn + tcp_segment \<times> 'p option \<times> ('r, 'a) lossy_adapter" where
  "LossyFdAdapter_write next_rand config write seg lo =
     (let (drop, lo) = should_drop next_rand config True lo
      in if drop then Inr (seg, None, lo)
         else bindE (write seg (lo_adapter lo)) (\<lambda>(seg, packet). Inr (seg, Some packet, lo)))"

lemma should_drop_spec:
  "lo_adapter (snd (should_drop next_rand config uplink lo)) = lo_adapter lo \<and>
   (fst (should_drop next_rand config uplink lo) \<longrightarrow>
      (if uplink then fc_loss_rate_up (config (lo_adapter lo)) else fc_loss_rate_dn (config (lo_adapter lo))) \<noteq> 0)"
  by (simp add: should_drop_def Let_def split: prod.split)

section \<open>What an adapter promises\<close>

text \<open>
  What one end writes the other reads, with the same sequence number, acknowledgment, flags, window
  and payload (\<^verbatim>\<open>operator==\<close> of headers ignores ports and checksum). The law speaks of two linked
  adapters and a segment that fits; reading changes nothing in a linked adapter.
\<close>

definition carried :: "tcp_segment \<Rightarrow> tcp_segment \<Rightarrow> bool" where
  "carried seg seg' \<longleftrightarrow> TCPHeader_eq (seg_header seg) (seg_header seg') \<and>
     Buffer_str (seg_payload seg') = Buffer_str (seg_payload seg)"

locale segment_adapter =
  fixes recv :: "'p \<Rightarrow> 'a \<Rightarrow> exn + tcp_segment option \<times> 'a"
    and send :: "tcp_segment \<Rightarrow> 'a \<Rightarrow> exn + tcp_segment \<times> 'p"
    and config :: "'a \<Rightarrow> fd_adapter_config"
    and linked :: "'a \<Rightarrow> 'a \<Rightarrow> bool"
    and fits :: "tcp_segment \<Rightarrow> bool"
  assumes carries: "linked a b \<Longrightarrow> fits seg \<Longrightarrow>
    \<exists>seg1 p seg2. send seg a = Inr (seg1, p) \<and> carried seg seg1 \<and>
      recv p b = Inr (Some seg2, b) \<and> carried seg seg2"
begin

text \<open>Under the lossy adapter a segment is lost or carried, never changed; without loss it is carried.\<close>

lemma lossy_carries:
  assumes "linked (lo_adapter la) (lo_adapter lb)" "fits seg"
  shows "\<exists>seg1 sent la'. LossyFdAdapter_write next config send seg la = Inr (seg1, sent, la') \<and>
    carried seg seg1 \<and> lo_adapter la' = lo_adapter la \<and>
    (case sent of None \<Rightarrow> fc_loss_rate_up (config (lo_adapter la)) \<noteq> 0
     | Some p \<Rightarrow> \<exists>ret lb'. LossyFdAdapter_read next' config recv p lb = Inr (ret, lb') \<and>
         lo_adapter lb' = lo_adapter lb \<and>
         (case ret of None \<Rightarrow> fc_loss_rate_dn (config (lo_adapter lb)) \<noteq> 0 | Some seg2 \<Rightarrow> carried seg seg2))"
proof -
  obtain seg1 p seg2 where io: "send seg (lo_adapter la) = Inr (seg1, p)" "carried seg seg1"
    "recv p (lo_adapter lb) = Inr (Some seg2, lo_adapter lb)" "carried seg seg2"
    using carries [OF assms] by blast
  obtain d lb' where d: "should_drop next' config False lb = (d, lb')"
    "lo_adapter lb' = lo_adapter lb" "d \<longrightarrow> fc_loss_rate_dn (config (lo_adapter lb)) \<noteq> 0"
    using should_drop_spec [of next' config False lb] by (metis prod.collapse)
  have rd: "\<exists>ret lb'. LossyFdAdapter_read next' config recv p lb = Inr (ret, lb') \<and>
      lo_adapter lb' = lo_adapter lb \<and>
      (case ret of None \<Rightarrow> fc_loss_rate_dn (config (lo_adapter lb)) \<noteq> 0 | Some seg2 \<Rightarrow> carried seg seg2)"
    using d io(3,4) by (auto simp: LossyFdAdapter_read_def)
  obtain u la' where u: "should_drop next config True la = (u, la')"
    "lo_adapter la' = lo_adapter la" "u \<longrightarrow> fc_loss_rate_up (config (lo_adapter la)) \<noteq> 0"
    using should_drop_spec [of "next" config True la] by (metis prod.collapse)
  have "carried seg seg" by (simp add: carried_def TCPHeader_eq_def wi_eq_def)
  then show ?thesis
    using u io(1,2) rd by (cases u) (auto simp: LossyFdAdapter_write_def)
qed

end

section \<open>Both ends of a link\<close>

definition fits_ipv4 :: "tcp_segment \<Rightarrow> bool" where
  "fits_ipv4 seg \<longleftrightarrow> 5 \<le> unat (th_doff (seg_header seg)) \<and> unat (th_doff (seg_header seg)) < 16 \<and>
     20 + 4 * unat (th_doff (seg_header seg)) + Buffer_size (seg_payload seg) < 65536"

text \<open>An adapter whose configuration has numeric addresses \<open>src\<close>, \<open>dst\<close> and ports.\<close>

definition bound :: "libc \<Rightarrow> fd_adapter_base \<Rightarrow> u32 \<times> u16 \<Rightarrow> u32 \<times> u16 \<Rightarrow> bool" where
  "bound l a src dst \<longleftrightarrow>
     Address_ipv4_numeric (fc_source (fa_cfg a)) = Inr (fst src) \<and> port_of l (fc_source (fa_cfg a)) = Inr (snd src) \<and>
     Address_ipv4_numeric (fc_destination (fa_cfg a)) = Inr (fst dst) \<and>
     port_of l (fc_destination (fa_cfg a)) = Inr (snd dst)"

definition linked_ipv4 :: "libc \<Rightarrow> fd_adapter_base \<Rightarrow> fd_adapter_base \<Rightarrow> bool" where
  "linked_ipv4 l a b \<longleftrightarrow> \<not> fa_listen b \<and> (\<exists>src dst. bound l a src dst \<and> bound l b dst src)"

lemma unat_halves: "unat (drop_bit 16 w + and w 0xffff :: u32) \<le> 131070"
proof -
  have "unat (drop_bit 16 w :: u32) \<le> 65535"
    using unsigned_less [of w, where 'a = nat] unfolding unsigned_drop_bit_eq
    by (simp add: drop_bit_eq_div take_bit_eq_mod)
  moreover have "and w 0xffff \<le> (0xffff :: u32)" by (rule word_and_le1)
  then have "unat (and w 0xffff :: u32) \<le> 65535" by (simp add: word_le_nat_alt)
  moreover have "unat (drop_bit 16 w + and w 0xffff) \<le> unat (drop_bit 16 w :: u32) + unat (and w 0xffff :: u32)"
    by (simp add: unat_word_ariths)
  ultimately show ?thesis by linarith
qed

lemma unat_add_le: "unat (x + y :: 'a::len word) \<le> unat x + unat y"
  by (simp add: unat_word_ariths)

lemma unat_pseudo: "unat (IPv4Header_pseudo_cksum h) \<le> 327930"
proof -
  have "unat (ucast (ip_proto h) :: u32) \<le> 255" "unat (ucast (IPv4Header_payload_length h) :: u32) \<le> 65535"
    using unsigned_less [of "ip_proto h", where 'a = nat] unsigned_less [of "IPv4Header_payload_length h", where 'a = nat]
    by (simp_all add: unsigned_ucast_eq take_bit_eq_mod)
  then show ?thesis
    using unat_halves [of "ip_src h"] unat_halves [of "ip_dst h"]
      unat_add_le [of "drop_bit 16 (ip_src h) + and (ip_src h) 0xffff" "drop_bit 16 (ip_dst h) + and (ip_dst h) 0xffff"]
      unat_add_le [of "drop_bit 16 (ip_src h) + and (ip_src h) 0xffff + (drop_bit 16 (ip_dst h) + and (ip_dst h) 0xffff)"
        "ucast (ip_proto h)"]
      unat_add_le [of "drop_bit 16 (ip_src h) + and (ip_src h) 0xffff + (drop_bit 16 (ip_dst h) + and (ip_dst h) 0xffff) +
        ucast (ip_proto h)" "ucast (IPv4Header_payload_length h)"]
    unfolding IPv4Header_pseudo_cksum_def Let_def by linarith
qed

text \<open>The datagram \<^verbatim>\<open>wrap_tcp_in_ip\<close> makes, and what \<^verbatim>\<open>unwrap_tcp_in_ip\<close> gives the other end of it.\<close>

lemma wrap_spec:
  assumes "bound l a src dst" "fits_ipv4 seg"
  obtains bl ck h where
    "wrap_tcp_in_ip l seg a = Inr (seg\<lparr>seg_header := (seg_header seg)\<lparr>th_sport := snd src, th_dport := snd dst\<rparr>\<rparr>,
       \<lparr>dg_header = h, dg_payload = bl\<rparr>)"
    "dgram_ok \<lparr>dg_header = h, dg_payload = bl\<rparr>" "ip_src h = fst src" "ip_dst h = fst dst" "ip_proto h = PROTO_TCP"
    "\<And>b s'. Buffer_str b = BufferList_concatenate bl \<Longrightarrow> \<exists>pl.
       TCPSegment_parse b (IPv4Header_pseudo_cksum h) s' =
         (NoError, s'\<lparr>seg_header := (seg_header seg)\<lparr>th_sport := snd src, th_dport := snd dst, th_cksum := ck\<rparr>,
            seg_payload := pl\<rparr>) \<and>
       Buffer_str pl = Buffer_str (seg_payload seg)"
proof -
  let ?seg = "seg\<lparr>seg_header := (seg_header seg)\<lparr>th_sport := snd src, th_dport := snd dst\<rparr>\<rparr>"
  define h where "h = IPv4Header\<lparr>ip_src := fst src, ip_dst := fst dst,
    ip_len := word_of_nat (unat (ip_hlen IPv4Header) * 4 + unat (th_doff (seg_header seg)) * 4 +
      Buffer_size (seg_payload seg))\<rparr>"
  have fit: "5 \<le> unat (th_doff (seg_header ?seg))" "unat (th_doff (seg_header ?seg)) < 16"
    "20 + 4 * unat (th_doff (seg_header ?seg)) + Buffer_size (seg_payload ?seg) < 65536"
    using assms(2) by (simp_all add: fits_ipv4_def)
  have "unat (IPv4Header_pseudo_cksum h) + 65280 * (4 * unat (th_doff (seg_header ?seg)) +
      Buffer_size (seg_payload ?seg)) < 2 ^ 32"
    using unat_pseudo [of h] fit(3) by simp
  from TCPSegment_parse_serialize [OF fit(1,2) this] obtain bl ck where
    bl: "TCPSegment_serialize (IPv4Header_pseudo_cksum h) ?seg = Inr bl"
      "length (BufferList_concatenate bl) = 4 * unat (th_doff (seg_header ?seg)) + Buffer_size (seg_payload ?seg)"
    and parse: "\<And>b s'. Buffer_str b = BufferList_concatenate bl \<Longrightarrow> \<exists>pl.
        TCPSegment_parse b (IPv4Header_pseudo_cksum h) s' =
          (NoError, s'\<lparr>seg_header := (seg_header ?seg)\<lparr>th_cksum := ck\<rparr>, seg_payload := pl\<rparr>) \<and>
        Buffer_str pl = Buffer_str (seg_payload ?seg)" by blast
  have wrap: "wrap_tcp_in_ip l seg a = Inr (?seg, \<lparr>dg_header = h, dg_payload = bl\<rparr>)"
    using assms(1) bl(1) by (simp add: wrap_tcp_in_ip_def set_ports_def bound_def h_def Let_def)
  have len: "unat (ip_len h) = 20 + 4 * unat (th_doff (seg_header seg)) + Buffer_size (seg_payload seg)"
  proof -
    have "unat (word_of_nat n :: u16) = n" if "n < 65536" for n using that by (simp add: unat_of_nat)
    moreover have "ip_len h = word_of_nat (20 + 4 * unat (th_doff (seg_header seg)) + Buffer_size (seg_payload seg))"
      by (simp add: h_def IPv4Header_def)
    moreover have "20 + 4 * unat (th_doff (seg_header seg)) + Buffer_size (seg_payload seg) < 65536"
      using assms(2) by (simp add: fits_ipv4_def)
    ultimately show ?thesis by metis
  qed
  have "dgram_ok \<lparr>dg_header = h, dg_payload = bl\<rparr>"
    using len bl(2) by (simp add: dgram_ok_def ip_wf_def BufferList_size_concatenate) (simp add: h_def IPv4Header_def)
  then show ?thesis
    by (rule that [OF wrap]) (use parse in \<open>simp_all add: h_def IPv4Header_def\<close>)
qed

lemma unwrap_linked:
  assumes "bound l b dst src" "\<not> fa_listen b"
    and "ip_src h = fst src" "ip_dst h = fst dst" "ip_proto h = PROTO_TCP" "BufferList_to_buffer pl = Inr x"
    and "TCPSegment_parse x (IPv4Header_pseudo_cksum h) TCPSegment = (NoError, seg)"
    and "th_sport (seg_header seg) = snd src" "th_dport (seg_header seg) = snd dst"
  shows "unwrap_tcp_in_ip l \<lparr>dg_header = h, dg_payload = pl\<rparr> b = Inr (Some seg, b)"
  using assms by (simp add: unwrap_tcp_in_ip_def bound_def)

lemma carried_update:
  "carried seg (seg\<lparr>seg_header := (seg_header seg)\<lparr>th_sport := p, th_dport := q\<rparr>\<rparr>)"
  "Buffer_str pl = Buffer_str (seg_payload seg) \<Longrightarrow> carried seg
     (s\<lparr>seg_header := (seg_header seg)\<lparr>th_sport := p, th_dport := q, th_cksum := ck\<rparr>, seg_payload := pl\<rparr>)"
  by (simp_all add: carried_def TCPHeader_eq_def wi_eq_def)

lemma pseudo_cksum_ignores: "IPv4Header_pseudo_cksum (h\<lparr>ip_cksum := c\<rparr>) = IPv4Header_pseudo_cksum h"
  by (simp add: IPv4Header_pseudo_cksum_def IPv4Header_payload_length_def)

lemma parsed_one_buffer: "\<exists>x. BufferList_to_buffer (dg_payload (snd (IPv4Datagram_parse b d))) = Inr x"
  by (auto simp: IPv4Datagram_parse_def Let_def split: prod.split)

lemma recv_one_buffer:
  "NetworkInterface_recv_frame f ni = Inr (Some d, ni') \<Longrightarrow> \<exists>x. BufferList_to_buffer (dg_payload d) = Inr x"
proof -
  assume recv: "NetworkInterface_recv_frame f ni = Inr (Some d, ni')"
  then obtain b rest where "buffers (ef_payload f) = b # rest"
    by (cases "buffers (ef_payload f)") (auto simp: NetworkInterface_recv_frame_def Let_def split: if_splits)
  with recv have "d = snd (IPv4Datagram_parse b IPv4Datagram)"
    by (auto simp: NetworkInterface_recv_frame_def Let_def bindE_eq_Inr_iff split: if_splits prod.splits)
  then show ?thesis using parsed_one_buffer by simp
qed

lemma parse_wire:
  assumes "eth_ok (ef_header f)"
  shows "EthernetFrame_parse (Buffer (BufferList_concatenate (EthernetFrame_serialize f))) EthernetFrame = (NoError, wire f)"
proof -
  have "eth_ok (ef_header EthernetFrame)" by (simp add: eth_ok_def EthernetFrame_def EthernetHeader_def)
  from EthernetFrame_parse_serialize [OF assms this] show ?thesis by (metis snd_conv wire_def)
qed

text \<open>The packet an adapter writes to its TUN device, and what both parsers make of it.\<close>

lemma tun_packet_parses:
  assumes "bound l a src dst" "fits_ipv4 seg"
  obtains p h pl x ck buf where
    "TCPOverIPv4OverTunFdAdapter_write l seg a =
      Inr (seg\<lparr>seg_header := (seg_header seg)\<lparr>th_sport := snd src, th_dport := snd dst\<rparr>\<rparr>, p)"
    "IPv4Datagram_parse (Buffer p) IPv4Datagram = (NoError, \<lparr>dg_header = h, dg_payload = pl\<rparr>)"
    "ip_src h = fst src" "ip_dst h = fst dst" "ip_proto h = PROTO_TCP" "BufferList_to_buffer pl = Inr x"
    "TCPSegment_parse x (IPv4Header_pseudo_cksum h) TCPSegment = (NoError,
      TCPSegment\<lparr>seg_header := (seg_header seg)\<lparr>th_sport := snd src, th_dport := snd dst, th_cksum := ck\<rparr>, seg_payload := buf\<rparr>)"
    "Buffer_str buf = Buffer_str (seg_payload seg)"
proof -
  obtain h bl ck where
    wrap: "wrap_tcp_in_ip l seg a = Inr (seg\<lparr>seg_header := (seg_header seg)\<lparr>th_sport := snd src, th_dport := snd dst\<rparr>\<rparr>,
      \<lparr>dg_header = h, dg_payload = bl\<rparr>)"
    and ok: "dgram_ok \<lparr>dg_header = h, dg_payload = bl\<rparr>"
    and h: "ip_src h = fst src" "ip_dst h = fst dst" "ip_proto h = PROTO_TCP"
    and parse: "\<And>b s'. Buffer_str b = BufferList_concatenate bl \<Longrightarrow> \<exists>pl.
       TCPSegment_parse b (IPv4Header_pseudo_cksum h) s' =
         (NoError, s'\<lparr>seg_header := (seg_header seg)\<lparr>th_sport := snd src, th_dport := snd dst, th_cksum := ck\<rparr>,
            seg_payload := pl\<rparr>) \<and>
       Buffer_str pl = Buffer_str (seg_payload seg)" by (rule wrap_spec [OF assms]) (rule that)
  have fit: "ip_wf (dg_header \<lparr>dg_header = h, dg_payload = bl\<rparr>)"
    "unat (ip_len (dg_header \<lparr>dg_header = h, dg_payload = bl\<rparr>)) =
      4 * unat (ip_hlen (dg_header \<lparr>dg_header = h, dg_payload = bl\<rparr>)) + BufferList_size (dg_payload \<lparr>dg_header = h, dg_payload = bl\<rparr>)"
    using ok by (simp_all only: dgram_ok_def)
  obtain out ipck where
    out: "IPv4Datagram_serialize \<lparr>dg_header = h, dg_payload = bl\<rparr> = Inr out"
    and parse_ip: "\<And>b d'. Buffer_str b = BufferList_concatenate out \<Longrightarrow> \<exists>pl. IPv4Datagram_parse b d' =
        (NoError, \<lparr>dg_header = h\<lparr>ip_cksum := ipck\<rparr>, dg_payload = pl\<rparr>) \<and>
        BufferList_concatenate pl = BufferList_concatenate bl"
    by (rule IPv4Datagram_parse_serialize [OF fit, unfolded ipv4_datagram.select_convs]) (rule that)
  obtain pl where d: "IPv4Datagram_parse (Buffer (BufferList_concatenate out)) IPv4Datagram =
        (NoError, \<lparr>dg_header = h\<lparr>ip_cksum := ipck\<rparr>, dg_payload = pl\<rparr>)"
      "BufferList_concatenate pl = BufferList_concatenate bl"
    using parse_ip [of "Buffer (BufferList_concatenate out)" IPv4Datagram] by auto
  then obtain x where x: "BufferList_to_buffer pl = Inr x"
    by (metis parsed_one_buffer ipv4_datagram.select_convs(2) snd_conv)
  have "Buffer_str x = BufferList_concatenate bl" using BufferList_to_buffer_content [OF x] d(2) by simp
  from parse [OF this, of TCPSegment] obtain buf where
    seg: "TCPSegment_parse x (IPv4Header_pseudo_cksum h) TCPSegment =
        (NoError, TCPSegment\<lparr>seg_header := (seg_header seg)\<lparr>th_sport := snd src, th_dport := snd dst, th_cksum := ck\<rparr>,
            seg_payload := buf\<rparr>)" "Buffer_str buf = Buffer_str (seg_payload seg)" by blast
  have "TCPOverIPv4OverTunFdAdapter_write l seg a =
      Inr (seg\<lparr>seg_header := (seg_header seg)\<lparr>th_sport := snd src, th_dport := snd dst\<rparr>\<rparr>, BufferList_concatenate out)"
    using wrap out by (simp add: TCPOverIPv4OverTunFdAdapter_write_def)
  then show ?thesis
    by (rule that [OF _ d(1) _ _ _ x _ seg(2)]) (use h seg(1) in \<open>simp_all add: pseudo_cksum_ignores\<close>)
qed

lemma tun_carries:
  assumes "linked_ipv4 l a b" "fits_ipv4 seg"
  shows "\<exists>seg1 p seg2. TCPOverIPv4OverTunFdAdapter_write l seg a = Inr (seg1, p) \<and> carried seg seg1 \<and>
    TCPOverIPv4OverTunFdAdapter_read l p b = Inr (Some seg2, b) \<and> carried seg seg2"
proof -
  obtain src dst where ends: "bound l a src dst" "bound l b dst src" "\<not> fa_listen b"
    using assms(1) by (auto simp: linked_ipv4_def)
  obtain p h pl x ck buf where
    p: "TCPOverIPv4OverTunFdAdapter_write l seg a =
      Inr (seg\<lparr>seg_header := (seg_header seg)\<lparr>th_sport := snd src, th_dport := snd dst\<rparr>\<rparr>, p)"
      "IPv4Datagram_parse (Buffer p) IPv4Datagram = (NoError, \<lparr>dg_header = h, dg_payload = pl\<rparr>)"
    and h: "ip_src h = fst src" "ip_dst h = fst dst" "ip_proto h = PROTO_TCP" "BufferList_to_buffer pl = Inr x"
    and seg: "TCPSegment_parse x (IPv4Header_pseudo_cksum h) TCPSegment = (NoError,
      TCPSegment\<lparr>seg_header := (seg_header seg)\<lparr>th_sport := snd src, th_dport := snd dst, th_cksum := ck\<rparr>, seg_payload := buf\<rparr>)"
      "Buffer_str buf = Buffer_str (seg_payload seg)"
    by (rule tun_packet_parses [OF ends(1) assms(2)])
  have "unwrap_tcp_in_ip l \<lparr>dg_header = h, dg_payload = pl\<rparr> b = Inr (Some (TCPSegment\<lparr>seg_header :=
      (seg_header seg)\<lparr>th_sport := snd src, th_dport := snd dst, th_cksum := ck\<rparr>, seg_payload := buf\<rparr>), b)"
    by (rule unwrap_linked [OF ends(2,3) h seg(1)]) simp_all
  then show ?thesis
    using p carried_update(1) carried_update(2) [OF seg(2)] by (auto simp: TCPOverIPv4OverTunFdAdapter_read_def)
qed

text \<open>
  Over UDP the network turns the destination of a datagram into its source: the other end sees the
  address \<open>who\<close> the sender's socket has.
\<close>

definition fits_udp :: "tcp_segment \<Rightarrow> bool" where
  "fits_udp seg \<longleftrightarrow> 5 \<le> unat (th_doff (seg_header seg)) \<and> unat (th_doff (seg_header seg)) < 16 \<and>
     4 * unat (th_doff (seg_header seg)) + Buffer_size (seg_payload seg) < 65536"

definition linked_udp :: "libc \<Rightarrow> address \<Rightarrow> fd_adapter_base \<Rightarrow> fd_adapter_base \<Rightarrow> bool" where
  "linked_udp l who a b \<longleftrightarrow> \<not> fa_listen b \<and> Address_eq who (fc_destination (fa_cfg b)) \<and>
     (\<exists>p q. port_of l (fc_source (fa_cfg a)) = Inr p \<and> port_of l (fc_destination (fa_cfg a)) = Inr q)"

lemma udp_carries:
  assumes "linked_udp l who a b" "fits_udp seg"
  shows "\<exists>seg1 p seg2. TCPOverUDPSocketAdapter_write l seg a = Inr (seg1, p) \<and> carried seg seg1 \<and>
    Inr (TCPOverUDPSocketAdapter_read (who, snd p) b) = (Inr (Some seg2, b) :: exn + _) \<and> carried seg seg2"
proof -
  obtain p q where ports: "port_of l (fc_source (fa_cfg a)) = Inr p" "port_of l (fc_destination (fa_cfg a)) = Inr q"
    using assms(1) by (auto simp: linked_udp_def)
  let ?seg = "seg\<lparr>seg_header := (seg_header seg)\<lparr>th_sport := p, th_dport := q\<rparr>\<rparr>"
  have fit: "5 \<le> unat (th_doff (seg_header ?seg))" "unat (th_doff (seg_header ?seg)) < 16"
    "unat (0 :: u32) + 65280 * (4 * unat (th_doff (seg_header ?seg)) + Buffer_size (seg_payload ?seg)) < 2 ^ 32"
    using assms(2) by (simp_all add: fits_udp_def)
  obtain bl ck where bl: "TCPSegment_serialize 0 ?seg = Inr bl"
    and parse: "\<And>b s'. Buffer_str b = BufferList_concatenate bl \<Longrightarrow> \<exists>pl. TCPSegment_parse b 0 s' =
        (NoError, s'\<lparr>seg_header := (seg_header ?seg)\<lparr>th_cksum := ck\<rparr>, seg_payload := pl\<rparr>) \<and>
        Buffer_str pl = Buffer_str (seg_payload ?seg)" by (rule TCPSegment_parse_serialize [OF fit]) (rule that)
  from parse [of "Buffer (BufferList_concatenate bl)" TCPSegment] obtain pl where
    "TCPSegment_parse (Buffer (BufferList_concatenate bl)) 0 TCPSegment =
      (NoError, TCPSegment\<lparr>seg_header := (seg_header seg)\<lparr>th_sport := p, th_dport := q, th_cksum := ck\<rparr>, seg_payload := pl\<rparr>)"
    "Buffer_str pl = Buffer_str (seg_payload seg)" by auto
  note rd = this
  let ?seg2 = "TCPSegment\<lparr>seg_header := (seg_header seg)\<lparr>th_sport := p, th_dport := q, th_cksum := ck\<rparr>, seg_payload := pl\<rparr>"
  have "TCPOverUDPSocketAdapter_write l seg a = Inr (?seg, fc_destination (fa_cfg a), BufferList_concatenate bl)"
    using ports bl by (simp add: TCPOverUDPSocketAdapter_write_def set_ports_def)
  moreover have "TCPOverUDPSocketAdapter_read (who, BufferList_concatenate bl) b = (Some ?seg2, b)"
    using assms(1) unfolding TCPOverUDPSocketAdapter_read_def prod.case rd(1) Let_def
    by (simp add: linked_udp_def Address_neq_def)
  ultimately show ?thesis
    using carried_update(1) [where seg = seg and p = p and q = q] carried_update(2) [OF rd(2)] by auto
qed

interpretation tun: segment_adapter "TCPOverIPv4OverTunFdAdapter_read l" "TCPOverIPv4OverTunFdAdapter_write l"
  fa_cfg "linked_ipv4 l" fits_ipv4 for l
  by unfold_locales (rule tun_carries)

interpretation udp: segment_adapter "\<lambda>p b. Inr (TCPOverUDPSocketAdapter_read (who, snd p) b)"
  "TCPOverUDPSocketAdapter_write l" fa_cfg "linked_udp l who" fits_udp for l who
  by unfold_locales (rule udp_carries)

section \<open>The C library\<close>

text \<open>
  What the code relies on: numeric addresses and ports are printed and read back (\<^verbatim>\<open>inet_ntoa\<close>,
  \<^verbatim>\<open>getaddrinfo\<close> with \<^verbatim>\<open>AI_NUMERICHOST | AI_NUMERICSERV\<close>, \<^verbatim>\<open>getnameinfo\<close> with \<^verbatim>\<open>NI_NUMERICHOST |
  NI_NUMERICSERV\<close>).
\<close>

definition libc_ok :: "libc \<Rightarrow> bool" where
  "libc_ok l \<longleftrightarrow> (\<forall>ip port.
     lc_getaddrinfo l (lc_inet_ntoa l ip) (dec_string (unat port))
       (make_hints {''AI_NUMERICHOST'', ''AI_NUMERICSERV''} ''AF_INET'') = (0, Some (sockaddr_of ip port)) \<and>
     lc_getnameinfo l (sockaddr_of ip port) = (0, lc_inet_ntoa l ip, dec_string (unat port)))"

lemma Address_of_ip_ok:
  assumes "libc_ok l"
  shows "Address_of_ip (lc_getaddrinfo l) (lc_inet_ntoa l ip) port = Inr (ipv4_address ip port)"
    and "port_of l (ipv4_address ip port) = Inr port"
proof -
  have l: "lc_getaddrinfo l (lc_inet_ntoa l ip) (dec_string (unat port))
       (make_hints {''AI_NUMERICHOST'', ''AI_NUMERICSERV''} ''AF_INET'') = (0, Some (sockaddr_of ip port))"
    "lc_getnameinfo l (sockaddr_of ip port) = (0, lc_inet_ntoa l ip, dec_string (unat port))"
    using assms by (simp_all only: libc_ok_def)
  show "Address_of_ip (lc_getaddrinfo l) (lc_inet_ntoa l ip) port = Inr (ipv4_address ip port)"
    unfolding Address_of_ip_def Address_resolve_def l(1) by simp
  have "unat port < 2 ^ 31" using unsigned_less [of port, where 'a = nat] by simp
  then show "port_of l (ipv4_address ip port) = Inr port"
    using l(2) by (simp add: Address_port_def Address_ip_port_def stoi_dec_string ipv4_address_def)
qed

text \<open>Dotted decimal notation, and a library that does what it documents.\<close>

definition dotted :: "u32 \<Rightarrow> string" where
  "dotted ip = tl (concat (map (\<lambda>b. CHR ''.'' # dec_string (unat b)) (be_encode ip)))"

function fields_of :: "string \<Rightarrow> string list" where
  "fields_of s = takeWhile is_digit s #
     (case dropWhile is_digit s of [] \<Rightarrow> [] | _ # r \<Rightarrow> fields_of r)"
  by auto
termination
proof (relation "measure length")
  fix s :: string and c r assume "dropWhile is_digit s = c # r"
  then show "(r, s) \<in> measure length"
    using length_dropWhile_le [of is_digit s] by simp
qed simp

declare fields_of.simps [simp del]

definition undotted :: "string \<Rightarrow> bytes" where
  "undotted s = map (\<lambda>f. word_of_nat (dec_value f)) (fields_of s)"

lemma fields_of_append:
  "set ds \<subseteq> Collect is_digit \<Longrightarrow> fields_of (ds @ CHR ''.'' # r) = ds # fields_of r"
  "set ds \<subseteq> Collect is_digit \<Longrightarrow> fields_of ds = [ds]"
proof -
  assume "set ds \<subseteq> Collect is_digit"
  then have all: "\<And>x. x \<in> set ds \<Longrightarrow> is_digit x" by auto
  have dot: "\<not> is_digit (CHR ''.'')" by (simp add: is_digit_def)
  show "fields_of (ds @ CHR ''.'' # r) = ds # fields_of r"
    by (subst fields_of.simps) (use all dot in \<open>simp add: takeWhile_append2 dropWhile_append2\<close>)
  have "takeWhile is_digit ds = ds" "dropWhile is_digit ds = []"
    using all by (simp_all add: takeWhile_eq_all_conv dropWhile_eq_Nil_conv)
  then show "fields_of ds = [ds]" by (subst fields_of.simps) (simp only: list.case)
qed

lemma undotted_dotted [simp]: "undotted (dotted ip) = be_encode ip"
proof -
  obtain a b c d where ip: "(be_encode ip :: bytes) = [a, b, c, d]"
    using list_4 [of "be_encode ip :: bytes"] by auto
  show ?thesis
    by (simp add: dotted_def undotted_def ip fields_of_append dec_string_digits)
qed

definition demo_libc :: libc where
  "demo_libc = \<lparr>lc_getaddrinfo = \<lambda>node service hints.
       (0, Some (AF_INET_bytes @ be_encode (word_of_nat (dec_value service) :: u16) @ undotted node @ replicate 8 0)),
     lc_getnameinfo = \<lambda>s. (0, dotted (be_decode (take 4 (drop 4 s))), dec_string (unat (be_decode (take 2 (drop 2 s)) :: u16))),
     lc_inet_ntoa = dotted\<rparr>"

lemma demo_libc_ok: "libc_ok demo_libc"
  by (simp add: libc_ok_def demo_libc_def sockaddr_of_def AF_INET_bytes_def)

section \<open>Properties\<close>

text \<open>
  C29: over IPv4 a segment arrives as it was sent or not at all: of two TUN adapters whose source and
  destination are each other's, under the lossy adapter, with any random generators, one writes a
  segment that fits an IPv4 datagram; nothing throws; either the writer drops it, which needs an
  uplink loss rate, or the packet it writes is read at the other end, where it is dropped, which
  needs a downlink loss rate, or comes out with the same header (but for ports and checksum) and
  payload; and neither adapter's configuration changes.
\<close>

theorem tcp_over_ipv4_carries:
  assumes "linked_ipv4 l (lo_adapter la) (lo_adapter lb)" "fits_ipv4 seg"
  shows "\<exists>seg1 sent la'. LossyFdAdapter_write rnd fa_cfg (TCPOverIPv4OverTunFdAdapter_write l) seg la =
      Inr (seg1, sent, la') \<and> carried seg seg1 \<and> lo_adapter la' = lo_adapter la \<and>
    (case sent of None \<Rightarrow> fc_loss_rate_up (fa_cfg (lo_adapter la)) \<noteq> 0
     | Some packet \<Rightarrow> \<exists>ret lb'.
         LossyFdAdapter_read rnd' fa_cfg (TCPOverIPv4OverTunFdAdapter_read l) packet lb = Inr (ret, lb') \<and>
         lo_adapter lb' = lo_adapter lb \<and>
         (case ret of None \<Rightarrow> fc_loss_rate_dn (fa_cfg (lo_adapter lb)) \<noteq> 0 | Some seg2 \<Rightarrow> carried seg seg2))"
  by (rule tun.lossy_carries [OF assms])

text \<open>
  the same over UDP, where the reading end knows the writer's socket address \<open>who\<close> as its peer.
\<close>

theorem tcp_over_udp_carries:
  assumes "linked_udp l who (lo_adapter la) (lo_adapter lb)" "fits_udp seg"
  shows "\<exists>seg1 sent la'. LossyFdAdapter_write rnd fa_cfg (TCPOverUDPSocketAdapter_write l) seg la =
      Inr (seg1, sent, la') \<and> carried seg seg1 \<and> lo_adapter la' = lo_adapter la \<and>
    (case sent of None \<Rightarrow> fc_loss_rate_up (fa_cfg (lo_adapter la)) \<noteq> 0
     | Some datagram \<Rightarrow> \<exists>ret lb'.
         LossyFdAdapter_read rnd' fa_cfg (\<lambda>p b. Inr (TCPOverUDPSocketAdapter_read (who, snd p) b)) datagram lb =
           Inr (ret, lb') \<and>
         lo_adapter lb' = lo_adapter lb \<and>
         (case ret of None \<Rightarrow> fc_loss_rate_dn (fa_cfg (lo_adapter lb)) \<noteq> 0 | Some seg2 \<Rightarrow> carried seg seg2))"
  by (rule udp.lossy_carries [OF assms])

text \<open>
  Which segments an adapter takes from an IPv4 datagram, and whom it talks to afterwards. Whatever
  comes in, when \<^verbatim>\<open>unwrap_tcp_in_ip\<close> gives no segment nothing has changed. When it gives one, the
  datagram was TCP with a checksum that verifies, the adapter's source is the datagram's
  destination and its destination is the datagram's source, ports included. A connected adapter is
  as before; a listening one took a SYN without RST to its own port, keeps that port, and no longer
  listens.
\<close>

theorem unwrap_tcp_in_ip_spec:
  assumes "libc_ok l" "unwrap_tcp_in_ip l d a = Inr (r, a')"
  shows "case r of None \<Rightarrow> a' = a
    | Some seg \<Rightarrow> \<not> fa_listen a' \<and> ip_proto (dg_header d) = PROTO_TCP \<and>
        (\<exists>b. Buffer_str b = BufferList_concatenate (dg_payload d) \<and>
          TCPSegment_parse b (IPv4Header_pseudo_cksum (dg_header d)) TCPSegment = (NoError, seg)) \<and>
        bound l a' (ip_dst (dg_header d), th_dport (seg_header seg)) (ip_src (dg_header d), th_sport (seg_header seg)) \<and>
        (if fa_listen a
         then port_of l (fc_source (fa_cfg a)) = Inr (th_dport (seg_header seg)) \<and>
              th_syn (seg_header seg) \<and> \<not> th_rst (seg_header seg)
         else a' = a)"
proof (cases "fa_listen a")
  case False
  then show ?thesis
    using assms(2)
    by (auto simp: unwrap_tcp_in_ip_def Let_def bindE_eq_Inr_iff bound_def split_beta prod_eq_iff
        split: if_splits) (metis BufferList_to_buffer_content)
next
  case True
  show ?thesis
    using assms(2) True
    by (auto simp: unwrap_tcp_in_ip_def Let_def bindE_eq_Inr_iff bound_def FdAdapter_set_listening_def
        Address_of_ip_ok [OF assms(1)]
        split_beta prod_eq_iff split: if_splits) (metis BufferList_to_buffer_content)
qed

text \<open>
  Over Ethernet, once the next hop's address is known: of two TAP adapters whose IPv4 sides are
  linked and whose queues are empty, the next hop of the one being the interface of the other, a
  segment that fits is written as one frame; the other reads that frame as the segment that was
  sent, writes nothing back, and neither adapter's state changes.
\<close>

theorem tcp_over_ethernet_carries:
  assumes "linked_ipv4 l (ta_base ta) (ta_base tb)" "fits_ipv4 seg"
    and "Address_ipv4_numeric (ta_next_hop ta) = Inr hop"
    and "ni_cache (ta_interface ta) hop = Some (ni_ethernet_address (ta_interface tb), t)"
    and "ni_frames_out (ta_interface ta) = []" "ni_frames_out (ta_interface tb) = []"
    and "length (ni_ethernet_address (ta_interface ta)) = 6" "length (ni_ethernet_address (ta_interface tb)) = 6"
  shows "\<exists>seg1 frame seg2. TCPOverIPv4OverEthernetAdapter_write l seg ta = Inr (seg1, [frame], ta) \<and>
    TCPOverIPv4OverEthernetAdapter_read l frame tb = Inr (Some seg2, [], tb) \<and> carried seg seg2"
proof -
  obtain src dst where ends: "bound l (ta_base ta) src dst" "bound l (ta_base tb) dst src" "\<not> fa_listen (ta_base tb)"
    using assms(1) by (auto simp: linked_ipv4_def)
  obtain h bl ck where
    wrap: "wrap_tcp_in_ip l seg (ta_base ta) =
      Inr (seg\<lparr>seg_header := (seg_header seg)\<lparr>th_sport := snd src, th_dport := snd dst\<rparr>\<rparr>,
        \<lparr>dg_header = h, dg_payload = bl\<rparr>)"
    and ok: "dgram_ok \<lparr>dg_header = h, dg_payload = bl\<rparr>"
    and h: "ip_src h = fst src" "ip_dst h = fst dst" "ip_proto h = PROTO_TCP"
    and parse: "\<And>b s'. Buffer_str b = BufferList_concatenate bl \<Longrightarrow> \<exists>pl.
       TCPSegment_parse b (IPv4Header_pseudo_cksum h) s' =
         (NoError, s'\<lparr>seg_header := (seg_header seg)\<lparr>th_sport := snd src, th_dport := snd dst, th_cksum := ck\<rparr>,
            seg_payload := pl\<rparr>) \<and>
       Buffer_str pl = Buffer_str (seg_payload seg)" by (rule wrap_spec [OF ends(1) assms(2)]) (rule that)
  let ?d = "\<lparr>dg_header = h, dg_payload = bl\<rparr>" and ?na = "ta_interface ta" and ?nb = "ta_interface tb"
  obtain out where out: "IPv4Datagram_serialize ?d = Inr out" using dgram_ok_serialize [OF ok] by blast
  let ?f = "frame_from ?na TYPE_IPv4 (ni_ethernet_address ?nb) out"
  let ?raw = "BufferList_concatenate (EthernetFrame_serialize ?f)"
  have "NetworkInterface_send_datagram ?d (ta_next_hop ta) ?na = Inr (push_frame ?f ?na)"
    using assms(3,4) out by (simp add: NetworkInterface_send_datagram_def)
  then have sent: "TCPOverIPv4OverEthernetAdapter_write l seg ta =
      Inr (seg\<lparr>seg_header := (seg_header seg)\<lparr>th_sport := snd src, th_dport := snd dst\<rparr>\<rparr>, [?raw], ta)"
    using wrap assms(5)
    by (simp add: TCPOverIPv4OverEthernetAdapter_write_def send_pending_frames_def push_frame_def
        NetworkInterface_pop_frame_def)
  obtain ipck pl where recv: "NetworkInterface_recv_frame (wire ?f) ?nb =
      Inr (Some \<lparr>dg_header = h\<lparr>ip_cksum := ipck\<rparr>, dg_payload = pl\<rparr>, ?nb)"
    "BufferList_concatenate pl = BufferList_concatenate bl"
    using recv_ipv4 [OF wire_arrives ok out refl, of ?na ?nb] assms(7,8) by auto
  obtain x where x: "BufferList_to_buffer pl = Inr x" using recv_one_buffer [OF recv(1)] by auto
  have "Buffer_str x = BufferList_concatenate bl" using BufferList_to_buffer_content [OF x] recv(2) by simp
  from parse [OF this, of TCPSegment] obtain p where
    seg: "TCPSegment_parse x (IPv4Header_pseudo_cksum h) TCPSegment =
        (NoError, TCPSegment\<lparr>seg_header := (seg_header seg)\<lparr>th_sport := snd src, th_dport := snd dst, th_cksum := ck\<rparr>,
            seg_payload := p\<rparr>)" "Buffer_str p = Buffer_str (seg_payload seg)" by blast
  let ?seg2 = "TCPSegment\<lparr>seg_header := (seg_header seg)\<lparr>th_sport := snd src, th_dport := snd dst, th_cksum := ck\<rparr>,
    seg_payload := p\<rparr>"
  have "unwrap_tcp_in_ip l \<lparr>dg_header = h\<lparr>ip_cksum := ipck\<rparr>, dg_payload = pl\<rparr> (ta_base tb) = Inr (Some ?seg2, ta_base tb)"
    by (rule unwrap_linked [OF ends(2,3) _ _ _ x]) (use h seg(1) in \<open>simp_all add: pseudo_cksum_ignores\<close>)
  moreover have "EthernetFrame_parse (Buffer ?raw) EthernetFrame = (NoError, wire ?f)"
    using assms(7,8) by (intro parse_wire) simp
  ultimately have "TCPOverIPv4OverEthernetAdapter_read l ?raw tb = Inr (Some ?seg2, [], tb)"
    using recv(1) assms(6) by (simp add: TCPOverIPv4OverEthernetAdapter_read_def send_pending_frames_def)
  with sent show ?thesis using carried_update(2) [OF seg(2)] by blast
qed

text \<open>Two adapters on \<open>demo_libc\<close> that talk to each other, and a SYN.\<close>

definition demo_adapter :: "byte \<Rightarrow> byte \<Rightarrow> fd_adapter_base" where
  "demo_adapter m n = \<lparr>fa_cfg = \<lparr>fc_source = ipv4_address (ucast m) (ucast m), fc_destination = ipv4_address (ucast n) (ucast n),
     fc_loss_rate_dn = 0, fc_loss_rate_up = 0\<rparr>, fa_listen = False\<rparr>"

definition demo_syn :: tcp_segment where
  "demo_syn = TCPSegment\<lparr>seg_header := TCPHeader\<lparr>th_syn := True\<rparr>\<rparr>"

lemma demo_bound: "bound demo_libc (demo_adapter m n) (ucast m, ucast m) (ucast n, ucast n)"
  by (simp add: bound_def demo_adapter_def Address_of_ip_ok(2) [OF demo_libc_ok])

lemma demo_syn_fits: "fits_ipv4 demo_syn" "fits_udp demo_syn"
  by (simp_all add: fits_ipv4_def fits_udp_def demo_syn_def TCPSegment_def TCPHeader_def Buffer_size_def)

theorem tcp_over_ipv4_carries_witness:
  "\<exists>seg1 packet la' seg2 lb'.
     LossyFdAdapter_write (\<lambda>r. (r, r)) fa_cfg (TCPOverIPv4OverTunFdAdapter_write demo_libc) demo_syn
       \<lparr>lo_rand = 7, lo_adapter = demo_adapter 1 2\<rparr> = Inr (seg1, Some packet, la') \<and>
     LossyFdAdapter_read (\<lambda>r. (r, r)) fa_cfg (TCPOverIPv4OverTunFdAdapter_read demo_libc) packet
       \<lparr>lo_rand = 7, lo_adapter = demo_adapter 2 1\<rparr> = Inr (Some seg2, lb') \<and> carried demo_syn seg2"
proof -
  let ?la = "\<lparr>lo_rand = 7 :: u32, lo_adapter = demo_adapter 1 2\<rparr>" and ?lb = "\<lparr>lo_rand = 7 :: u32, lo_adapter = demo_adapter 2 1\<rparr>"
  have "\<not> fa_listen (demo_adapter 2 1)" and noloss: "fc_loss_rate_up (fa_cfg (demo_adapter m n)) = 0"
    "fc_loss_rate_dn (fa_cfg (demo_adapter m n)) = 0" for m n
    by (simp_all add: demo_adapter_def)
  then have "linked_ipv4 demo_libc (demo_adapter 1 2) (demo_adapter 2 1)"
    using demo_bound [of 1 2] demo_bound [of 2 1] by (auto simp: linked_ipv4_def)
  then show ?thesis
    using tcp_over_ipv4_carries [of demo_libc ?la ?lb demo_syn "\<lambda>r. (r, r)" "\<lambda>r. (r, r)"] demo_syn_fits(1)
    by (auto simp: noloss split: option.splits)
qed

theorem tcp_over_udp_carries_witness:
  "\<exists>seg1 datagram la' seg2 lb'.
     LossyFdAdapter_write (\<lambda>r. (r, r)) fa_cfg (TCPOverUDPSocketAdapter_write demo_libc) demo_syn
       \<lparr>lo_rand = 7, lo_adapter = demo_adapter 1 2\<rparr> = Inr (seg1, Some datagram, la') \<and>
     LossyFdAdapter_read (\<lambda>r. (r, r)) fa_cfg
       (\<lambda>p b. Inr (TCPOverUDPSocketAdapter_read (ipv4_address 1 1, snd p) b)) datagram
       \<lparr>lo_rand = 7, lo_adapter = demo_adapter 2 1\<rparr> = Inr (Some seg2, lb') \<and> carried demo_syn seg2"
proof -
  let ?la = "\<lparr>lo_rand = 7 :: u32, lo_adapter = demo_adapter 1 2\<rparr>" and ?lb = "\<lparr>lo_rand = 7 :: u32, lo_adapter = demo_adapter 2 1\<rparr>"
  have "Address_eq (ipv4_address 1 1) (fc_destination (fa_cfg (demo_adapter 2 1)))" "\<not> fa_listen (demo_adapter 2 1)"
    and noloss: "fc_loss_rate_up (fa_cfg (demo_adapter m n)) = 0"
    "fc_loss_rate_dn (fa_cfg (demo_adapter m n)) = 0" for m n
    by (simp_all add: demo_adapter_def Address_eq_def)
  then have "linked_udp demo_libc (ipv4_address 1 1) (demo_adapter 1 2) (demo_adapter 2 1)"
    using demo_bound [of 1 2] by (auto simp: linked_udp_def bound_def)
  then show ?thesis
    using tcp_over_udp_carries [of demo_libc "ipv4_address 1 1" ?la ?lb demo_syn "\<lambda>r. (r, r)" "\<lambda>r. (r, r)"] demo_syn_fits(2)
    by (auto simp: noloss split: option.splits)
qed

theorem unwrap_tcp_in_ip_spec_witness:
  "\<exists>d seg b'. unwrap_tcp_in_ip demo_libc d ((demo_adapter 2 9)\<lparr>fa_listen := True\<rparr>) = Inr (Some seg, b') \<and>
     th_syn (seg_header seg) \<and> \<not> fa_listen b' \<and> Address_ipv4_numeric (fc_destination (fa_cfg b')) = Inr 1"
proof -
  let ?b = "(demo_adapter 2 9)\<lparr>fa_listen := True\<rparr>"
  obtain h bl ck where h: "ip_src h = 1" "ip_dst h = 2" "ip_proto h = PROTO_TCP"
    and parse: "\<And>b s'. Buffer_str b = BufferList_concatenate bl \<Longrightarrow> \<exists>pl.
       TCPSegment_parse b (IPv4Header_pseudo_cksum h) s' =
         (NoError, s'\<lparr>seg_header := (seg_header demo_syn)\<lparr>th_sport := 1, th_dport := 2, th_cksum := ck\<rparr>,
            seg_payload := pl\<rparr>) \<and>
       Buffer_str pl = Buffer_str (seg_payload demo_syn)"
    using wrap_spec [OF demo_bound [of 1 2] demo_syn_fits(1)] by simp metis
  define d where "d = \<lparr>dg_header = h, dg_payload = BufferList_of_buffer (Buffer (BufferList_concatenate bl))\<rparr>"
  obtain seg where seg: "TCPSegment_parse (Buffer (BufferList_concatenate bl)) (IPv4Header_pseudo_cksum h) TCPSegment = (NoError, seg)"
    "th_sport (seg_header seg) = 1" "th_dport (seg_header seg) = 2" "th_syn (seg_header seg)" "\<not> th_rst (seg_header seg)"
    using parse [of "Buffer (BufferList_concatenate bl)" TCPSegment] by (auto simp: demo_syn_def TCPHeader_def)
  have listen: "fa_listen ?b" "port_of demo_libc (fc_source (fa_cfg ?b)) = Inr 2"
    by (simp_all add: demo_adapter_def Address_of_ip_ok(2) [OF demo_libc_ok])
  have "\<exists>b'. unwrap_tcp_in_ip demo_libc d ?b = Inr (Some seg, b')"
    using h seg listen
    by (simp add: unwrap_tcp_in_ip_def d_def FdAdapter_set_listening_def Address_of_ip_ok [OF demo_libc_ok])
  then obtain b' where b': "unwrap_tcp_in_ip demo_libc d ?b = Inr (Some seg, b')" by blast
  from unwrap_tcp_in_ip_spec [OF demo_libc_ok this] have
    "\<not> fa_listen b'" "Address_ipv4_numeric (fc_destination (fa_cfg b')) = Inr 1"
    using h(1) by (simp_all add: bound_def d_def)
  with b' seg(4) show ?thesis by blast
qed

text \<open>Two TAP adapters on \<open>demo_libc\<close>; the first knows the second's Ethernet address.\<close>

definition demo_tap :: "byte \<Rightarrow> byte \<Rightarrow> tap_adapter" where
  "demo_tap m n = \<lparr>ta_base = demo_adapter m n,
     ta_interface = (demo_ni m)\<lparr>ni_cache := [ucast n \<mapsto> ([2, 0, 0, 0, 0, n], 0)]\<rparr>,
     ta_next_hop = Address_from_ipv4_numeric (ucast n)\<rparr>"

theorem tcp_over_ethernet_carries_witness:
  "\<exists>seg1 frame seg2. TCPOverIPv4OverEthernetAdapter_write demo_libc demo_syn (demo_tap 1 2) =
     Inr (seg1, [frame], demo_tap 1 2) \<and>
   TCPOverIPv4OverEthernetAdapter_read demo_libc frame (demo_tap 2 1) = Inr (Some seg2, [], demo_tap 2 1) \<and>
   carried demo_syn seg2"
proof -
  have "linked_ipv4 demo_libc (demo_adapter 1 2) (demo_adapter 2 1)"
    using demo_bound [of 1 2] demo_bound [of 2 1] by (auto simp: linked_ipv4_def demo_adapter_def)
  then show ?thesis
    using tcp_over_ethernet_carries [of demo_libc "demo_tap 1 2" "demo_tap 2 1" demo_syn 2 0] demo_syn_fits(1)
    by (simp add: demo_tap_def demo_ok) (simp add: demo_ni_def NetworkInterface_def)
qed

end
