(* ===== verification/Command_Lines.thy ===== *)
theory Command_Lines
  imports Adapters TCP_Sender
begin

text \<open>
  The command lines of the three programs that run a TCP connection in user space: over IPv4 and a TUN device
  (\<^verbatim>\<open>apps/tcp_ipv4.cc\<close>), over UDP (\<^verbatim>\<open>apps/tcp_udp.cc\<close>), and over IPv4, Ethernet and a TAP device
  (\<^verbatim>\<open>apps/tcp_ip_ethernet.cc\<close>): how \<^verbatim>\<open>get_config\<close> reads \<^verbatim>\<open>argv\<close> and what \<^verbatim>\<open>main\<close> does with it. The text of
  \<^verbatim>\<open>show_usage\<close> is left out but for the message it ends with.
\<close>

section \<open>C strings and numbers\<close>

text \<open>
  An argument is a string without its final zero. Whether \<^verbatim>\<open>strncmp(s, t, n)\<close> is zero: the first \<open>n\<close> characters
  are the same, up to a common end.
\<close>

definition strncmp_eq :: "string \<Rightarrow> string \<Rightarrow> nat \<Rightarrow> bool" where
  "strncmp_eq s t n \<longleftrightarrow> take n (s @ [CHR 0x00]) = take n (t @ [CHR 0x00])"

definition isspace :: "char \<Rightarrow> bool" where
  "isspace c \<longleftrightarrow> c \<in> {CHR '' '', CHR 0x09, CHR 0x0A, CHR 0x0B, CHR 0x0C, CHR 0x0D}"

definition digit_in :: "nat \<Rightarrow> char \<Rightarrow> nat option" where
  "digit_in base c =
     (let n = of_char c :: nat;
          v = (if 48 \<le> n \<and> n \<le> 57 then n - 48
               else if 97 \<le> n \<and> n \<le> 122 then n - 87
               else if 65 \<le> n \<and> n \<le> 90 then n - 55 else base)
      in if v < base then Some v else None)"

text \<open>\<^verbatim>\<open>strtol(s, nullptr, 0)\<close>: the base is in the prefix; out of range it is the nearest \<^verbatim>\<open>long\<close>.\<close>

definition strtol :: "string \<Rightarrow> int" where
  "strtol s =
     (let s = dropWhile isspace s;
          neg = (s \<noteq> [] \<and> hd s = CHR ''-'');
          s = (if s \<noteq> [] \<and> (hd s = CHR ''-'' \<or> hd s = CHR ''+'') then tl s else s);
          (base, s) =
            (if length s > 2 \<and> hd s = CHR ''0'' \<and> (s ! 1 = CHR ''x'' \<or> s ! 1 = CHR ''X'') \<and> digit_in 16 (s ! 2) \<noteq> None
             then (16, drop 2 s)
             else if s \<noteq> [] \<and> hd s = CHR ''0'' then (8, s) else (10, s));
          ds = map (\<lambda>c. the (digit_in base c)) (takeWhile (\<lambda>c. digit_in base c \<noteq> None) s);
          v = int (foldl (\<lambda>n d. n * base + d) 0 ds);
          v = (if neg then - v else v)
      in max (- (2 ^ 63)) (min (2 ^ 63 - 1) v))"

section \<open>The environment\<close>

text \<open>
  The resolver, what \<^verbatim>\<open>random_device\<close> gives, and the floating-point operations of the platform: \<^verbatim>\<open>strtof\<close>, and
  the conversion and product in \<^verbatim>\<open>static_cast<uint16_t>(static_cast<float>(max) * lossrate)\<close>.
\<close>

record 'f command_env =
  ce_libc :: libc
  ce_random :: u32
  ce_strtof :: "string \<Rightarrow> 'f"
  ce_float :: "u16 \<Rightarrow> 'f"
  ce_times :: "'f \<Rightarrow> 'f \<Rightarrow> 'f"
  ce_u16 :: "'f \<Rightarrow> u16"

text \<open>\<^verbatim>\<open>exit\<close> after \<^verbatim>\<open>show_usage\<close> with its message, or a result.\<close>

datatype 'a parsed = Exit int "string option" | Parsed 'a

definition past_argv :: exn where
  "past_argv = Undefined_behaviour ''argv read past its end''"

definition arg :: "string list \<Rightarrow> nat \<Rightarrow> exn + string" where
  "arg argv i = (if i < length argv then Inr (argv ! i) else Inl past_argv)"

definition check_argc :: "string list \<Rightarrow> nat \<Rightarrow> string \<Rightarrow> (exn + 'a parsed) \<Rightarrow> exn + 'a parsed" where
  "check_argc argv cur err continue =
     (if cur + 3 \<ge> length argv then Inr (Exit 1 (Some err)) else continue)"

text \<open>The shape of every branch for an option with an argument.\<close>

definition option_arg ::
  "string list \<Rightarrow> nat \<Rightarrow> string \<Rightarrow> (string \<Rightarrow> 's) \<Rightarrow> exn + ('s \<times> nat) parsed" where
  "option_arg argv cur err f =
     check_argc argv cur err (bindE (arg argv (cur + 1)) (\<lambda>s. Inr (Parsed (f s, cur + 2))))"

text \<open>An option never reads past \<^verbatim>\<open>argv\<close>, and goes on with at least two arguments left.\<close>

definition advances :: "string list \<Rightarrow> nat \<Rightarrow> exn + ('s \<times> nat) parsed \<Rightarrow> bool" where
  "advances argv cur r \<longleftrightarrow> (\<exists>p. r = Inr p \<and> (\<forall>st c. p = Parsed (st, c) \<longrightarrow> cur < c \<and> c + 2 \<le> length argv))"

lemma advances_intros [simp]:
  "advances argv cur (option_arg argv cur err f)"
  "advances argv cur (Inr (Exit code msg))"
  "cur + 2 < length argv \<Longrightarrow> advances argv cur (Inr (Parsed (st, Suc cur)))"
  by (auto simp: advances_def option_arg_def check_argc_def arg_def)

lemma advances_Parsed: "advances argv cur r \<Longrightarrow> r = Inr (Parsed (st, c)) \<Longrightarrow> cur < c \<and> c + 2 \<le> length argv"
  by (simp add: advances_def)

section \<open>What the options set\<close>

record configs =
  cl_fsm :: tcp_config
  cl_filt :: fd_adapter_config

record udp_configs = configs +
  cl_listen :: bool

record ipv4_configs = udp_configs +
  cl_tundev :: "string option"
  cl_source_address :: string
  cl_source_port :: string

record tap_configs = configs +
  cl_tapdev :: string
  cl_tap_source_address :: string
  cl_tap_source_port :: string
  cl_next_hop_address :: string

text \<open>\<^verbatim>\<open>recv_capacity\<close> is a \<^verbatim>\<open>size_t\<close>, \<^verbatim>\<open>rt_timeout\<close> an \<^verbatim>\<open>uint16_t\<close>: the \<^verbatim>\<open>long\<close> is converted.\<close>

definition set_window :: "string \<Rightarrow> 'a configs_scheme \<Rightarrow> 'a configs_scheme" where
  "set_window s st = st\<lparr>cl_fsm := (cl_fsm st)\<lparr>cfg_recv_capacity := nat (strtol s mod 2 ^ 64)\<rparr>\<rparr>"

definition set_timeout :: "string \<Rightarrow> 'a configs_scheme \<Rightarrow> 'a configs_scheme" where
  "set_timeout s st = st\<lparr>cl_fsm := (cl_fsm st)\<lparr>cfg_rt_timeout := nat (strtol s mod 2 ^ 16)\<rparr>\<rparr>"

definition loss_rate :: "'f command_env \<Rightarrow> string \<Rightarrow> u16" where
  "loss_rate env s = ce_u16 env (ce_times env (ce_float env 0xffff) (ce_strtof env s))"

definition set_loss_up :: "'f command_env \<Rightarrow> string \<Rightarrow> 'a configs_scheme \<Rightarrow> 'a configs_scheme" where
  "set_loss_up env s st = st\<lparr>cl_filt := (cl_filt st)\<lparr>fc_loss_rate_up := loss_rate env s\<rparr>\<rparr>"

definition set_loss_dn :: "'f command_env \<Rightarrow> string \<Rightarrow> 'a configs_scheme \<Rightarrow> 'a configs_scheme" where
  "set_loss_dn env s st = st\<lparr>cl_filt := (cl_filt st)\<lparr>fc_loss_rate_dn := loss_rate env s\<rparr>\<rparr>"

text \<open>\<^verbatim>\<open>to_string(uint16_t(random_device()()))\<close>\<close>

definition random_port :: "'f command_env \<Rightarrow> string" where
  "random_port env = dec_string (unat (ucast (ce_random env) :: u16))"

section \<open>Over IPv4 and a TUN device\<close>

definition ipv4_option :: "'f command_env \<Rightarrow> string list \<Rightarrow> nat \<Rightarrow> ipv4_configs \<Rightarrow> exn + (ipv4_configs \<times> nat) parsed" where
  "ipv4_option env argv cur st =
     bindE (arg argv cur) (\<lambda>a.
       if strncmp_eq ''-l'' a 3 then Inr (Parsed (st\<lparr>cl_listen := True\<rparr>, cur + 1))
       else if strncmp_eq ''-a'' a 3 then
         option_arg argv cur ''ERROR: -a requires one argument.'' (\<lambda>s. st\<lparr>cl_source_address := s\<rparr>)
       else if strncmp_eq ''-s'' a 3 then
         option_arg argv cur ''ERROR: -s requires one argument.'' (\<lambda>s. st\<lparr>cl_source_port := s\<rparr>)
       else if strncmp_eq ''-w'' a 3 then
         option_arg argv cur ''ERROR: -w requires one argument.'' (\<lambda>s. set_window s st)
       else if strncmp_eq ''-t'' a 3 then
         option_arg argv cur ''ERROR: -t requires one argument.'' (\<lambda>s. set_timeout s st)
       else if strncmp_eq ''-d'' a 3 then
         option_arg argv cur ''ERROR: -t requires one argument.'' (\<lambda>s. st\<lparr>cl_tundev := Some s\<rparr>)
       else if strncmp_eq ''-Lu'' a 3 then
         option_arg argv cur ''ERROR: -Lu requires one argument.'' (\<lambda>s. set_loss_up env s st)
       else if strncmp_eq ''-Ld'' a 3 then
         option_arg argv cur ''ERROR: -Lu requires one argument.'' (\<lambda>s. set_loss_dn env s st)
       else if strncmp_eq ''-h'' a 3 then Inr (Exit 0 None)
       else Inr (Exit 1 (Some (''ERROR: unrecognized option '' @ a))))"

lemma ipv4_option_advances: "cur + 2 < length argv \<Longrightarrow> advances argv cur (ipv4_option env argv cur st)"
  by (simp add: ipv4_option_def arg_def)

function ipv4_options :: "'f command_env \<Rightarrow> string list \<Rightarrow> nat \<Rightarrow> ipv4_configs \<Rightarrow> exn + (ipv4_configs \<times> nat) parsed" where
  "ipv4_options env argv cur st =
     (if cur + 2 < length argv then
        case ipv4_option env argv cur st of
          Inl e \<Rightarrow> Inl e
        | Inr (Exit code msg) \<Rightarrow> Inr (Exit code msg)
        | Inr (Parsed (st, cur)) \<Rightarrow> ipv4_options env argv cur st
      else Inr (Parsed (st, cur)))"
  by pat_completeness auto

termination ipv4_options
  by (relation "measure (\<lambda>(_, argv, cur, _). length argv - cur)") (use advances_Parsed [OF ipv4_option_advances] in fastforce)+

declare ipv4_options.simps [simp del]

text \<open>The rest of \<^verbatim>\<open>get_config\<close> after the options.\<close>

definition ipv4_positional :: "'f command_env \<Rightarrow> string list \<Rightarrow> nat \<Rightarrow> ipv4_configs \<Rightarrow> exn + ipv4_configs parsed" where
  "ipv4_positional env argv cur st =
     (let resolve = Address_of_host (lc_getaddrinfo (ce_libc env))
      in if cl_listen st then
           bindE (arg argv (cur + 1)) (\<lambda>service.
           bindE (resolve ''0'' service) (\<lambda>source.
             let st = st\<lparr>cl_filt := (cl_filt st)\<lparr>fc_source := source\<rparr>\<rparr>
             in bindE (port_of (ce_libc env) (fc_source (cl_filt st))) (\<lambda>port.
                  if port = 0 then Inr (Exit 1 (Some ''ERROR: listen port cannot be zero in server mode.''))
                  else Inr (Parsed st))))
         else
           bindE (arg argv cur) (\<lambda>host.
           bindE (arg argv (cur + 1)) (\<lambda>service.
           bindE (resolve host service) (\<lambda>destination.
           bindE (resolve (cl_source_address st) (cl_source_port st)) (\<lambda>source.
             Inr (Parsed (st\<lparr>cl_filt := (cl_filt st)\<lparr>fc_destination := destination, fc_source := source\<rparr>\<rparr>)))))))"

definition LOCAL_ADDRESS_DFLT :: string where "LOCAL_ADDRESS_DFLT = ''169.254.144.9''"
definition TUN_DFLT :: string where "TUN_DFLT = ''tun144''"

definition ipv4_start :: "'f command_env \<Rightarrow> fd_adapter_config \<Rightarrow> ipv4_configs" where
  "ipv4_start env c_filt = \<lparr>cl_fsm = TCPConfig, cl_filt = c_filt, cl_listen = False, cl_tundev = None,
     cl_source_address = LOCAL_ADDRESS_DFLT, cl_source_port = random_port env\<rparr>"

definition ipv4_get_config :: "'f command_env \<Rightarrow> string list \<Rightarrow> exn + ipv4_configs parsed" where
  "ipv4_get_config env argv =
     bindE (FdAdapterConfig (ce_libc env)) (\<lambda>c_filt.
     bindE (ipv4_options env argv 1 (ipv4_start env c_filt)) (\<lambda>p.
       case p of Exit code msg \<Rightarrow> Inr (Exit code msg) | Parsed (st, cur) \<Rightarrow> ipv4_positional env argv cur st))"

text \<open>What \<^verbatim>\<open>main\<close> asks of the socket, and the device it opens; an exception is caught, and the exit code is 1.\<close>

datatype socket_start = Listen_and_accept tcp_config fd_adapter_config | Connect tcp_config fd_adapter_config

definition tcp_ipv4_main :: "'f command_env \<Rightarrow> string list \<Rightarrow> exn + (string \<times> socket_start) parsed" where
  "tcp_ipv4_main env argv =
     (if length argv < 3 then Inr (Exit 1 (Some ''ERROR: required arguments are missing.''))
      else
        bindE (ipv4_get_config env argv) (\<lambda>p. case p of
          Exit code msg \<Rightarrow> Inr (Exit code msg)
        | Parsed st \<Rightarrow>
            Inr (Parsed (case cl_tundev st of None \<Rightarrow> TUN_DFLT | Some tun_dev_name \<Rightarrow> tun_dev_name,
              if cl_listen st then Listen_and_accept (cl_fsm st) (cl_filt st) else Connect (cl_fsm st) (cl_filt st)))))"

section \<open>Over UDP\<close>

definition udp_option :: "'f command_env \<Rightarrow> string list \<Rightarrow> nat \<Rightarrow> udp_configs \<Rightarrow> exn + (udp_configs \<times> nat) parsed" where
  "udp_option env argv cur st =
     bindE (arg argv cur) (\<lambda>a.
       if strncmp_eq ''-l'' a 3 then Inr (Parsed (st\<lparr>cl_listen := True\<rparr>, cur + 1))
       else if strncmp_eq ''-w'' a 3 then
         option_arg argv cur ''ERROR: -w requires one argument.'' (\<lambda>s. set_window s st)
       else if strncmp_eq ''-t'' a 3 then
         option_arg argv cur ''ERROR: -t requires one argument.'' (\<lambda>s. set_timeout s st)
       else if strncmp_eq ''-Lu'' a 3 then
         option_arg argv cur ''ERROR: -Lu requires one argument.'' (\<lambda>s. set_loss_up env s st)
       else if strncmp_eq ''-Ld'' a 3 then
         option_arg argv cur ''ERROR: -Lu requires one argument.'' (\<lambda>s. set_loss_dn env s st)
       else if strncmp_eq ''-h'' a 3 then Inr (Exit 0 None)
       else Inr (Exit 1 (Some (''ERROR: unrecognized option '' @ a))))"

lemma udp_option_advances: "cur + 2 < length argv \<Longrightarrow> advances argv cur (udp_option env argv cur st)"
  by (simp add: udp_option_def arg_def)

function udp_options :: "'f command_env \<Rightarrow> string list \<Rightarrow> nat \<Rightarrow> udp_configs \<Rightarrow> exn + (udp_configs \<times> nat) parsed" where
  "udp_options env argv cur st =
     (if cur + 2 < length argv then
        case udp_option env argv cur st of
          Inl e \<Rightarrow> Inl e
        | Inr (Exit code msg) \<Rightarrow> Inr (Exit code msg)
        | Inr (Parsed (st, cur)) \<Rightarrow> udp_options env argv cur st
      else Inr (Parsed (st, cur)))"
  by pat_completeness auto

termination udp_options
  by (relation "measure (\<lambda>(_, argv, cur, _). length argv - cur)")
    (use advances_Parsed [OF udp_option_advances] in fastforce)+

declare udp_options.simps [simp del]

text \<open>The positional arguments are the last two of \<^verbatim>\<open>argv\<close>.\<close>

definition udp_positional :: "'f command_env \<Rightarrow> string list \<Rightarrow> udp_configs \<Rightarrow> exn + udp_configs parsed" where
  "udp_positional env argv st =
     (let resolve = Address_of_host (lc_getaddrinfo (ce_libc env)); argc = length argv
      in if cl_listen st then
           bindE (arg argv (argc - 1)) (\<lambda>service.
           bindE (resolve ''0'' service) (\<lambda>source.
             Inr (Parsed (st\<lparr>cl_filt := (cl_filt st)\<lparr>fc_source := source\<rparr>\<rparr>))))
         else
           bindE (arg argv (argc - 2)) (\<lambda>host.
           bindE (arg argv (argc - 1)) (\<lambda>service.
           bindE (resolve host service) (\<lambda>destination.
             Inr (Parsed (st\<lparr>cl_filt := (cl_filt st)\<lparr>fc_destination := destination\<rparr>\<rparr>))))))"

definition udp_get_config :: "'f command_env \<Rightarrow> string list \<Rightarrow> exn + udp_configs parsed" where
  "udp_get_config env argv =
     bindE (FdAdapterConfig (ce_libc env)) (\<lambda>c_filt.
     bindE (udp_options env argv 1 \<lparr>cl_fsm = TCPConfig, cl_filt = c_filt, cl_listen = False\<rparr>) (\<lambda>p.
       case p of Exit code msg \<Rightarrow> Inr (Exit code msg) | Parsed (st, cur) \<Rightarrow> udp_positional env argv st))"

text \<open>In listening mode the UDP socket is bound to the source first.\<close>

definition tcp_udp_main :: "'f command_env \<Rightarrow> string list \<Rightarrow> exn + (address option \<times> socket_start) parsed" where
  "tcp_udp_main env argv =
     (if length argv < 3 then Inr (Exit 1 (Some ''ERROR: required arguments are missing.''))
      else
        bindE (udp_get_config env argv) (\<lambda>p. case p of
          Exit code msg \<Rightarrow> Inr (Exit code msg)
        | Parsed st \<Rightarrow>
            Inr (Parsed (if cl_listen st then (Some (fc_source (cl_filt st)), Listen_and_accept (cl_fsm st) (cl_filt st))
                         else (None, Connect (cl_fsm st) (cl_filt st))))))"

section \<open>Over IPv4, Ethernet and a TAP device\<close>

definition tap_option :: "string list \<Rightarrow> nat \<Rightarrow> tap_configs \<Rightarrow> exn + (tap_configs \<times> nat) parsed" where
  "tap_option argv cur st =
     bindE (arg argv cur) (\<lambda>a.
       if strncmp_eq ''-a'' a 3 then
         option_arg argv cur ''ERROR: -a requires one argument.'' (\<lambda>s. st\<lparr>cl_tap_source_address := s\<rparr>)
       else if strncmp_eq ''-s'' a 3 then
         option_arg argv cur ''ERROR: -s requires one argument.'' (\<lambda>s. st\<lparr>cl_tap_source_port := s\<rparr>)
       else if strncmp_eq ''-n'' a 3 then
         option_arg argv cur ''ERROR: -n requires one argument.'' (\<lambda>s. st\<lparr>cl_next_hop_address := s\<rparr>)
       else if strncmp_eq ''-w'' a 3 then
         option_arg argv cur ''ERROR: -w requires one argument.'' (\<lambda>s. set_window s st)
       else if strncmp_eq ''-t'' a 3 then
         option_arg argv cur ''ERROR: -t requires one argument.'' (\<lambda>s. set_timeout s st)
       else if strncmp_eq ''-d'' a 3 then
         option_arg argv cur ''ERROR: -t requires one argument.'' (\<lambda>s. st\<lparr>cl_tapdev := s\<rparr>)
       else if strncmp_eq ''-h'' a 3 then Inr (Exit 0 None)
       else Inr (Exit 1 (Some (''ERROR: unrecognized option '' @ a))))"

lemma tap_option_advances: "cur + 2 < length argv \<Longrightarrow> advances argv cur (tap_option argv cur st)"
  by (simp add: tap_option_def arg_def)

function tap_options :: "string list \<Rightarrow> nat \<Rightarrow> tap_configs \<Rightarrow> exn + (tap_configs \<times> nat) parsed" where
  "tap_options argv cur st =
     (if cur + 2 < length argv then
        case tap_option argv cur st of
          Inl e \<Rightarrow> Inl e
        | Inr (Exit code msg) \<Rightarrow> Inr (Exit code msg)
        | Inr (Parsed (st, cur)) \<Rightarrow> tap_options argv cur st
      else Inr (Parsed (st, cur)))"
  by pat_completeness auto

termination tap_options
  by (relation "measure (\<lambda>(argv, cur, _). length argv - cur)")
    (use advances_Parsed [OF tap_option_advances] in fastforce)+

declare tap_options.simps [simp del]

definition TAP_DFLT :: string where "TAP_DFLT = ''tap10''"
definition TAP_LOCAL_ADDRESS_DFLT :: string where "TAP_LOCAL_ADDRESS_DFLT = ''169.254.10.9''"
definition GATEWAY_DFLT :: string where "GATEWAY_DFLT = ''169.254.10.1''"

definition tap_start :: "'f command_env \<Rightarrow> fd_adapter_config \<Rightarrow> tap_configs" where
  "tap_start env c_filt = \<lparr>cl_fsm = TCPConfig, cl_filt = c_filt, cl_tapdev = TAP_DFLT,
     cl_tap_source_address = TAP_LOCAL_ADDRESS_DFLT, cl_tap_source_port = random_port env,
     cl_next_hop_address = GATEWAY_DFLT\<rparr>"

text \<open>The configuration and the address of the next hop.\<close>

definition tap_positional :: "'f command_env \<Rightarrow> string list \<Rightarrow> nat \<Rightarrow> tap_configs \<Rightarrow> exn + (tap_configs \<times> address) parsed" where
  "tap_positional env argv cur st =
     (let resolve = Address_of_host (lc_getaddrinfo (ce_libc env))
      in bindE (arg argv cur) (\<lambda>host.
         bindE (arg argv (cur + 1)) (\<lambda>service.
         bindE (resolve host service) (\<lambda>destination.
         bindE (resolve (cl_tap_source_address st) (cl_tap_source_port st)) (\<lambda>source.
         bindE (resolve (cl_next_hop_address st) ''0'') (\<lambda>next_hop.
           Inr (Parsed (st\<lparr>cl_filt := (cl_filt st)\<lparr>fc_destination := destination, fc_source := source\<rparr>\<rparr>, next_hop))))))))"

definition tap_get_config :: "'f command_env \<Rightarrow> string list \<Rightarrow> exn + (tap_configs \<times> address) parsed" where
  "tap_get_config env argv =
     bindE (FdAdapterConfig (ce_libc env)) (\<lambda>c_filt.
     bindE (tap_options argv 1 (tap_start env c_filt)) (\<lambda>p.
       case p of Exit code msg \<Rightarrow> Inr (Exit code msg) | Parsed (st, cur) \<Rightarrow> tap_positional env argv cur st))"

text \<open>The local Ethernet address: six random bytes, marked as private and as that of one station.\<close>

definition local_ethernet_address :: "(nat \<Rightarrow> u32) \<Rightarrow> ethernet_address" where
  "local_ethernet_address random_device =
     (let a = map (\<lambda>i. ucast (random_device i)) [0..<6];
          a = a[0 := or (a ! 0) 0x02];
          a = a[0 := and (a ! 0) 0xfe]
      in a)"

text \<open>The device, the local and the next hop's address for the adapter, and the connection.\<close>

definition tcp_ip_ethernet_main ::
  "'f command_env \<Rightarrow> (nat \<Rightarrow> u32) \<Rightarrow> string list \<Rightarrow>
    exn + (string \<times> ethernet_address \<times> address \<times> socket_start) parsed" where
  "tcp_ip_ethernet_main env random_device argv =
     (if length argv < 3 then Inr (Exit 1 (Some ''ERROR: required arguments are missing.''))
      else
        let local_address = local_ethernet_address random_device
        in bindE (tap_get_config env argv) (\<lambda>p. case p of
             Exit code msg \<Rightarrow> Inr (Exit code msg)
           | Parsed (st, next_hop) \<Rightarrow>
               Inr (Parsed (cl_tapdev st, local_address, next_hop, Connect (cl_fsm st) (cl_filt st)))))"

section \<open>Reading options\<close>

text \<open>
  What the three loops have in common: \<open>step\<close> handles one option, \<open>render\<close> gives the arguments that express an option,
  and \<open>apply_option\<close> what it sets.
\<close>

locale option_loop =
  fixes step :: "string list \<Rightarrow> nat \<Rightarrow> 's \<Rightarrow> exn + ('s \<times> nat) parsed"
    and loop :: "string list \<Rightarrow> nat \<Rightarrow> 's \<Rightarrow> exn + ('s \<times> nat) parsed"
    and render :: "'o \<Rightarrow> string list" and apply_option :: "'o \<Rightarrow> 's \<Rightarrow> 's" and known :: "'o \<Rightarrow> bool"
  assumes loop: "loop argv cur st =
      (if cur + 2 < length argv then
         case step argv cur st of
           Inl e \<Rightarrow> Inl e
         | Inr (Exit code msg) \<Rightarrow> Inr (Exit code msg)
         | Inr (Parsed (st, cur)) \<Rightarrow> loop argv cur st
       else Inr (Parsed (st, cur)))"
    and step_advances: "cur + 2 < length argv \<Longrightarrow> advances argv cur (step argv cur st)"
    and step_render: "known opt \<Longrightarrow> cur + length (render opt) + 2 \<le> length argv \<Longrightarrow>
      (\<forall>i < length (render opt). argv ! (cur + i) = render opt ! i) \<Longrightarrow>
      step argv cur st = Inr (Parsed (apply_option opt st, cur + length (render opt)))"
    and render_some: "render opt \<noteq> []"
begin

text \<open>The loop ends, reads nothing past the end, and leaves exactly two arguments.\<close>

lemma loop_total:
  "cur + 2 \<le> length argv \<Longrightarrow>
     \<exists>p. loop argv cur st = Inr p \<and> (\<forall>st' c. p = Parsed (st', c) \<longrightarrow> c + 2 = length argv)"
proof (induction "length argv - cur" arbitrary: cur st rule: less_induct)
  case less
  show ?case
  proof (cases "cur + 2 < length argv")
    case True
    obtain p where p: "step argv cur st = Inr p" "\<forall>st c. p = Parsed (st, c) \<longrightarrow> cur < c \<and> c + 2 \<le> length argv"
      using step_advances [OF True, of st] unfolding advances_def by blast
    show ?thesis
    proof (cases p)
      case (Parsed q)
      obtain st' c where q: "q = (st', c)" by fastforce
      have c: "cur < c" "c + 2 \<le> length argv" using p(2) Parsed q by auto
      then have "length argv - c < length argv - cur" using True by simp
      from less.hyps [OF this c(2)] show ?thesis using p(1) Parsed q True by (simp add: loop [of argv cur st])
    qed (use p True in \<open>simp add: loop [of argv cur st]\<close>)
  qed (use less.prems in \<open>simp add: loop [of argv cur st]\<close>)
qed

text \<open>Rendered options are read back.\<close>

lemma loop_renders:
  assumes "list_all known opts" "argv = pre @ concat (map render opts) @ [host, service]"
  shows "loop argv (length pre) st = Inr (Parsed (fold apply_option opts st, length argv - 2))"
  using assms
proof (induction opts arbitrary: pre st)
  case Nil
  then show ?case by (simp add: loop [of "pre @ [host, service]" "length pre" st])
next
  case (Cons opt opts)
  let ?r = "render opt"
  have argv: "argv = (pre @ ?r) @ concat (map render opts) @ [host, service]" using Cons.prems(2) by simp
  then have len: "length pre + length ?r + 2 \<le> length argv" by simp
  have "\<forall>i < length ?r. argv ! (length pre + i) = ?r ! i" by (simp add: argv nth_append)
  then have step: "step argv (length pre) st = Inr (Parsed (apply_option opt st, length (pre @ ?r)))"
    using step_render [OF _ len] Cons.prems(1) by simp
  have "length pre + 2 < length argv" using len render_some [of opt] by (cases ?r) simp_all
  then show ?case
    using Cons.IH [OF _ argv, of "apply_option opt st"] Cons.prems(1) step by (simp add: loop [of argv "length pre" st])
qed

end

datatype option_value = Opt_l | Opt_a string | Opt_s string | Opt_n string | Opt_w string | Opt_t string | Opt_d string
  | Opt_Lu string | Opt_Ld string

fun render_option :: "option_value \<Rightarrow> string list" where
  "render_option Opt_l = [''-l'']"
| "render_option (Opt_a s) = [''-a'', s]"
| "render_option (Opt_s s) = [''-s'', s]"
| "render_option (Opt_n s) = [''-n'', s]"
| "render_option (Opt_w s) = [''-w'', s]"
| "render_option (Opt_t s) = [''-t'', s]"
| "render_option (Opt_d s) = [''-d'', s]"
| "render_option (Opt_Lu s) = [''-Lu'', s]"
| "render_option (Opt_Ld s) = [''-Ld'', s]"

lemma render_option_some [simp]: "render_option opt \<noteq> []"
  by (cases opt) simp_all

fun apply_config :: "'f command_env \<Rightarrow> option_value \<Rightarrow> 'a configs_scheme \<Rightarrow> 'a configs_scheme" where
  "apply_config env (Opt_w s) st = set_window s st"
| "apply_config env (Opt_t s) st = set_timeout s st"
| "apply_config env (Opt_Lu s) st = set_loss_up env s st"
| "apply_config env (Opt_Ld s) st = set_loss_dn env s st"
| "apply_config env _ st = st"

fun apply_udp :: "'f command_env \<Rightarrow> option_value \<Rightarrow> 'a udp_configs_scheme \<Rightarrow> 'a udp_configs_scheme" where
  "apply_udp env Opt_l st = st\<lparr>cl_listen := True\<rparr>"
| "apply_udp env opt st = apply_config env opt st"

fun apply_ipv4 :: "'f command_env \<Rightarrow> option_value \<Rightarrow> ipv4_configs \<Rightarrow> ipv4_configs" where
  "apply_ipv4 env (Opt_a s) st = st\<lparr>cl_source_address := s\<rparr>"
| "apply_ipv4 env (Opt_s s) st = st\<lparr>cl_source_port := s\<rparr>"
| "apply_ipv4 env (Opt_d s) st = st\<lparr>cl_tundev := Some s\<rparr>"
| "apply_ipv4 env opt st = apply_udp env opt st"

fun apply_tap :: "'f command_env \<Rightarrow> option_value \<Rightarrow> tap_configs \<Rightarrow> tap_configs" where
  "apply_tap env (Opt_a s) st = st\<lparr>cl_tap_source_address := s\<rparr>"
| "apply_tap env (Opt_s s) st = st\<lparr>cl_tap_source_port := s\<rparr>"
| "apply_tap env (Opt_n s) st = st\<lparr>cl_next_hop_address := s\<rparr>"
| "apply_tap env (Opt_d s) st = st\<lparr>cl_tapdev := s\<rparr>"
| "apply_tap env opt st = apply_config env opt st"

fun known_udp :: "option_value \<Rightarrow> bool" where
  "known_udp (Opt_a _) = False"
| "known_udp (Opt_s _) = False"
| "known_udp (Opt_n _) = False"
| "known_udp (Opt_d _) = False"
| "known_udp _ = True"

fun known_ipv4 :: "option_value \<Rightarrow> bool" where
  "known_ipv4 (Opt_n _) = False"
| "known_ipv4 _ = True"

fun known_tap :: "option_value \<Rightarrow> bool" where
  "known_tap Opt_l = False"
| "known_tap (Opt_Lu _) = False"
| "known_tap (Opt_Ld _) = False"
| "known_tap _ = True"

text \<open>The first argument of a rendered option, and its value.\<close>

lemma rendered:
  "\<forall>i < length (render_option opt). argv ! (cur + i) = render_option opt ! i \<Longrightarrow>
     argv ! cur = hd (render_option opt) \<and>
     (length (render_option opt) = 2 \<longrightarrow> argv ! (cur + 1) = render_option opt ! 1)"
  by (cases opt) (auto simp: All_less_Suc numeral_2_eq_2)

lemma option_arg_reads:
  "cur + 4 \<le> length argv \<Longrightarrow> option_arg argv cur err f = Inr (Parsed (f (argv ! (cur + 1)), cur + 2))"
  by (simp add: option_arg_def check_argc_def arg_def)

interpretation ipv4: option_loop "ipv4_option env" "ipv4_options env" render_option "apply_ipv4 env" known_ipv4 for env
proof
  fix argv cur st and opt :: option_value
  assume k: "known_ipv4 opt" "cur + length (render_option opt) + 2 \<le> length argv"
    "\<forall>i < length (render_option opt). argv ! (cur + i) = render_option opt ! i"
  show "ipv4_option env argv cur st = Inr (Parsed (apply_ipv4 env opt st, cur + length (render_option opt)))"
    using k(1,2) rendered [OF k(3)]
    by (cases opt) (simp_all add: ipv4_option_def arg_def strncmp_eq_def option_arg_reads)
qed (rule ipv4_options.simps, simp_all add: ipv4_option_advances)

interpretation udp: option_loop "udp_option env" "udp_options env" render_option "apply_udp env" known_udp for env
proof
  fix argv cur st and opt :: option_value
  assume k: "known_udp opt" "cur + length (render_option opt) + 2 \<le> length argv"
    "\<forall>i < length (render_option opt). argv ! (cur + i) = render_option opt ! i"
  show "udp_option env argv cur st = Inr (Parsed (apply_udp env opt st, cur + length (render_option opt)))"
    using k(1,2) rendered [OF k(3)]
    by (cases opt) (simp_all add: udp_option_def arg_def strncmp_eq_def option_arg_reads)
qed (rule udp_options.simps, simp_all add: udp_option_advances)

interpretation tap: option_loop tap_option tap_options render_option "apply_tap env" known_tap for env
proof
  fix argv cur st and opt :: option_value
  assume k: "known_tap opt" "cur + length (render_option opt) + 2 \<le> length argv"
    "\<forall>i < length (render_option opt). argv ! (cur + i) = render_option opt ! i"
  show "tap_option argv cur st = Inr (Parsed (apply_tap env opt st, cur + length (render_option opt)))"
    using k(1,2) rendered [OF k(3)]
    by (cases opt) (simp_all add: tap_option_def arg_def strncmp_eq_def option_arg_reads)
qed (rule tap_options.simps, simp_all add: tap_option_advances)

section \<open>What is read of the arguments\<close>

lemma resolve_past: "Address_of_host resolve host service \<noteq> Inl past_argv" "Address_of_ip resolve host port \<noteq> Inl past_argv"
  "Address_port lookup a \<noteq> Inl past_argv"
  by (auto simp: Address_of_host_def Address_of_ip_def Address_resolve_def Address_of_sockaddr_def past_argv_def
      Address_port_def Address_ip_port_def stoi_def Let_def bindE_def split: prod.splits option.splits if_splits sum.splits)

lemma bindE_past: "m \<noteq> Inl past_argv \<Longrightarrow> (\<And>x. m = Inr x \<Longrightarrow> f x \<noteq> Inl past_argv) \<Longrightarrow> bindE m f \<noteq> Inl past_argv"
  by (cases m) auto

lemma config_past: "FdAdapterConfig l \<noteq> Inl past_argv"
  unfolding FdAdapterConfig_def by (intro bindE_past resolve_past) simp

lemma positional_in:
  "cur + 2 = length argv \<Longrightarrow> arg argv cur \<noteq> Inl past_argv"
  "cur + 2 = length argv \<Longrightarrow> arg argv (cur + 1) \<noteq> Inl past_argv"
  by (simp_all add: arg_def)

lemma let_past: "(\<And>x. x = a \<Longrightarrow> f x \<noteq> Inl past_argv) \<Longrightarrow> (let x = a in f x) \<noteq> Inl past_argv"
  and if_past: "(b \<Longrightarrow> m \<noteq> Inl past_argv) \<Longrightarrow> (\<not> b \<Longrightarrow> m' \<noteq> Inl past_argv) \<Longrightarrow> (if b then m else m') \<noteq> Inl past_argv"
  by (simp_all add: Let_def)

lemmas in_bounds = bindE_past resolve_past positional_in config_past if_past

lemma ipv4_positional_past: "cur + 2 = length argv \<Longrightarrow> ipv4_positional env argv cur st \<noteq> Inl past_argv"
  unfolding ipv4_positional_def Let_def by (intro in_bounds) simp_all

lemma udp_positional_past: "3 \<le> length argv \<Longrightarrow> udp_positional env argv st \<noteq> Inl past_argv"
  unfolding udp_positional_def Let_def by (intro bindE_past resolve_past if_past) (simp_all add: arg_def)

lemma tap_positional_past: "cur + 2 = length argv \<Longrightarrow> tap_positional env argv cur st \<noteq> Inl past_argv"
  unfolding tap_positional_def Let_def by (intro in_bounds) simp_all

lemma parsed_past:
  assumes "\<exists>p. m = Inr p \<and> (\<forall>st c. p = Parsed (st, c) \<longrightarrow> c + 2 = length argv)"
    and "\<And>st c. c + 2 = length argv \<Longrightarrow> f st c \<noteq> Inl past_argv"
  shows "bindE m (\<lambda>p. case p of Exit code msg \<Rightarrow> Inr (Exit code msg) | Parsed (st, c) \<Rightarrow> f st c) \<noteq> Inl past_argv"
  using assms by (auto split: parsed.splits)

section \<open>Properties\<close>

text \<open>
  C37: the command line of \<^verbatim>\<open>tcp_ipv4\<close>: options in any number and order, each written as it is documented, and then a
  host and a port, are read back: the configuration is that of the options, applied in order (a later one wins), the
  device is the one named last, and the addresses are resolved; in listening mode the host is not looked at, and
  the port zero is refused.
\<close>

theorem tcp_ipv4_command_line:
  assumes "list_all known_ipv4 opts" "FdAdapterConfig (ce_libc env) = Inr c_filt"
  shows "tcp_ipv4_main env (prog # concat (map render_option opts) @ [host, service]) =
    (let st = fold (apply_ipv4 env) opts (ipv4_start env c_filt);
         dev = (case cl_tundev st of None \<Rightarrow> TUN_DFLT | Some d \<Rightarrow> d);
         resolve = Address_of_host (lc_getaddrinfo (ce_libc env))
     in if cl_listen st then
          bindE (resolve ''0'' service) (\<lambda>source. bindE (port_of (ce_libc env) source) (\<lambda>port.
            if port = 0 then Inr (Exit 1 (Some ''ERROR: listen port cannot be zero in server mode.''))
            else Inr (Parsed (dev, Listen_and_accept (cl_fsm st) ((cl_filt st)\<lparr>fc_source := source\<rparr>)))))
        else
          bindE (resolve host service) (\<lambda>destination.
          bindE (resolve (cl_source_address st) (cl_source_port st)) (\<lambda>source.
            Inr (Parsed (dev, Connect (cl_fsm st) ((cl_filt st)\<lparr>fc_source := source, fc_destination := destination\<rparr>))))))"
proof -
  let ?argv = "prog # concat (map render_option opts) @ [host, service]"
  let ?st = "fold (apply_ipv4 env) opts (ipv4_start env c_filt)" and ?c = "length ?argv - 2"
  have opts: "ipv4_options env ?argv 1 (ipv4_start env c_filt) = Inr (Parsed (?st, ?c))"
    using ipv4.loop_renders [OF assms(1), of ?argv "[prog]" host service] by simp
  have at: "arg ?argv ?c = Inr host" "arg ?argv (?c + 1) = Inr service" by (simp_all add: arg_def nth_append)
  have "ipv4_get_config env ?argv = ipv4_positional env ?argv ?c ?st"
    by (simp only: ipv4_get_config_def assms(2) bindE_simps opts parsed.case prod.case)
  then show ?thesis
    by (simp add: tcp_ipv4_main_def ipv4_positional_def at [simplified] Let_def bindE_def split: sum.splits)
qed

text \<open>An environment in which every name is the same address.\<close>

definition demo_env :: "string command_env" where
  "demo_env = \<lparr>ce_libc = demo_libc\<lparr>lc_getaddrinfo := \<lambda>_ _ _. (0, Some [2, 0])\<rparr>, ce_random = 9,
     ce_strtof = id, ce_float = (\<lambda>_. []), ce_times = (\<lambda>x y. y), ce_u16 = (\<lambda>_. 7)\<rparr>"

lemma demo_resolves:
  "Address_of_host (lc_getaddrinfo (ce_libc demo_env)) host service = Inr \<lparr>ad_size = 2, ad_storage = [2, 0] @ replicate 126 0\<rparr>"
  "Address_of_ip (lc_getaddrinfo (ce_libc demo_env)) host port = Inr \<lparr>ad_size = 2, ad_storage = [2, 0] @ replicate 126 0\<rparr>"
  by (simp_all add: Address_of_host_def Address_of_ip_def Address_resolve_def Address_of_sockaddr_def demo_env_def
      sizeof_sockaddr_storage_def)

theorem tcp_ipv4_command_line_witness:
  "\<exists>filt. tcp_ipv4_main demo_env [''tcp_ipv4'', ''-w'', ''0x10'', ''-d'', ''tun1'', ''host'', ''1440''] =
     Inr (Parsed (''tun1'', Connect (TCPConfig\<lparr>cfg_recv_capacity := 16\<rparr>) filt))"
proof -
  let ?opts = "[Opt_w ''0x10'', Opt_d ''tun1'']"
  obtain c_filt where c: "FdAdapterConfig (ce_libc demo_env) = Inr c_filt"
    by (simp add: FdAdapterConfig_def demo_resolves)
  have "strtol ''0x10'' = 16" by (simp add: strtol_def isspace_def digit_in_def)
  then show ?thesis
    using tcp_ipv4_command_line [of ?opts demo_env c_filt "''tcp_ipv4''" "''host''" "''1440''"] c
    by (simp add: demo_resolves ipv4_start_def set_window_def)
qed

text \<open>
  C38: whatever the arguments, none of the three programs reads past the end of \<^verbatim>\<open>argv\<close>: the test of every option
  that takes an argument leaves it and two more, so that the two positional arguments are always there.
\<close>

theorem command_lines_in_bounds:
  "tcp_ipv4_main env argv \<noteq> Inl past_argv \<and> tcp_udp_main env argv \<noteq> Inl past_argv \<and>
     tcp_ip_ethernet_main env random_device argv \<noteq> Inl past_argv"
proof (cases "length argv < 3")
  case False
  then have len: "1 + 2 \<le> length argv" by simp
  have "ipv4_get_config env argv \<noteq> Inl past_argv"
    unfolding ipv4_get_config_def
    by (intro bindE_past config_past parsed_past [OF ipv4.loop_total [OF len]] ipv4_positional_past)
  moreover have "udp_get_config env argv \<noteq> Inl past_argv"
    unfolding udp_get_config_def
    by (intro bindE_past config_past parsed_past [OF udp.loop_total [OF len]] udp_positional_past) (use len in simp)
  moreover have "tap_get_config env argv \<noteq> Inl past_argv"
    unfolding tap_get_config_def
    by (intro bindE_past config_past parsed_past [OF tap.loop_total [OF len]] tap_positional_past)
  ultimately show ?thesis
    unfolding tcp_ipv4_main_def tcp_udp_main_def tcp_ip_ethernet_main_def Let_def if_not_P [OF False]
    by (intro conjI bindE_past) (auto split: parsed.splits)
qed (simp add: tcp_ipv4_main_def tcp_udp_main_def tcp_ip_ethernet_main_def)

text \<open>The local Ethernet address is private and that of one station, whatever the random numbers.\<close>

theorem local_ethernet_address_private:
  "length (local_ethernet_address random_device) = 6 \<and> and (hd (local_ethernet_address random_device)) 3 = 2"
proof -
  have "and 0xfe 3 = (2 :: byte)" by simp
  then have bits: "and (and (or b 2) 0xfe) 3 = (2 :: byte)" for b
    by (simp add: and.assoc word_ao_absorbs)
  have "upt 0 6 = [0, 1, 2, 3, 4, 5]" by (simp add: upt_rec)
  then show ?thesis by (simp add: local_ethernet_address_def bits)
qed

text \<open>
  The same for the other two programs: every rendered option is read back.
\<close>

theorem tcp_udp_options_read:
  assumes "list_all known_udp opts"
  shows "udp_options env (prog # concat (map render_option opts) @ [host, service]) 1 st =
    Inr (Parsed (fold (apply_udp env) opts st, length (concat (map render_option opts)) + 1))"
  using udp.loop_renders [OF assms refl, where pre = "[prog]" and host = host and service = service and env = env and st = st] by simp

theorem tcp_ip_ethernet_options_read:
  assumes "list_all known_tap opts"
  shows "tap_options (prog # concat (map render_option opts) @ [host, service]) 1 st =
    Inr (Parsed (fold (apply_tap env) opts st, length (concat (map render_option opts)) + 1))"
  using tap.loop_renders [OF assms refl, where pre = "[prog]" and host = host and service = service and env = env and st = st] by simp

end
