(* ===== verification/Small_Programs.thy ===== *)
theory Small_Programs
  imports File_Descriptor Tcpdump Command_Lines
begin

text \<open>
  The small programs: \<^verbatim>\<open>webget\<close> (\<^verbatim>\<open>apps/webget.cc\<close>) fetches a page over the kernel's TCP, \<^verbatim>\<open>tun\<close> (\<^verbatim>\<open>apps/tun.cc\<close>) shows
  what comes out of a TUN device (\<^verbatim>\<open>util/tun.cc\<close>), \<^verbatim>\<open>tcp_native\<close> (\<^verbatim>\<open>apps/tcp_native.cc\<close>) opens the kernel's socket that
  is copied from and to. The system calls are arguments, as in \<open>File_Descriptor\<close>.
\<close>

section \<open>webget\<close>

text \<open>The state of the kernel, \<open>'k\<close>, is what the calls of \<^verbatim>\<open>read\<close> change.\<close>

record 'k web_ops =
  wb_socket :: sysret
  wb_getaddrinfo :: resolver
  wb_connect :: "bytes \<Rightarrow> sysret"
  wb_writev :: "nat \<Rightarrow> bytes list \<Rightarrow> sysret"
  wb_read :: "nat \<Rightarrow> 'k \<Rightarrow> (sysret \<times> bytes) \<times> 'k"
  wb_close :: sysret

abbreviation crlf :: string where
  "crlf \<equiv> [CHR 0x0D, CHR 0x0A]"

definition request_text :: "string \<Rightarrow> string \<Rightarrow> string" where
  "request_text host path =
     ''GET '' @ path @ '' HTTP/1.1'' @ crlf @ ''Host: '' @ host @ crlf @ ''Connection: close'' @ crlf @ crlf"

definition ascii :: "string \<Rightarrow> bytes" where
  "ascii s = map (\<lambda>c. word_of_nat (of_char c)) s"

text \<open>\<^verbatim>\<open>sprintf\<close> into an array of \<open>room\<close> characters writes the text and a zero.\<close>

definition sprintf_to :: "nat \<Rightarrow> string \<Rightarrow> exn + string" where
  "sprintf_to room text =
     (if length text + 1 > room then Inl (Undefined_behaviour ''sprintf past the end of request'') else Inr text)"

text \<open>The loop that prints until \<^verbatim>\<open>eof\<close>, for at most \<open>n\<close> turns; the flag says whether it has ended.\<close>

fun url_loop :: "(nat \<Rightarrow> 'k \<Rightarrow> (sysret \<times> bytes) \<times> 'k) \<Rightarrow> nat \<Rightarrow> fd_wrapper \<Rightarrow> 'k \<Rightarrow> bytes \<Rightarrow>
    exn + bool \<times> fd_wrapper \<times> 'k \<times> bytes" where
  "url_loop read_call 0 fd k printed = Inr (fd_eof fd, fd, k, printed)"
| "url_loop read_call (Suc n) fd k printed =
     (if fd_eof fd then Inr (True, fd, k, printed)
      else
        let k' = snd (read_call (min BUFFER_SIZE size_max) k)
        in bindE (FileDescriptor_read (\<lambda>m. fst (read_call m k)) size_max fd) (\<lambda>(output, fd).
             url_loop read_call n fd k' (printed @ output)))"

text \<open>What is sent and what is printed.\<close>

definition get_URL :: "'k web_ops \<Rightarrow> nat \<Rightarrow> string \<Rightarrow> string \<Rightarrow> 'k \<Rightarrow> exn + bool \<times> bytes \<times> bytes \<times> 'k" where
  "get_URL ops n host path k =
     bindE (Socket (wb_socket ops)) (\<lambda>sender.
     bindE (Address_of_host (wb_getaddrinfo ops) host ''http'') (\<lambda>address.
     bindE (Socket_connect (wb_connect ops) address) (\<lambda>_.
     bindE (sprintf_to 100 (request_text host path)) (\<lambda>request.
     bindE (FileDescriptor_write (wb_writev ops) (BufferViewList_of_view (ascii request)) True sender)
       (\<lambda>(_, sent, sender).
     bindE (url_loop (wb_read ops) n sender k []) (\<lambda>(ended, sender, k, printed).
       if \<not> ended then Inr (False, sent, printed, k)
       else bindE (FDWrapper_close (wb_close ops) sender) (\<lambda>_. Inr (True, sent, printed, k))))))))"

text \<open>The exit code, once the program has ended; an exception is caught, undefined behaviour is not.\<close>

definition webget_main :: "'k web_ops \<Rightarrow> nat \<Rightarrow> string list \<Rightarrow> 'k \<Rightarrow> exn + int option" where
  "webget_main ops n argv k =
     (if argv = [] then Inl (Runtime_error ''abort'')
      else if length argv \<noteq> 3 then Inr (Some 1)
      else case get_URL ops n (argv ! 1) (argv ! 2) k of
             Inr (ended, _) \<Rightarrow> Inr (if ended then Some 0 else None)
           | Inl (Undefined_behaviour what) \<Rightarrow> Inl (Undefined_behaviour what)
           | Inl _ \<Rightarrow> Inr (Some 1))"

section \<open>tun\<close>

text \<open>
  Opening a device: \<open>open_call\<close> is what \<^verbatim>\<open>open(2)\<close> returns, \<open>ioctl\<close> what \<^verbatim>\<open>ioctl(2)\<close> returns for the flags and the name in
  \<^verbatim>\<open>ifr_name\<close>, an array of \<^verbatim>\<open>IFNAMSIZ\<close> characters that \<^verbatim>\<open>strncpy\<close> fills up with zeros.
\<close>

definition IFNAMSIZ :: nat where "IFNAMSIZ = 16"
definition IFF_TUN :: u16 where "IFF_TUN = 0x0001"
definition IFF_TAP :: u16 where "IFF_TAP = 0x0002"
definition IFF_NO_PI :: u16 where "IFF_NO_PI = 0x1000"

definition strncpy :: "nat \<Rightarrow> string \<Rightarrow> string" where
  "strncpy n s = take n (takeWhile (\<lambda>c. c \<noteq> CHR 0x00) s @ replicate n (CHR 0x00))"

definition ifr_name :: "string \<Rightarrow> string" where
  "ifr_name devname =
     (let name = strncpy (IFNAMSIZ - 1) devname @ drop (IFNAMSIZ - 1) (replicate IFNAMSIZ (CHR 0x00))
      in name[IFNAMSIZ - 1 := CHR 0x00])"

definition TunTapFD :: "sysret \<Rightarrow> (u16 \<Rightarrow> string \<Rightarrow> sysret) \<Rightarrow> string \<Rightarrow> bool \<Rightarrow> exn + fd_wrapper" where
  "TunTapFD open_call ioctl devname is_tun =
     bindE (syscall ''open'' open_call) (\<lambda>fd.
     bindE (FDWrapper fd) (\<lambda>w.
     bindE (syscall ''ioctl'' (ioctl (or (if is_tun then IFF_TUN else IFF_TAP) IFF_NO_PI) (ifr_name devname))) (\<lambda>_.
       Inr w)))"

text \<open>What the program prints about one packet. A payload in one buffer is passed on as it is.\<close>

definition tun_packet :: "bytes \<Rightarrow> exn + string" where
  "tun_packet packet =
     (let shown = [CHR 0x0A, CHR 0x0A] @ ''***'' @ [CHR 0x0A] @ ''*** Got packet:'' @ [CHR 0x0A] @ ''***'' @ [CHR 0x0A] @
            hexdump packet 0 @ ''attempting to parse as ipv4 datagram... '';
          (result, ip_dgram) = IPv4Datagram_parse (Buffer packet) IPv4Datagram;
          h = dg_header ip_dgram
      in if result \<noteq> NoError then Inr (shown @ ''failed.'' @ [CHR 0x0A])
         else
           let shown = shown @ ''success! totlen='' @ dec_string (unat (ip_len h)) @ '', IPv4 header contents:'' @ [CHR 0x0A] @
                 IPv4Header_to_string h
           in if ip_proto h \<noteq> PROTO_TCP then Inr (shown @ [CHR 0x0A] @ ''Not TCP, skipping.'' @ [CHR 0x0A])
              else
                let shown = shown @ [CHR 0x0A] @ ''Attempting to parse as a TCP segment... ''
                in bindE (BufferList_to_buffer (dg_payload ip_dgram)) (\<lambda>payload.
                     let (result, tcp_seg) = TCPSegment_parse payload (IPv4Header_pseudo_cksum h) TCPSegment
                     in if result \<noteq> NoError then Inr (shown @ ''failed.'' @ [CHR 0x0A])
                        else Inr (shown @ ''success! payload len='' @ dec_string (Buffer_size (seg_payload tcp_seg)) @
                          '', TCP header contents:'' @ [CHR 0x0A] @ TCPHeader_to_string (seg_header tcp_seg) @ [CHR 0x0A])))"

text \<open>The endless loop, for the packets of a list.\<close>

fun tun_loop :: "bytes list \<Rightarrow> exn + string" where
  "tun_loop [] = Inr []"
| "tun_loop (packet # packets) =
     bindE (tun_packet packet) (\<lambda>shown. bindE (tun_loop packets) (\<lambda>more. Inr (shown @ more)))"

section \<open>tcp\_native\<close>

text \<open>The calls that open the socket; the descriptors they give are numbers for \<^verbatim>\<open>FDWrapper\<close>.\<close>

record native_ops =
  nv_getaddrinfo :: resolver
  nv_socket :: sysret
  nv_setsockopt :: sysret
  nv_bind :: "bytes \<Rightarrow> sysret"
  nv_listen :: "int \<Rightarrow> sysret"
  nv_accept :: sysret
  nv_domain :: "sysret \<times> int \<times> nat"
  nv_type :: "sysret \<times> int \<times> nat"
  nv_connect :: "bytes \<Rightarrow> sysret"

text \<open>
  Server mode and the socket to copy from and to, or \<open>None\<close> after the usage message. \<^verbatim>\<open>AF_INET\<close> is 2 and \<^verbatim>\<open>SOCK_STREAM\<close>
  is 1; the backlog of \<^verbatim>\<open>listen\<close> is 16.
\<close>

definition native_socket :: "native_ops \<Rightarrow> string list \<Rightarrow> exn + fd_wrapper option" where
  "native_socket ops argv =
     (let argc = length argv; listens = (argc \<ge> 3 \<and> strncmp_eq ''-l'' (argv ! 1) 3)
      in if argc < 3 \<or> (listens \<and> argc < 4) then Inr None
         else if listens then
           bindE (Socket (nv_socket ops)) (\<lambda>listening_socket.
           bindE (syscall ''setsockopt'' (nv_setsockopt ops)) (\<lambda>_.
           bindE (Address_of_host (nv_getaddrinfo ops) (argv ! 2) (argv ! 3)) (\<lambda>address.
           bindE (Socket_bind (nv_bind ops) address) (\<lambda>_.
           bindE (TCPSocket_listen (nv_listen ops) 16) (\<lambda>_.
           bindE (TCPSocket_accept (nv_accept ops) (nv_domain ops) (nv_type ops) 2 1 listening_socket) (\<lambda>(_, socket).
             Inr (Some socket)))))))
         else
           bindE (Socket (nv_socket ops)) (\<lambda>connecting_socket.
           bindE (Address_of_host (nv_getaddrinfo ops) (argv ! 1) (argv ! 2)) (\<lambda>address.
           bindE (Socket_connect (nv_connect ops) address) (\<lambda>_.
             Inr (Some connecting_socket)))))"

section \<open>Device names\<close>

lemma takeWhile_zeros: "z \<notin> set xs \<Longrightarrow> takeWhile (\<lambda>c. c \<noteq> z) (xs @ replicate n z @ [z]) = xs"
  by (induction xs) (cases n, auto)

text \<open>The name that reaches the kernel ends within the array, and is the device's, cut to 15 characters.\<close>

theorem ifr_name_terminated:
  "length (ifr_name devname) = IFNAMSIZ \<and>
     takeWhile (\<lambda>c. c \<noteq> CHR 0x00) (ifr_name devname) = take 15 (takeWhile (\<lambda>c. c \<noteq> CHR 0x00) devname)"
proof -
  let ?d = "takeWhile (\<lambda>c. c \<noteq> CHR 0x00) devname"
  have name: "ifr_name devname = take 15 ?d @ replicate (15 - length ?d) (CHR 0x00) @ [CHR 0x00]"
    by (simp add: ifr_name_def strncpy_def IFNAMSIZ_def list_update_append take_replicate)
  have "CHR 0x00 \<notin> set ?d" by (auto dest: set_takeWhileD)
  then have "CHR 0x00 \<notin> set (take 15 ?d)" by (auto dest: in_set_takeD)
  from takeWhile_zeros [OF this] show ?thesis by (simp add: name IFNAMSIZ_def)
qed

section \<open>What webget reads and prints\<close>

definition request_overflow :: exn where
  "request_overflow = Undefined_behaviour ''sprintf past the end of request''"

lemma request_length: "length (request_text host path) = 44 + length host + length path"
  by (simp add: request_text_def)

lemma syscall_overflow: "syscall what r \<noteq> Inl request_overflow"
  by (auto simp: syscall_def SystemCall_def request_overflow_def)

lemma read_overflow: "FileDescriptor_read read_call limit fd \<noteq> Inl request_overflow"
  using syscall_overflow [of "''read''" "fst (read_call (min BUFFER_SIZE limit))"]
  by (cases "syscall ''read'' (fst (read_call (min BUFFER_SIZE limit)))")
    (auto simp: FileDescriptor_read_def Let_def split_beta request_overflow_def)

lemma url_loop_overflow: "url_loop read_call n fd k printed \<noteq> Inl request_overflow"
proof (induction n arbitrary: fd k printed)
  case (Suc n)
  then show ?case
    using read_overflow [of "\<lambda>m. fst (read_call m k)" size_max fd]
    by (cases "FileDescriptor_read (\<lambda>m. fst (read_call m k)) size_max fd") (auto simp: Let_def)
qed simp

text \<open>
  The kernel delivers the bytes \<open>D\<close> in \<open>n\<close> pieces, none larger than asked for, and then says that the stream has ended.
\<close>

inductive delivers :: "(nat \<Rightarrow> 'k \<Rightarrow> (sysret \<times> bytes) \<times> 'k) \<Rightarrow> 'k \<Rightarrow> nat \<Rightarrow> bytes \<Rightarrow> 'k \<Rightarrow> bool" for read_call where
  over: "read_call BUFFER_SIZE k = (((0, e), []), k') \<Longrightarrow> delivers read_call k 0 [] k'"
| piece: "read_call BUFFER_SIZE k = (((int (length b), e), b), k1) \<Longrightarrow> b \<noteq> [] \<Longrightarrow> length b \<le> BUFFER_SIZE \<Longrightarrow>
    delivers read_call k1 n D k' \<Longrightarrow> delivers read_call k (Suc n) (b @ D) k'"

lemma read_piece:
  assumes "read_call BUFFER_SIZE k = (((int (length b), e), b), k1)" "length b \<le> BUFFER_SIZE"
  shows "FileDescriptor_read (\<lambda>m. fst (read_call m k)) size_max fd =
    Inr (b, register_read (if b = [] then fd\<lparr>fd_eof := True\<rparr> else fd))"
proof -
  have "min BUFFER_SIZE size_max = BUFFER_SIZE" "0 < size_max" by (simp_all add: BUFFER_SIZE_def size_max_def)
  then show ?thesis
    using assms by (simp add: FileDescriptor_read_def syscall_def SystemCall_def resize_def Let_def)
qed

lemma url_loop_prints:
  assumes "delivers read_call k n D k'" "n < m" "\<not> fd_eof fd"
  shows "\<exists>fd'. url_loop read_call m fd k printed = Inr (True, fd', k', printed @ D) \<and> fd_closed fd' = fd_closed fd"
  using assms
proof (induction arbitrary: m fd printed)
  case (over k e k')
  then obtain m' where "m = Suc m'" by (cases m) simp_all
  moreover have "min BUFFER_SIZE size_max = BUFFER_SIZE" by (simp add: BUFFER_SIZE_def size_max_def)
  ultimately show ?case
    using over read_piece [of read_call k "[]" e k' fd] by (cases m') (auto simp: register_read_def)
next
  case (piece k b e k1 n D k')
  then obtain m' where m: "m = Suc m'" "n < m'" by (cases m) simp_all
  have "min BUFFER_SIZE size_max = BUFFER_SIZE" by (simp add: BUFFER_SIZE_def size_max_def)
  then have "url_loop read_call m fd k printed = url_loop read_call m' (register_read fd) k1 (printed @ b)"
    using piece.hyps(1,2) piece.prems(2) read_piece [of read_call k b e k1 fd, OF piece.hyps(1,3)] by (simp add: m(1))
  moreover have "\<not> fd_eof (register_read fd)" using piece.prems(2) by (simp add: register_read_def)
  from piece.IH [OF m(2) this, of "printed @ b"] obtain fd' where
    "url_loop read_call m' (register_read fd) k1 (printed @ b) = Inr (True, fd', k', (printed @ b) @ D)"
    "fd_closed fd' = fd_closed (register_read fd)" by blast
  ultimately show ?case by (simp add: register_read_def)
qed

section \<open>Properties\<close>

text \<open>
  C36: \<^verbatim>\<open>webget\<close> writes past the array of its request exactly when host and path together have 56 characters or
  more: once the socket is connected, the outcome is undefined for every longer URL, and for no other.
\<close>

theorem webget_request_overflows:
  assumes "Socket (wb_socket ops) = Inr sender" "Address_of_host (wb_getaddrinfo ops) host ''http'' = Inr address"
    and "Socket_connect (wb_connect ops) address = Inr u" "takes_some (wb_writev ops)"
  shows "get_URL ops n host path k = Inl request_overflow \<longleftrightarrow> length host + length path \<ge> 56"
proof (cases "length host + length path \<ge> 56")
  case True
  then show ?thesis
    using assms by (simp add: get_URL_def sprintf_to_def request_length request_overflow_def)
next
  case False
  then have req: "sprintf_to 100 (request_text host path) = Inr (request_text host path)"
    by (simp add: sprintf_to_def request_length)
  obtain m sent fd where w: "FileDescriptor_write (wb_writev ops) (BufferViewList_of_view (ascii (request_text host path))) True
      sender = Inr (m, sent, fd)"
    using FileDescriptor_write_spec [OF assms(4)] by (metis prod_cases3)
  have "get_URL ops n host path k \<noteq> Inl request_overflow"
    using url_loop_overflow [of "wb_read ops" n fd k "[]"] syscall_overflow [of "''close''" "wb_close ops"]
    by (cases "url_loop (wb_read ops) n fd k []"; cases "syscall ''close'' (wb_close ops)")
      (auto simp: get_URL_def assms(1-3) req w FDWrapper_close_def split: if_splits)
  then show ?thesis using False by simp
qed

text \<open>A kernel that delivers a list of pieces.\<close>

definition demo_web :: "bytes list web_ops" where
  "demo_web = \<lparr>wb_socket = (3, 0), wb_getaddrinfo = \<lambda>_ _ _. (0, Some [2, 0]), wb_connect = \<lambda>_. (0, 0), wb_writev = demo_writev,
     wb_read = \<lambda>_ pieces. case pieces of [] \<Rightarrow> (((0, 0), []), []) | b # bs \<Rightarrow> (((int (length b), 0), b), bs),
     wb_close = (0, 0)\<rparr>"

lemma demo_web_connects:
  "\<exists>sender. Socket (wb_socket demo_web) = Inr sender"
  "\<exists>a. Address_of_host (wb_getaddrinfo demo_web) host ''http'' = Inr a"
  "\<exists>u. Socket_connect (wb_connect demo_web) a = Inr u"
  "takes_some (wb_writev demo_web)"
  by (simp_all add: demo_web_def Socket_def syscall_def SystemCall_def FDWrapper_def Socket_connect_def Address_of_host_def
      Address_resolve_def Address_of_sockaddr_def sizeof_sockaddr_storage_def demo_writev_takes)

lemma demo_delivers:
  "\<forall>b \<in> set pieces. b \<noteq> [] \<and> length b \<le> BUFFER_SIZE \<Longrightarrow>
     delivers (wb_read demo_web) pieces (length pieces) (concat pieces) []"
proof (induction pieces)
  case Nil
  show ?case unfolding list.size concat.simps by (rule delivers.over [where e = 0]) (simp add: demo_web_def)
next
  case (Cons b pieces)
  then show ?case
    unfolding list.size concat.simps add_0_right add_Suc_right
    by (intro delivers.piece [where e = 0 and ?k1.0 = pieces]) (auto simp: demo_web_def)
qed

theorem webget_request_overflows_witness:
  "get_URL demo_web 5 ''stanford.edu'' (CHR ''/'' # replicate 43 (CHR ''a'')) [] = Inl request_overflow"
proof -
  obtain sender where 1: "Socket (wb_socket demo_web) = Inr sender" using demo_web_connects(1) by blast
  obtain a where 2: "Address_of_host (wb_getaddrinfo demo_web) ''stanford.edu'' ''http'' = Inr a" using demo_web_connects(2) by blast
  obtain u where 3: "Socket_connect (wb_connect demo_web) a = Inr u" using demo_web_connects(3) by blast
  show ?thesis
    using webget_request_overflows [OF 1 2 3 demo_web_connects(4), of 5 "CHR ''/'' # replicate 43 (CHR ''a'')" "[]"] by simp
qed

text \<open>
  \<^verbatim>\<open>webget\<close> fetches the page: for a URL whose request fits, over a kernel that takes what is written and delivers
  an answer in pieces until it ends, the program ends within as many turns as there are pieces and one; it has sent
  exactly its request and printed exactly the answer.
\<close>

theorem webget_prints_answer:
  assumes "Socket (wb_socket ops) = Inr sender" "Address_of_host (wb_getaddrinfo ops) host ''http'' = Inr address"
    and "Socket_connect (wb_connect ops) address = Inr u" "takes_some (wb_writev ops)"
    and "delivers (wb_read ops) k n D k'" "n < m" "fst (wb_close ops) = 0" "length host + length path < 56"
  shows "get_URL ops m host path k = Inr (True, ascii (request_text host path), D, k')"
proof -
  have sender: "\<not> fd_eof sender" using assms(1) by (auto simp: Socket_def FDWrapper_def bindE_eq_Inr_iff split: if_splits)
  have req: "sprintf_to 100 (request_text host path) = Inr (request_text host path)"
    using assms(8) by (simp add: sprintf_to_def request_length)
  let ?views = "BufferViewList_of_view (ascii (request_text host path))"
  obtain i fd where w: "FileDescriptor_write (wb_writev ops) ?views True sender = Inr (i, take i (views_content ?views), fd)"
    "i = BufferViewList_size ?views" "fd_eof fd = fd_eof sender"
    using FileDescriptor_write_spec [OF assms(4), of ?views True sender] by auto
  then have sent: "take i (views_content ?views) = ascii (request_text host path)" by (simp add: BufferViewList_size_content)
  obtain fd' where "url_loop (wb_read ops) m fd k [] = Inr (True, fd', k', D)"
    using url_loop_prints [OF assms(5,6), of fd "[]"] sender w(3) by auto
  then show ?thesis
    using assms(1-3,7) req w(1) sent by (simp add: get_URL_def FDWrapper_close_def syscall_def SystemCall_def)
qed

text \<open>
  \<^verbatim>\<open>tun\<close> survives every packet: whatever comes out of the device, it prints its report and throws nothing.
\<close>

theorem tun_never_throws: "\<exists>shown. tun_loop packets = Inr shown"
proof (induction packets)
  case (Cons packet packets)
  obtain result d where d: "IPv4Datagram_parse (Buffer packet) IPv4Datagram = (result, d)" by fastforce
  then obtain b where "BufferList_to_buffer (dg_payload d) = Inr b"
    using parsed_one_buffer [of "Buffer packet" IPv4Datagram] by auto
  then have "\<exists>shown. tun_packet packet = Inr shown"
    using d by (simp add: tun_packet_def Let_def split_beta)
  with Cons show ?case by auto
qed simp

theorem webget_prints_answer_witness:
  "get_URL demo_web 3 ''cs144.keithw.org'' ''/hello'' [[72, 101, 108], [108, 111]] =
     Inr (True, ascii (request_text ''cs144.keithw.org'' ''/hello''), [72, 101, 108, 108, 111], [])"
proof -
  obtain sender where 1: "Socket (wb_socket demo_web) = Inr sender" using demo_web_connects(1) by blast
  obtain a where 2: "Address_of_host (wb_getaddrinfo demo_web) ''cs144.keithw.org'' ''http'' = Inr a" using demo_web_connects(2) by blast
  obtain u where 3: "Socket_connect (wb_connect demo_web) a = Inr u" using demo_web_connects(3) by blast
  have "delivers (wb_read demo_web) [[72, 101, 108], [108, 111]] 2 [72, 101, 108, 108, 111] []"
    using demo_delivers [of "[[72, 101, 108], [108, 111]]"] by (simp add: BUFFER_SIZE_def numeral_2_eq_2)
  from webget_prints_answer [OF 1 2 3 demo_web_connects(4) this, of 3 "''/hello''"]
  show ?thesis by (simp add: demo_web_def)
qed

text \<open>
  C39: \<^verbatim>\<open>tun\<close> shows what the TCP stack sends: a segment that fits, written by the adapter over IPv4 to its TUN
  device, is reported as a TCP segment with the length of its payload and a header that differs at most in the
  ports, which are those of the adapter's addresses, and the checksum.
\<close>

theorem tun_shows_segment:
  assumes "bound l a src dst" "fits_ipv4 seg" "TCPOverIPv4OverTunFdAdapter_write l seg a = Inr (seg1, packet)"
  shows "\<exists>shown ck. tun_packet packet = Inr (shown @ ''success! payload len='' @
      dec_string (Buffer_size (seg_payload seg)) @ '', TCP header contents:'' @ [CHR 0x0A] @
      TCPHeader_to_string ((seg_header seg)\<lparr>th_sport := snd src, th_dport := snd dst, th_cksum := ck\<rparr>) @ [CHR 0x0A])"
proof -
  obtain p h pl x ck buf where
    p: "TCPOverIPv4OverTunFdAdapter_write l seg a =
      Inr (seg\<lparr>seg_header := (seg_header seg)\<lparr>th_sport := snd src, th_dport := snd dst\<rparr>\<rparr>, p)"
      "IPv4Datagram_parse (Buffer p) IPv4Datagram = (NoError, \<lparr>dg_header = h, dg_payload = pl\<rparr>)"
    and h: "ip_proto h = PROTO_TCP" "BufferList_to_buffer pl = Inr x"
    and seg: "TCPSegment_parse x (IPv4Header_pseudo_cksum h) TCPSegment = (NoError,
      TCPSegment\<lparr>seg_header := (seg_header seg)\<lparr>th_sport := snd src, th_dport := snd dst, th_cksum := ck\<rparr>, seg_payload := buf\<rparr>)"
      "Buffer_str buf = Buffer_str (seg_payload seg)"
    by (rule tun_packet_parses [OF assms(1,2)])
  have "packet = p" using p(1) assms(3) by simp
  then have "\<exists>shown. tun_packet packet = Inr (shown @ ''success! payload len='' @ dec_string (Buffer_size buf) @
      '', TCP header contents:'' @ [CHR 0x0A] @
      TCPHeader_to_string ((seg_header seg)\<lparr>th_sport := snd src, th_dport := snd dst, th_cksum := ck\<rparr>) @ [CHR 0x0A])"
    using p(2) h seg(1) unfolding tun_packet_def Let_def prod.case
    by (simp only: prod.case ipv4_datagram.simps if_False simp_thms bindE_simps sum.inject) (simp; metis append_assoc)
  then show ?thesis using seg(2) by (simp only: Buffer_size_def) blast
qed

theorem tun_shows_segment_witness:
  "\<exists>seg1 packet shown ck. TCPOverIPv4OverTunFdAdapter_write demo_libc demo_syn (demo_adapter 1 2) = Inr (seg1, packet) \<and>
     tun_packet packet = Inr (shown @ ''success! payload len='' @ dec_string (Buffer_size (seg_payload demo_syn)) @
       '', TCP header contents:'' @ [CHR 0x0A] @
       TCPHeader_to_string ((seg_header demo_syn)\<lparr>th_sport := 1, th_dport := 2, th_cksum := ck\<rparr>) @ [CHR 0x0A])"
proof -
  have b: "bound demo_libc (demo_adapter 1 2) (1, 1) (2, 2)" using demo_bound [of 1 2] by simp
  obtain seg1 packet where w: "TCPOverIPv4OverTunFdAdapter_write demo_libc demo_syn (demo_adapter 1 2) = Inr (seg1, packet)"
    using tun_packet_parses [OF b demo_syn_fits(1)] by metis
  from tun_shows_segment [OF b demo_syn_fits(1) w] w show ?thesis by (simp only: fst_conv snd_conv) blast
qed

end
