(* ===== verification/Event_Loop.thy ===== *)
theory Event_Loop
  imports File_Descriptor "HOL-Library.Sublist"
begin

text \<open>
  \<^verbatim>\<open>EventLoop\<close> (\<^verbatim>\<open>util/eventloop.hh\<close>, \<^verbatim>\<open>.cc\<close>). The callbacks of a rule work on the state \<open>'w\<close> of the
  owner of the loop, which holds the file descriptors too: a rule names its descriptor by a function
  from that state. A callback may throw; \<^verbatim>\<open>interest\<close> only looks. \<^verbatim>\<open>poll(2)\<close> is a parameter, the
  function from the polled descriptors to its return value, \<^verbatim>\<open>errno\<close> and the returned events.
\<close>

section \<open>Rules\<close>

datatype direction = In | Out

definition POLLIN :: u16 where "POLLIN = 1"
definition POLLOUT :: u16 where "POLLOUT = 4"
definition POLLERR :: u16 where "POLLERR = 8"
definition POLLHUP :: u16 where "POLLHUP = 16"
definition POLLNVAL :: u16 where "POLLNVAL = 32"
definition EINTR :: int where "EINTR = 4"

fun direction_events :: "direction \<Rightarrow> u16" where
  "direction_events In = POLLIN"
| "direction_events Out = POLLOUT"

record 'w rule =
  ru_fd :: "'w \<Rightarrow> fd_wrapper"
  ru_direction :: direction
  ru_callback :: "'w \<Rightarrow> exn + 'w"
  ru_interest :: "'w \<Rightarrow> bool"
  ru_cancel :: "'w \<Rightarrow> exn + 'w"

definition service_count :: "'w rule \<Rightarrow> 'w \<Rightarrow> nat" where
  "service_count r w = (if ru_direction r = In then fd_read_count (ru_fd r w) else fd_write_count (ru_fd r w))"

definition EventLoop_add_rule :: "'w rule \<Rightarrow> 'w rule list \<Rightarrow> 'w rule list" where
  "EventLoop_add_rule r rules = rules @ [r]"

datatype loop_result = Result_Success | Result_Timeout | Result_Exit

section \<open>Waiting\<close>

text \<open>
  The first loop: rules whose descriptor is at its end or closed are cancelled and erased, the
  others get their entry for \<^verbatim>\<open>poll\<close>, without events when they are not interested.
\<close>

type_synonym pollfd = "int \<times> u16"

definition defunct :: "'w rule \<Rightarrow> 'w \<Rightarrow> bool" where
  "defunct r w \<longleftrightarrow> (ru_direction r = In \<and> fd_eof (ru_fd r w)) \<or> fd_closed (ru_fd r w)"

fun poll_setup :: "'w rule list \<Rightarrow> 'w \<Rightarrow> exn + ('w rule \<times> pollfd) list \<times> 'w" where
  "poll_setup [] w = Inr ([], w)"
| "poll_setup (r # rules) w =
     (if defunct r w then bindE (ru_cancel r w) (poll_setup rules)
      else
        let p = (fd_num (ru_fd r w), if ru_interest r w then direction_events (ru_direction r) else 0)
        in bindE (poll_setup rules w) (\<lambda>(ps, w). Inr ((r, p) # ps, w)))"

text \<open>\<^verbatim>\<open>something_to_poll\<close>: an entry with events, which no placeholder has.\<close>

definition something_to_poll :: "('w rule \<times> pollfd) list \<Rightarrow> bool" where
  "something_to_poll ps \<longleftrightarrow> (\<exists>p \<in> set ps. snd (snd p) \<noteq> 0)"

text \<open>The second loop, over the rules with their entries and returned events.\<close>

fun poll_service :: "('w rule \<times> pollfd) list \<Rightarrow> u16 list \<Rightarrow> 'w \<Rightarrow> exn + 'w rule list \<times> 'w" where
  "poll_service ((r, (fd, events)) # ps) (revents # rs) w =
     (if and revents (or POLLERR POLLNVAL) \<noteq> 0
      then Inl (Runtime_error ''EventLoop: error on polled file descriptor'')
      else
        let poll_ready = (and revents events \<noteq> 0);
            poll_hup = (and revents POLLHUP \<noteq> 0)
        in if poll_hup \<and> events \<noteq> 0 \<and> \<not> poll_ready
           then bindE (ru_cancel r w) (poll_service ps rs)
           else
             bindE
               (if poll_ready then
                  bindE (ru_callback r w) (\<lambda>w'.
                    if service_count r w = service_count r w' \<and> ru_interest r w'
                    then Inl (Runtime_error ''EventLoop: busy wait detected: callback did not read/write fd and is still interested'')
                    else Inr w')
                else Inr w) (\<lambda>w.
             bindE (poll_service ps rs w) (\<lambda>(rules, w). Inr (r # rules, w))))"
| "poll_service [] rs w = Inr ([], w)"
| "poll_service (p # ps) [] w = Inl (Undefined_behaviour ''pollfds out of range'')"

text \<open>An error of \<^verbatim>\<open>poll\<close> other than \<^verbatim>\<open>EINTR\<close> is caught and forgotten; the loop goes on.\<close>

definition EventLoop_wait_next_event ::
    "(pollfd list \<Rightarrow> int \<Rightarrow> sysret \<times> u16 list) \<Rightarrow> int \<Rightarrow> 'w rule list \<Rightarrow> 'w \<Rightarrow>
     exn + loop_result \<times> 'w rule list \<times> 'w" where
  "EventLoop_wait_next_event poll timeout_ms rules w =
     bindE (poll_setup rules w) (\<lambda>(ps, w).
       if \<not> something_to_poll ps then Inr (Result_Exit, map fst ps, w)
       else
         let ((ret, errno), revents) = poll (map snd ps) timeout_ms
         in if syscall ''poll'' (ret, errno) = Inr 0 then Inr (Result_Timeout, map fst ps, w)
            else if (\<exists>e. syscall ''poll'' (ret, errno) = Inl e) \<and> errno = EINTR
            then Inr (Result_Exit, map fst ps, w)
            else bindE (poll_service ps revents w) (\<lambda>(rules, w). Inr (Result_Success, rules, w)))"

section \<open>What a loop keeps\<close>

lemma subseq_set: "subseq xs ys \<Longrightarrow> set xs \<subseteq> set ys"
  by (induction rule: list_emb.induct) auto

lemma poll_setup_subseq: "poll_setup rules w = Inr (ps, w') \<Longrightarrow> subseq (map fst ps) rules"
proof (induction rules arbitrary: w ps)
  case (Cons r rules)
  show ?case
  proof (cases "defunct r w")
    case True
    with Cons.prems obtain w1 where "poll_setup rules w1 = Inr (ps, w')" by (auto simp: bindE_eq_Inr_iff)
    from Cons.IH [OF this] show ?thesis by (rule list_emb_Cons)
  next
    case False
    with Cons.prems obtain p ps' where "poll_setup rules w = Inr (ps', w')" "ps = (r, p) # ps'"
      by (auto simp: bindE_eq_Inr_iff Let_def)
    with Cons.IH [OF this(1)] show ?thesis by simp
  qed
qed simp

text \<open>The two ways the second loop goes on with the rules that follow.\<close>

lemma poll_service_cases:
  assumes "poll_service ((r, (fd, events)) # ps) (revents # rs) w = Inr (rules, w')"
  obtains
    (cancelled) w1 where "ru_cancel r w = Inr w1" "poll_service ps rs w1 = Inr (rules, w')"
      "events \<noteq> 0" "and revents POLLHUP \<noteq> 0" "and revents events = 0"
  | (serviced) w1 rules' where "and revents events \<noteq> 0" "ru_callback r w = Inr w1"
      "service_count r w \<noteq> service_count r w1 \<or> \<not> ru_interest r w1"
      "poll_service ps rs w1 = Inr (rules', w')" "rules = r # rules'"
  | (skipped) rules' where "and revents events = 0" "poll_service ps rs w = Inr (rules', w')" "rules = r # rules'"
  using assms by (auto simp: bindE_eq_Inr_iff Let_def split: if_splits)

declare poll_service.simps [simp del]

lemma poll_service_base: "poll_service [] rs w = Inr ([], w)" "poll_service (p # ps) [] w \<noteq> Inr r"
  by (simp_all add: poll_service.simps)

lemma poll_service_subseq: "poll_service ps revents w = Inr (rules, w') \<Longrightarrow> subseq rules (map fst ps)"
proof (induction ps arbitrary: revents rules w)
  case (Cons p ps)
  obtain r fd events where p: "p = (r, (fd, events))" by (cases p) auto
  obtain rv rs where revents: "revents = rv # rs"
    using Cons.prems poll_service_base(2) [of p ps w] by (cases revents) auto
  from Cons.prems [unfolded p revents] show ?case
    by (cases rule: poll_service_cases) (auto simp: p dest: Cons.IH)
qed (simp add: poll_service_base)

text \<open>
  The contract of the loop with its client: what every callback and every cancellation keeps, the
  loop keeps.
\<close>

locale loop_client =
  fixes inv :: "'w \<Rightarrow> bool" and client :: "'w rule list"
  assumes callback_keeps: "r \<in> set client \<Longrightarrow> inv w \<Longrightarrow> ru_callback r w = Inr w' \<Longrightarrow> inv w'"
    and cancel_keeps: "r \<in> set client \<Longrightarrow> inv w \<Longrightarrow> ru_cancel r w = Inr w' \<Longrightarrow> inv w'"
begin

lemma setup_keeps: "poll_setup rules w = Inr (ps, w') \<Longrightarrow> set rules \<subseteq> set client \<Longrightarrow> inv w \<Longrightarrow> inv w'"
proof (induction rules arbitrary: w ps)
  case (Cons r rules)
  show ?case
  proof (cases "defunct r w")
    case True
    with Cons.prems(1) obtain w1 where "ru_cancel r w = Inr w1" "poll_setup rules w1 = Inr (ps, w')"
      by (auto simp: bindE_eq_Inr_iff)
    then show ?thesis using Cons.IH [of w1 ps] Cons.prems(2,3) cancel_keeps [of r w w1] by simp
  next
    case False
    with Cons.prems(1) obtain ps' where "poll_setup rules w = Inr (ps', w')"
      by (auto simp: bindE_eq_Inr_iff Let_def)
    then show ?thesis using Cons.IH Cons.prems(2,3) by simp
  qed
qed simp

lemma service_keeps:
  "poll_service ps revents w = Inr (rules, w') \<Longrightarrow> set (map fst ps) \<subseteq> set client \<Longrightarrow> inv w \<Longrightarrow> inv w'"
proof (induction ps arbitrary: revents rules w)
  case (Cons p ps)
  obtain r fd events where p: "p = (r, (fd, events))" by (cases p) auto
  obtain rv rs where revents: "revents = rv # rs"
    using Cons.prems(1) poll_service_base(2) [of p ps w] by (cases revents) auto
  have r: "r \<in> set client" "set (map fst ps) \<subseteq> set client" using Cons.prems(2) p by auto
  from Cons.prems(1) [unfolded p revents] show ?case
  proof (cases rule: poll_service_cases)
    case (cancelled w1)
    then show ?thesis using Cons.IH r(2) cancel_keeps [OF r(1) Cons.prems(3)] by blast
  next
    case (serviced w1 rules')
    then show ?thesis using Cons.IH r(2) callback_keeps [OF r(1) Cons.prems(3)] by blast
  next
    case (skipped rules')
    then show ?thesis using Cons.IH r(2) Cons.prems(3) by blast
  qed
qed (simp add: poll_service_base)

end

text \<open>A call of the loop is a setup, and after it possibly a service of what is left.\<close>

lemma wait_next_event_cases:
  assumes "EventLoop_wait_next_event poll t rules w = Inr (res, rules', w')"
  obtains ps w1 where "poll_setup rules w = Inr (ps, w1)"
    "rules' = map fst ps \<and> w' = w1 \<or>
     something_to_poll ps \<and> poll_service ps (snd (poll (map snd ps) t)) w1 = Inr (rules', w') \<and> res = Result_Success"
  using assms
  by (auto simp: EventLoop_wait_next_event_def bindE_eq_Inr_iff split: if_splits prod.splits)

context loop_client begin

lemma wait_keeps:
  assumes "EventLoop_wait_next_event poll t rules w = Inr (res, rules', w')" "set rules \<subseteq> set client" "inv w"
  shows "inv w' \<and> set rules' \<subseteq> set client"
proof -
  from assms(1) obtain ps w1 where s: "poll_setup rules w = Inr (ps, w1)" and
    r: "rules' = map fst ps \<and> w' = w1 \<or> poll_service ps (snd (poll (map snd ps) t)) w1 = Inr (rules', w')"
    by (rule wait_next_event_cases) blast
  have w1: "inv w1" by (rule setup_keeps [OF s assms(2,3)])
  have ps: "set (map fst ps) \<subseteq> set client"
    using subseq_set [OF poll_setup_subseq [OF s]] assms(2) by simp
  from r show ?thesis
  proof
    assume "rules' = map fst ps \<and> w' = w1"
    then show ?thesis using w1 ps by simp
  next
    assume s: "poll_service ps (snd (poll (map snd ps) t)) w1 = Inr (rules', w')"
    show ?thesis using service_keeps [OF s ps w1] subseq_set [OF poll_service_subseq [OF s]] ps by simp
  qed
qed

end

text \<open>
  When no descriptor is at its end or closed and \<^verbatim>\<open>poll\<close> reports no events, nothing happens; that is
  also what an error of \<^verbatim>\<open>poll\<close> comes to: it is caught, and unless it is \<^verbatim>\<open>EINTR\<close> forgotten.
\<close>

lemma poll_setup_idle: "\<forall>r \<in> set rules. \<not> defunct r w \<Longrightarrow>
  poll_setup rules w = Inr (map (\<lambda>r. (r, (fd_num (ru_fd r w),
    if ru_interest r w then direction_events (ru_direction r) else 0))) rules, w)"
  by (induction rules) simp_all

lemma poll_service_idle: "length revents = length ps \<Longrightarrow> set revents \<subseteq> {0} \<Longrightarrow>
  poll_service ps revents w = Inr (map fst ps, w)"
  by (induction ps arbitrary: revents) (auto simp: length_Suc_conv poll_service.simps split_paired_all)

section \<open>Properties\<close>

text \<open>
  The event loop never adds or reorders rules: those it holds after \<^verbatim>\<open>wait_next_event\<close> are a
  subsequence of those it held before.
\<close>

theorem wait_next_event_subseq:
  assumes "EventLoop_wait_next_event poll t rules w = Inr (res, rules', w')"
  shows "subseq rules' rules"
proof -
  from assms obtain ps w1 where "poll_setup rules w = Inr (ps, w1)"
    "rules' = map fst ps \<or> poll_service ps (snd (poll (map snd ps) t)) w1 = Inr (rules', w')"
    by (rule wait_next_event_cases) blast
  note su = poll_setup_subseq [OF this(1)] and rest = this(2)
  from rest show ?thesis
  proof
    assume "poll_service ps (snd (poll (map snd ps) t)) w1 = Inr (rules', w')"
    from subseq_order.trans [OF poll_service_subseq [OF this] su] show ?thesis .
  qed (use su in simp)
qed

text \<open>
  When no descriptor is at its end or closed, some rule is interested, and \<^verbatim>\<open>poll\<close> fails with an
  error other than \<^verbatim>\<open>EINTR\<close> (reporting no events, as on a failure), then \<^verbatim>\<open>wait_next_event\<close> neither
  throws nor exits nor reports a timeout: it returns \<^verbatim>\<open>Success\<close> with no callback run.
\<close>

theorem poll_error_is_success:
  assumes "\<forall>r \<in> set rules. \<not> defunct r w" and "\<exists>r \<in> set rules. ru_interest r w"
    and "\<And>p. length (snd (poll p t)) = length p \<and> set (snd (poll p t)) \<subseteq> {0}"
    and "\<And>p. fst (poll p t) = (-1, errno)" and "errno \<noteq> EINTR"
  shows "EventLoop_wait_next_event poll t rules w = Inr (Result_Success, rules, w)"
proof -
  let ?ps = "map (\<lambda>r. (r, (fd_num (ru_fd r w), if ru_interest r w then direction_events (ru_direction r) else 0))) rules"
  obtain revents where poll: "poll (map snd ?ps) t = ((-1, errno), revents)"
    using assms(4) [of "map snd ?ps"] by (cases "poll (map snd ?ps) t") simp
  have revents: "length revents = length ?ps" "set revents \<subseteq> {0}"
    using assms(3) [of "map snd ?ps"] unfolding poll by simp_all
  have "direction_events d \<noteq> 0" for d by (cases d) (simp_all add: POLLIN_def POLLOUT_def)
  then have "something_to_poll ?ps" using assms(2) by (auto simp: something_to_poll_def)
  moreover have "syscall ''poll'' (-1, errno) \<noteq> Inr 0" by (simp add: syscall_def SystemCall_def)
  moreover have "map fst ?ps = rules" by (simp add: comp_def)
  ultimately show ?thesis
    unfolding EventLoop_wait_next_event_def poll_setup_idle [OF assms(1)] bindE_simps prod.case poll Let_def
      poll_service_idle [OF revents] using assms(5) by simp
qed

text \<open>A reading rule on an open descriptor, and \<^verbatim>\<open>poll\<close> failing with \<^verbatim>\<open>ENOMEM\<close>.\<close>

definition demo_rule :: "fd_wrapper rule" where
  "demo_rule = \<lparr>ru_fd = (\<lambda>fd. fd), ru_direction = In, ru_callback = (\<lambda>fd. Inr (register_read fd)),
     ru_interest = (\<lambda>_. True), ru_cancel = Inr\<rparr>"

definition demo_fd :: fd_wrapper where
  "demo_fd = \<lparr>fd_num = 3, fd_eof = False, fd_closed = False, fd_read_count = 0, fd_write_count = 0\<rparr>"

theorem poll_error_is_success_witness:
  "EventLoop_wait_next_event (\<lambda>p t. ((-1, 12), map (\<lambda>_. 0) p)) 10 [demo_rule] demo_fd = Inr (Result_Success, [demo_rule], demo_fd)"
  by (rule poll_error_is_success) (auto simp: defunct_def demo_rule_def demo_fd_def EINTR_def)

text \<open>A descriptor at its end: its rule is cancelled and erased, and there is nothing left to poll.\<close>

theorem wait_next_event_subseq_witness: "subseq [] [demo_rule]"
proof -
  have "EventLoop_wait_next_event (\<lambda>p t. ((0, 0), [])) 10 [demo_rule] (demo_fd\<lparr>fd_eof := True\<rparr>) =
      Inr (Result_Exit, [], demo_fd\<lparr>fd_eof := True\<rparr>)"
    by (simp add: EventLoop_wait_next_event_def defunct_def demo_rule_def something_to_poll_def)
  from wait_next_event_subseq [OF this] show ?thesis .
qed

end
