(* ===== verification/Sponge_Socket.thy ===== *)
theory Sponge_Socket
  imports Event_Loop Adapters Handshake
begin

text \<open>
  \<^verbatim>\<open>TCPSpongeSocket\<close> (\<^verbatim>\<open>tcp_helpers/tcp_sponge_socket.hh\<close>, \<^verbatim>\<open>.cc\<close>): the TCP thread, an event loop with
  four rules between the application's stream socket, the \<^verbatim>\<open>TCPConnection\<close> and the datagram adapter.
  The template parameter \<^verbatim>\<open>AdaptT\<close> is a record of the adapter's operations on its state \<open>'a\<close>; what is
  outside of the process is a state \<open>'k\<close> that system calls and the adapter change. What the thread
  meets, one entry per turn of its loop, is a list: the answer of \<^verbatim>\<open>poll\<close>, the owner's \<^verbatim>\<open>_abort\<close>, the
  clock. The debug output is left out.
\<close>

section \<open>State\<close>

record ('a, 'k) adapter_ops =
  ao_fd :: "'a \<Rightarrow> fd_wrapper"
  ao_read :: "'a \<Rightarrow> 'k \<Rightarrow> exn + tcp_segment option \<times> 'a \<times> 'k"
  ao_write :: "tcp_segment \<Rightarrow> 'a \<Rightarrow> 'k \<Rightarrow> exn + 'a \<times> 'k"
  ao_tick :: "nat \<Rightarrow> 'a \<Rightarrow> 'k \<Rightarrow> exn + 'a \<times> 'k"
  ao_set_config :: "fd_adapter_config \<Rightarrow> 'a \<Rightarrow> 'a"
  ao_set_listening :: "bool \<Rightarrow> 'a \<Rightarrow> 'a"

text \<open>\<^verbatim>\<open>read(2)\<close>, \<^verbatim>\<open>writev(2)\<close> and \<^verbatim>\<open>shutdown(2)\<close> on the stream socket to the application.\<close>

record 'k pipe_ops =
  pp_read :: "nat \<Rightarrow> 'k \<Rightarrow> (sysret \<times> bytes) \<times> 'k"
  pp_writev :: "bytes list \<Rightarrow> 'k \<Rightarrow> sysret \<times> 'k"
  pp_shutdown :: "shutdown_how \<Rightarrow> 'k \<Rightarrow> sysret \<times> 'k"

text \<open>The base class \<^verbatim>\<open>LocalStreamSocket\<close> is the owner's end of the socket pair, \<open>sp_owner\<close>.\<close>

record ('a, 'k) sponge =
  sp_owner :: fd_wrapper
  sp_thread_data :: fd_wrapper
  sp_datagram_adapter :: 'a
  sp_tcp :: "tcp_connection option"
  sp_inbound_shutdown :: bool
  sp_outbound_shutdown :: bool
  sp_fully_acked :: bool
  sp_kernel :: 'k

text \<open>Dereferencing the empty optional, with \<^verbatim>\<open>->\<close> or with \<^verbatim>\<open>value()\<close>.\<close>

definition tcp_deref :: "('a, 'k) sponge \<Rightarrow> exn + tcp_connection" where
  "tcp_deref w = (case sp_tcp w of None \<Rightarrow> Inl (Undefined_behaviour ''empty optional'') | Some c \<Rightarrow> Inr c)"

definition tcp_value :: "('a, 'k) sponge \<Rightarrow> exn + tcp_connection" where
  "tcp_value w = (case sp_tcp w of None \<Rightarrow> Inl (Runtime_error ''bad_optional_access'') | Some c \<Rightarrow> Inr c)"

definition tcp_query :: "(tcp_connection \<Rightarrow> bool) \<Rightarrow> ('a, 'k) sponge \<Rightarrow> bool" where
  "tcp_query P w = (case sp_tcp w of None \<Rightarrow> False | Some c \<Rightarrow> P c)"

definition tcp_update :: "(tcp_connection \<Rightarrow> tcp_connection) \<Rightarrow> ('a, 'k) sponge \<Rightarrow> exn + ('a, 'k) sponge" where
  "tcp_update f w = bindE (tcp_deref w) (\<lambda>c. Inr (w\<lparr>sp_tcp := Some (f c)\<rparr>))"

definition TCPSpongeSocket :: "fd_wrapper \<Rightarrow> fd_wrapper \<Rightarrow> sysret \<Rightarrow> (u32 \<Rightarrow> sysret) \<Rightarrow> 'a \<Rightarrow> 'k \<Rightarrow> exn + ('a, 'k) sponge" where
  "TCPSpongeSocket owner thread getfl setfl datagram_interface k =
     bindE (FileDescriptor_set_blocking getfl setfl False) (\<lambda>_.
       Inr \<lparr>sp_owner = owner, sp_thread_data = thread, sp_datagram_adapter = datagram_interface,
         sp_tcp = None, sp_inbound_shutdown = False, sp_outbound_shutdown = False,
         sp_fully_acked = False, sp_kernel = k\<rparr>)"

text \<open>\<^verbatim>\<open>socketpair(2)\<close> gives its return value and two descriptors.\<close>

definition socket_pair_helper :: "sysret \<times> int \<times> int \<Rightarrow> exn + fd_wrapper \<times> fd_wrapper" where
  "socket_pair_helper pair =
     bindE (syscall ''socketpair'' (fst pair)) (\<lambda>_.
     bindE (FDWrapper (fst (snd pair))) (\<lambda>a.
     bindE (FDWrapper (snd (snd pair))) (\<lambda>b. Inr (a, b))))"

section \<open>The four rules\<close>

definition rule1_callback :: "('a, 'k) adapter_ops \<Rightarrow> ('a, 'k) sponge \<Rightarrow> exn + ('a, 'k) sponge" where
  "rule1_callback ad w =
     bindE (ao_read ad (sp_datagram_adapter w) (sp_kernel w)) (\<lambda>(seg, a, k).
     let w = w\<lparr>sp_datagram_adapter := a, sp_kernel := k\<rparr> in
     bindE (case seg of None \<Rightarrow> Inr w | Some s \<Rightarrow> tcp_update (TCPConnection_segment_received s) w) (\<lambda>w.
     if fd_eof (sp_thread_data w)
     then bindE (tcp_value w) (\<lambda>c.
            Inr (if TCPConnection_bytes_in_flight c = 0 \<and> \<not> sp_fully_acked w
                 then w\<lparr>sp_fully_acked := True\<rparr> else w))
     else Inr w))"

definition rule1 :: "('a, 'k) adapter_ops \<Rightarrow> ('a, 'k) sponge rule" where
  "rule1 ad = \<lparr>ru_fd = (\<lambda>w. ao_fd ad (sp_datagram_adapter w)), ru_direction = In,
     ru_callback = rule1_callback ad, ru_interest = tcp_query TCPConnection_active, ru_cancel = Inr\<rparr>"

definition end_outbound :: "('a, 'k) sponge \<Rightarrow> exn + ('a, 'k) sponge" where
  "end_outbound w =
     bindE (tcp_update TCPConnection_end_input_stream w) (\<lambda>w. Inr (w\<lparr>sp_outbound_shutdown := True\<rparr>))"

definition rule2_callback :: "'k pipe_ops \<Rightarrow> ('a, 'k) sponge \<Rightarrow> exn + ('a, 'k) sponge" where
  "rule2_callback pp w =
     bindE (tcp_deref w) (\<lambda>c.
     let limit = TCPConnection_remaining_outbound_capacity c;
         k = snd (pp_read pp (min BUFFER_SIZE limit) (sp_kernel w))
     in bindE (FileDescriptor_read (\<lambda>n. fst (pp_read pp n (sp_kernel w))) limit (sp_thread_data w)) (\<lambda>(data, fd).
        let (amount_written, c) = TCPConnection_write data c;
            w = w\<lparr>sp_thread_data := fd, sp_kernel := k, sp_tcp := Some c\<rparr>
        in if amount_written \<noteq> length data
           then Inl (Runtime_error ''TCPConnection::write() accepted less than advertised length'')
           else if fd_eof fd then end_outbound w
           else Inr w))"

definition rule2_interest :: "('a, 'k) sponge \<Rightarrow> bool" where
  "rule2_interest w \<longleftrightarrow> tcp_query TCPConnection_active w \<and> \<not> sp_outbound_shutdown w \<and>
     tcp_query (\<lambda>c. TCPConnection_remaining_outbound_capacity c > 0) w"

definition rule2 :: "'k pipe_ops \<Rightarrow> ('a, 'k) sponge rule" where
  "rule2 pp = \<lparr>ru_fd = sp_thread_data, ru_direction = In, ru_callback = rule2_callback pp,
     ru_interest = rule2_interest, ru_cancel = end_outbound\<rparr>"

definition inbound_pop :: "nat \<Rightarrow> tcp_connection \<Rightarrow> tcp_connection" where
  "inbound_pop n c = c\<lparr>cn_receiver := TCPReceiver_pop n (cn_receiver c)\<rparr>"

definition rule3_callback :: "'k pipe_ops \<Rightarrow> ('a, 'k) sponge \<Rightarrow> exn + ('a, 'k) sponge" where
  "rule3_callback pp w =
     bindE (tcp_deref w) (\<lambda>c.
     let inbound = TCPConnection_inbound_stream c;
         amount_to_write = min 65536 (ByteStream_buffer_size inbound);
         buffer = BufferViewList_of_view (ByteStream_peek_output amount_to_write inbound);
         k = snd (pp_writev pp (BufferViewList_as_iovecs buffer) (sp_kernel w))
     in bindE (FileDescriptor_write (\<lambda>_ v. fst (pp_writev pp v (sp_kernel w))) buffer False (sp_thread_data w))
          (\<lambda>(bytes_written, _, fd).
        let c = inbound_pop bytes_written c;
            inbound = TCPConnection_inbound_stream c;
            w = w\<lparr>sp_thread_data := fd, sp_kernel := k, sp_tcp := Some c\<rparr>
        in if ByteStream_eof inbound \<or> ByteStream_error inbound
           then let (ret, k) = pp_shutdown pp SHUT_WR (sp_kernel w) in
             bindE (Socket_shutdown (\<lambda>_. ret) SHUT_WR (sp_thread_data w)) (\<lambda>fd.
               Inr (w\<lparr>sp_thread_data := fd, sp_kernel := k, sp_inbound_shutdown := True\<rparr>))
           else Inr w))"

definition rule3_interest :: "('a, 'k) sponge \<Rightarrow> bool" where
  "rule3_interest w \<longleftrightarrow> tcp_query (\<lambda>c. \<not> ByteStream_buffer_empty (TCPConnection_inbound_stream c)) w \<or>
     (tcp_query (\<lambda>c. ByteStream_eof (TCPConnection_inbound_stream c) \<or>
                   ByteStream_error (TCPConnection_inbound_stream c)) w \<and> \<not> sp_inbound_shutdown w)"

definition rule3 :: "'k pipe_ops \<Rightarrow> ('a, 'k) sponge rule" where
  "rule3 pp = \<lparr>ru_fd = sp_thread_data, ru_direction = Out, ru_callback = rule3_callback pp,
     ru_interest = rule3_interest, ru_cancel = Inr\<rparr>"

text \<open>The loop of rule 4, over the queue: write the front, pop it.\<close>

fun send_segments :: "('a, 'k) adapter_ops \<Rightarrow> tcp_segment list \<Rightarrow> ('a, 'k) sponge \<Rightarrow> exn + ('a, 'k) sponge" where
  "send_segments ad [] w = Inr w"
| "send_segments ad (seg # q) w =
     bindE (ao_write ad seg (sp_datagram_adapter w) (sp_kernel w)) (\<lambda>(a, k).
     bindE (tcp_update TCPConnection_pop_segment (w\<lparr>sp_datagram_adapter := a, sp_kernel := k\<rparr>)) (send_segments ad q))"

definition rule4_callback :: "('a, 'k) adapter_ops \<Rightarrow> ('a, 'k) sponge \<Rightarrow> exn + ('a, 'k) sponge" where
  "rule4_callback ad w = bindE (tcp_deref w) (\<lambda>c. send_segments ad (cn_segments_out c) w)"

definition rule4 :: "('a, 'k) adapter_ops \<Rightarrow> ('a, 'k) sponge rule" where
  "rule4 ad = \<lparr>ru_fd = (\<lambda>w. ao_fd ad (sp_datagram_adapter w)), ru_direction = Out,
     ru_callback = rule4_callback ad, ru_interest = tcp_query (\<lambda>c. cn_segments_out c \<noteq> []), ru_cancel = Inr\<rparr>"

definition sponge_rules :: "('a, 'k) adapter_ops \<Rightarrow> 'k pipe_ops \<Rightarrow> ('a, 'k) sponge rule list" where
  "sponge_rules ad pp = [rule1 ad, rule2 pp, rule3 pp, rule4 ad]"

definition initialize_TCP :: "('a, 'k) adapter_ops \<Rightarrow> 'k pipe_ops \<Rightarrow> u32 \<Rightarrow> tcp_config \<Rightarrow>
    ('a, 'k) sponge rule list \<Rightarrow> ('a, 'k) sponge \<Rightarrow> ('a, 'k) sponge rule list \<times> ('a, 'k) sponge" where
  "initialize_TCP ad pp random config rules w =
     (EventLoop_add_rule (rule4 ad) (EventLoop_add_rule (rule3 pp)
        (EventLoop_add_rule (rule2 pp) (EventLoop_add_rule (rule1 ad) rules))),
      w\<lparr>sp_tcp := Some (TCPConnection random config)\<rparr>)"

section \<open>The thread\<close>

definition TCP_TICK_MS :: int where "TCP_TICK_MS = 10"

record turn =
  tu_poll :: "pollfd list \<Rightarrow> int \<Rightarrow> sysret \<times> u16 list"
  tu_abort :: bool
  tu_time :: nat

text \<open>
  The flag of the result tells whether the loop has been left: by its condition, by \<^verbatim>\<open>Exit\<close> or by
  \<^verbatim>\<open>_abort\<close>. Without turns left it is still running.
\<close>

fun tcp_loop :: "('a, 'k) adapter_ops \<Rightarrow> (('a, 'k) sponge \<Rightarrow> bool) \<Rightarrow> turn list \<Rightarrow> nat \<Rightarrow> ('a, 'k) sponge rule list \<Rightarrow>
    ('a, 'k) sponge \<Rightarrow> exn + bool \<times> ('a, 'k) sponge rule list \<times> ('a, 'k) sponge" where
  "tcp_loop ad condition [] base_time rules w = Inr (\<not> condition w, rules, w)"
| "tcp_loop ad condition (t # turns) base_time rules w =
     (if \<not> condition w then Inr (True, rules, w)
      else
        bindE (EventLoop_wait_next_event (tu_poll t) TCP_TICK_MS rules w) (\<lambda>(ret, rules, w).
          if ret = Result_Exit \<or> tu_abort t then Inr (True, rules, w)
          else
            bindE (tcp_value w) (\<lambda>c.
              if TCPConnection_active c then
                let d = sub64 (tu_time t) base_time in
                bindE (TCPConnection_tick d c) (\<lambda>c.
                bindE (ao_tick ad d (sp_datagram_adapter w) (sp_kernel w)) (\<lambda>(a, k).
                  tcp_loop ad condition turns (tu_time t) rules
                    (w\<lparr>sp_tcp := Some c, sp_datagram_adapter := a, sp_kernel := k\<rparr>)))
              else tcp_loop ad condition turns base_time rules w)))"

text \<open>
  The end of the thread. \<^verbatim>\<open>_tcp.reset()\<close> runs the destructor of the connection, whose segments go to its
  own queue and are destroyed with it; nothing of the connection is left.
\<close>

definition tcp_main :: "('a, 'k) adapter_ops \<Rightarrow> 'k pipe_ops \<Rightarrow> turn list \<Rightarrow> nat \<Rightarrow> ('a, 'k) sponge rule list \<Rightarrow>
    ('a, 'k) sponge \<Rightarrow> exn + bool \<times> ('a, 'k) sponge rule list \<times> ('a, 'k) sponge" where
  "tcp_main ad pp turns base_time rules w =
     (if sp_tcp w = None then Inl (Runtime_error ''no TCP'')
      else
        bindE (tcp_loop ad (\<lambda>_. True) turns base_time rules w) (\<lambda>(finished, rules, w).
          if \<not> finished then Inr (False, rules, w)
          else
            let (ret, k) = pp_shutdown pp SHUT_RDWR (sp_kernel w) in
            bindE (Socket_shutdown (\<lambda>_. ret) SHUT_RDWR (sp_owner w)) (\<lambda>fd.
            bindE (tcp_value w) (\<lambda>_.
              Inr (True, rules, w\<lparr>sp_owner := fd, sp_kernel := k, sp_tcp := None\<rparr>)))))"

section \<open>The owner\<close>

text \<open>\<^verbatim>\<open>connect\<close> and \<^verbatim>\<open>listen_and_accept\<close> up to the start of the thread, which goes on with \<^verbatim>\<open>_tcp_main\<close>.\<close>

definition in_states :: "state_name list \<Rightarrow> ('a, 'k) sponge \<Rightarrow> bool" where
  "in_states ss = tcp_query (\<lambda>c. \<exists>s \<in> set ss. TCPState_eq (TCPConnection_state c) (TCPState_official s))"

definition TCPSpongeSocket_connect :: "('a, 'k) adapter_ops \<Rightarrow> 'k pipe_ops \<Rightarrow> u32 \<Rightarrow> tcp_config \<Rightarrow> fd_adapter_config \<Rightarrow>
    turn list \<Rightarrow> nat \<Rightarrow> ('a, 'k) sponge rule list \<Rightarrow> ('a, 'k) sponge \<Rightarrow>
    exn + bool \<times> ('a, 'k) sponge rule list \<times> ('a, 'k) sponge" where
  "TCPSpongeSocket_connect ad pp random c_tcp c_ad turns base_time rules w =
     (if sp_tcp w \<noteq> None then Inl (Runtime_error ''connect() with TCPConnection already initialized'')
      else
        let (rules, w) = initialize_TCP ad pp random c_tcp rules w;
            w = w\<lparr>sp_datagram_adapter := ao_set_config ad c_ad (sp_datagram_adapter w)\<rparr>
        in bindE (tcp_update TCPConnection_connect w) (\<lambda>w.
           if \<not> in_states [State_SYN_SENT] w
           then bindE (tcp_deref w) (\<lambda>c. Inl (Runtime_error
             (''After TCPConnection::connect(), state was '' @ TCPState_name (TCPConnection_state c) @
              '' but expected '' @ TCPState_name (TCPState_official State_SYN_SENT))))
           else tcp_loop ad (in_states [State_SYN_SENT]) turns base_time rules w))"

definition TCPSpongeSocket_listen_and_accept :: "('a, 'k) adapter_ops \<Rightarrow> 'k pipe_ops \<Rightarrow> u32 \<Rightarrow> tcp_config \<Rightarrow>
    fd_adapter_config \<Rightarrow> turn list \<Rightarrow> nat \<Rightarrow> ('a, 'k) sponge rule list \<Rightarrow> ('a, 'k) sponge \<Rightarrow>
    exn + bool \<times> ('a, 'k) sponge rule list \<times> ('a, 'k) sponge" where
  "TCPSpongeSocket_listen_and_accept ad pp random c_tcp c_ad turns base_time rules w =
     (if sp_tcp w \<noteq> None then Inl (Runtime_error ''listen_and_accept() with TCPConnection already initialized'')
      else
        let (rules, w) = initialize_TCP ad pp random c_tcp rules w;
            w = w\<lparr>sp_datagram_adapter := ao_set_listening ad True (ao_set_config ad c_ad (sp_datagram_adapter w))\<rparr>
        in tcp_loop ad (in_states [State_LISTEN, State_SYN_RCVD, State_SYN_SENT]) turns base_time rules w)"

text \<open>\<^verbatim>\<open>wait_until_closed\<close> and the destructor: what they do before joining the thread.\<close>

definition TCPSpongeSocket_wait_until_closed :: "'k pipe_ops \<Rightarrow> ('a, 'k) sponge \<Rightarrow> exn + ('a, 'k) sponge" where
  "TCPSpongeSocket_wait_until_closed pp w =
     (let (ret, k) = pp_shutdown pp SHUT_RDWR (sp_kernel w) in
      bindE (Socket_shutdown (\<lambda>_. ret) SHUT_RDWR (sp_owner w)) (\<lambda>fd. Inr (w\<lparr>sp_owner := fd, sp_kernel := k\<rparr>)))"

definition TCPSpongeSocket_destroy :: "bool \<Rightarrow> turn list \<Rightarrow> turn list" where
  "TCPSpongeSocket_destroy joinable turns = (if joinable then map (\<lambda>t. t\<lparr>tu_abort := True\<rparr>) turns else turns)"

section \<open>Sockets that connect\<close>

text \<open>
  \<^verbatim>\<open>CS144TCPSocket\<close> and \<^verbatim>\<open>FullStackSocket\<close>: \<^verbatim>\<open>connect\<close> from a fixed address and a random port (what
  \<^verbatim>\<open>random_device\<close> gives), with a retransmission timeout of 100 ms. Their constructors open the device
  and make the adapter.
\<close>

definition connect_from :: "string \<Rightarrow> libc \<Rightarrow> u32 \<Rightarrow> ('a, 'k) adapter_ops \<Rightarrow> 'k pipe_ops \<Rightarrow> u32 \<Rightarrow> address \<Rightarrow>
    turn list \<Rightarrow> nat \<Rightarrow> ('a, 'k) sponge rule list \<Rightarrow> ('a, 'k) sponge \<Rightarrow>
    exn + bool \<times> ('a, 'k) sponge rule list \<times> ('a, 'k) sponge" where
  "connect_from local_ip l random_port ad pp random address turns base_time rules w =
     (let tcp_config = TCPConfig\<lparr>cfg_rt_timeout := 100\<rparr> in
      bindE (FdAdapterConfig l) (\<lambda>multiplexer_config.
      bindE (Address_of_host (lc_getaddrinfo l) local_ip (dec_string (unat (ucast random_port :: u16)))) (\<lambda>source.
        TCPSpongeSocket_connect ad pp random tcp_config
          (multiplexer_config\<lparr>fc_source := source, fc_destination := address\<rparr>) turns base_time rules w)))"

definition CS144TCPSocket_connect :: "libc \<Rightarrow> u32 \<Rightarrow> ('a, 'k) adapter_ops \<Rightarrow> 'k pipe_ops \<Rightarrow> u32 \<Rightarrow> address \<Rightarrow>
    turn list \<Rightarrow> nat \<Rightarrow> ('a, 'k) sponge rule list \<Rightarrow> ('a, 'k) sponge \<Rightarrow>
    exn + bool \<times> ('a, 'k) sponge rule list \<times> ('a, 'k) sponge" where
  "CS144TCPSocket_connect = connect_from ''169.254.144.9''"

definition LOCAL_TAP_IP_ADDRESS :: string where "LOCAL_TAP_IP_ADDRESS = ''169.254.10.9''"
definition LOCAL_TAP_NEXT_HOP_ADDRESS :: string where "LOCAL_TAP_NEXT_HOP_ADDRESS = ''169.254.10.1''"

definition FullStackSocket_connect :: "libc \<Rightarrow> u32 \<Rightarrow> ('a, 'k) adapter_ops \<Rightarrow> 'k pipe_ops \<Rightarrow> u32 \<Rightarrow> address \<Rightarrow>
    turn list \<Rightarrow> nat \<Rightarrow> ('a, 'k) sponge rule list \<Rightarrow> ('a, 'k) sponge \<Rightarrow>
    exn + bool \<times> ('a, 'k) sponge rule list \<times> ('a, 'k) sponge" where
  "FullStackSocket_connect = connect_from LOCAL_TAP_IP_ADDRESS"

text \<open>The six random numbers, and the adapter of \<^verbatim>\<open>FullStackSocket\<close> with the frame it writes at once.\<close>

definition random_private_ethernet_address :: "(nat \<Rightarrow> u32) \<Rightarrow> ethernet_address" where
  "random_private_ethernet_address random_device =
     (let addr = map (\<lambda>i. ucast (random_device i) :: byte) [0..<6];
          addr = addr[0 := or (addr ! 0) 0x02]
      in addr[0 := and (addr ! 0) 0xfe])"

definition FullStackSocket_adapter :: "libc \<Rightarrow> (nat \<Rightarrow> u32) \<Rightarrow> exn + bytes list \<times> tap_adapter" where
  "FullStackSocket_adapter l random_device =
     bindE (Address_of_host (lc_getaddrinfo l) LOCAL_TAP_IP_ADDRESS ''0'') (\<lambda>ip_address.
     bindE (Address_of_host (lc_getaddrinfo l) LOCAL_TAP_NEXT_HOP_ADDRESS ''0'') (\<lambda>next_hop.
       TCPOverIPv4OverEthernetAdapter l (random_private_ethernet_address random_device) ip_address next_hop))"

section \<open>The UDP adapter as an instance\<close>

text \<open>
  \<^verbatim>\<open>TCPOverUDPSocketAdapter\<close> with its socket: \<^verbatim>\<open>recvfrom(2)\<close> and \<^verbatim>\<open>sendmsg(2)\<close> work on the outside; its
  \<^verbatim>\<open>tick\<close>, that of the base class, does nothing.
\<close>

record udp_socket_adapter =
  us_base :: fd_adapter_base
  us_sock :: fd_wrapper

definition udp_read :: "(nat \<Rightarrow> 'k \<Rightarrow> (sysret \<times> bytes \<times> bytes \<times> nat) \<times> 'k) \<Rightarrow> udp_socket_adapter \<Rightarrow> 'k \<Rightarrow>
    exn + tcp_segment option \<times> udp_socket_adapter \<times> 'k" where
  "udp_read recvfrom a k =
     bindE (UDPSocket_recv (\<lambda>mtu. fst (recvfrom mtu k)) 65536 (us_sock a)) (\<lambda>(datagram, sock).
       let (seg, base) = TCPOverUDPSocketAdapter_read datagram (us_base a)
       in Inr (seg, \<lparr>us_base = base, us_sock = sock\<rparr>, snd (recvfrom 65536 k)))"

definition udp_write :: "libc \<Rightarrow> (bytes option \<Rightarrow> bytes list \<Rightarrow> 'k \<Rightarrow> sysret \<times> 'k) \<Rightarrow> tcp_segment \<Rightarrow>
    udp_socket_adapter \<Rightarrow> 'k \<Rightarrow> exn + udp_socket_adapter \<times> 'k" where
  "udp_write l sendmsg seg a k =
     bindE (set_ports l seg (us_base a)) (\<lambda>seg.
     bindE (TCPSegment_serialize 0 seg) (\<lambda>payload.
       let payload = BufferViewList_of_buffers payload;
           destination = fc_destination (fa_cfg (us_base a));
           k' = snd (sendmsg (Some (take (ad_size destination) (ad_storage destination)))
                  (BufferViewList_as_iovecs payload) k)
       in bindE (UDPSocket_sendto (\<lambda>dst iovecs. fst (sendmsg dst iovecs k)) destination payload (us_sock a))
            (\<lambda>sock. Inr (a\<lparr>us_sock := sock\<rparr>, k'))))"

definition udp_adapter_ops :: "libc \<Rightarrow> (nat \<Rightarrow> 'k \<Rightarrow> (sysret \<times> bytes \<times> bytes \<times> nat) \<times> 'k) \<Rightarrow>
    (bytes option \<Rightarrow> bytes list \<Rightarrow> 'k \<Rightarrow> sysret \<times> 'k) \<Rightarrow> (udp_socket_adapter, 'k) adapter_ops" where
  "udp_adapter_ops l recvfrom sendmsg =
     \<lparr>ao_fd = us_sock, ao_read = udp_read recvfrom, ao_write = udp_write l sendmsg,
      ao_tick = (\<lambda>ms a k. Inr (a, k)),
      ao_set_config = (\<lambda>cfg a. a\<lparr>us_base := (us_base a)\<lparr>fa_cfg := cfg\<rparr>\<rparr>),
      ao_set_listening = (\<lambda>l a. a\<lparr>us_base := FdAdapter_set_listening l (us_base a)\<rparr>)\<rparr>"

end
