(* ===== verification/Sponge_Thread.thy ===== *)
theory Sponge_Thread
  imports Sponge_Socket
begin

text \<open>
  What the thread of a \<^verbatim>\<open>TCPSpongeSocket\<close> does and keeps: the event loop's contract (\<open>loop_client\<close>) is
  discharged for its four rules with the invariant \<open>sponge_inv\<close>, which the whole thread then keeps;
  each rule's effect; and what \<^verbatim>\<open>connect\<close>, a reset and an abort come to.
\<close>

section \<open>The outbound stream stays ended\<close>

definition outbound_ended :: "tcp_connection \<Rightarrow> bool" where
  "outbound_ended c \<longleftrightarrow> bs_eof2 (sn_stream (cn_sender c)) \<or> \<not> cn_active2 c"

lemma outbound_ended_segment:
  assumes "outbound_ended c"
  shows "outbound_ended (TCPConnection_segment_received seg c)"
proof (cases "cn_active2 c")
  case True
  then show ?thesis using assms by (simp add: outbound_ended_def segment_received_eof2)
next
  case False
  then have "TCPConnection_segment_received seg c = c"
    by (simp add: TCPConnection_segment_received_def TCPConnection_active_def)
  then show ?thesis using assms by simp
qed

lemma outbound_ended_tick:
  assumes "outbound_ended c" "TCPConnection_tick ms c = Inr c'"
  shows "outbound_ended c'"
proof -
  have "bs_eof2 (sn_stream (cn_sender c')) = bs_eof2 (sn_stream (cn_sender c))"
    using connection_tick_keeps [OF assms(2)] by blast
  then show ?thesis
    using assms by (auto simp: outbound_ended_def TCPConnection_tick_def TCPConnection_active_def)
qed

lemma outbound_ended_other:
  "outbound_ended c \<Longrightarrow> outbound_ended (snd (TCPConnection_write d c))"
  "outbound_ended (TCPConnection_end_input_stream c)"
  "outbound_ended (TCPConnection_pop_segment c) = outbound_ended c"
  "outbound_ended (inbound_pop n c) = outbound_ended c"
  by (auto simp: outbound_ended_def TCPConnection_write_def TCPConnection_active_def TCPConnection_end_input_stream_def
      TCPConnection_pop_segment_def inbound_pop_def TCPSender_stream_in_def ByteStream_end_input_def split_beta)

section \<open>What the thread keeps\<close>

text \<open>
  There is a connection; when the application's end has been read to its end, or rule 2 has been
  cancelled, the outbound stream is ended or the connection over.
\<close>

definition sponge_inv :: "('a, 'k) sponge \<Rightarrow> bool" where
  "sponge_inv w \<longleftrightarrow> (\<exists>c. sp_tcp w = Some c \<and> (sp_outbound_shutdown w \<longrightarrow> outbound_ended c)) \<and>
     (fd_eof (sp_thread_data w) \<longrightarrow> sp_outbound_shutdown w)"

lemma tcp_update_Inr: "tcp_update f w = Inr w' \<longleftrightarrow> (\<exists>c. sp_tcp w = Some c \<and> w' = w\<lparr>sp_tcp := Some (f c)\<rparr>)"
  by (auto simp: tcp_update_def tcp_deref_def bindE_eq_Inr_iff split: option.splits)

lemma tcp_deref_Inr: "tcp_deref w = Inr c \<longleftrightarrow> sp_tcp w = Some c" "tcp_value w = Inr c \<longleftrightarrow> sp_tcp w = Some c"
  by (simp_all add: tcp_deref_def tcp_value_def split: option.splits)

lemmas sponge_Inr = bindE_eq_Inr_iff tcp_update_Inr tcp_deref_Inr

lemma end_outbound_inv: "end_outbound w = Inr w' \<Longrightarrow> sponge_inv w'"
  by (auto simp: end_outbound_def sponge_Inr sponge_inv_def outbound_ended_other)

lemma rule1_inv: "sponge_inv w \<Longrightarrow> rule1_callback ad w = Inr w' \<Longrightarrow> sponge_inv w'"
  by (auto simp: rule1_callback_def sponge_Inr sponge_inv_def outbound_ended_segment Let_def
      split: option.splits if_splits)

lemma FileDescriptor_read_eof:
  "FileDescriptor_read rd limit fd = Inr (data, fd') \<Longrightarrow> fd_eof fd \<Longrightarrow> fd_eof fd'"
  by (auto simp: FileDescriptor_read_def bindE_eq_Inr_iff register_read_def Let_def split: prod.splits if_splits)

lemma rule2_cases:
  assumes "rule2_callback pp w = Inr w'"
  obtains (ended) w1 where "end_outbound w1 = Inr w'"
  | (more) c data fd k where "sp_tcp w = Some c" "\<not> fd_eof fd"
      "w' = w\<lparr>sp_thread_data := fd, sp_kernel := k, sp_tcp := Some (snd (TCPConnection_write data c))\<rparr>"
  using assms by (auto simp: rule2_callback_def sponge_Inr Let_def split_beta split: if_splits)

lemma rule2_inv:
  assumes "sponge_inv w" "rule2_callback pp w = Inr w'"
  shows "sponge_inv w'"
  using assms(2)
proof (cases rule: rule2_cases)
  case (more c data fd k)
  then show ?thesis using assms(1) by (auto simp: sponge_inv_def outbound_ended_other)
qed (rule end_outbound_inv)

lemma FileDescriptor_write_eof:
  assumes "FileDescriptor_write writev buffer write_all fd = Inr (n, out, fd')"
  shows "fd_eof fd' = fd_eof fd"
  using write_loop_spec [OF assms [unfolded FileDescriptor_write_def]] by blast

lemma Socket_shutdown_eof: "Socket_shutdown f how fd = Inr fd' \<Longrightarrow> fd_eof fd' = fd_eof fd"
  by (auto simp: Socket_shutdown_def bindE_eq_Inr_iff register_read_def register_write_def split: shutdown_how.splits)

lemma rule3_inv: "sponge_inv w \<Longrightarrow> rule3_callback pp w = Inr w' \<Longrightarrow> sponge_inv w'"
  by (auto simp: rule3_callback_def sponge_Inr sponge_inv_def outbound_ended_other Let_def
      dest!: FileDescriptor_write_eof Socket_shutdown_eof split: if_splits prod.splits)

lemma send_segments_inv: "sponge_inv w \<Longrightarrow> send_segments ad q w = Inr w' \<Longrightarrow> sponge_inv w'"
proof (induction q arbitrary: w)
  case (Cons seg q)
  from Cons.prems(2) obtain a k w1 where
    w1: "tcp_update TCPConnection_pop_segment (w\<lparr>sp_datagram_adapter := a, sp_kernel := k\<rparr>) = Inr w1" "send_segments ad q w1 = Inr w'"
    by (auto simp: bindE_eq_Inr_iff)
  from w1(1) Cons.prems(1) have "sponge_inv w1" by (auto simp: tcp_update_Inr sponge_inv_def outbound_ended_other)
  then show ?case using Cons.IH w1(2) by simp
qed simp

lemma rule4_inv: "sponge_inv w \<Longrightarrow> rule4_callback ad w = Inr w' \<Longrightarrow> sponge_inv w'"
  by (auto simp: rule4_callback_def bindE_eq_Inr_iff intro: send_segments_inv)

lemma sponge_rules_cases:
  assumes "r \<in> set (sponge_rules ad pp)"
  obtains "r = rule1 ad" | "r = rule2 pp" | "r = rule3 pp" | "r = rule4 ad"
  using assms by (auto simp: sponge_rules_def)

interpretation thread: loop_client sponge_inv "sponge_rules ad pp" for ad :: "('a, 'k) adapter_ops" and pp
proof
  fix r :: "('a, 'k) sponge rule" and w w' :: "('a, 'k) sponge"
  assume r: "r \<in> set (sponge_rules ad pp)" and w: "sponge_inv w"
  show "sponge_inv w'" if "ru_callback r w = Inr w'"
    using that w by (cases rule: sponge_rules_cases [OF r])
      (auto simp: rule1_def rule2_def rule3_def rule4_def intro: rule1_inv rule2_inv rule3_inv rule4_inv)
  show "sponge_inv w'" if "ru_cancel r w = Inr w'"
    using that w by (cases rule: sponge_rules_cases [OF r])
      (auto simp: rule1_def rule2_def rule3_def rule4_def intro: end_outbound_inv)
qed

lemma tcp_loop_keeps:
  assumes "tcp_loop ad condition turns base_time rules w = Inr (finished, rules', w')"
    and "set rules \<subseteq> set (sponge_rules ad pp)" "sponge_inv w"
  shows "sponge_inv w' \<and> set rules' \<subseteq> set (sponge_rules ad pp)"
  using assms
proof (induction turns arbitrary: base_time rules w)
  case (Cons t turns)
  show ?case
  proof (cases "condition w")
    case True
    with Cons.prems(1) obtain ret rules1 w1 where
      wait: "EventLoop_wait_next_event (tu_poll t) TCP_TICK_MS rules w = Inr (ret, rules1, w1)" and
      rest: "(if ret = Result_Exit \<or> tu_abort t then Inr (True, rules1, w1)
          else
            bindE (tcp_value w1) (\<lambda>c.
              if TCPConnection_active c then
                let d = sub64 (tu_time t) base_time in
                bindE (TCPConnection_tick d c) (\<lambda>c.
                bindE (ao_tick ad d (sp_datagram_adapter w1) (sp_kernel w1)) (\<lambda>(a, k).
                  tcp_loop ad condition turns (tu_time t) rules1
                    (w1\<lparr>sp_tcp := Some c, sp_datagram_adapter := a, sp_kernel := k\<rparr>)))
              else tcp_loop ad condition turns base_time rules1 w1)) = Inr (finished, rules', w')"
      unfolding tcp_loop.simps by (auto simp: bindE_eq_Inr_iff)
    have w1: "sponge_inv w1" "set rules1 \<subseteq> set (sponge_rules ad pp)"
      using thread.wait_keeps [OF wait Cons.prems(2,3)] by simp_all
    then obtain c where c: "sp_tcp w1 = Some c" by (auto simp: sponge_inv_def)
    have ticked: "sponge_inv (w1\<lparr>sp_tcp := Some c', sp_datagram_adapter := a, sp_kernel := k\<rparr>)"
      if "TCPConnection_tick d c = Inr c'" for c' a k d
      using w1(1) c outbound_ended_tick [OF _ that] by (simp add: sponge_inv_def)
    consider "w' = w1" "rules' = rules1"
      | bt w2 where "tcp_loop ad condition turns bt rules1 w2 = Inr (finished, rules', w')" "sponge_inv w2"
      using rest w1(1) c ticked by (auto simp: bindE_eq_Inr_iff tcp_deref_Inr Let_def split: if_splits)
    then show ?thesis using w1 Cons.IH by cases blast+
  qed (use Cons.prems in simp)
qed simp

section \<open>What each rule does\<close>

text \<open>A kernel that reads at most what is asked for and delivers as many bytes as it says.\<close>

lemma FileDescriptor_read_ok:
  assumes "rd (min BUFFER_SIZE limit) = ((int (length bs), e), bs)" "length bs \<le> min BUFFER_SIZE limit"
  shows "FileDescriptor_read rd limit fd =
    Inr (bs, register_read (if limit > 0 \<and> bs = [] then fd\<lparr>fd_eof := True\<rparr> else fd))"
  using assms by (simp add: FileDescriptor_read_def syscall_def SystemCall_def resize_def not_less)

lemma TCPConnection_write_takes:
  "TCPConnection_active c \<Longrightarrow> length bs \<le> TCPConnection_remaining_outbound_capacity c \<Longrightarrow>
     fst (TCPConnection_write bs c) = length bs"
  "\<not> TCPConnection_active c \<Longrightarrow> TCPConnection_write bs c = (0, c)"
  by (simp_all add: TCPConnection_write_def TCPConnection_remaining_outbound_capacity_def ByteStream_write_def
      ByteStream_remaining_capacity_def split_beta Let_def)

lemma rule2_effect:
  assumes "sp_tcp w = Some c" "TCPConnection_active c" "\<not> fd_eof (sp_thread_data w)"
    and "pp_read pp (min BUFFER_SIZE (TCPConnection_remaining_outbound_capacity c)) (sp_kernel w) = (((int (length bs), e), bs), k)"
    and "length bs \<le> min BUFFER_SIZE (TCPConnection_remaining_outbound_capacity c)"
  shows "\<exists>w'. rule2_callback pp w = Inr w' \<and> sp_kernel w' = k \<and> fst (TCPConnection_write bs c) = length bs \<and>
    (if bs = [] \<and> TCPConnection_remaining_outbound_capacity c > 0
     then sp_tcp w' = Some (TCPConnection_end_input_stream (snd (TCPConnection_write bs c))) \<and> \<not> rule2_interest w' \<and>
       fd_eof (sp_thread_data w')
     else sp_tcp w' = Some (snd (TCPConnection_write bs c)) \<and> sp_outbound_shutdown w' = sp_outbound_shutdown w)"
proof -
  let ?limit = "TCPConnection_remaining_outbound_capacity c"
  let ?fd = "register_read (if ?limit > 0 \<and> bs = [] then (sp_thread_data w)\<lparr>fd_eof := True\<rparr> else sp_thread_data w)"
  have rd: "FileDescriptor_read (\<lambda>n. fst (pp_read pp n (sp_kernel w))) ?limit (sp_thread_data w) = Inr (bs, ?fd)"
    by (rule FileDescriptor_read_ok) (use assms(4,5) in simp_all)
  have wr: "fst (TCPConnection_write bs c) = length bs"
    by (rule TCPConnection_write_takes(1)) (use assms(2,5) in simp_all)
  have deref: "tcp_deref w = Inr c" using assms(1) by (simp add: tcp_deref_Inr)
  have eof: "fd_eof ?fd \<longleftrightarrow> ?limit > 0 \<and> bs = []" using assms(3) by (simp add: register_read_def)
  show ?thesis
    unfolding rule2_callback_def deref bindE_simps Let_def rd prod.case split_beta fst_conv snd_conv wr eof assms(4)
    by (auto simp: end_outbound_def tcp_update_def tcp_deref_def rule2_interest_def register_read_def)
qed

text \<open>
  Rule 2 of the TCP thread loses nothing of what the application writes: on an active connection, whatever
  bytes \<open>bs\<close> the kernel delivers (no more than the connection has room for), the callback does not
  throw, the connection takes all of \<open>bs\<close>, and when there were none though there was room (the
  application has closed its end) its outbound stream is ended and the rule's interest is gone.
\<close>

theorem rule2_takes_all:
  assumes "sp_tcp w = Some c" "TCPConnection_active c" "\<not> fd_eof (sp_thread_data w)"
    and "pp_read pp (min BUFFER_SIZE (TCPConnection_remaining_outbound_capacity c)) (sp_kernel w) = (((int (length bs), e), bs), k)"
    and "length bs \<le> min BUFFER_SIZE (TCPConnection_remaining_outbound_capacity c)"
  shows "\<exists>w'. rule2_callback pp w = Inr w' \<and> sp_kernel w' = k \<and> fst (TCPConnection_write bs c) = length bs \<and>
    (if bs = [] \<and> TCPConnection_remaining_outbound_capacity c > 0
     then sp_tcp w' = Some (TCPConnection_end_input_stream (snd (TCPConnection_write bs c))) \<and> \<not> rule2_interest w'
     else sp_tcp w' = Some (snd (TCPConnection_write bs c)) \<and> sp_outbound_shutdown w' = sp_outbound_shutdown w)"
proof -
  from rule2_effect [OF assms] obtain w' where "rule2_callback pp w = Inr w'" "sp_kernel w' = k"
    "fst (TCPConnection_write bs c) = length bs"
    "if bs = [] \<and> TCPConnection_remaining_outbound_capacity c > 0
     then sp_tcp w' = Some (TCPConnection_end_input_stream (snd (TCPConnection_write bs c))) \<and> \<not> rule2_interest w' \<and>
       fd_eof (sp_thread_data w')
     else sp_tcp w' = Some (snd (TCPConnection_write bs c)) \<and> sp_outbound_shutdown w' = sp_outbound_shutdown w"
    by blast
  then show ?thesis by (intro exI [of _ w']) (simp split: if_splits)
qed

text \<open>
  C24: Rule 3 moves the inbound stream to the application without loss: whatever part \<open>m\<close> of the bytes offered (the first
  65536 of the inbound stream at most) the kernel takes, exactly these are popped from the stream and
  the rest stays; and the application's end is shut down just when the stream is then at its end, or
  in error.
\<close>

theorem rule3_moves_prefix:
  fixes w :: "('a, 'k) sponge" and c
  defines "s \<equiv> TCPConnection_inbound_stream c"
  assumes "sp_tcp w = Some c" "bs_inv s"
    and "pp_writev pp [take 65536 (bs_buf s)] (sp_kernel w) = ((int m, e), k)"
    and "m \<le> min 65536 (length (bs_buf s))" "bs_buf s \<noteq> [] \<Longrightarrow> 1 \<le> m"
    and "\<And>k. fst (fst (pp_shutdown pp SHUT_WR k)) = 0"
  shows "\<exists>w' c'. rule3_callback pp w = Inr w' \<and> sp_tcp w' = Some c' \<and>
    bs_buf (TCPConnection_inbound_stream c') = drop m (bs_buf s) \<and>
    sp_inbound_shutdown w' = (sp_inbound_shutdown w \<or> ByteStream_error s \<or>
       ByteStream_input_ended s \<and> drop m (bs_buf s) = []) \<and>
    sp_kernel w' = (if ByteStream_error s \<or> ByteStream_input_ended s \<and> drop m (bs_buf s) = []
      then snd (pp_shutdown pp SHUT_WR k) else k)"
proof -
  let ?buffer = "BufferViewList_of_view (take 65536 (bs_buf s))"
  let ?wr = "\<lambda>(_ :: nat) v. fst (pp_writev pp v (sp_kernel w))"
  have peek: "ByteStream_peek_output (min 65536 (ByteStream_buffer_size s)) s = take 65536 (bs_buf s)"
    using assms(3) by (cases "length (bs_buf s) \<le> 65536")
      (simp_all add: ByteStream_peek_output_def buffer_size_length)
  have iov: "BufferViewList_as_iovecs ?buffer = [take 65536 (bs_buf s)]"
    by (simp add: BufferViewList_as_iovecs_def BufferViewList_of_view_def)
  have size: "BufferViewList_size ?buffer = min 65536 (length (bs_buf s))"
    by (simp add: BufferViewList_size_content min.commute)
  obtain rest where rest: "BufferViewList_remove_prefix m ?buffer = Inr rest"
    using buffer_views.discard_ok [of m ?buffer] assms(5) by (auto simp: min.commute)
  have call: "syscall ''writev'' (?wr 0 [take 65536 (bs_buf s)]) = Inr (int m)"
    using assms(4) by (simp add: syscall_def SystemCall_def)
  have "\<exists>out fd. FileDescriptor_write ?wr ?buffer False (sp_thread_data w) = Inr (m, out, fd)"
    unfolding FileDescriptor_write_def write_loop.simps [of ?wr False 0 ?buffer 0 "[]" "sp_thread_data w"] iov call bindE_simps size
    using assms(5,6) rest by (cases "bs_buf s = []") (auto simp: min_def)
  then obtain out fd where wr: "FileDescriptor_write ?wr ?buffer False (sp_thread_data w) = Inr (m, out, fd)" by blast
  let ?s' = "TCPConnection_inbound_stream (inbound_pop m c)"
  have s': "?s' = ByteStream_pop_output m s"
    by (simp add: s_def TCPConnection_inbound_stream_def inbound_pop_def TCPReceiver_stream_out_def TCPReceiver_pop_def
        pop_stream_out_def)
  have m: "m \<le> length (bs_buf s)" using assms(5) by simp
  have ended: "ByteStream_eof ?s' \<or> ByteStream_error ?s' \<longleftrightarrow>
      ByteStream_error s \<or> ByteStream_input_ended s \<and> drop m (bs_buf s) = []"
    unfolding s' using eof_iff [OF bs_inv_pop [OF assms(3) m]]
    by (auto simp: ByteStream_error_def ByteStream_input_ended_def ByteStream_pop_output_def)
  have shut: "syscall ''shutdown'' (fst (pp_shutdown pp SHUT_WR k)) = Inr 0"
    using assms(7) by (simp add: syscall_def SystemCall_def)
  have deref: "tcp_deref w = Inr c" using assms(2) by (simp add: tcp_deref_Inr)
  have buf: "bs_buf ?s' = drop m (bs_buf s)" unfolding s' by (simp add: ByteStream_pop_output_def)
  have eq: "rule3_callback pp w =
      (let w = w\<lparr>sp_thread_data := fd, sp_kernel := k, sp_tcp := Some (inbound_pop m c)\<rparr> in
       if ByteStream_eof ?s' \<or> ByteStream_error ?s'
       then let (ret, k) = pp_shutdown pp SHUT_WR (sp_kernel w) in
         bindE (Socket_shutdown (\<lambda>_. ret) SHUT_WR (sp_thread_data w)) (\<lambda>fd.
           Inr (w\<lparr>sp_thread_data := fd, sp_kernel := k, sp_inbound_shutdown := True\<rparr>))
       else Inr w)"
    using wr by (simp add: rule3_callback_def deref peek iov assms(4) Let_def flip: s_def)
  show ?thesis
  proof (cases "ByteStream_eof ?s' \<or> ByteStream_error ?s'")
    case True
    note E = True [unfolded ended]
    show ?thesis unfolding eq Let_def if_P [OF True] if_P [OF E] using buf E
      by (simp add: split_beta Socket_shutdown_def shut)
  next
    case False
    note nE = False [unfolded ended]
    show ?thesis unfolding eq Let_def if_not_P [OF False] if_not_P [OF nE] using buf nE by auto
  qed
qed

text \<open>
  A reset that comes in before application data in the same turn of the loop: rule 1 closes the
  connection, and rule 2, whose interest is not asked again, reads data for it.
\<close>

lemma reset_inactive:
  assumes "TCPConnection_active c" "th_rst (seg_header seg)"
    and "TCPReceiver_ackno (cn_receiver c) = Some (th_seqno (seg_header seg))"
  shows "\<not> TCPConnection_active (TCPConnection_segment_received seg c)"
    and "TCPConnection_remaining_outbound_capacity (TCPConnection_segment_received seg c) =
      TCPConnection_remaining_outbound_capacity c"
proof -
  note reset = reset_eq [OF assms(1,2) disjI2 [OF assms(3)]]
  show "\<not> TCPConnection_active (TCPConnection_segment_received seg c)"
    by (subst reset(1)) (use assms(3) in \<open>simp_all add: TCPConnection_active_def\<close>)
  show "TCPConnection_remaining_outbound_capacity (TCPConnection_segment_received seg c) =
      TCPConnection_remaining_outbound_capacity c"
    by (subst reset(1)) (use assms(3) in \<open>simp_all add: TCPConnection_remaining_outbound_capacity_def set_errors_def
       ByteStream_remaining_capacity_def TCPSender_stream_in_def ByteStream_set_error_def\<close>)
qed

lemma rule2_inactive:
  assumes "sp_tcp w = Some c" "\<not> TCPConnection_active c" "bs \<noteq> []"
    and "pp_read pp (min BUFFER_SIZE (TCPConnection_remaining_outbound_capacity c)) (sp_kernel w) = (((int (length bs), e), bs), k)"
    and "length bs \<le> min BUFFER_SIZE (TCPConnection_remaining_outbound_capacity c)"
  shows "rule2_callback pp w = Inl (Runtime_error ''TCPConnection::write() accepted less than advertised length'')"
proof -
  have rd: "FileDescriptor_read (\<lambda>n. fst (pp_read pp n (sp_kernel w))) (TCPConnection_remaining_outbound_capacity c)
      (sp_thread_data w) = Inr (bs, register_read (sp_thread_data w))"
    using FileDescriptor_read_ok [of "\<lambda>n. fst (pp_read pp n (sp_kernel w))"] assms(3-5) by simp
  have deref: "tcp_deref w = Inr c" using assms(1) by (simp add: tcp_deref_Inr)
  show ?thesis
    unfolding rule2_callback_def deref bindE_simps Let_def rd prod.case TCPConnection_write_takes(2) [OF assms(2)]
    using assms(3) by simp
qed

lemma poll_service_in:
  "ru_callback r w = Inr w' \<Longrightarrow> \<not> ru_interest r w' \<Longrightarrow>
     poll_service ((r, (fd, POLLIN)) # ps) (POLLIN # rs) w = bindE (poll_service ps rs w') (\<lambda>(rules, w). Inr (r # rules, w))"
  "ru_callback r w = Inl x \<Longrightarrow> poll_service ((r, (fd, POLLIN)) # ps) (POLLIN # rs) w = Inl x"
  by (simp_all add: poll_service.simps POLLIN_def POLLERR_def POLLNVAL_def)

text \<open>
  C25: A reset can kill the whole thread: when \<^verbatim>\<open>poll\<close> reports a datagram and data of the application in one turn, and the
  datagram is a reset that the connection accepts, rule 1 closes the connection and rule 2 then reads
  the data and throws, because \<^verbatim>\<open>TCPConnection::write\<close> accepts none of it; the exception leaves
  \<^verbatim>\<open>wait_next_event\<close> and the thread.
\<close>

theorem reset_and_data_throw:
  fixes w :: "('a, 'k) sponge" and c
  assumes "sp_tcp w = Some c" "TCPConnection_active c" "\<not> sp_outbound_shutdown w" "TCPConnection_remaining_outbound_capacity c > 0"
    and "\<And>r. r \<in> set (sponge_rules ad pp) \<Longrightarrow> \<not> defunct r w"
    and "\<And>p. fst (fst (poll p TCP_TICK_MS)) = 2" "\<And>p. snd (poll p TCP_TICK_MS) = [POLLIN, POLLIN, r3, r4]"
    and "ao_read ad (sp_datagram_adapter w) (sp_kernel w) = Inr (Some seg, a, k)"
    and "th_rst (seg_header seg)" "TCPReceiver_ackno (cn_receiver c) = Some (th_seqno (seg_header seg))"
    and "let n = min BUFFER_SIZE (TCPConnection_remaining_outbound_capacity c)
      in bs \<noteq> [] \<and> length bs \<le> n \<and> fst (pp_read pp n k) = ((int (length bs), e), bs)"
  shows "EventLoop_wait_next_event poll TCP_TICK_MS (sponge_rules ad pp) w =
    Inl (Runtime_error ''TCPConnection::write() accepted less than advertised length'')"
proof -
  let ?c' = "TCPConnection_segment_received seg c"
  let ?w' = "w\<lparr>sp_datagram_adapter := a, sp_kernel := k, sp_tcp := Some ?c'\<rparr>"
  let ?ev = "\<lambda>r. if ru_interest r w then direction_events (ru_direction r) else 0"
  let ?ps = "map (\<lambda>r. (r, (fd_num (ru_fd r w), ?ev r))) (sponge_rules ad pp)"
  have inactive: "\<not> TCPConnection_active ?c'"
    "TCPConnection_remaining_outbound_capacity ?c' = TCPConnection_remaining_outbound_capacity c"
    by (rule reset_inactive; use assms(2,9,10) in simp)+
  have fds: "\<not> fd_eof (sp_thread_data w)" using assms(5) [of "rule2 pp"] by (auto simp: defunct_def rule2_def sponge_rules_def)
  have r1: "rule1_callback ad w = Inr ?w'"
    using fds by (simp add: rule1_callback_def assms(1,8) tcp_update_def tcp_deref_def)
  have r2: "rule2_callback pp ?w' = Inl (Runtime_error ''TCPConnection::write() accepted less than advertised length'')"
    by (rule rule2_inactive [where c = ?c' and bs = bs and e = e])
      (use inactive assms(11) in \<open>auto simp: Let_def prod_eq_iff\<close>)
  have ev: "?ev (rule1 ad) = POLLIN" "?ev (rule2 pp) = POLLIN"
    using assms(1-4) by (simp_all add: rule1_def rule2_def tcp_query_def rule2_interest_def)
  have su: "poll_setup (sponge_rules ad pp) w = Inr (?ps, w)"
    by (rule poll_setup_idle) (use assms(5) in blast)
  have ps: "?ps = (rule1 ad, (fd_num (ru_fd (rule1 ad) w), POLLIN)) # (rule2 pp, (fd_num (ru_fd (rule2 pp) w), POLLIN)) #
      [(rule3 pp, (fd_num (ru_fd (rule3 pp) w), ?ev (rule3 pp))), (rule4 ad, (fd_num (ru_fd (rule4 ad) w), ?ev (rule4 ad)))]"
    unfolding sponge_rules_def list.map ev ..
  have cb: "ru_callback (rule1 ad) w = Inr ?w'" "\<not> ru_interest (rule1 ad) ?w'"
    "ru_callback (rule2 pp) ?w' = Inl (Runtime_error ''TCPConnection::write() accepted less than advertised length'')"
    using r1 r2 inactive by (simp_all add: rule1_def rule2_def tcp_query_def)
  have service: "poll_service ?ps [POLLIN, POLLIN, r3, r4] w =
      Inl (Runtime_error ''TCPConnection::write() accepted less than advertised length'')"
    unfolding ps poll_service_in(1) [OF cb(1,2)] poll_service_in(2) [OF cb(3)] by simp
  have some: "something_to_poll ?ps"
    using ev by (simp add: something_to_poll_def sponge_rules_def POLLIN_def)
  obtain en where poll: "poll (map snd ?ps) TCP_TICK_MS = ((2, en), [POLLIN, POLLIN, r3, r4])"
    using assms(6,7) [of "map snd ?ps"] by (cases "poll (map snd ?ps) TCP_TICK_MS") auto
  show ?thesis
    unfolding EventLoop_wait_next_event_def su bindE_simps prod.case poll Let_def
    using some service by (simp add: syscall_def SystemCall_def)
qed


text \<open>
  Rule 4 sends every queued segment once, in order: if each write of the adapter succeeds and adds
  one packet to what the device has been given (\<open>sent\<close>), then the callback returns, with the packets of all
  the queued segments added in their order and the queue empty.
\<close>

lemma send_segments_spec:
  assumes "\<And>seg a k. \<exists>a' k'. ao_write ad seg a k = Inr (a', k') \<and> sent k' = sent k @ [pack seg]"
    and "sp_tcp w = Some c" "cn_segments_out c = q"
  shows "\<exists>w'. send_segments ad q w = Inr w' \<and> sent (sp_kernel w') = sent (sp_kernel w) @ map pack q \<and>
    sp_tcp w' = Some (c\<lparr>cn_segments_out := []\<rparr>)"
  using assms(2,3)
proof (induction q arbitrary: w c)
  case (Cons seg q)
  obtain a k where ak: "ao_write ad seg (sp_datagram_adapter w) (sp_kernel w) = Inr (a, k)" "sent k = sent (sp_kernel w) @ [pack seg]"
    using assms(1) by blast
  let ?w1 = "w\<lparr>sp_datagram_adapter := a, sp_kernel := k, sp_tcp := Some (TCPConnection_pop_segment c)\<rparr>"
  have "\<exists>w'. send_segments ad q ?w1 = Inr w' \<and> sent (sp_kernel w') = sent (sp_kernel ?w1) @ map pack q \<and>
      sp_tcp w' = Some ((TCPConnection_pop_segment c)\<lparr>cn_segments_out := []\<rparr>)"
    by (rule Cons.IH) (simp_all add: TCPConnection_pop_segment_def Cons.prems(2))
  then show ?case
    using ak Cons.prems(1) by (auto simp: tcp_update_def tcp_deref_def TCPConnection_pop_segment_def)
qed simp

theorem rule4_sends_all:
  assumes "\<And>seg a k. \<exists>a' k'. ao_write ad seg a k = Inr (a', k') \<and> sent k' = sent k @ [pack seg]"
    and "sp_tcp w = Some c"
  shows "\<exists>w'. rule4_callback ad w = Inr w' \<and> sent (sp_kernel w') = sent (sp_kernel w) @ map pack (cn_segments_out c) \<and>
    sp_tcp w' = Some (c\<lparr>cn_segments_out := []\<rparr>)"
  using send_segments_spec [OF assms refl] assms(2) by (simp add: rule4_callback_def tcp_deref_def)

lemma sponge_update_swap: "w\<lparr>sp_tcp := x, sp_datagram_adapter := a\<rparr> = w\<lparr>sp_datagram_adapter := a, sp_tcp := x\<rparr>"
  by simp

lemma connect_eq:
  fixes w v :: "('a, 'k) sponge" and random cfg
  defines "c \<equiv> TCPConnection_connect (TCPConnection random cfg)"
  assumes "sp_tcp w = None"
  shows "TCPSpongeSocket_connect ad pp random cfg c_ad turns base_time [] w =
      tcp_loop ad (in_states [State_SYN_SENT]) turns base_time (sponge_rules ad pp)
        (w\<lparr>sp_datagram_adapter := ao_set_config ad c_ad (sp_datagram_adapter w), sp_tcp := Some c\<rparr>)"
    and "TCPConnection_state c = TCPState_official State_SYN_SENT" "sp_tcp v = Some c \<Longrightarrow> in_states [State_SYN_SENT] v"
proof -
  show st: "TCPConnection_state c = TCPState_official State_SYN_SENT" unfolding c_def
    by (rule handshake_states(2)) (simp_all add: connect_new(1) new_connection)
  have ins: "in_states [State_SYN_SENT] v" if "sp_tcp v = Some c" for v :: "('a, 'k) sponge"
    using that by (simp add: in_states_def tcp_query_def st TCPState_eq_def)
  then show "sp_tcp v = Some c \<Longrightarrow> in_states [State_SYN_SENT] v" .
  show "TCPSpongeSocket_connect ad pp random cfg c_ad turns base_time [] w =
      tcp_loop ad (in_states [State_SYN_SENT]) turns base_time (sponge_rules ad pp)
        (w\<lparr>sp_datagram_adapter := ao_set_config ad c_ad (sp_datagram_adapter w), sp_tcp := Some c\<rparr>)"
    using assms(2) ins
    by (simp add: TCPSpongeSocket_connect_def initialize_TCP_def Let_def tcp_update_def tcp_deref_def EventLoop_add_rule_def
        sponge_rules_def c_def)
qed



lemma wait_quiet:
  assumes "\<And>r. r \<in> set rules \<Longrightarrow> \<not> defunct r w" "\<And>p. fst (poll p t) = (0, 0)"
  shows "\<exists>ret. EventLoop_wait_next_event poll t rules w = Inr (ret, rules, w)"
proof -
  let ?ps = "map (\<lambda>r. (r, (fd_num (ru_fd r w), if ru_interest r w then direction_events (ru_direction r) else 0))) rules"
  have su: "poll_setup rules w = Inr (?ps, w)" by (rule poll_setup_idle) (use assms(1) in blast)
  have fst: "map fst ?ps = rules" by (induction rules) simp_all
  obtain revents where poll: "poll (map snd ?ps) t = ((0, 0), revents)"
    using assms(2) [of "map snd ?ps"] by (cases "poll (map snd ?ps) t") simp
  show ?thesis
    unfolding EventLoop_wait_next_event_def su bindE_simps prod.case poll Let_def fst
    by (simp add: syscall_def SystemCall_def)
qed

text \<open>
  An aborted socket sends nothing: when the owner sets \<^verbatim>\<open>_abort\<close> (as the destructor does) and the
  thread's next turn brings no event, the thread ends, and between that and the end only the shutdown
  of the stream socket reaches the outside: the connection is destroyed without a reset being sent.
\<close>

theorem abort_sends_nothing:
  assumes "sp_tcp w = Some c" "\<And>r. r \<in> set rules \<Longrightarrow> \<not> defunct r w"
    and "tu_abort t" "\<And>p. fst (tu_poll t p TCP_TICK_MS) = (0, 0)"
    and "pp_shutdown pp SHUT_RDWR (sp_kernel w) = ((0, e), k)"
  shows "\<exists>w'. tcp_main ad pp (t # turns) base_time rules w = Inr (True, rules, w') \<and>
    sp_tcp w' = None \<and> sp_kernel w' = k \<and> sp_datagram_adapter w' = sp_datagram_adapter w"
proof -
  obtain ret where "EventLoop_wait_next_event (tu_poll t) TCP_TICK_MS rules w = Inr (ret, rules, w)"
    using wait_quiet [of rules w "tu_poll t" TCP_TICK_MS] assms(2,4) by blast
  then show ?thesis
    using assms(1,3,5)
    by (simp add: tcp_main_def tcp_value_def Socket_shutdown_def syscall_def SystemCall_def)
qed


section \<open>Witnesses\<close>

text \<open>
  A world with segments to come in, segments sent and data of the application; \<^verbatim>\<open>writev\<close> takes two
  bytes.
\<close>

record demo_world =
  dw_incoming :: "tcp_segment list"
  dw_sent :: "tcp_segment list"
  dw_data :: bytes

definition demo_world :: demo_world where
  "demo_world = \<lparr>dw_incoming = [], dw_sent = [], dw_data = [104, 105]\<rparr>"

definition demo_ops :: "(fd_wrapper, demo_world) adapter_ops" where
  "demo_ops = \<lparr>ao_fd = (\<lambda>a. a),
     ao_read = (\<lambda>a k. Inr (case dw_incoming k of [] \<Rightarrow> None | seg # _ \<Rightarrow> Some seg, register_read a,
       k\<lparr>dw_incoming := tl (dw_incoming k)\<rparr>)),
     ao_write = (\<lambda>seg a k. Inr (register_write a, k\<lparr>dw_sent := dw_sent k @ [seg]\<rparr>)),
     ao_tick = (\<lambda>ms a k. Inr (a, k)), ao_set_config = (\<lambda>cfg a. a), ao_set_listening = (\<lambda>l a. a)\<rparr>"

definition demo_pipe :: "demo_world pipe_ops" where
  "demo_pipe = \<lparr>pp_read = (\<lambda>n k. (((int (length (take n (dw_data k))), 0), take n (dw_data k)), k\<lparr>dw_data := drop n (dw_data k)\<rparr>)),
     pp_writev = (\<lambda>v k. ((int (min 2 (length (concat v))), 0), k)), pp_shutdown = (\<lambda>how k. ((0, 0), k))\<rparr>"

definition demo_sponge :: "tcp_connection \<Rightarrow> (fd_wrapper, demo_world) sponge" where
  "demo_sponge c = \<lparr>sp_owner = demo_fd, sp_thread_data = demo_fd, sp_datagram_adapter = demo_fd, sp_tcp = Some c,
     sp_inbound_shutdown = False, sp_outbound_shutdown = False, sp_fully_acked = False, sp_kernel = demo_world\<rparr>"

abbreviation demo_connection :: tcp_connection where "demo_connection \<equiv> TCPConnection 7 TCPConfig"

lemma demo_sponge_simps:
  "sp_tcp (demo_sponge c) = Some c" "sp_kernel (demo_sponge c) = demo_world" "sp_outbound_shutdown (demo_sponge c) = False"
  "fd_eof (sp_thread_data (demo_sponge c)) = False" "fd_closed (sp_thread_data (demo_sponge c)) = False"
  "TCPConnection_active demo_connection" "TCPConnection_remaining_outbound_capacity demo_connection = 64000"
  by (simp_all add: demo_sponge_def demo_fd_def TCPConnection_active_def TCPConnection_def TCPSender_def ByteStream_def
      TCPConnection_remaining_outbound_capacity_def ByteStream_remaining_capacity_def TCPConfig_def DEFAULT_CAPACITY_def)

lemma demo_not_defunct: "r \<in> set (sponge_rules demo_ops demo_pipe) \<Longrightarrow> \<not> defunct r (demo_sponge c)"
  by (auto simp: sponge_rules_def defunct_def rule1_def rule2_def rule3_def rule4_def demo_sponge_def demo_ops_def demo_fd_def)

theorem rule2_takes_all_witness:
  "\<exists>w'. rule2_callback demo_pipe (demo_sponge demo_connection) = Inr w' \<and>
     sp_tcp w' = Some (snd (TCPConnection_write [104, 105] demo_connection)) \<and>
     fst (TCPConnection_write [104, 105] demo_connection) = 2"
  using rule2_takes_all [of "demo_sponge demo_connection" demo_connection demo_pipe "[104, 105]" 0 "demo_world\<lparr>dw_data := []\<rparr>"]
  by (auto simp: demo_sponge_simps demo_pipe_def demo_world_def BUFFER_SIZE_def)

text \<open>Three bytes in the inbound stream, of which two are taken.\<close>

definition demo_receiving :: tcp_connection where
  "demo_receiving = demo_connection\<lparr>cn_receiver := (cn_receiver demo_connection)\<lparr>rc_reassembler :=
     (rc_reassembler (cn_receiver demo_connection))\<lparr>sr_output := snd (ByteStream_write [1, 2, 3] (ByteStream 10))\<rparr>\<rparr>\<rparr>"

theorem rule3_moves_prefix_witness:
  "\<exists>w' c'. rule3_callback demo_pipe (demo_sponge demo_receiving) = Inr w' \<and> sp_tcp w' = Some c' \<and>
     bs_buf (TCPConnection_inbound_stream c') = [3] \<and> \<not> sp_inbound_shutdown w'"
proof -
  have s: "TCPConnection_inbound_stream demo_receiving = snd (ByteStream_write [1, 2, 3] (ByteStream 10))"
    by (simp add: demo_receiving_def TCPConnection_inbound_stream_def TCPReceiver_stream_out_def)
  have "bs_inv (TCPConnection_inbound_stream demo_receiving)" unfolding s by (intro bs_inv_write bs_inv_new) simp
  then show ?thesis
    using rule3_moves_prefix [of "demo_sponge demo_receiving" demo_receiving demo_pipe 2 0 demo_world]
    by (simp add: demo_sponge_simps s demo_pipe_def ByteStream_write_def ByteStream_def ByteStream_error_def
        ByteStream_input_ended_def demo_sponge_def) blast
qed

theorem rule4_sends_all_witness:
  "\<exists>w'. rule4_callback demo_ops (demo_sponge (TCPConnection_connect demo_connection)) = Inr w' \<and>
     dw_sent (sp_kernel w') = cn_segments_out (TCPConnection_connect demo_connection)"
  using rule4_sends_all [of demo_ops dw_sent "\<lambda>seg. seg" "demo_sponge (TCPConnection_connect demo_connection)"]
  by (auto simp: demo_ops_def demo_sponge_simps demo_world_def)

text \<open>A SYN, then a reset, arriving with data of the application.\<close>

theorem reset_and_data_throw_witness:
  "\<exists>w. EventLoop_wait_next_event (\<lambda>p t. ((2, 0), [POLLIN, POLLIN, 0, 0])) TCP_TICK_MS (sponge_rules demo_ops demo_pipe) w =
     Inl (Runtime_error ''TCPConnection::write() accepted less than advertised length'')"
proof -
  let ?r = "TCPReceiver_segment_received (syn_segment (WrappingInt32 9)) (TCPReceiver 100)"
  let ?c = "demo_connection\<lparr>cn_receiver := ?r\<rparr>"
  have "recv_open (WrappingInt32 9) ?r"
    by (rule recv_syn) (simp_all add: syn_segment_def TCPHeader_def)
  from recv_open_state(1) [OF this] obtain a where a: "TCPReceiver_ackno ?r = Some a" by blast
  let ?seg = "header_segment (TCPHeader\<lparr>th_rst := True, th_seqno := a\<rparr>)"
  let ?w = "(demo_sponge ?c)\<lparr>sp_kernel := demo_world\<lparr>dw_incoming := [?seg]\<rparr>\<rparr>"
  have nd: "\<not> defunct r ?w" if "r \<in> set (sponge_rules demo_ops demo_pipe)" for r
    using that by (auto simp: sponge_rules_def defunct_def rule1_def rule2_def rule3_def rule4_def demo_sponge_def demo_ops_def demo_fd_def)
  have cap: "TCPConnection_remaining_outbound_capacity ?c = 64000" "TCPConnection_active ?c"
    using demo_sponge_simps(6,7) by (simp_all add: TCPConnection_remaining_outbound_capacity_def TCPConnection_active_def)
  show ?thesis
    by (rule exI [of _ ?w], rule reset_and_data_throw
        [where c = ?c and seg = ?seg and bs = "[104, 105]" and e = 0 and a = "register_read demo_fd" and k = demo_world])
      (use nd a cap in \<open>simp_all add: demo_sponge_def demo_pipe_def demo_ops_def demo_world_def BUFFER_SIZE_def
         header_segment_def TCPHeader_def\<close>)
qed


lemma poll_service_skip: "poll_service ((r, (fd, ev)) # ps) (0 # rs) w = bindE (poll_service ps rs w) (\<lambda>(rules, w). Inr (r # rules, w))"
  by (simp add: poll_service.simps)

lemma wait_one:
  assumes "\<And>r. r \<in> set (sponge_rules ad pp) \<Longrightarrow> \<not> defunct r w" "rule2_interest w"
    "rule2_callback pp w = Inr w'" "\<not> rule2_interest w'"
  shows "EventLoop_wait_next_event (\<lambda>p t. ((1, 0), [0, POLLIN, 0, 0])) TCP_TICK_MS (sponge_rules ad pp) w =
    Inr (Result_Success, sponge_rules ad pp, w')"
proof -
  let ?ev = "\<lambda>r. if ru_interest r w then direction_events (ru_direction r) else 0"
  let ?ps = "map (\<lambda>r. (r, (fd_num (ru_fd r w), ?ev r))) (sponge_rules ad pp)"
  have su: "poll_setup (sponge_rules ad pp) w = Inr (?ps, w)"
    by (rule poll_setup_idle) (use assms(1) in blast)
  have ev: "?ev (rule2 pp) = POLLIN" using assms(2) by (simp add: rule2_def)
  have cb: "ru_callback (rule2 pp) w = Inr w'" "\<not> ru_interest (rule2 pp) w'" using assms(3,4) by (simp_all add: rule2_def)
  have ps: "?ps = [(rule1 ad, (fd_num (ru_fd (rule1 ad) w), ?ev (rule1 ad))), (rule2 pp, (fd_num (ru_fd (rule2 pp) w), POLLIN)),
      (rule3 pp, (fd_num (ru_fd (rule3 pp) w), ?ev (rule3 pp))), (rule4 ad, (fd_num (ru_fd (rule4 ad) w), ?ev (rule4 ad)))]"
    unfolding sponge_rules_def list.map ev ..
  have "poll_service ?ps [0, POLLIN, 0, 0] w = Inr (sponge_rules ad pp, w')"
    unfolding ps poll_service_skip poll_service_in(1) [OF cb] by (simp add: poll_service_base sponge_rules_def)
  moreover have "something_to_poll ?ps"
    using ev by (simp add: something_to_poll_def sponge_rules_def POLLIN_def)
  ultimately show ?thesis
    unfolding EventLoop_wait_next_event_def su bindE_simps prod.case Let_def by (simp add: syscall_def SystemCall_def)
qed


theorem abort_sends_nothing_witness:
  "\<exists>w'. tcp_main demo_ops demo_pipe [\<lparr>tu_poll = \<lambda>p t. ((0, 0), []), tu_abort = True, tu_time = 5\<rparr>] 0
       (sponge_rules demo_ops demo_pipe) (demo_sponge demo_connection) = Inr (True, sponge_rules demo_ops demo_pipe, w') \<and>
     dw_sent (sp_kernel w') = []"
proof -
  have "\<exists>w'. tcp_main demo_ops demo_pipe [\<lparr>tu_poll = \<lambda>p t. ((0, 0), []), tu_abort = True, tu_time = 5\<rparr>] 0
       (sponge_rules demo_ops demo_pipe) (demo_sponge demo_connection) = Inr (True, sponge_rules demo_ops demo_pipe, w') \<and>
     sp_tcp w' = None \<and> sp_kernel w' = demo_world \<and> sp_datagram_adapter w' = sp_datagram_adapter (demo_sponge demo_connection)"
    by (rule abort_sends_nothing) (use demo_not_defunct in \<open>simp_all add: demo_sponge_simps demo_pipe_def\<close>)
  then show ?thesis by (auto simp: demo_world_def)
qed

end
