(* ===== verification/Stream_Copy.thy ===== *)
theory Stream_Copy
  imports Sponge_Thread
begin

text \<open>
  \<^verbatim>\<open>bidirectional_stream_copy\<close> (\<^verbatim>\<open>apps/bidirectional_stream_copy.cc\<close>): an event loop with four rules that
  copies standard input to a socket and the socket to standard output, through two byte streams.
  The system calls work on a state \<open>'k\<close> of the outside; the answers of \<^verbatim>\<open>poll\<close> are a list.
\<close>

section \<open>State\<close>

record 'k copy_ops =
  co_socket :: "'k pipe_ops"
  co_input :: "nat \<Rightarrow> 'k \<Rightarrow> (sysret \<times> bytes) \<times> 'k"
  co_output :: "bytes list \<Rightarrow> 'k \<Rightarrow> sysret \<times> 'k"
  co_close :: "'k \<Rightarrow> sysret \<times> 'k"

record 'k copy =
  cp_socket :: fd_wrapper
  cp_input :: fd_wrapper
  cp_output :: fd_wrapper
  cp_outbound :: byte_stream
  cp_inbound :: byte_stream
  cp_outbound_shutdown :: bool
  cp_inbound_shutdown :: bool
  cp_kernel :: 'k

definition max_copy_length :: nat where "max_copy_length = 65536"
definition copy_buffer_size :: nat where "copy_buffer_size = 1048576"

section \<open>The four rules\<close>

text \<open>Reading from a descriptor into a stream, and writing what the stream has into a descriptor.\<close>

definition copy_in :: "(nat \<Rightarrow> 'k \<Rightarrow> (sysret \<times> bytes) \<times> 'k) \<Rightarrow> fd_wrapper \<Rightarrow> byte_stream \<Rightarrow> 'k \<Rightarrow>
    exn + fd_wrapper \<times> byte_stream \<times> 'k" where
  "copy_in read fd s k =
     (let limit = ByteStream_remaining_capacity s in
      bindE (FileDescriptor_read (\<lambda>n. fst (read n k)) limit fd) (\<lambda>(data, fd).
        let s = snd (ByteStream_write data s)
        in Inr (fd, if fd_eof fd then ByteStream_end_input s else s, snd (read (min BUFFER_SIZE limit) k))))"

definition copy_out :: "(bytes list \<Rightarrow> 'k \<Rightarrow> sysret \<times> 'k) \<Rightarrow> fd_wrapper \<Rightarrow> byte_stream \<Rightarrow> 'k \<Rightarrow>
    exn + fd_wrapper \<times> byte_stream \<times> 'k" where
  "copy_out writev fd s k =
     (let bytes_to_write = min max_copy_length (ByteStream_buffer_size s);
          buffer = BufferViewList_of_view (ByteStream_peek_output bytes_to_write s)
      in bindE (FileDescriptor_write (\<lambda>_ v. fst (writev v k)) buffer False fd) (\<lambda>(bytes_written, _, fd).
           Inr (fd, ByteStream_pop_output bytes_written s, snd (writev (BufferViewList_as_iovecs buffer) k))))"

definition copy1 :: "'k copy_ops \<Rightarrow> 'k copy \<Rightarrow> exn + 'k copy" where
  "copy1 ops w =
     bindE (copy_in (co_input ops) (cp_input w) (cp_outbound w) (cp_kernel w)) (\<lambda>(fd, s, k).
       Inr (w\<lparr>cp_input := fd, cp_outbound := s, cp_kernel := k\<rparr>))"

definition copy2 :: "'k copy_ops \<Rightarrow> 'k copy \<Rightarrow> exn + 'k copy" where
  "copy2 ops w =
     bindE (copy_out (pp_writev (co_socket ops)) (cp_socket w) (cp_outbound w) (cp_kernel w)) (\<lambda>(fd, s, k).
       let w = w\<lparr>cp_socket := fd, cp_outbound := s, cp_kernel := k\<rparr> in
       if ByteStream_eof s
       then let (ret, k) = pp_shutdown (co_socket ops) SHUT_WR (cp_kernel w) in
         bindE (Socket_shutdown (\<lambda>_. ret) SHUT_WR (cp_socket w)) (\<lambda>fd.
           Inr (w\<lparr>cp_socket := fd, cp_kernel := k, cp_outbound_shutdown := True\<rparr>))
       else Inr w)"

definition copy3 :: "'k copy_ops \<Rightarrow> 'k copy \<Rightarrow> exn + 'k copy" where
  "copy3 ops w =
     bindE (copy_in (pp_read (co_socket ops)) (cp_socket w) (cp_inbound w) (cp_kernel w)) (\<lambda>(fd, s, k).
       Inr (w\<lparr>cp_socket := fd, cp_inbound := s, cp_kernel := k\<rparr>))"

definition copy4 :: "'k copy_ops \<Rightarrow> 'k copy \<Rightarrow> exn + 'k copy" where
  "copy4 ops w =
     bindE (copy_out (co_output ops) (cp_output w) (cp_inbound w) (cp_kernel w)) (\<lambda>(fd, s, k).
       let w = w\<lparr>cp_output := fd, cp_inbound := s, cp_kernel := k\<rparr> in
       if ByteStream_eof s
       then let (ret, k) = co_close ops (cp_kernel w) in
         bindE (FDWrapper_close ret (cp_output w)) (\<lambda>fd.
           Inr (w\<lparr>cp_output := fd, cp_kernel := k, cp_inbound_shutdown := True\<rparr>))
       else Inr w)"

definition end_out :: "'k copy \<Rightarrow> exn + 'k copy" where
  "end_out w = Inr (w\<lparr>cp_outbound := ByteStream_end_input (cp_outbound w)\<rparr>)"

definition end_in :: "'k copy \<Rightarrow> exn + 'k copy" where
  "end_in w = Inr (w\<lparr>cp_inbound := ByteStream_end_input (cp_inbound w)\<rparr>)"

definition wants_input :: "byte_stream \<Rightarrow> byte_stream \<Rightarrow> bool" where
  "wants_input s other \<longleftrightarrow> \<not> ByteStream_error s \<and> ByteStream_remaining_capacity s > 0 \<and> \<not> ByteStream_error other"

definition has_output :: "byte_stream \<Rightarrow> bool \<Rightarrow> bool" where
  "has_output s shut \<longleftrightarrow> \<not> ByteStream_buffer_empty s \<or> (ByteStream_eof s \<and> \<not> shut)"

definition copy_rules :: "'k copy_ops \<Rightarrow> 'k copy rule list" where
  "copy_rules ops =
     [\<lparr>ru_fd = cp_input, ru_direction = In, ru_callback = copy1 ops,
       ru_interest = (\<lambda>w. wants_input (cp_outbound w) (cp_inbound w)), ru_cancel = end_out\<rparr>,
      \<lparr>ru_fd = cp_socket, ru_direction = Out, ru_callback = copy2 ops,
       ru_interest = (\<lambda>w. has_output (cp_outbound w) (cp_outbound_shutdown w)), ru_cancel = end_out\<rparr>,
      \<lparr>ru_fd = cp_socket, ru_direction = In, ru_callback = copy3 ops,
       ru_interest = (\<lambda>w. wants_input (cp_inbound w) (cp_outbound w)), ru_cancel = end_in\<rparr>,
      \<lparr>ru_fd = cp_output, ru_direction = Out, ru_callback = copy4 ops,
       ru_interest = (\<lambda>w. has_output (cp_inbound w) (cp_inbound_shutdown w)), ru_cancel = end_in\<rparr>]"

text \<open>The flag of the result tells whether \<^verbatim>\<open>Exit\<close> was seen; without answers left the loop is still running.\<close>

fun copy_loop :: "(pollfd list \<Rightarrow> int \<Rightarrow> sysret \<times> u16 list) list \<Rightarrow> 'k copy rule list \<Rightarrow> 'k copy \<Rightarrow>
    exn + bool \<times> 'k copy rule list \<times> 'k copy" where
  "copy_loop [] rules w = Inr (False, rules, w)"
| "copy_loop (poll # polls) rules w =
     bindE (EventLoop_wait_next_event poll (-1) rules w) (\<lambda>(ret, rules, w).
       if ret = Result_Exit then Inr (True, rules, w) else copy_loop polls rules w)"

text \<open>\<open>fl\<close> gives, for the socket, the input and the output, the two answers of \<^verbatim>\<open>fcntl(2)\<close>.\<close>

definition bidirectional_stream_copy :: "'k copy_ops \<Rightarrow> (nat \<Rightarrow> sysret \<times> (u32 \<Rightarrow> sysret)) \<Rightarrow>
    (pollfd list \<Rightarrow> int \<Rightarrow> sysret \<times> u16 list) list \<Rightarrow> fd_wrapper \<Rightarrow> 'k \<Rightarrow> exn + bool \<times> 'k copy rule list \<times> 'k copy" where
  "bidirectional_stream_copy ops fl polls socket k =
     bindE (FDWrapper 0) (\<lambda>input.
     bindE (FDWrapper 1) (\<lambda>output.
     bindE (FileDescriptor_set_blocking (fst (fl 0)) (snd (fl 0)) False) (\<lambda>_.
     bindE (FileDescriptor_set_blocking (fst (fl 1)) (snd (fl 1)) False) (\<lambda>_.
     bindE (FileDescriptor_set_blocking (fst (fl 2)) (snd (fl 2)) False) (\<lambda>_.
       copy_loop polls (foldl (\<lambda>rules r. EventLoop_add_rule r rules) [] (copy_rules ops))
         \<lparr>cp_socket = socket, cp_input = input, cp_output = output,
          cp_outbound = ByteStream copy_buffer_size, cp_inbound = ByteStream copy_buffer_size,
          cp_outbound_shutdown = False, cp_inbound_shutdown = False, cp_kernel = k\<rparr>)))))"

section \<open>Nothing is lost\<close>

text \<open>
  What the outside has seen: the bytes it has delivered from standard input and from the socket, and
  those it has taken for the socket and for standard output. A kernel keeps this record truly when a
  successful call adds just its bytes to it.
\<close>

record history =
  hi_input :: bytes
  hi_sent :: bytes
  hi_received :: bytes
  hi_output :: bytes

definition true_read :: "('k \<Rightarrow> history) \<Rightarrow> (bytes \<Rightarrow> history \<Rightarrow> history) \<Rightarrow> (nat \<Rightarrow> 'k \<Rightarrow> (sysret \<times> bytes) \<times> 'k) \<Rightarrow> bool" where
  "true_read hist add read \<longleftrightarrow> (\<forall>n k r e d k'. read n k = (((r, e), d), k') \<and> 0 \<le> r \<and> r \<le> int n \<longrightarrow>
     length d = nat r \<and> hist k' = add d (hist k))"

definition true_write :: "('k \<Rightarrow> history) \<Rightarrow> (bytes \<Rightarrow> history \<Rightarrow> history) \<Rightarrow> (bytes list \<Rightarrow> 'k \<Rightarrow> sysret \<times> 'k) \<Rightarrow> bool" where
  "true_write hist add writev \<longleftrightarrow> (\<forall>v k r e k'. writev v k = ((r, e), k') \<and> 0 \<le> r \<and> r \<le> int (length (concat v)) \<longrightarrow>
     hist k' = add (take (nat r) (concat v)) (hist k))"

definition true_kernel :: "('k \<Rightarrow> history) \<Rightarrow> 'k copy_ops \<Rightarrow> bool" where
  "true_kernel hist ops \<longleftrightarrow>
     true_read hist (\<lambda>d h. h\<lparr>hi_input := hi_input h @ d\<rparr>) (co_input ops) \<and>
     true_read hist (\<lambda>d h. h\<lparr>hi_received := hi_received h @ d\<rparr>) (pp_read (co_socket ops)) \<and>
     true_write hist (\<lambda>d h. h\<lparr>hi_sent := hi_sent h @ d\<rparr>) (pp_writev (co_socket ops)) \<and>
     true_write hist (\<lambda>d h. h\<lparr>hi_output := hi_output h @ d\<rparr>) (co_output ops) \<and>
     (\<forall>how k. hist (snd (pp_shutdown (co_socket ops) how k)) = hist k) \<and>
     (\<forall>k. hist (snd (co_close ops k)) = hist k)"

definition copy_inv :: "('k \<Rightarrow> history) \<Rightarrow> 'k copy \<Rightarrow> bool" where
  "copy_inv hist w \<longleftrightarrow>
     bs_inv (cp_outbound w) \<and> bs_cap (cp_outbound w) = copy_buffer_size \<and>
     bs_inv (cp_inbound w) \<and> bs_cap (cp_inbound w) = copy_buffer_size \<and>
     hi_input (hist (cp_kernel w)) = hi_sent (hist (cp_kernel w)) @ bs_buf (cp_outbound w) \<and>
     hi_received (hist (cp_kernel w)) = hi_output (hist (cp_kernel w)) @ bs_buf (cp_inbound w) \<and>
     (cp_outbound_shutdown w \<longrightarrow> bs_eof2 (cp_outbound w)) \<and> (cp_inbound_shutdown w \<longrightarrow> bs_eof2 (cp_inbound w))"

lemma FileDescriptor_read_Inr:
  assumes "FileDescriptor_read (\<lambda>n. fst (read n k)) limit fd = Inr (data, fd')" "true_read hist add read"
  shows "length data \<le> limit \<and> hist (snd (read (min BUFFER_SIZE limit) k)) = add data (hist k)"
proof -
  obtain r e d k' where rd: "read (min BUFFER_SIZE limit) k = (((r, e), d), k')" by (metis surj_pair)
  have ok: "0 \<le> r" "r \<le> int (min BUFFER_SIZE limit)" "data = resize (nat r) d"
    using assms(1) by (auto simp: FileDescriptor_read_def rd syscall_def SystemCall_def Let_def split: if_splits)
  then have "length d = nat r" "hist k' = add d (hist k)"
    using assms(2) rd unfolding true_read_def by blast+
  then show ?thesis using ok rd by (simp add: resize_def)
qed

lemma copy_in_spec:
  assumes "copy_in read fd s k = Inr (fd', s', k')" "true_read hist add read" "bs_inv s"
  shows "bs_inv s' \<and> bs_cap s' = bs_cap s \<and> (bs_eof2 s \<longrightarrow> bs_eof2 s') \<and>
    (\<exists>d. bs_buf s' = bs_buf s @ d \<and> hist k' = add d (hist k))"
proof -
  obtain data where rd: "FileDescriptor_read (\<lambda>n. fst (read n k)) (ByteStream_remaining_capacity s) fd = Inr (data, fd')"
    and s': "s' = (if fd_eof fd' then ByteStream_end_input (snd (ByteStream_write data s)) else snd (ByteStream_write data s))"
    and k': "k' = snd (read (min BUFFER_SIZE (ByteStream_remaining_capacity s)) k)"
    using assms(1) by (auto simp: copy_in_def bindE_eq_Inr_iff Let_def)
  have d: "length data \<le> bs_rem s" "hist k' = add data (hist k)"
    using FileDescriptor_read_Inr [OF rd assms(2)] k' by (simp_all add: ByteStream_remaining_capacity_def)
  from bs.write_fits [OF assms(3) d(1)] d(2) show ?thesis
    using bs_inv_write [OF assms(3), of data] by (auto simp: s')
qed

lemma FileDescriptor_write_Inr:
  assumes "FileDescriptor_write (\<lambda>_ v. fst (writev v k)) buffer False fd = Inr (n, out, fd')" "true_write hist add writev"
  shows "n \<le> BufferViewList_size buffer \<and>
    hist (snd (writev (BufferViewList_as_iovecs buffer) k)) = add (take n (views_content buffer)) (hist k)"
proof -
  obtain r e k' where wr: "writev (BufferViewList_as_iovecs buffer) k = ((r, e), k')" by (metis surj_pair)
  have ok: "0 \<le> r" "r \<le> int (BufferViewList_size buffer)" "n = nat r"
    using assms(1) unfolding FileDescriptor_write_def write_loop.simps [of "\<lambda>_ v. fst (writev v k)" False 0 buffer 0 "[]" fd]
    by (auto simp: wr syscall_def SystemCall_def bindE_eq_Inr_iff split: if_splits)
  then have "hist k' = add (take n (concat (BufferViewList_as_iovecs buffer))) (hist k)"
    using assms(2) [unfolded true_write_def, rule_format, of "BufferViewList_as_iovecs buffer" k r e k'] wr
    by (simp add: as_iovecs_content BufferViewList_size_content)
  then show ?thesis using ok wr by (simp add: as_iovecs_content nat_le_iff)
qed

lemma copy_out_spec:
  assumes "copy_out writev fd s k = Inr (fd', s', k')" "true_write hist add writev" "bs_inv s"
  shows "bs_inv s' \<and> bs_cap s' = bs_cap s \<and> bs_eof2 s' = bs_eof2 s \<and>
    (\<exists>d. bs_buf s = d @ bs_buf s' \<and> hist k' = add d (hist k))"
proof -
  let ?data = "ByteStream_peek_output (min max_copy_length (ByteStream_buffer_size s)) s"
  let ?buffer = "BufferViewList_of_view ?data"
  obtain n out where wr: "FileDescriptor_write (\<lambda>_ v. fst (writev v k)) ?buffer False fd = Inr (n, out, fd')"
    and s': "s' = ByteStream_pop_output n s" and k': "k' = snd (writev (BufferViewList_as_iovecs ?buffer) k)"
    using assms(1) by (auto simp: copy_out_def bindE_eq_Inr_iff Let_def)
  have data: "?data = take (min max_copy_length (length (bs_buf s))) (bs_buf s)"
    using assms(3) by (simp add: ByteStream_peek_output_def buffer_size_length)
  have content: "views_content ?buffer = ?data" by simp
  have n: "n \<le> length ?data" "hist k' = add (take n ?data) (hist k)"
    using FileDescriptor_write_Inr [OF wr assms(2)] k' content by (simp_all add: BufferViewList_size_content)
  then have len: "n \<le> length (bs_buf s)" and tk: "take n ?data = take n (bs_buf s)" unfolding data by simp_all
  have "bs_buf s = take n (bs_buf s) @ bs_buf s'" using assms(3) len by (simp add: s' bs.content_pop)
  then show ?thesis using n(2) bs_inv_pop [OF assms(3) len] unfolding tk by (auto simp: s')
qed

lemma copy_rules_cases:
  assumes "r \<in> set (copy_rules ops)"
  obtains "ru_callback r = copy1 ops" "ru_cancel r = end_out" | "ru_callback r = copy2 ops" "ru_cancel r = end_out"
    | "ru_callback r = copy3 ops" "ru_cancel r = end_in" | "ru_callback r = copy4 ops" "ru_cancel r = end_in"
  using assms by (auto simp: copy_rules_def)

lemma copy1_inv: "true_kernel hist ops \<Longrightarrow> copy_inv hist w \<Longrightarrow> copy1 ops w = Inr w' \<Longrightarrow> copy_inv hist w'"
  unfolding copy1_def true_kernel_def
  by (auto simp: bindE_eq_Inr_iff copy_inv_def dest!: copy_in_spec)

lemma copy3_inv: "true_kernel hist ops \<Longrightarrow> copy_inv hist w \<Longrightarrow> copy3 ops w = Inr w' \<Longrightarrow> copy_inv hist w'"
  unfolding copy3_def true_kernel_def
  by (auto simp: bindE_eq_Inr_iff copy_inv_def dest!: copy_in_spec)

lemma copy2_inv:
  assumes "true_kernel hist ops" "copy_inv hist w" "copy2 ops w = Inr w'"
  shows "copy_inv hist w'"
proof -
  obtain fd s k where o: "copy_out (pp_writev (co_socket ops)) (cp_socket w) (cp_outbound w) (cp_kernel w) = Inr (fd, s, k)"
    using assms(3) by (auto simp: copy2_def bindE_eq_Inr_iff)
  have eof: "ByteStream_eof s \<Longrightarrow> bs_eof2 s" by (simp add: ByteStream_eof_def)
  have shut: "hist (snd (pp_shutdown (co_socket ops) how k)) = hist k" for how k
    using assms(1) by (simp add: true_kernel_def)
  have "true_write hist (\<lambda>d h. h\<lparr>hi_sent := hi_sent h @ d\<rparr>) (pp_writev (co_socket ops))" "bs_inv (cp_outbound w)"
    using assms(1,2) by (simp_all add: true_kernel_def copy_inv_def)
  from copy_out_spec [OF o this]
  have "copy_inv hist (w\<lparr>cp_socket := fd, cp_outbound := s, cp_kernel := k\<rparr>)"
    using assms(2) by (auto simp: copy_inv_def)
  then show ?thesis
    using assms(3) eof shut [of SHUT_WR k]
    by (cases "pp_shutdown (co_socket ops) SHUT_WR k")
      (auto simp: copy2_def o Let_def copy_inv_def bindE_eq_Inr_iff split: if_splits)
qed

lemma copy4_inv:
  assumes "true_kernel hist ops" "copy_inv hist w" "copy4 ops w = Inr w'"
  shows "copy_inv hist w'"
proof -
  obtain fd s k where o: "copy_out (co_output ops) (cp_output w) (cp_inbound w) (cp_kernel w) = Inr (fd, s, k)"
    using assms(3) by (auto simp: copy4_def bindE_eq_Inr_iff)
  have eof: "ByteStream_eof s \<Longrightarrow> bs_eof2 s" by (simp add: ByteStream_eof_def)
  have close: "hist (snd (co_close ops k)) = hist k" for k
    using assms(1) by (simp add: true_kernel_def)
  have "true_write hist (\<lambda>d h. h\<lparr>hi_output := hi_output h @ d\<rparr>) (co_output ops)" "bs_inv (cp_inbound w)"
    using assms(1,2) by (simp_all add: true_kernel_def copy_inv_def)
  from copy_out_spec [OF o this]
  have "copy_inv hist (w\<lparr>cp_output := fd, cp_inbound := s, cp_kernel := k\<rparr>)"
    using assms(2) by (auto simp: copy_inv_def)
  then show ?thesis
    using assms(3) eof close [of k]
    by (cases "co_close ops k")
      (auto simp: copy4_def o Let_def copy_inv_def bindE_eq_Inr_iff split: if_splits)
qed

text \<open>The event loop's contract, for the rules of this client over a true kernel.\<close>

interpretation copy: loop_client "\<lambda>w. true_kernel hist ops \<and> copy_inv hist w" "copy_rules ops"
  for hist :: "'k \<Rightarrow> history" and ops
proof
  fix r :: "'k copy rule" and w w' :: "'k copy"
  assume r: "r \<in> set (copy_rules ops)" and w: "true_kernel hist ops \<and> copy_inv hist w"
  show "true_kernel hist ops \<and> copy_inv hist w'" if "ru_callback r w = Inr w'"
    using that w by (cases rule: copy_rules_cases [OF r]) (auto intro: copy1_inv copy2_inv copy3_inv copy4_inv)
  show "true_kernel hist ops \<and> copy_inv hist w'" if "ru_cancel r w = Inr w'"
    using that w by (cases rule: copy_rules_cases [OF r]) (auto simp: end_out_def end_in_def copy_inv_def)
qed

lemma copy_loop_keeps:
  "copy_loop polls rules w = Inr (finished, rules', w') \<Longrightarrow> set rules \<subseteq> set (copy_rules ops) \<Longrightarrow>
     true_kernel hist ops \<Longrightarrow> copy_inv hist w \<Longrightarrow> copy_inv hist w'"
proof (induction polls arbitrary: rules w)
  case (Cons poll polls)
  then obtain ret rules1 w1 where wt: "EventLoop_wait_next_event poll (-1) rules w = Inr (ret, rules1, w1)"
    and rest: "w' = w1 \<or> copy_loop polls rules1 w1 = Inr (finished, rules', w')"
    by (auto simp: bindE_eq_Inr_iff split: if_splits)
  from copy.wait_keeps [OF wt Cons.prems(2)] Cons.prems(3,4)
  have "copy_inv hist w1" "set rules1 \<subseteq> set (copy_rules ops)" by auto
  with rest Cons.IH Cons.prems(3) show ?case by blast
qed simp

text \<open>
  C13: \<^verbatim>\<open>bidirectional_stream_copy\<close> copies faithfully in both directions: over a kernel whose successful
  calls move just the bytes they say, whatever \<^verbatim>\<open>poll\<close> answers and however the reads and writes are
  cut up, at every moment what has been written to the socket is a prefix of what has been read
  from standard input, the rest being in the outbound buffer, at most 1 MiB; the same holds from the
  socket to standard output; and a side is shut down only after its source has ended.
\<close>

theorem bidirectional_stream_copy_faithful:
  assumes "true_kernel hist ops" "hist k = \<lparr>hi_input = [], hi_sent = [], hi_received = [], hi_output = []\<rparr>"
    and "bidirectional_stream_copy ops fl polls socket k = Inr (finished, rules, w)"
  shows "hi_input (hist (cp_kernel w)) = hi_sent (hist (cp_kernel w)) @ bs_buf (cp_outbound w) \<and>
    hi_received (hist (cp_kernel w)) = hi_output (hist (cp_kernel w)) @ bs_buf (cp_inbound w) \<and>
    length (bs_buf (cp_outbound w)) \<le> 1048576 \<and> length (bs_buf (cp_inbound w)) \<le> 1048576 \<and>
    (cp_outbound_shutdown w \<longrightarrow> ByteStream_input_ended (cp_outbound w)) \<and>
    (cp_inbound_shutdown w \<longrightarrow> ByteStream_input_ended (cp_inbound w))"
proof -
  have add: "foldl (\<lambda>rules r. EventLoop_add_rule r rules) [] (copy_rules ops) = copy_rules ops"
    by (simp add: EventLoop_add_rule_def copy_rules_def)
  obtain inp outp where run: "copy_loop polls (copy_rules ops)
      \<lparr>cp_socket = socket, cp_input = inp, cp_output = outp, cp_outbound = ByteStream copy_buffer_size,
       cp_inbound = ByteStream copy_buffer_size, cp_outbound_shutdown = False, cp_inbound_shutdown = False, cp_kernel = k\<rparr> =
      Inr (finished, rules, w)"
    using assms(3) unfolding bidirectional_stream_copy_def add bindE_eq_Inr_iff by blast
  have "bs_inv (ByteStream copy_buffer_size)" by (rule bs_inv_new) (simp add: copy_buffer_size_def)
  then have "copy_inv hist w"
    by (intro copy_loop_keeps [OF run subset_refl assms(1)]) (simp add: copy_inv_def assms(2) ByteStream_def)
  then show ?thesis by (auto simp: copy_inv_def bs_inv_def copy_buffer_size_def ByteStream_input_ended_def)
qed

section \<open>A kernel\<close>

text \<open>Standard input and the socket each deliver what is left of some bytes; every write takes at most two bytes.\<close>

record demo_io =
  dio_input :: bytes
  dio_socket :: bytes
  dio_history :: history

definition demo_copy :: "demo_io copy_ops" where
  "demo_copy =
     \<lparr>co_socket = \<lparr>
        pp_read = (\<lambda>n k. let d = take n (dio_socket k) in (((int (length d), 0), d),
          k\<lparr>dio_socket := drop n (dio_socket k), dio_history := (dio_history k)\<lparr>hi_received := hi_received (dio_history k) @ d\<rparr>\<rparr>)),
        pp_writev = (\<lambda>v k. ((int (min 2 (length (concat v))), 0),
          k\<lparr>dio_history := (dio_history k)\<lparr>hi_sent := hi_sent (dio_history k) @ take 2 (concat v)\<rparr>\<rparr>)),
        pp_shutdown = (\<lambda>how k. ((0, 0), k))\<rparr>,
      co_input = (\<lambda>n k. let d = take n (dio_input k) in (((int (length d), 0), d),
        k\<lparr>dio_input := drop n (dio_input k), dio_history := (dio_history k)\<lparr>hi_input := hi_input (dio_history k) @ d\<rparr>\<rparr>)),
      co_output = (\<lambda>v k. ((int (min 2 (length (concat v))), 0),
        k\<lparr>dio_history := (dio_history k)\<lparr>hi_output := hi_output (dio_history k) @ take 2 (concat v)\<rparr>\<rparr>)),
      co_close = (\<lambda>k. ((0, 0), k))\<rparr>"

lemma demo_copy_true: "true_kernel dio_history demo_copy"
  unfolding true_kernel_def true_read_def true_write_def demo_copy_def
  by (auto simp: Let_def min_def)

lemma view_iovecs: "BufferViewList_as_iovecs (BufferViewList_of_view d) = [d]"
  by (simp add: BufferViewList_as_iovecs_def BufferViewList_of_view_def)

lemma write_two:
  "FileDescriptor_write (\<lambda>_ v. (int (min 2 (length (concat v))), 0)) (BufferViewList_of_view [a, b, c]) False fd =
     Inr (2, [a, b], register_write fd)"
proof -
  obtain rest where "BufferViewList_remove_prefix 2 (BufferViewList_of_view [a, b, c]) = Inr rest"
    using buffer_views.discard_ok [of 2 "BufferViewList_of_view [a, b, c]"] by auto
  then show ?thesis
    by (simp add: FileDescriptor_write_def write_loop.simps view_iovecs syscall_def SystemCall_def BufferViewList_size_content)
qed

text \<open>Three bytes are read, two of them are written; then a signal arrives.\<close>

theorem bidirectional_stream_copy_faithful_witness:
  "\<exists>rules w. bidirectional_stream_copy demo_copy (\<lambda>_. ((0, 0), \<lambda>_. (0, 0)))
      [\<lambda>p t. ((1, 0), [POLLIN, 0, 0, 0]), \<lambda>p t. ((1, 0), [0, POLLOUT, 0, 0]), \<lambda>p t. ((-1, EINTR), [])] demo_fd
      \<lparr>dio_input = [1, 2, 3], dio_socket = [], dio_history = \<lparr>hi_input = [], hi_sent = [], hi_received = [], hi_output = []\<rparr>\<rparr> =
      Inr (True, rules, w) \<and>
    hi_input (dio_history (cp_kernel w)) = hi_sent (dio_history (cp_kernel w)) @ bs_buf (cp_outbound w)"
proof -
  let ?fl = "\<lambda>_ :: nat. ((0 :: int, 0 :: int), \<lambda>_ :: u32. (0 :: int, 0 :: int))"
  let ?k = "\<lparr>dio_input = [1, 2, 3], dio_socket = [], dio_history = \<lparr>hi_input = [], hi_sent = [], hi_received = [], hi_output = []\<rparr>\<rparr>"
  let ?polls = "[\<lambda>p t. ((1, 0), [POLLIN, 0, 0, 0]), \<lambda>p t. ((1, 0), [0, POLLOUT, 0, 0]), \<lambda>p t. ((-1, EINTR), [])]
    :: (pollfd list \<Rightarrow> int \<Rightarrow> sysret \<times> u16 list) list"
  obtain rules w where run: "bidirectional_stream_copy demo_copy ?fl ?polls demo_fd ?k = Inr (True, rules, w)"
    by (simp add: bidirectional_stream_copy_def FDWrapper_def FileDescriptor_set_blocking_def syscall_def SystemCall_def
        EventLoop_wait_next_event_def EventLoop_add_rule_def copy_rules_def defunct_def demo_fd_def something_to_poll_def
        wants_input_def has_output_def ByteStream_def ByteStream_defs POLLIN_def POLLOUT_def POLLERR_def POLLNVAL_def POLLHUP_def
        poll_service.simps service_count_def copy1_def copy2_def copy_in_def copy_out_def demo_copy_def copy_buffer_size_def
        FileDescriptor_read_def BUFFER_SIZE_def register_read_def inc32_def no_wrap Let_def EINTR_def resize_def
        max_copy_length_def view_iovecs write_two register_write_def)
  from bidirectional_stream_copy_faithful [OF demo_copy_true _ run] run show ?thesis by auto
qed

end
