(* ===== verification/Simulator.thy ===== *)
theory Simulator
  imports Router Adapters "HOL-Library.Multiset"
begin

text \<open>
  The network simulator (\<^verbatim>\<open>apps/network_simulator.cc\<close>): hosts on links with a router between them, the
  exchange of frames on the links, and the check that every host got just the datagrams it expects.
  The random generator is the sequence of the numbers it will draw; \<^verbatim>\<open>getaddrinfo\<close> and \<^verbatim>\<open>inet_ntoa\<close> are
  parameters. The lines printed to \<^verbatim>\<open>cerr\<close> and \<^verbatim>\<open>cout\<close> are left out, but for the call of \<^verbatim>\<open>summary\<close> in them.
\<close>

section \<open>Random addresses\<close>

type_synonym rand = "nat \<Rightarrow> u32"

definition discard_rand :: "nat \<Rightarrow> rand \<Rightarrow> rand" where
  "discard_rand n rd = (\<lambda>i. rd (n + i))"

definition random_host_ethernet_address :: "rand \<Rightarrow> ethernet_address \<times> rand" where
  "random_host_ethernet_address rd =
     (let addr = map (\<lambda>i. ucast (rd i) :: byte) [0..<6];
          addr = addr[0 := or (addr ! 0) 0x02];
          addr = addr[0 := and (addr ! 0) 0xfe]
      in (addr, discard_rand 6 rd))"

definition random_router_ethernet_address :: "rand \<Rightarrow> ethernet_address \<times> rand" where
  "random_router_ethernet_address rd =
     (let addr = map (\<lambda>i. ucast (rd i) :: byte) [0..<6];
          addr = addr[0 := 0x02];
          addr = addr[1 := 0];
          addr = addr[2 := 0]
      in (addr, discard_rand 6 rd))"

definition ip :: "resolver \<Rightarrow> string \<Rightarrow> exn + u32" where
  "ip getaddrinfo str = bindE (Address_of_ip getaddrinfo str 0) Address_ipv4_numeric"

section \<open>Queues and text\<close>

text \<open>Popping an empty queue is undefined.\<close>

fun clear :: "'a list \<Rightarrow> 'b list \<Rightarrow> exn + 'a list \<times> 'b list" where
  "clear [] queue2 = Inr ([], queue2)"
| "clear (x # queue1) [] = Inl (Undefined_behaviour ''pop of an empty queue'')"
| "clear (x # queue1) (y # queue2) = clear queue1 queue2"

definition text_of :: "bytes \<Rightarrow> string" where
  "text_of s = map (\<lambda>b. char_of (unat b)) s"

definition bytes_of :: "string \<Rightarrow> bytes" where
  "bytes_of s = map (\<lambda>c. word_of_nat (of_char c)) s"

definition summary :: "(u32 \<Rightarrow> string) \<Rightarrow> ethernet_frame \<Rightarrow> exn + string" where
  "summary inet_ntoa frame =
     (let ret = EthernetHeader_to_string (ef_header frame) in
      if eth_type (ef_header frame) = TYPE_IPv4 then
        bindE (BufferList_to_buffer (ef_payload frame)) (\<lambda>b.
          let (r, dgram) = IPv4Datagram_parse b IPv4Datagram
          in if r = NoError
             then Inr (ret @ '' '' @ IPv4Header_summary inet_ntoa (dg_header dgram) @ '' payload=\"'' @
                  text_of (BufferList_concatenate (dg_payload dgram)) @ ''\"'')
             else Inr (ret @ '' (bad IPv4)''))
      else if eth_type (ef_header frame) = TYPE_ARP then
        bindE (BufferList_to_buffer (ef_payload frame)) (\<lambda>b.
          let (r, arp) = ARPMessage_parse b ARPMessage
          in if r = NoError then Inr (ret @ '' '' @ ARPMessage_to_string inet_ntoa arp)
             else Inr (ret @ '' (bad ARP)''))
      else Inr ret)"

section \<open>Hosts\<close>

record host =
  ho_name :: string
  ho_my_address :: address
  ho_interface :: async_network_interface
  ho_next_hop :: address
  ho_expecting_to_receive :: "ipv4_datagram list"

definition Host :: "string \<Rightarrow> address \<Rightarrow> address \<Rightarrow> rand \<Rightarrow> host \<times> rand" where
  "Host name my_address next_hop rd =
     (let (eth, rd) = random_host_ethernet_address rd
      in (\<lparr>ho_name = name, ho_my_address = my_address,
           ho_interface = AsyncNetworkInterface (NetworkInterface eth my_address),
           ho_next_hop = next_hop, ho_expecting_to_receive = []\<rparr>, rd))"

definition serialized :: "ipv4_datagram \<Rightarrow> exn + bytes" where
  "serialized d = bindE (IPv4Datagram_serialize d) (\<lambda>bl. Inr (BufferList_concatenate bl))"

fun expecting :: "ipv4_datagram list \<Rightarrow> ipv4_datagram \<Rightarrow> exn + bool" where
  "expecting [] expected = Inr False"
| "expecting (x # xs) expected =
     bindE (serialized x) (\<lambda>sx. bindE (serialized expected) (\<lambda>se.
       if sx = se then Inr True else expecting xs expected))"

fun remove_expectation :: "ipv4_datagram list \<Rightarrow> ipv4_datagram \<Rightarrow> exn + ipv4_datagram list" where
  "remove_expectation [] expected = Inr []"
| "remove_expectation (x # xs) expected =
     bindE (serialized x) (\<lambda>sx. bindE (serialized expected) (\<lambda>se.
       if sx = se then Inr xs
       else bindE (remove_expectation xs expected) (\<lambda>xs. Inr (x # xs))))"

definition Host_send_to :: "address \<Rightarrow> byte \<Rightarrow> rand \<Rightarrow> host \<Rightarrow> exn + ipv4_datagram \<times> host \<times> rand" where
  "Host_send_to destination ttl rd h =
     bindE (Address_ipv4_numeric (ho_my_address h)) (\<lambda>src.
     bindE (Address_ipv4_numeric destination) (\<lambda>dst.
       let payload = BufferList_of_string (bytes_of (''random payload: {'' @ dec_string (unat (rd 0)) @ ''}''));
           hdr = IPv4Header\<lparr>ip_src := src, ip_dst := dst\<rparr>;
           hdr = hdr\<lparr>ip_len := word_of_nat (unat (ip_hlen hdr) * 4 + BufferList_size payload), ip_ttl := ttl\<rparr>;
           dgram = \<lparr>dg_header = hdr, dg_payload = payload\<rparr>;
           a = ho_interface h
       in bindE (NetworkInterface_send_datagram dgram (ho_next_hop h) (an_interface a)) (\<lambda>ni.
            Inr (dgram, h\<lparr>ho_interface := a\<lparr>an_interface := ni\<rparr>\<rparr>, discard_rand 1 rd))))"

definition Host_expect :: "ipv4_datagram \<Rightarrow> host \<Rightarrow> host" where
  "Host_expect expected h = h\<lparr>ho_expecting_to_receive := ho_expecting_to_receive h @ [expected]\<rparr>"

definition describe :: "(u32 \<Rightarrow> string) \<Rightarrow> ipv4_datagram \<Rightarrow> string" where
  "describe inet_ntoa d = IPv4Header_summary inet_ntoa (dg_header d) @ '' payload=\"'' @
     text_of (BufferList_concatenate (dg_payload d)) @ ''\"''"

text \<open>The loop of \<^verbatim>\<open>check\<close> over the received datagrams, and what it says when some are missing.\<close>

fun check_received :: "(u32 \<Rightarrow> string) \<Rightarrow> ipv4_datagram list \<Rightarrow> host \<Rightarrow> exn + host" where
  "check_received inet_ntoa [] h = Inr h"
| "check_received inet_ntoa (dgram_received # q) h =
     bindE (expecting (ho_expecting_to_receive h) dgram_received) (\<lambda>e.
       if \<not> e then Inl (Runtime_error (''Host '' @ ho_name h @ '' received unexpected Internet datagram: '' @
         describe inet_ntoa dgram_received))
       else
         bindE (remove_expectation (ho_expecting_to_receive h) dgram_received) (\<lambda>xs.
           check_received inet_ntoa q
             (h\<lparr>ho_expecting_to_receive := xs,
                ho_interface := (ho_interface h)\<lparr>an_datagrams_out := q\<rparr>\<rparr>)))"

definition Host_check :: "(u32 \<Rightarrow> string) \<Rightarrow> host \<Rightarrow> exn + host" where
  "Host_check inet_ntoa h =
     bindE (check_received inet_ntoa (an_datagrams_out (ho_interface h)) h) (\<lambda>h.
       case ho_expecting_to_receive h of
         [] \<Rightarrow> Inr h
       | expected # _ \<Rightarrow> Inl (Runtime_error (''Host '' @ ho_name h @
           '' did NOT receive an expected Internet datagram: '' @ describe inet_ntoa expected)))"

section \<open>Links\<close>

abbreviation frames_out :: "async_network_interface \<Rightarrow> ethernet_frame list" where
  "frames_out a \<equiv> ni_frames_out (an_interface a)"

definition set_frames :: "ethernet_frame list \<Rightarrow> async_network_interface \<Rightarrow> async_network_interface" where
  "set_frames fs a = a\<lparr>an_interface := (an_interface a)\<lparr>ni_frames_out := fs\<rparr>\<rparr>"

text \<open>A frame is handed over with its payload in one buffer.\<close>

definition one_buffer :: "ethernet_frame \<Rightarrow> ethernet_frame" where
  "one_buffer f = f\<lparr>ef_payload := BufferList_of_string (BufferList_concatenate (ef_payload f))\<rparr>"

fun deliver :: "(u32 \<Rightarrow> string) \<Rightarrow> ethernet_frame list \<Rightarrow> async_network_interface \<Rightarrow> exn + async_network_interface" where
  "deliver inet_ntoa [] dst = Inr dst"
| "deliver inet_ntoa (f # to_send) dst =
     bindE (summary inet_ntoa (one_buffer f)) (\<lambda>_.
     bindE (AsyncNetworkInterface_recv_frame (one_buffer f) dst) (deliver inet_ntoa to_send))"

definition clear_sent :: "ethernet_frame list \<Rightarrow> async_network_interface \<Rightarrow> exn + async_network_interface" where
  "clear_sent fs a = bindE (clear fs (frames_out a)) (\<lambda>(_, rest). Inr (set_frames rest a))"

definition exchange_frames2 :: "(u32 \<Rightarrow> string) \<Rightarrow> async_network_interface \<Rightarrow> async_network_interface \<Rightarrow>
    exn + async_network_interface \<times> async_network_interface" where
  "exchange_frames2 inet_ntoa x y =
     (let x_frames = frames_out x; y_frames = frames_out y in
      bindE (deliver inet_ntoa x_frames y) (\<lambda>y.
      bindE (deliver inet_ntoa y_frames x) (\<lambda>x.
      bindE (clear_sent x_frames x) (\<lambda>x.
      bindE (clear_sent y_frames y) (\<lambda>y. Inr (x, y))))))"

definition exchange_frames3 :: "(u32 \<Rightarrow> string) \<Rightarrow> async_network_interface \<Rightarrow> async_network_interface \<Rightarrow>
    async_network_interface \<Rightarrow> exn + async_network_interface \<times> async_network_interface \<times> async_network_interface" where
  "exchange_frames3 inet_ntoa x y z =
     (let x_frames = frames_out x; y_frames = frames_out y; z_frames = frames_out z in
      bindE (deliver inet_ntoa x_frames y) (\<lambda>y.
      bindE (deliver inet_ntoa x_frames z) (\<lambda>z.
      bindE (deliver inet_ntoa y_frames x) (\<lambda>x.
      bindE (deliver inet_ntoa y_frames z) (\<lambda>z.
      bindE (deliver inet_ntoa z_frames x) (\<lambda>x.
      bindE (deliver inet_ntoa z_frames y) (\<lambda>y.
      bindE (clear_sent x_frames x) (\<lambda>x.
      bindE (clear_sent y_frames y) (\<lambda>y.
      bindE (clear_sent z_frames z) (\<lambda>z. Inr (x, y, z)))))))))))"

section \<open>The network\<close>

text \<open>\<^verbatim>\<open>unordered_map\<close> is a list of its entries, in the order in which it is iterated over.\<close>

record network =
  nw_router :: router
  nw_default_id :: nat
  nw_eth0_id :: nat
  nw_eth1_id :: nat
  nw_eth2_id :: nat
  nw_uun3_id :: nat
  nw_hs4_id :: nat
  nw_mit5_id :: nat
  nw_hosts :: "(string \<times> host) list"

definition Network_host :: "string \<Rightarrow> network \<Rightarrow> exn + host" where
  "Network_host name n =
     (case map_of (nw_hosts n) name of
        None \<Rightarrow> Inl (Runtime_error (''unknown host: '' @ name))
      | Some h \<Rightarrow> if ho_name h \<noteq> name then Inl (Runtime_error (''invalid host: '' @ name)) else Inr h)"

text \<open>The result of \<^verbatim>\<open>host\<close> is a reference: what is done to the host is stored back.\<close>

definition store_host :: "string \<Rightarrow> host \<Rightarrow> network \<Rightarrow> network" where
  "store_host name h n = n\<lparr>nw_hosts := map (\<lambda>(k, old). (k, if k = name then h else old)) (nw_hosts n)\<rparr>"

definition store_interface :: "nat \<Rightarrow> async_network_interface \<Rightarrow> network \<Rightarrow> network" where
  "store_interface i a n = n\<lparr>nw_router := (nw_router n)\<lparr>rt_interfaces := (rt_interfaces (nw_router n))[i := a]\<rparr>\<rparr>"

definition add_router_interface :: "resolver \<Rightarrow> string \<Rightarrow> rand \<Rightarrow> router \<Rightarrow> exn + nat \<times> router \<times> rand" where
  "add_router_interface ga addr rd r =
     (let (eth, rd) = random_router_ethernet_address rd in
      bindE (Address_of_ip ga addr 0) (\<lambda>a.
        let (i, r) = Router_add_interface (AsyncNetworkInterface (NetworkInterface eth a)) r in Inr (i, r, rd)))"

text \<open>\<^verbatim>\<open>insert\<close> does nothing when the key is there.\<close>

definition insert_host :: "resolver \<Rightarrow> string \<Rightarrow> string \<Rightarrow> string \<Rightarrow> rand \<Rightarrow> (string \<times> host) list \<Rightarrow>
    exn + (string \<times> host) list \<times> rand" where
  "insert_host ga name addr hop rd hosts =
     bindE (Address_of_ip ga addr 0) (\<lambda>my_address.
     bindE (Address_of_ip ga hop 0) (\<lambda>next_hop.
       let (h, rd) = Host name my_address next_hop rd
       in Inr (if map_of hosts name = None then hosts @ [(name, h)] else hosts, rd)))"

definition add_network_route :: "resolver \<Rightarrow> string \<Rightarrow> byte \<Rightarrow> address option \<Rightarrow> nat \<Rightarrow> network \<Rightarrow> exn + network" where
  "add_network_route ga prefix len next_hop i n =
     bindE (ip ga prefix) (\<lambda>p. Inr (n\<lparr>nw_router := Router_add_route p len next_hop i (nw_router n)\<rparr>))"

definition Network :: "resolver \<Rightarrow> rand \<Rightarrow> exn + network \<times> rand" where
  "Network ga rd =
     bindE (add_router_interface ga ''171.67.76.46'' rd Router) (\<lambda>(default_id, r, rd).
     bindE (add_router_interface ga ''10.0.0.1'' rd r) (\<lambda>(eth0_id, r, rd).
     bindE (add_router_interface ga ''172.16.0.1'' rd r) (\<lambda>(eth1_id, r, rd).
     bindE (add_router_interface ga ''192.168.0.1'' rd r) (\<lambda>(eth2_id, r, rd).
     bindE (add_router_interface ga ''198.178.229.1'' rd r) (\<lambda>(uun3_id, r, rd).
     bindE (add_router_interface ga ''143.195.0.2'' rd r) (\<lambda>(hs4_id, r, rd).
     bindE (add_router_interface ga ''128.30.76.255'' rd r) (\<lambda>(mit5_id, r, rd).
     bindE (insert_host ga ''applesauce'' ''10.0.0.2'' ''10.0.0.1'' rd []) (\<lambda>(hosts, rd).
     bindE (insert_host ga ''default_router'' ''171.67.76.1'' ''0'' rd hosts) (\<lambda>(hosts, rd).
     bindE (insert_host ga ''cherrypie'' ''192.168.0.2'' ''192.168.0.1'' rd hosts) (\<lambda>(hosts, rd).
     bindE (insert_host ga ''hs_router'' ''143.195.0.1'' ''0'' rd hosts) (\<lambda>(hosts, rd).
     bindE (insert_host ga ''dm42'' ''198.178.229.42'' ''198.178.229.1'' rd hosts) (\<lambda>(hosts, rd).
     bindE (insert_host ga ''dm43'' ''198.178.229.43'' ''198.178.229.1'' rd hosts) (\<lambda>(hosts, rd).
     let n = \<lparr>nw_router = r, nw_default_id = default_id, nw_eth0_id = eth0_id, nw_eth1_id = eth1_id,
              nw_eth2_id = eth2_id, nw_uun3_id = uun3_id, nw_hs4_id = hs4_id, nw_mit5_id = mit5_id, nw_hosts = hosts\<rparr> in
     bindE (Network_host ''default_router'' n) (\<lambda>h.
     bindE (add_network_route ga ''0.0.0.0'' 0 (Some (ho_my_address h)) default_id n) (\<lambda>n.
     bindE (add_network_route ga ''10.0.0.0'' 8 None eth0_id n) (\<lambda>n.
     bindE (add_network_route ga ''172.16.0.0'' 16 None eth1_id n) (\<lambda>n.
     bindE (add_network_route ga ''192.168.0.0'' 24 None eth2_id n) (\<lambda>n.
     bindE (add_network_route ga ''198.178.229.0'' 24 None uun3_id n) (\<lambda>n.
     bindE (Network_host ''hs_router'' n) (\<lambda>h.
     bindE (add_network_route ga ''143.195.0.0'' 17 (Some (ho_my_address h)) hs4_id n) (\<lambda>n.
     bindE (add_network_route ga ''143.195.128.0'' 18 (Some (ho_my_address h)) hs4_id n) (\<lambda>n.
     bindE (add_network_route ga ''143.195.192.0'' 19 (Some (ho_my_address h)) hs4_id n) (\<lambda>n.
     bindE (Address_of_ip ga ''128.30.0.1'' 0) (\<lambda>hop.
     bindE (add_network_route ga ''128.30.76.255'' 16 (Some hop) mit5_id n) (\<lambda>n.
       Inr (n, rd))))))))))))))))))))))))))"

definition link :: "(u32 \<Rightarrow> string) \<Rightarrow> nat \<Rightarrow> string \<Rightarrow> network \<Rightarrow> exn + network" where
  "link inet_ntoa i name n =
     bindE (Router_interface i (nw_router n)) (\<lambda>x.
     bindE (Network_host name n) (\<lambda>h.
     bindE (exchange_frames2 inet_ntoa x (ho_interface h)) (\<lambda>(x, y).
       Inr (store_host name (h\<lparr>ho_interface := y\<rparr>) (store_interface i x n)))))"

definition link3 :: "(u32 \<Rightarrow> string) \<Rightarrow> nat \<Rightarrow> string \<Rightarrow> string \<Rightarrow> network \<Rightarrow> exn + network" where
  "link3 inet_ntoa i name1 name2 n =
     bindE (Router_interface i (nw_router n)) (\<lambda>x.
     bindE (Network_host name1 n) (\<lambda>h1.
     bindE (Network_host name2 n) (\<lambda>h2.
     bindE (exchange_frames3 inet_ntoa x (ho_interface h1) (ho_interface h2)) (\<lambda>(x, y, z).
       Inr (store_host name2 (h2\<lparr>ho_interface := z\<rparr>) (store_host name1 (h1\<lparr>ho_interface := y\<rparr>) (store_interface i x n)))))))"

definition simulate_physical_connections :: "(u32 \<Rightarrow> string) \<Rightarrow> network \<Rightarrow> exn + network" where
  "simulate_physical_connections inet_ntoa n =
     bindE (link inet_ntoa (nw_default_id n) ''default_router'' n) (\<lambda>n.
     bindE (link inet_ntoa (nw_eth0_id n) ''applesauce'' n) (\<lambda>n.
     bindE (link inet_ntoa (nw_eth2_id n) ''cherrypie'' n) (\<lambda>n.
     bindE (link inet_ntoa (nw_hs4_id n) ''hs_router'' n) (\<lambda>n.
       link3 inet_ntoa (nw_uun3_id n) ''dm42'' ''dm43'' n))))"

fun simulate_rounds :: "(u32 \<Rightarrow> string) \<Rightarrow> nat \<Rightarrow> network \<Rightarrow> exn + network" where
  "simulate_rounds inet_ntoa 0 n = Inr n"
| "simulate_rounds inet_ntoa (Suc k) n =
     bindE (Router_route (nw_router n)) (\<lambda>r.
     bindE (simulate_physical_connections inet_ntoa (n\<lparr>nw_router := r\<rparr>)) (simulate_rounds inet_ntoa k))"

fun check_hosts :: "(u32 \<Rightarrow> string) \<Rightarrow> (string \<times> host) list \<Rightarrow> exn + (string \<times> host) list" where
  "check_hosts inet_ntoa [] = Inr []"
| "check_hosts inet_ntoa ((name, h) # hosts) =
     bindE (Host_check inet_ntoa h) (\<lambda>h. bindE (check_hosts inet_ntoa hosts) (\<lambda>hosts. Inr ((name, h) # hosts)))"

definition Network_simulate :: "(u32 \<Rightarrow> string) \<Rightarrow> network \<Rightarrow> exn + network" where
  "Network_simulate inet_ntoa n =
     bindE (simulate_rounds inet_ntoa 256 n) (\<lambda>n.
     bindE (check_hosts inet_ntoa (nw_hosts n)) (\<lambda>hosts. Inr (n\<lparr>nw_hosts := hosts\<rparr>)))"

section \<open>The scenario\<close>

text \<open>One test: a host sends, another, if any, expects what was sent, with one hop less to live.\<close>

definition traffic :: "(u32 \<Rightarrow> string) \<Rightarrow> string \<Rightarrow> address \<Rightarrow> byte \<Rightarrow> string option \<Rightarrow> network \<times> rand \<Rightarrow> exn + network \<times> rand" where
  "traffic inet_ntoa sender destination ttl receiver nr =
     (let (n, rd) = nr in
      bindE (Network_host sender n) (\<lambda>h.
      bindE (Host_send_to destination ttl rd h) (\<lambda>(dgram_sent, h, rd).
      let n = store_host sender h n;
          dgram_sent = dgram_sent\<lparr>dg_header := (dg_header dgram_sent)\<lparr>ip_ttl := ip_ttl (dg_header dgram_sent) - 1\<rparr>\<rparr> in
      bindE (case receiver of None \<Rightarrow> Inr n
             | Some name \<Rightarrow> bindE (Network_host name n) (\<lambda>h. Inr (store_host name (Host_expect dgram_sent h) n))) (\<lambda>n.
      bindE (Network_simulate inet_ntoa n) (\<lambda>n. Inr (n, rd))))))"

definition traffic_to_host :: "(u32 \<Rightarrow> string) \<Rightarrow> string \<Rightarrow> string \<Rightarrow> network \<times> rand \<Rightarrow> exn + network \<times> rand" where
  "traffic_to_host inet_ntoa sender receiver nr =
     bindE (Network_host receiver (fst nr)) (\<lambda>h. traffic inet_ntoa sender (ho_my_address h) 64 (Some receiver) nr)"

definition traffic_to_ip :: "resolver \<Rightarrow> (u32 \<Rightarrow> string) \<Rightarrow> string \<Rightarrow> string \<Rightarrow> byte \<Rightarrow> string option \<Rightarrow> network \<times> rand \<Rightarrow>
    exn + network \<times> rand" where
  "traffic_to_ip ga inet_ntoa sender addr ttl receiver nr =
     bindE (Address_of_ip ga addr 0) (\<lambda>destination. traffic inet_ntoa sender destination ttl receiver nr)"

definition network_simulator :: "resolver \<Rightarrow> (u32 \<Rightarrow> string) \<Rightarrow> rand \<Rightarrow> exn + network \<times> rand" where
  "network_simulator ga inet_ntoa rd =
     bindE (Network ga rd) (\<lambda>nr.
     bindE (traffic_to_host inet_ntoa ''applesauce'' ''cherrypie'' nr) (\<lambda>nr.
     bindE (traffic_to_host inet_ntoa ''cherrypie'' ''applesauce'' nr) (\<lambda>nr.
     bindE (traffic_to_ip ga inet_ntoa ''applesauce'' ''1.2.3.4'' 64 (Some ''default_router'') nr) (\<lambda>nr.
     bindE (traffic_to_ip ga inet_ntoa ''applesauce'' ''143.195.131.17'' 64 (Some ''hs_router'') nr) (\<lambda>nr.
     bindE (traffic_to_ip ga inet_ntoa ''cherrypie'' ''143.195.193.52'' 64 (Some ''hs_router'') nr) (\<lambda>nr.
     bindE (traffic_to_ip ga inet_ntoa ''cherrypie'' ''143.195.223.255'' 64 (Some ''hs_router'') nr) (\<lambda>nr.
     bindE (traffic_to_ip ga inet_ntoa ''cherrypie'' ''143.195.224.0'' 64 (Some ''default_router'') nr) (\<lambda>nr.
     bindE (traffic_to_host inet_ntoa ''dm42'' ''dm43'' nr) (\<lambda>nr.
     bindE (traffic_to_ip ga inet_ntoa ''applesauce'' ''1.2.3.4'' 1 None nr) (\<lambda>nr.
       traffic_to_ip ga inet_ntoa ''applesauce'' ''1.2.3.4'' 0 None nr))))))))))"

section \<open>The check of a host\<close>

text \<open>Datagrams that can be compared: they serialise.\<close>

definition comparable :: "ipv4_datagram \<Rightarrow> bool" where
  "comparable d \<longleftrightarrow> (\<exists>s. serialized d = Inr s)"

lemma expecting_spec:
  "\<forall>x \<in> set xs. comparable x \<Longrightarrow> comparable d \<Longrightarrow>
     expecting xs d = Inr (serialized d \<in> serialized ` set xs)"
  by (induction xs) (auto simp: comparable_def)

lemma remove_expectation_spec:
  assumes "\<forall>x \<in> set xs. comparable x" "comparable d"
  shows "\<exists>ys. remove_expectation xs d = Inr ys \<and> set ys \<subseteq> set xs \<and>
    image_mset serialized (mset ys) = image_mset serialized (mset xs) - {#serialized d#}"
  using assms
proof (induction xs)
  case (Cons x xs)
  obtain sx sd where s: "serialized x = Inr sx" "serialized d = Inr sd"
    using Cons.prems by (auto simp: comparable_def)
  obtain ys where ys: "remove_expectation xs d = Inr ys" "set ys \<subseteq> set xs"
    "image_mset serialized (mset ys) = image_mset serialized (mset xs) - {#serialized d#}"
    using Cons by auto
  show ?case
  proof (cases "sx = sd")
    case True
    then show ?thesis using s by auto
  next
    case False
    then have "add_mset (Inr sx) (M - {#Inr sd#}) = add_mset (Inr sx) M - {#Inr sd :: exn + bytes#}" for M
      by simp
    then show ?thesis using s ys False by auto
  qed
qed simp

lemma check_received_spec:
  assumes "\<forall>d \<in> set q \<union> set (ho_expecting_to_receive h). comparable d"
    and "an_datagrams_out (ho_interface h) = q"
  shows "if image_mset serialized (mset q) \<subseteq># image_mset serialized (mset (ho_expecting_to_receive h))
    then \<exists>xs. check_received inet_ntoa q h =
        Inr (h\<lparr>ho_interface := (ho_interface h)\<lparr>an_datagrams_out := []\<rparr>, ho_expecting_to_receive := xs\<rparr>) \<and>
      image_mset serialized (mset xs) =
        image_mset serialized (mset (ho_expecting_to_receive h)) - image_mset serialized (mset q)
    else \<exists>x. check_received inet_ntoa q h = Inl x"
  using assms
proof (induction q arbitrary: h)
  case Nil
  then show ?case by (auto intro: exI [of _ "ho_expecting_to_receive h"])
next
  case (Cons d q)
  let ?E = "image_mset serialized (mset (ho_expecting_to_receive h))"
  have ok: "\<forall>x \<in> set (ho_expecting_to_receive h). comparable x" "comparable d" using Cons.prems(1) by auto
  show ?case
  proof (cases "serialized d \<in># ?E")
    case False
    then have "check_received inet_ntoa (d # q) h = Inl (Runtime_error (''Host '' @ ho_name h @
        '' received unexpected Internet datagram: '' @ describe inet_ntoa d))"
      using expecting_spec [OF ok] by simp
    moreover have "\<not> image_mset serialized (mset (d # q)) \<subseteq># ?E"
    proof
      assume "image_mset serialized (mset (d # q)) \<subseteq># ?E"
      from mset_subset_eqD [OF this, of "serialized d"] False show False by simp
    qed
    ultimately show ?thesis by simp
  next
    case True
    obtain ys where ys: "remove_expectation (ho_expecting_to_receive h) d = Inr ys"
      "set ys \<subseteq> set (ho_expecting_to_receive h)" "image_mset serialized (mset ys) = ?E - {#serialized d#}"
      using remove_expectation_spec [OF ok] by blast
    let ?h = "h\<lparr>ho_expecting_to_receive := ys, ho_interface := (ho_interface h)\<lparr>an_datagrams_out := q\<rparr>\<rparr>"
    have step: "check_received inet_ntoa (d # q) h = check_received inet_ntoa q ?h"
      using expecting_spec [OF ok] True ys(1) by simp
    have sub: "image_mset serialized (mset (d # q)) \<subseteq># ?E \<longleftrightarrow> image_mset serialized (mset q) \<subseteq># ?E - {#serialized d#}"
      using True by (simp add: insert_subset_eq_iff)
    have IH: "if image_mset serialized (mset q) \<subseteq># ?E - {#serialized d#}
      then \<exists>xs. check_received inet_ntoa q ?h =
          Inr (?h\<lparr>ho_interface := (ho_interface ?h)\<lparr>an_datagrams_out := []\<rparr>, ho_expecting_to_receive := xs\<rparr>) \<and>
        image_mset serialized (mset xs) = ?E - {#serialized d#} - image_mset serialized (mset q)
      else \<exists>x. check_received inet_ntoa q ?h = Inl x"
    proof -
      have "\<forall>x \<in> set q \<union> set ys. comparable x" using Cons.prems(1) ys(2) by auto
      then show ?thesis using Cons.IH [of ?h] ys(3) by (simp split: if_split_asm)
    qed
    show ?thesis
      unfolding step sub using IH by (auto split: if_splits)
  qed
qed

text \<open>
  A host's \<^verbatim>\<open>check\<close> decides whether it got what it expects: when all its datagrams can be serialised,
  it returns just when the received and the expected datagrams are the same multiset of serialised
  bytes (order does not matter, repetition does), and then both queues are empty; otherwise it throws.
\<close>

theorem Host_check_spec:
  assumes "\<forall>d \<in> set (an_datagrams_out (ho_interface h)) \<union> set (ho_expecting_to_receive h). comparable d"
  shows "if image_mset serialized (mset (an_datagrams_out (ho_interface h))) =
      image_mset serialized (mset (ho_expecting_to_receive h))
    then Host_check inet_ntoa h =
      Inr (h\<lparr>ho_interface := (ho_interface h)\<lparr>an_datagrams_out := []\<rparr>, ho_expecting_to_receive := []\<rparr>)
    else \<exists>x. Host_check inet_ntoa h = Inl x"
proof -
  let ?q = "an_datagrams_out (ho_interface h)"
  let ?R = "image_mset serialized (mset ?q)" and ?E = "image_mset serialized (mset (ho_expecting_to_receive h))"
  note spec = check_received_spec [OF assms refl, of inet_ntoa]
  show ?thesis
  proof (cases "?R \<subseteq># ?E")
    case True
    then obtain xs where xs: "check_received inet_ntoa ?q h =
        Inr (h\<lparr>ho_interface := (ho_interface h)\<lparr>an_datagrams_out := []\<rparr>, ho_expecting_to_receive := xs\<rparr>)"
      "image_mset serialized (mset xs) = ?E - ?R"
      using spec by auto
    have "xs = [] \<longleftrightarrow> ?R = ?E"
      using xs(2) True by (metis Diff_eq_empty_iff_mset image_mset_is_empty_iff mset_zero_iff subset_mset.antisym_conv subset_mset.order_refl)
    then show ?thesis using xs(1) by (cases xs) (auto simp: Host_check_def)
  next
    case False
    then have "?R \<noteq> ?E" by auto
    then show ?thesis using spec False by (auto simp: Host_check_def)
  qed
qed

section \<open>The exchange on a link\<close>

lemma one_buffer_payload:
  "ef_payload (one_buffer f) = BufferList_of_buffer (Buffer (BufferList_concatenate (ef_payload f)))"
  "ef_header (one_buffer f) = ef_header f"
  by (simp_all add: one_buffer_def BufferList_of_string_def BufferList_of_buffer_def BufferList_append_def
      BufferList_default_def)

lemma summary_total: "\<exists>t. summary inet_ntoa (one_buffer f) = Inr t"
  by (simp add: summary_def one_buffer_payload Let_def split_beta)

lemma deliver_Cons [simp]:
  "deliver inet_ntoa (f # fs) dst =
     bindE (AsyncNetworkInterface_recv_frame (one_buffer f) dst) (deliver inet_ntoa fs)"
  using summary_total [of inet_ntoa f] by auto

declare deliver.simps(2) [simp del]

lemma one_buffer_arrives: "arrives f (one_buffer f)"
  by (simp add: arrives_def one_buffer_payload BufferList_of_buffer_def)

lemma no_frames:
  assumes "ni_frames_out ni = []"
  shows "ni\<lparr>ni_frames_out := []\<rparr> = ni"
proof -
  have "ni\<lparr>ni_frames_out := ni_frames_out ni\<rparr> = ni" by simp
  then show ?thesis by (simp only: assms)
qed

lemma recv_frame_appends:
  assumes "NetworkInterface_recv_frame f ni = Inr (res, ni')"
  shows "\<exists>fs. ni_frames_out ni' = ni_frames_out ni @ fs"
  using assms
proof (cases rule: recv_cases)
  case (learned am)
  then show ?thesis using learn_spec [OF learned(1)] by auto
next
  case (replied am ni1 my_ip s)
  then show ?thesis using learn_spec [OF replied(1)] by (auto simp: push_frame_def)
qed simp

lemma deliver_appends:
  "deliver inet_ntoa fs a = Inr a' \<Longrightarrow> \<exists>rs. frames_out a' = frames_out a @ rs"
proof (induction fs arbitrary: a)
  case (Cons f fs)
  then obtain a1 where a1: "AsyncNetworkInterface_recv_frame (one_buffer f) a = Inr a1" "deliver inet_ntoa fs a1 = Inr a'"
    by (auto simp: bindE_eq_Inr_iff)
  then obtain res ni where "NetworkInterface_recv_frame (one_buffer f) (an_interface a) = Inr (res, ni)"
    "an_interface a1 = ni"
    by (auto simp: AsyncNetworkInterface_recv_frame_def bindE_eq_Inr_iff Let_def split: option.splits)
  from recv_frame_appends [OF this(1)] this(2) Cons.IH [OF a1(2)] show ?case by auto
qed simp

lemma clear_prefix [simp]: "clear fs (fs @ rest) = Inr ([], rest)"
  by (induction fs) simp_all

lemma clear_sent_prefix: "frames_out a = fs @ rest \<Longrightarrow> clear_sent fs a = Inr (set_frames rest a)"
  by (simp add: clear_sent_def)

text \<open>
  The exchange on a link loses and repeats nothing: if both ends can take the other's queued frames,
  then each end takes all of them once, in order, each leaves its queue, \<^verbatim>\<open>clear\<close> never pops an empty
  queue, and what is left on an end are the frames it has queued while receiving, its answers.
\<close>

theorem exchange_frames_spec:
  assumes "deliver inet_ntoa (frames_out x) y = Inr y'" "deliver inet_ntoa (frames_out y) x = Inr x'"
  shows "\<exists>rx ry. frames_out x' = frames_out x @ rx \<and> frames_out y' = frames_out y @ ry \<and>
    exchange_frames2 inet_ntoa x y = Inr (set_frames rx x', set_frames ry y')"
proof -
  obtain rx ry where r: "frames_out x' = frames_out x @ rx" "frames_out y' = frames_out y @ ry"
    using deliver_appends [OF assms(1)] deliver_appends [OF assms(2)] by auto
  then have "exchange_frames2 inet_ntoa x y = Inr (set_frames rx x', set_frames ry y')"
    using assms by (simp add: exchange_frames2_def clear_sent_prefix)
  with r show ?thesis by blast
qed

text \<open>When only one end has a frame to send, and only one.\<close>

lemma exchange_one:
  assumes "frames_out a = [f]" "frames_out b = []" "AsyncNetworkInterface_recv_frame (one_buffer f) b = Inr b'"
  shows "exchange_frames2 inet_ntoa a b = Inr (set_frames [] a, b')"
    and "exchange_frames2 inet_ntoa b a = Inr (b', set_frames [] a)"
proof -
  have "frames_out b' = frames_out b' @ []" by simp
  then have "set_frames (frames_out b') b' = b'" by (simp add: set_frames_def)
  moreover have "clear_sent [f] a = Inr (set_frames [] a)" by (rule clear_sent_prefix) (simp add: assms(1))
  moreover have "clear_sent [] v = Inr v" for v by (simp add: clear_sent_def set_frames_def)
  ultimately show "exchange_frames2 inet_ntoa a b = Inr (set_frames [] a, b')"
    and "exchange_frames2 inet_ntoa b a = Inr (b', set_frames [] a)"
    using assms by (simp_all add: exchange_frames2_def)
qed

section \<open>Forwarding\<close>

text \<open>An end of a link at rest, with its addresses, that does not know its peer.\<close>

definition at_rest :: "u32 \<Rightarrow> async_network_interface \<Rightarrow> bool" where
  "at_rest my_ip a \<longleftrightarrow> frames_out a = [] \<and> an_datagrams_out a = [] \<and> ni_pending (an_interface a) = [] \<and>
     length (ni_ethernet_address (an_interface a)) = 6 \<and> Address_ipv4_numeric (ni_ip_address (an_interface a)) = Inr my_ip"

definition unknown :: "u32 \<Rightarrow> async_network_interface \<Rightarrow> bool" where
  "unknown peer_ip a \<longleftrightarrow> ni_cache (an_interface a) peer_ip = None \<and> ni_cooldown (an_interface a) peer_ip = None"

text \<open>
  Three exchanges after it is sent a datagram is at the peer: the request, the answer, the datagram.
  The order of the ends does not matter.
\<close>

definition exchanges :: "bool \<Rightarrow> (u32 \<Rightarrow> string) \<Rightarrow> async_network_interface \<times> async_network_interface \<Rightarrow>
    exn + async_network_interface \<times> async_network_interface" where
  "exchanges flip inet_ntoa p =
     (if flip then bindE (exchange_frames2 inet_ntoa (snd p) (fst p)) (\<lambda>(y, x). Inr (x, y))
      else exchange_frames2 inet_ntoa (fst p) (snd p))"

lemma exchanges_one:
  assumes "frames_out a = [f]" "frames_out b = []" "AsyncNetworkInterface_recv_frame (one_buffer f) b = Inr b'"
  shows "exchanges flip inet_ntoa (a, b) = Inr (set_frames [] a, b')"
    and "exchanges flip inet_ntoa (b, a) = Inr (b', set_frames [] a)"
  using exchange_one [OF assms, of inet_ntoa] by (simp_all add: exchanges_def)

lemma link_carries:
  assumes "at_rest ipA a" "at_rest ipB b" "unknown ipB a" "dgram_ok d" "Address_ipv4_numeric hop = Inr ipB"
  shows "\<exists>ni a3 b3 d'. NetworkInterface_send_datagram d hop (an_interface a) = Inr ni \<and>
    bindE (exchanges flip inet_ntoa (a\<lparr>an_interface := ni\<rparr>, b)) (\<lambda>p.
      bindE (exchanges flip inet_ntoa p) (exchanges flip inet_ntoa)) = Inr (a3, b3\<lparr>an_datagrams_out := [d']\<rparr>) \<and>
    at_rest ipA a3 \<and> at_rest ipB b3 \<and> same_datagram d d' \<and>
    ni_ethernet_address (an_interface a3) = ni_ethernet_address (an_interface a) \<and>
    ni_ethernet_address (an_interface b3) = ni_ethernet_address (an_interface b)"
proof -
  let ?A = "an_interface a" and ?B = "an_interface b"
  have A: "length (ni_ethernet_address ?A) = 6" "Address_ipv4_numeric (ni_ip_address ?A) = Inr ipA" "ni_pending ?A = []"
    "ni_frames_out ?A = []" "an_datagrams_out a = []" "ni_cache ?A ipB = None" "ni_cooldown ?A ipB = None"
    using assms(1,3) by (simp_all add: at_rest_def unknown_def)
  have B: "length (ni_ethernet_address ?B) = 6" "Address_ipv4_numeric (ni_ip_address ?B) = Inr ipB" "ni_pending ?B = []"
    "ni_frames_out ?B = []" "an_datagrams_out b = []"
    using assms(2) by (simp_all add: at_rest_def)
  obtain f1 f2 f3 where
    send: "NetworkInterface_send_datagram d hop ?A = Inr (push_frame f1 (waiting ipB d ?A))"
    and recvB: "\<And>g fs. arrives f1 g \<Longrightarrow> NetworkInterface_recv_frame g (?B\<lparr>ni_frames_out := fs\<rparr>) =
       Inr (None, (knows ipA (ni_ethernet_address ?A) ?B)\<lparr>ni_frames_out := fs @ [f2]\<rparr>)"
    and recvA: "\<And>g fs. arrives f2 g \<Longrightarrow> NetworkInterface_recv_frame g ((waiting ipB d ?A)\<lparr>ni_frames_out := fs\<rparr>) =
       Inr (None, (knows ipB (ni_ethernet_address ?B) (waiting ipB d ?A))\<lparr>ni_pending := [], ni_frames_out := fs @ [f3]\<rparr>)"
    and recvB': "\<And>g B'. arrives f3 g \<Longrightarrow> ni_ethernet_address B' = ni_ethernet_address ?B \<Longrightarrow>
       \<exists>d'. NetworkInterface_recv_frame g B' = Inr (Some d', B') \<and> same_datagram d d'"
    by (rule arp_steps [OF A(1) B(1) A(2) B(2) assms(5) A(6,7,3) B(3) assms(4)]) blast
  let ?K = "knows ipA (ni_ethernet_address ?A) ?B"
  let ?W = "(knows ipB (ni_ethernet_address ?B) (waiting ipB d ?A))\<lparr>ni_pending := []\<rparr>"
  have rB: "AsyncNetworkInterface_recv_frame (one_buffer f1) b = Inr (b\<lparr>an_interface := ?K\<lparr>ni_frames_out := [f2]\<rparr>\<rparr>)"
    using recvB [OF one_buffer_arrives, of "[]"] no_frames [OF B(4)] by (simp add: AsyncNetworkInterface_recv_frame_def)
  have "ni_frames_out (waiting ipB d ?A) = []" using A(4) by (simp add: waiting_def)
  note noW = no_frames [OF this]
  have rA: "AsyncNetworkInterface_recv_frame (one_buffer f2) (a\<lparr>an_interface := waiting ipB d ?A\<rparr>) =
      Inr (a\<lparr>an_interface := ?W\<lparr>ni_frames_out := [f3]\<rparr>\<rparr>)"
    using recvA [OF one_buffer_arrives, of "[]"] noW by (simp add: AsyncNetworkInterface_recv_frame_def)
  obtain d' where d': "NetworkInterface_recv_frame (one_buffer f3) ?K = Inr (Some d', ?K)" "same_datagram d d'"
    using recvB' [OF one_buffer_arrives, of ?K] by (auto simp: knows_def)
  have rB': "AsyncNetworkInterface_recv_frame (one_buffer f3) (b\<lparr>an_interface := ?K\<rparr>) =
      Inr (b\<lparr>an_interface := ?K, an_datagrams_out := [d']\<rparr>)"
    using d'(1) B(5) by (simp add: AsyncNetworkInterface_recv_frame_def)
  let ?a0 = "a\<lparr>an_interface := push_frame f1 (waiting ipB d ?A)\<rparr>" and ?a1 = "a\<lparr>an_interface := waiting ipB d ?A\<rparr>"
  let ?b1 = "b\<lparr>an_interface := ?K\<lparr>ni_frames_out := [f2]\<rparr>\<rparr>" and ?b2 = "b\<lparr>an_interface := ?K\<rparr>"
  let ?a2 = "a\<lparr>an_interface := ?W\<lparr>ni_frames_out := [f3]\<rparr>\<rparr>" and ?a3 = "a\<lparr>an_interface := ?W\<rparr>"
  have sets: "set_frames [] ?a0 = ?a1" "set_frames [] ?b1 = ?b2" "set_frames [] ?a2 = ?a3"
    using A(4) B(4) by (simp_all add: set_frames_def push_frame_def waiting_def knows_def)
  have fr: "frames_out ?a0 = [f1]" "frames_out b = []" "frames_out ?b1 = [f2]" "frames_out ?a1 = []"
    "frames_out ?a2 = [f3]" "frames_out ?b2 = []"
    using A(4) B(4) by (simp_all add: push_frame_def waiting_def knows_def)
  have run: "exchanges flip inet_ntoa (?a0, b) = Inr (?a1, ?b1)" "exchanges flip inet_ntoa (?a1, ?b1) = Inr (?a2, ?b2)"
    "exchanges flip inet_ntoa (?a2, ?b2) = Inr (?a3, ?b2\<lparr>an_datagrams_out := [d']\<rparr>)"
    using exchanges_one(1) [OF fr(1,2) rB, of flip inet_ntoa] exchanges_one(2) [OF fr(3,4) rA, of flip inet_ntoa]
      exchanges_one(1) [OF fr(5,6) rB', of flip inet_ntoa] unfolding sets by simp_all
  have rest: "at_rest ipA ?a3" "at_rest ipB ?b2"
    using A B by (simp_all add: at_rest_def knows_def waiting_def)
  have eths: "ni_ethernet_address (an_interface ?a3) = ni_ethernet_address ?A"
    "ni_ethernet_address (an_interface ?b2) = ni_ethernet_address ?B"
    by (simp_all add: knows_def waiting_def)
  show ?thesis
    by (rule exI [of _ "push_frame f1 (waiting ipB d ?A)"], rule exI [of _ ?a3], rule exI [of _ ?b2], rule exI [of _ d'])
      (use send run rest eths d'(2) in simp)
qed

text \<open>What changes on the way, checksum and buffers, is not in the serialised bytes.\<close>

lemma serialized_same:
  assumes "same_datagram d d'"
  shows "serialized d' = serialized d" "dgram_ok d' = dgram_ok d"
proof -
  obtain ck where h: "dg_header d' = (dg_header d)\<lparr>ip_cksum := ck\<rparr>"
    and pl: "BufferList_concatenate (dg_payload d') = BufferList_concatenate (dg_payload d)"
    using assms by (auto simp: same_datagram_def)
  have size: "BufferList_size (dg_payload d') = BufferList_size (dg_payload d)"
    by (simp add: BufferList_size_concatenate pl)
  show "dgram_ok d' = dgram_ok d" by (simp add: dgram_ok_def h size ip_wf_def)
  have len: "IPv4Header_payload_length (dg_header d') = IPv4Header_payload_length (dg_header d)"
    by (simp add: IPv4Header_payload_length_def h)
  have hdr: "(dg_header d')\<lparr>ip_cksum := c\<rparr> = (dg_header d)\<lparr>ip_cksum := c\<rparr>" for c by (simp add: h)
  have out: "serialized x = (if BufferList_size (dg_payload x) \<noteq> unat (IPv4Header_payload_length (dg_header x))
      then Inl (Runtime_error ''IPv4Datagram::serialize: payload is wrong size'')
      else bindE (IPv4Header_serialize ((dg_header x)\<lparr>ip_cksum := 0\<rparr>)) (\<lambda>z.
        bindE (IPv4Header_serialize ((dg_header x)\<lparr>ip_cksum := InternetChecksum_value (InternetChecksum_add z (InternetChecksum 0))\<rparr>))
          (\<lambda>b. Inr (b @ BufferList_concatenate (dg_payload x)))))" for x
    by (simp add: serialized_def IPv4Datagram_serialize_def Let_def bindE_def split: sum.splits)
  show "serialized d' = serialized d" unfolding out size len hdr pl ..
qed

abbreviation forwarded :: "ipv4_datagram \<Rightarrow> ipv4_datagram" where
  "forwarded d \<equiv> d\<lparr>dg_header := (dg_header d)\<lparr>ip_ttl := ip_ttl (dg_header d) - 1\<rparr>\<rparr>"

lemma same_datagram_forwarded:
  assumes "same_datagram d d'"
  shows "same_datagram (forwarded d) (forwarded d')"
proof -
  obtain ck where "dg_header d' = (dg_header d)\<lparr>ip_cksum := ck\<rparr>"
    using assms by (auto simp: same_datagram_def)
  then have "dg_header (forwarded d') = (dg_header (forwarded d))\<lparr>ip_cksum := ck\<rparr>" by simp
  then show ?thesis using assms unfolding same_datagram_def by auto
qed

lemma same_datagram_trans: "same_datagram d d' \<Longrightarrow> same_datagram d' d'' \<Longrightarrow> same_datagram d d''"
  by (auto simp: same_datagram_def)

text \<open>Routing when one queue holds one datagram.\<close>

lemma route_interfaces_empty:
  "\<forall>k \<in> set ks. an_datagrams_out (rt_interfaces r ! k) = [] \<Longrightarrow> route_interfaces ks r = Inr r"
  by (induction ks) simp_all

lemma route_interfaces_append:
  "route_interfaces (ks @ ks') r = bindE (route_interfaces ks r) (route_interfaces ks')"
proof (induction ks arbitrary: r)
  case (Cons k ks)
  then show ?case by (cases "route_queue k (an_datagrams_out (rt_interfaces r ! k)) r") simp_all
qed simp

lemma Router_route_single:
  assumes "i < length (rt_interfaces r)" "an_datagrams_out (rt_interfaces r ! i) = [d]"
    and "\<And>k. k < length (rt_interfaces r) \<Longrightarrow> k \<noteq> i \<Longrightarrow> an_datagrams_out (rt_interfaces r ! k) = []"
    and "Router_route_one_datagram d r = Inr r1"
  shows "Router_route r = Inr (pop_datagram i r1)"
proof -
  have q: "queues r1 = queues r" using queues_route_one [OF assms(4)] by simp
  then have len: "length (rt_interfaces r1) = length (rt_interfaces r)" by (metis length_queues)
  let ?r2 = "pop_datagram i r1"
  have q2: "queues ?r2 = (queues r)[i := []]"
    using queues_pop [of i r1] q assms(1,2) len queues_nth [of i r] by simp
  have len2: "length (rt_interfaces ?r2) = length (rt_interfaces r)" using len by (simp add: pop_datagram_def Let_def)
  have before: "route_interfaces [0..<i] r = Inr r"
    by (rule route_interfaces_empty) (use assms(1,3) in auto)
  have "an_datagrams_out (rt_interfaces ?r2 ! k) = []" if "k \<in> set [Suc i..<length (rt_interfaces r)]" for k
  proof -
    have "queues ?r2 ! k = []" unfolding q2 using that assms(3) by (simp add: queues_nth)
    then show ?thesis using that len2 by (simp add: queues_nth)
  qed
  then have after: "route_interfaces [Suc i..<length (rt_interfaces r)] ?r2 = Inr ?r2" by (intro route_interfaces_empty) simp
  have "[0..<length (rt_interfaces r)] = [0..<i] @ i # [Suc i..<length (rt_interfaces r)]"
    using assms(1) upt_add_eq_append [of 0 i "length (rt_interfaces r) - i"] upt_conv_Cons [OF assms(1)] by simp
  then show ?thesis
    using before after assms(2,4) by (simp add: Router_route_def route_interfaces_append)
qed

text \<open>The two ends of a link after three exchanges, the router's interface first or second.\<close>

definition thrice :: "('s \<Rightarrow> exn + 's) \<Rightarrow> 's \<Rightarrow> exn + 's" where
  "thrice f p = bindE (f p) (\<lambda>p. bindE (f p) f)"

text \<open>
  C10: A datagram crosses the network: from a host to its gateway, through the router, to the next hop on
  another link, with every address still to be asked for. On a network at rest, after the host sends, three
  exchanges on its link, one \<^verbatim>\<open>route\<close> and three exchanges on the other link, none of which fails, the
  receiver has exactly one datagram, which serialises to the bytes of the one sent with its time to
  live decremented, so that a host there that expects this passes its \<^verbatim>\<open>check\<close>; both hosts are at rest.
\<close>

theorem datagram_crosses_network:
  assumes "i < length (rt_interfaces r)" "j < length (rt_interfaces r)" "i \<noteq> j"
    and "at_rest ipR (rt_interfaces r ! i)" "at_rest ipR' (rt_interfaces r ! j)" "at_rest ipA a" "at_rest ipB b"
    and "\<forall>k < length (rt_interfaces r). an_datagrams_out (rt_interfaces r ! k) = []"
    and "unknown ipR a" "unknown ipB (rt_interfaces r ! j)"
    and "Address_ipv4_numeric gateway = Inr ipR" "Address_ipv4_numeric hop = Inr ipB"
    and "find_route (ip_dst (dg_header d)) 0 None (rt_routing_table r) = Inr (Some (hop, j))"
    and "dgram_ok d" "1 < ip_ttl (dg_header d)"
  shows "\<exists>ni a' x r' y b' d'.
    NetworkInterface_send_datagram d gateway (an_interface a) = Inr ni \<and>
    thrice (exchanges True inet_ntoa) (a\<lparr>an_interface := ni\<rparr>, rt_interfaces r ! i) = Inr (a', x) \<and>
    Router_route (r\<lparr>rt_interfaces := (rt_interfaces r)[i := x]\<rparr>) = Inr r' \<and>
    thrice (exchanges False inet_ntoa) (rt_interfaces r' ! j, b) = Inr (y, b') \<and>
    an_datagrams_out b' = [d'] \<and> serialized d' = serialized (forwarded d) \<and>
    (\<forall>h. ho_interface h = b' \<and> ho_expecting_to_receive h = [forwarded d] \<longrightarrow> (\<exists>h'. Host_check inet_ntoa h = Inr h')) \<and>
    at_rest ipA a' \<and> at_rest ipB (b'\<lparr>an_datagrams_out := []\<rparr>)"
proof -
  obtain ni a' x0 d1 where first: "NetworkInterface_send_datagram d gateway (an_interface a) = Inr ni"
    "thrice (exchanges True inet_ntoa) (a\<lparr>an_interface := ni\<rparr>, rt_interfaces r ! i) = Inr (a', x0\<lparr>an_datagrams_out := [d1]\<rparr>)"
    "at_rest ipA a'" "at_rest ipR x0" "same_datagram d d1"
    using link_carries [OF assms(6,4,9,14,11), where flip = True and inet_ntoa = inet_ntoa] unfolding thrice_def by blast
  let ?x = "x0\<lparr>an_datagrams_out := [d1]\<rparr>"
  let ?r = "r\<lparr>rt_interfaces := (rt_interfaces r)[i := ?x]\<rparr>" and ?y = "rt_interfaces r ! j"
  have d1: "dgram_ok (forwarded d1)" "ip_dst (dg_header d1) = ip_dst (dg_header d)" "\<not> ip_ttl (dg_header d1) \<le> 1"
    using serialized_same(2) [OF first(5)] assms(14,15) first(5) by (auto simp: same_datagram_def not_le)
  obtain nj y b0 d2 where second: "NetworkInterface_send_datagram (forwarded d1) hop (an_interface ?y) = Inr nj"
    "thrice (exchanges False inet_ntoa) (?y\<lparr>an_interface := nj\<rparr>, b) = Inr (y, b0\<lparr>an_datagrams_out := [d2]\<rparr>)"
    "at_rest ipB b0" "same_datagram (forwarded d1) d2"
    using link_carries [OF assms(5,7,10) d1(1) assms(12), where flip = False and inet_ntoa = inet_ntoa]
    unfolding thrice_def by blast
  let ?r1 = "?r\<lparr>rt_interfaces := (rt_interfaces ?r)[j := ?y\<lparr>an_interface := nj\<rparr>]\<rparr>"
  have one: "Router_route_one_datagram d1 ?r = Inr ?r1"
    using assms(2,3,13) d1(2,3) second(1)
    by (simp add: Router_route_one_datagram_def Let_def Router_interface_def)
  have "Router_route ?r = Inr (pop_datagram i ?r1)"
    by (rule Router_route_single [OF _ _ _ one]) (use assms(1,8) in auto)
  moreover have "rt_interfaces (pop_datagram i ?r1) ! j = ?y\<lparr>an_interface := nj\<rparr>"
    using assms(1-3) by (simp add: pop_datagram_def Let_def)
  moreover have ser: "serialized d2 = serialized (forwarded d)"
    using serialized_same(1) [OF second(4)] serialized_same(1) [OF same_datagram_forwarded [OF first(5)]] by simp
  moreover have "\<exists>h'. Host_check inet_ntoa h = Inr h'"
    if "ho_interface h = b0\<lparr>an_datagrams_out := [d2]\<rparr>" "ho_expecting_to_receive h = [forwarded d]" for h
  proof -
    have "\<exists>s. serialized (forwarded d) = Inr s"
      using dgram_ok_serialize [of "forwarded d"] assms(14) by (auto simp: serialized_def)
    then show ?thesis using that ser by (auto simp: Host_check_def)
  qed
  moreover have "at_rest ipB (b0\<lparr>an_datagrams_out := [d2]\<rparr>\<lparr>an_datagrams_out := []\<rparr>)"
    using second(3) by (simp add: at_rest_def)
  ultimately show ?thesis
    using first(1-3) second(2)
    by (intro exI [of _ ni] exI [of _ a'] exI [of _ ?x] exI [of _ "pop_datagram i ?r1"] exI [of _ y]
        exI [of _ "b0\<lparr>an_datagrams_out := [d2]\<rparr>"] exI [of _ d2]) auto
qed

section \<open>The network that the simulator builds\<close>

text \<open>
  What the code relies on: \<^verbatim>\<open>getaddrinfo\<close> reads dotted decimal notation, and \<open>0\<close> as the address 0.0.0.0.
\<close>

definition reads_addresses :: "resolver \<Rightarrow> bool" where
  "reads_addresses ga \<longleftrightarrow> (\<forall>a. Address_of_ip ga (dotted a) 0 = Inr (ipv4_address a 0)) \<and>
     Address_of_ip ga ''0'' 0 = Inr (ipv4_address 0 0)"

lemma dotted_addresses:
  "''171.67.76.46'' = dotted 0xab434c2e" "''10.0.0.1'' = dotted 0x0a000001" "''172.16.0.1'' = dotted 0xac100001"
  "''192.168.0.1'' = dotted 0xc0a80001" "''198.178.229.1'' = dotted 0xc6b2e501" "''143.195.0.2'' = dotted 0x8fc30002"
  "''128.30.76.255'' = dotted 0x801e4cff" "''10.0.0.2'' = dotted 0x0a000002" "''171.67.76.1'' = dotted 0xab434c01"
  "''192.168.0.2'' = dotted 0xc0a80002" "''143.195.0.1'' = dotted 0x8fc30001" "''198.178.229.42'' = dotted 0xc6b2e52a"
  "''198.178.229.43'' = dotted 0xc6b2e52b" "''0.0.0.0'' = dotted 0" "''10.0.0.0'' = dotted 0x0a000000"
  "''172.16.0.0'' = dotted 0xac100000" "''192.168.0.0'' = dotted 0xc0a80000" "''198.178.229.0'' = dotted 0xc6b2e500"
  "''143.195.0.0'' = dotted 0x8fc30000" "''143.195.128.0'' = dotted 0x8fc38000" "''143.195.192.0'' = dotted 0x8fc3c000"
  "''128.30.0.1'' = dotted 0x801e0001"
  by code_simp+

lemma reads_dotted:
  "reads_addresses ga \<Longrightarrow> s = dotted a \<Longrightarrow> Address_of_ip ga s 0 = Inr (ipv4_address a 0)"
  "reads_addresses ga \<Longrightarrow> s = dotted a \<Longrightarrow> ip ga s = Inr a"
  "reads_addresses ga \<Longrightarrow> Address_of_ip ga ''0'' 0 = Inr (ipv4_address 0 0)"
  by (simp_all add: reads_addresses_def ip_def)

definition draws :: "nat \<Rightarrow> rand \<Rightarrow> rand" where "draws k rd = discard_rand (6 * k) rd"

definition router_end :: "nat \<Rightarrow> rand \<Rightarrow> u32 \<Rightarrow> async_network_interface" where
  "router_end k rd a =
     AsyncNetworkInterface (NetworkInterface (fst (random_router_ethernet_address (draws k rd))) (ipv4_address a 0))"

definition new_host :: "nat \<Rightarrow> rand \<Rightarrow> string \<Rightarrow> u32 \<Rightarrow> u32 \<Rightarrow> host" where
  "new_host k rd name a hop = fst (Host name (ipv4_address a 0) (ipv4_address hop 0) (draws k rd))"

lemma draws_Suc: "discard_rand 6 (draws k rd) = draws (Suc k) rd" "draws 0 rd = rd"
  by (rule ext, simp add: draws_def discard_rand_def algebra_simps) (simp add: draws_def discard_rand_def)

lemma add_router_interface_eq:
  assumes "reads_addresses ga" "s = dotted a"
  shows "add_router_interface ga s (draws k rd) r =
    Inr (length (rt_interfaces r), r\<lparr>rt_interfaces := rt_interfaces r @ [router_end k rd a]\<rparr>, draws (Suc k) rd)"
  using reads_dotted(1) [OF assms]
  by (simp add: add_router_interface_def random_router_ethernet_address_def Router_add_interface_def Let_def
      router_end_def draws_Suc)

lemma insert_host_eq:
  assumes "Address_of_ip ga s 0 = Inr (ipv4_address a 0)" "Address_of_ip ga t 0 = Inr (ipv4_address hop 0)"
    and "name \<notin> fst ` set hosts"
  shows "insert_host ga name s t (draws k rd) hosts = Inr (hosts @ [(name, new_host k rd name a hop)], draws (Suc k) rd)"
proof -
  have "map_of hosts name = None" using assms(3) by (simp add: map_of_eq_None_iff)
  then show ?thesis
    using assms(1,2)
    by (simp add: insert_host_def Host_def random_host_ethernet_address_def Let_def new_host_def draws_Suc)
qed

definition simulator_hosts :: "rand \<Rightarrow> (string \<times> host) list" where
  "simulator_hosts rd =
     [(''applesauce'', new_host 7 rd ''applesauce'' 0x0a000002 0x0a000001),
      (''default_router'', new_host 8 rd ''default_router'' 0xab434c01 0),
      (''cherrypie'', new_host 9 rd ''cherrypie'' 0xc0a80002 0xc0a80001),
      (''hs_router'', new_host 10 rd ''hs_router'' 0x8fc30001 0),
      (''dm42'', new_host 11 rd ''dm42'' 0xc6b2e52a 0xc6b2e501),
      (''dm43'', new_host 12 rd ''dm43'' 0xc6b2e52b 0xc6b2e501)]"

definition simulator_ends :: "rand \<Rightarrow> async_network_interface list" where
  "simulator_ends rd = [router_end 0 rd 0xab434c2e, router_end 1 rd 0x0a000001, router_end 2 rd 0xac100001,
     router_end 3 rd 0xc0a80001, router_end 4 rd 0xc6b2e501, router_end 5 rd 0x8fc30002, router_end 6 rd 0x801e4cff]"

definition simulator_table :: "route list" where
  "simulator_table =
     [((0, 0), (Some (ipv4_address 0xab434c01 0), 0)),
      ((0x0a000000, 8), (None, 1)),
      ((0xac100000, 16), (None, 2)),
      ((0xc0a80000, 24), (None, 3)),
      ((0xc6b2e500, 24), (None, 4)),
      ((0x8fc30000, 17), (Some (ipv4_address 0x8fc30001 0), 5)),
      ((0x8fc38000, 18), (Some (ipv4_address 0x8fc30001 0), 5)),
      ((0x8fc3c000, 19), (Some (ipv4_address 0x8fc30001 0), 5)),
      ((0x801e4cff, 16), (Some (ipv4_address 0x801e0001 0), 6))]"

definition simulator_network :: "rand \<Rightarrow> network" where
  "simulator_network rd =
     \<lparr>nw_router = \<lparr>rt_interfaces = simulator_ends rd, rt_routing_table = simulator_table\<rparr>,
      nw_default_id = 0, nw_eth0_id = 1, nw_eth1_id = 2, nw_eth2_id = 3, nw_uun3_id = 4, nw_hs4_id = 5,
      nw_mit5_id = 6, nw_hosts = simulator_hosts rd\<rparr>"

lemma host_of_name: "ho_name (new_host k rd name a hop) = name" "ho_my_address (new_host k rd name a hop) = ipv4_address a 0"
  by (simp_all add: new_host_def Host_def split_beta)

lemma Network_host_simulator:
  "nw_hosts n = simulator_hosts rd \<Longrightarrow> Network_host ''default_router'' n = Inr (new_host 8 rd ''default_router'' 0xab434c01 0)"
  "nw_hosts n = simulator_hosts rd \<Longrightarrow> Network_host ''hs_router'' n = Inr (new_host 10 rd ''hs_router'' 0x8fc30001 0)"
  "nw_hosts n = simulator_hosts rd \<Longrightarrow> Network_host ''applesauce'' n = Inr (new_host 7 rd ''applesauce'' 0x0a000002 0x0a000001)"
  "nw_hosts n = simulator_hosts rd \<Longrightarrow> Network_host ''cherrypie'' n = Inr (new_host 9 rd ''cherrypie'' 0xc0a80002 0xc0a80001)"
  by (simp_all add: Network_host_def simulator_hosts_def host_of_name)

lemma add_network_route_eq:
  assumes "reads_addresses ga" "s = dotted p"
  shows "add_network_route ga s len hop i n = Inr (n\<lparr>nw_router := Router_add_route p len hop i (nw_router n)\<rparr>)"
  using reads_dotted(2) [OF assms] by (simp add: add_network_route_def)

lemma Router_add_route_new:
  "(p, len) \<notin> fst ` set (rt_routing_table r) \<Longrightarrow>
     Router_add_route p len hop i r = r\<lparr>rt_routing_table := rt_routing_table r @ [((p, len), (hop, i))]\<rparr>"
proof -
  assume "(p, len) \<notin> fst ` set (rt_routing_table r)"
  then have "replace_route p len hop (rt_routing_table r) = None"
    by (simp add: replace_route_None map_of_eq_None_iff)
  then show ?thesis by (simp add: Router_add_route_def)
qed

lemma Network_eq:
  assumes "reads_addresses ga"
  shows "Network ga rd = Inr (simulator_network rd, draws 13 rd)"
proof -
  note iface = add_router_interface_eq [OF assms] and routes = add_network_route_eq [OF assms]
  note ad = reads_dotted(1) [OF assms]
  note zero = reads_dotted(3) [OF assms]
  have iface0: "add_router_interface ga ''171.67.76.46'' rd \<lparr>rt_interfaces = [], rt_routing_table = []\<rparr> =
      Inr (0, Router\<lparr>rt_interfaces := [router_end 0 rd 0xab434c2e]\<rparr>, draws (Suc 0) rd)"
    using iface [OF dotted_addresses(1), of 0 rd Router] by (simp add: draws_Suc(2)) (simp add: Router_def)
  have ifaces: "bindE (add_router_interface ga ''171.67.76.46'' rd Router) (\<lambda>(default_id, r, rd).
     bindE (add_router_interface ga ''10.0.0.1'' rd r) (\<lambda>(eth0_id, r, rd).
     bindE (add_router_interface ga ''172.16.0.1'' rd r) (\<lambda>(eth1_id, r, rd).
     bindE (add_router_interface ga ''192.168.0.1'' rd r) (\<lambda>(eth2_id, r, rd).
     bindE (add_router_interface ga ''198.178.229.1'' rd r) (\<lambda>(uun3_id, r, rd).
     bindE (add_router_interface ga ''143.195.0.2'' rd r) (\<lambda>(hs4_id, r, rd).
     bindE (add_router_interface ga ''128.30.76.255'' rd r) (\<lambda>(mit5_id, r, rd).
       f default_id eth0_id eth1_id eth2_id uun3_id hs4_id mit5_id r rd))))))) =
     f 0 1 2 3 4 5 6 \<lparr>rt_interfaces = simulator_ends rd, rt_routing_table = []\<rparr> (draws 7 rd)" for f :: "nat \<Rightarrow> nat \<Rightarrow> nat \<Rightarrow> nat \<Rightarrow> nat \<Rightarrow> nat \<Rightarrow> nat \<Rightarrow> router \<Rightarrow> rand \<Rightarrow> exn + network \<times> rand"
    by (simp add: iface0 iface [OF dotted_addresses(2)] iface [OF dotted_addresses(3)]
        iface [OF dotted_addresses(4)] iface [OF dotted_addresses(5)] iface [OF dotted_addresses(6)]
        iface [OF dotted_addresses(7)] Router_def simulator_ends_def eval_nat_numeral)
  have hosts: "bindE (insert_host ga ''applesauce'' ''10.0.0.2'' ''10.0.0.1'' (draws 7 rd) []) (\<lambda>(hosts, rd).
     bindE (insert_host ga ''default_router'' ''171.67.76.1'' ''0'' rd hosts) (\<lambda>(hosts, rd).
     bindE (insert_host ga ''cherrypie'' ''192.168.0.2'' ''192.168.0.1'' rd hosts) (\<lambda>(hosts, rd).
     bindE (insert_host ga ''hs_router'' ''143.195.0.1'' ''0'' rd hosts) (\<lambda>(hosts, rd).
     bindE (insert_host ga ''dm42'' ''198.178.229.42'' ''198.178.229.1'' rd hosts) (\<lambda>(hosts, rd).
     bindE (insert_host ga ''dm43'' ''198.178.229.43'' ''198.178.229.1'' rd hosts) (\<lambda>(hosts, rd).
       f hosts rd)))))) = f (simulator_hosts rd) (draws 13 rd)" for f :: "(string \<times> host) list \<Rightarrow> rand \<Rightarrow> exn + network \<times> rand"
    by (simp add: insert_host_eq [OF ad [OF dotted_addresses(8)] ad [OF dotted_addresses(2)]]
        insert_host_eq [OF ad [OF dotted_addresses(9)] zero]
        insert_host_eq [OF ad [OF dotted_addresses(10)] ad [OF dotted_addresses(4)]]
        insert_host_eq [OF ad [OF dotted_addresses(11)] zero]
        insert_host_eq [OF ad [OF dotted_addresses(12)] ad [OF dotted_addresses(5)]]
        insert_host_eq [OF ad [OF dotted_addresses(13)] ad [OF dotted_addresses(5)]] simulator_hosts_def)
  show ?thesis
    unfolding Network_def ifaces hosts Let_def
    by (simp add: Network_host_simulator [where rd = rd] host_of_name routes [OF dotted_addresses(14)] routes [OF dotted_addresses(15)]
        routes [OF dotted_addresses(16)] routes [OF dotted_addresses(17)] routes [OF dotted_addresses(18)]
        routes [OF dotted_addresses(19)] routes [OF dotted_addresses(20)] routes [OF dotted_addresses(21)]
        routes [OF dotted_addresses(7)] ad [OF dotted_addresses(22)] Router_add_route_new simulator_network_def simulator_table_def)
qed

text \<open>Where a datagram goes, by ranges of addresses.\<close>

definition network_hop :: "u32 \<Rightarrow> address \<times> nat" where
  "network_hop dst =
     (if 0x0a000000 \<le> dst \<and> dst \<le> 0x0affffff then (Address_from_ipv4_numeric dst, 1)
      else if 0xac100000 \<le> dst \<and> dst \<le> 0xac10ffff then (Address_from_ipv4_numeric dst, 2)
      else if 0xc0a80000 \<le> dst \<and> dst \<le> 0xc0a800ff then (Address_from_ipv4_numeric dst, 3)
      else if 0xc6b2e500 \<le> dst \<and> dst \<le> 0xc6b2e5ff then (Address_from_ipv4_numeric dst, 4)
      else if 0x8fc30000 \<le> dst \<and> dst \<le> 0x8fc3dfff then (ipv4_address 0x8fc30001 0, 5)
      else if 0x801e0000 \<le> dst \<and> dst \<le> 0x801effff then (ipv4_address 0x801e0001 0, 6)
      else (ipv4_address 0xab434c01 0, 0))"

lemma prefix_range:
  fixes dst c :: u32
  shows "drop_bit k dst = c \<longleftrightarrow> unat c * 2 ^ k \<le> unat dst \<and> unat dst < Suc (unat c) * 2 ^ k"
proof -
  have "drop_bit k dst = c \<longleftrightarrow> unat (drop_bit k dst) = unat c" by (rule word_unat_eq_iff)
  also have "\<dots> \<longleftrightarrow> unat dst div 2 ^ k = unat c"
    unfolding unat_drop_bit_eq by (simp only: drop_bit_eq_div)
  also have "\<dots> \<longleftrightarrow> unat c * 2 ^ k \<le> unat dst \<and> unat dst < Suc (unat c) * 2 ^ k"
  proof
    assume "unat dst div 2 ^ k = unat c"
    then show "unat c * 2 ^ k \<le> unat dst \<and> unat dst < Suc (unat c) * 2 ^ k"
      using dividend_less_div_times [of "2 ^ k" "unat dst"] times_div_less_eq_dividend [of "2 ^ k" "unat dst"]
      by (auto simp: mult.commute)
  qed (rule div_nat_eqI, simp_all add: mult.commute)
  finally show ?thesis .
qed

lemma find_route_simulator: "find_route dst 0 None simulator_table = Inr (Some (network_hop dst))"
proof -
  have "find_route dst 0 None simulator_table = Inr (Some
    (if 0x0a000000 \<le> unat dst \<and> unat dst < 0x0b000000 then (Address_from_ipv4_numeric dst, 1)
      else if 0xac100000 \<le> unat dst \<and> unat dst < 0xac110000 then (Address_from_ipv4_numeric dst, 2)
      else if 0xc0a80000 \<le> unat dst \<and> unat dst < 0xc0a80100 then (Address_from_ipv4_numeric dst, 3)
      else if 0xc6b2e500 \<le> unat dst \<and> unat dst < 0xc6b2e600 then (Address_from_ipv4_numeric dst, 4)
      else if 0x8fc30000 \<le> unat dst \<and> unat dst < 0x8fc38000 then (ipv4_address 0x8fc30001 0, 5)
      else if 0x8fc38000 \<le> unat dst \<and> unat dst < 0x8fc3c000 then (ipv4_address 0x8fc30001 0, 5)
      else if 0x8fc3c000 \<le> unat dst \<and> unat dst < 0x8fc3e000 then (ipv4_address 0x8fc30001 0, 5)
      else if 0x801e0000 \<le> unat dst \<and> unat dst < 0x801f0000 then (ipv4_address 0x801e0001 0, 6)
      else (ipv4_address 0xab434c01 0, 0)))"
    by (simp add: simulator_table_def route_applies_def prefix_range)
  also have "\<dots> = Inr (Some (network_hop dst))"
    by (auto simp: network_hop_def word_le_nat_alt)
  finally show ?thesis .
qed

lemma router_end_address: "ni_ip_address (an_interface (router_end k rd a)) = ipv4_address a 0"
  "an_datagrams_out (router_end k rd a) = []"
  by (simp_all add: router_end_def AsyncNetworkInterface_def NetworkInterface_def)

lemma is_ipv4_address [simp]: "is_ipv4 (ipv4_address a p)"
  by (simp add: is_ipv4_def)

lemma simulator_router_ok: "router_ok (nw_router (simulator_network rd))"
  by (simp add: router_ok_def simulator_network_def simulator_table_def simulator_ends_def router_end_address)

text \<open>
  C23: The constructor of the simulated network succeeds whatever the random generator draws, and the
  network it builds routes every destination: its router is well formed, so that \<^verbatim>\<open>route\<close> cannot fail, and
  the lookup of any address gives the interface and next hop of its range, 143.195.0.0 to
  143.195.223.255 going to \<^verbatim>\<open>hs_router\<close> by three routes, and the rest to \<^verbatim>\<open>default_router\<close>.
\<close>

theorem Network_routes:
  assumes "reads_addresses ga"
  shows "\<exists>n rd'. Network ga rd = Inr (n, rd') \<and> router_ok (nw_router n) \<and>
    (\<forall>dst. find_route dst 0 None (rt_routing_table (nw_router n)) = Inr (Some (network_hop dst)))"
proof -
  have "rt_routing_table (nw_router (simulator_network rd)) = simulator_table" by (simp add: simulator_network_def)
  then show ?thesis
    using Network_eq [OF assms, of rd] simulator_router_ok [of rd] find_route_simulator by auto
qed

definition demo_getaddrinfo :: resolver where
  "demo_getaddrinfo node service hints =
     (if node = ''0'' then lc_getaddrinfo demo_libc (dotted 0) service hints
      else lc_getaddrinfo demo_libc node service hints)"

lemma demo_reads_addresses: "reads_addresses demo_getaddrinfo"
proof -
  have read: "Address_of_ip (lc_getaddrinfo demo_libc) (dotted a) 0 = Inr (ipv4_address a 0)" for a
    using Address_of_ip_ok(1) [OF demo_libc_ok, of a 0] by (simp add: demo_libc_def)
  have "undotted ''0'' = [0]" by code_simp
  moreover have "length (undotted (dotted a)) = 4" for a by simp
  ultimately have ne: "dotted a \<noteq> ''0''" for a by (metis length_Cons list.size(3) numeral_eq_one_iff One_nat_def semiring_norm(83))
  show ?thesis
    using read unfolding reads_addresses_def Address_of_ip_def Address_resolve_def demo_getaddrinfo_def demo_libc_def
    by (simp add: ne)
qed

theorem Network_routes_witness:
  "\<exists>n rd'. Network demo_getaddrinfo (\<lambda>i. word_of_nat i) = Inr (n, rd') \<and>
     find_route 0x8fc383fd 0 None (rt_routing_table (nw_router n)) = Inr (Some (ipv4_address 0x8fc30001 0, 5)) \<and>
     find_route 0x8fc3e000 0 None (rt_routing_table (nw_router n)) = Inr (Some (ipv4_address 0xab434c01 0, 0))"
proof -
  have "network_hop 0x8fc383fd = (ipv4_address 0x8fc30001 0, 5)" "network_hop 0x8fc3e000 = (ipv4_address 0xab434c01 0, 0)"
    by (simp_all add: network_hop_def)
  then show ?thesis using Network_routes [OF demo_reads_addresses, of "\<lambda>i. word_of_nat i"] by auto
qed

section \<open>Witnesses\<close>

theorem Host_check_spec_witness:
  "let h = \<lparr>ho_name = ''demo'', ho_my_address = ipv4_address 1 0,
        ho_interface = (demo_interface 1)\<lparr>an_datagrams_out := [demo_datagram 7, demo_datagram 7]\<rparr>,
        ho_next_hop = ipv4_address 2 0, ho_expecting_to_receive = [demo_datagram 7]\<rparr>
   in (\<exists>x. Host_check dotted h = Inl x) \<and>
      Host_check dotted (h\<lparr>ho_expecting_to_receive := [demo_datagram 7, demo_datagram 7]\<rparr>) =
        Inr (h\<lparr>ho_interface := demo_interface 1, ho_expecting_to_receive := []\<rparr>)"
proof -
  let ?h = "\<lparr>ho_name = ''demo'', ho_my_address = ipv4_address 1 0,
      ho_interface = (demo_interface 1)\<lparr>an_datagrams_out := [demo_datagram 7, demo_datagram 7]\<rparr>,
      ho_next_hop = ipv4_address 2 0, ho_expecting_to_receive = [demo_datagram 7]\<rparr>"
  have "comparable (demo_datagram 7)"
    using dgram_ok_serialize [OF demo_datagram_ok(1) [of 7]] by (auto simp: comparable_def serialized_def)
  then have all: "\<forall>d \<in> set (an_datagrams_out (ho_interface h)) \<union> set (ho_expecting_to_receive h). comparable d"
    if "h = ?h \<or> h = ?h\<lparr>ho_expecting_to_receive := [demo_datagram 7, demo_datagram 7]\<rparr>" for h
    using that by auto
  have same: "(demo_interface 1)\<lparr>an_datagrams_out := []\<rparr> = demo_interface 1"
    by (simp add: demo_interface_def AsyncNetworkInterface_def)
  show ?thesis
    using Host_check_spec [OF all, of ?h dotted] Host_check_spec [OF all, of "?h\<lparr>ho_expecting_to_receive := [demo_datagram 7, demo_datagram 7]\<rparr>" dotted]
    by (simp add: same Let_def)
qed

text \<open>A frame of an unknown type on each end: both are taken and neither is answered.\<close>

theorem exchange_frames_spec_witness:
  "exchange_frames2 dotted (set_frames [EthernetFrame] (demo_interface 1)) (set_frames [EthernetFrame] (demo_interface 2)) =
     Inr (demo_interface 1, demo_interface 2)"
proof -
  have ignored: "AsyncNetworkInterface_recv_frame (one_buffer EthernetFrame) (set_frames fs (demo_interface n)) =
      Inr (set_frames fs (demo_interface n))" for fs n
    by (simp add: AsyncNetworkInterface_recv_frame_def NetworkInterface_recv_frame_def one_buffer_payload
        EthernetFrame_def EthernetHeader_def Let_def TYPE_IPv4_def TYPE_ARP_def set_frames_def demo_interface_def AsyncNetworkInterface_def NetworkInterface_def)
  let ?x = "set_frames [EthernetFrame] (demo_interface 1)" and ?y = "set_frames [EthernetFrame] (demo_interface 2)"
  have "frames_out ?x = [EthernetFrame]" "frames_out ?y = [EthernetFrame]" by (simp_all add: set_frames_def)
  then have d: "deliver dotted (frames_out ?x) ?y = Inr ?y" "deliver dotted (frames_out ?y) ?x = Inr ?x"
    by (simp_all add: ignored)
  have "set_frames [] (set_frames fs (demo_interface n)) = demo_interface n" for fs n
    by (simp add: set_frames_def demo_interface_def AsyncNetworkInterface_def NetworkInterface_def)
  then show ?thesis using exchange_frames_spec [OF d] by auto
qed

theorem datagram_crosses_network_witness:
  "let a = demo_interface 5; b = AsyncNetworkInterface (NetworkInterface [2, 0, 0, 0, 0, 7] (Address_from_ipv4_numeric 0x0b000007));
       d = demo_datagram 0x0b000007
   in \<exists>ni a' x r' y b' d'.
    NetworkInterface_send_datagram d (Address_from_ipv4_numeric 0x0a000001) (an_interface a) = Inr ni \<and>
    thrice (exchanges True dotted) (a\<lparr>an_interface := ni\<rparr>, demo_interface 1) = Inr (a', x) \<and>
    Router_route (demo_router\<lparr>rt_interfaces := [x, demo_interface 2]\<rparr>) = Inr r' \<and>
    thrice (exchanges False dotted) (rt_interfaces r' ! 1, b) = Inr (y, b') \<and>
    an_datagrams_out b' = [d'] \<and> serialized d' = serialized (forwarded d)"
proof -
  let ?b = "AsyncNetworkInterface (NetworkInterface [2, 0, 0, 0, 0, 7] (Address_from_ipv4_numeric 0x0b000007))"
  have r: "rt_interfaces demo_router = [demo_interface 1, demo_interface 2]" by (simp add: demo_router_def)
  have rest: "at_rest (0x0a000000 + ucast n) (demo_interface n)" "unknown ip (demo_interface n)" for n ip
    by (simp_all add: at_rest_def unknown_def demo_interface_def AsyncNetworkInterface_def NetworkInterface_def)
  have restb: "at_rest 0x0b000007 ?b" by (simp add: at_rest_def AsyncNetworkInterface_def NetworkInterface_def)
  have route: "find_route (ip_dst (dg_header (demo_datagram 0x0b000007))) 0 None (rt_routing_table demo_router) =
      Inr (Some (Address_from_ipv4_numeric 0x0b000007, 1))"
    by (simp add: demo_datagram_ok(3) demo_router_def route_applies_def)
  have empty: "\<forall>k < length (rt_interfaces demo_router). an_datagrams_out (rt_interfaces demo_router ! k) = []"
    by (auto simp: r less_Suc_eq demo_interface_def AsyncNetworkInterface_def)
  have i: "0 < length (rt_interfaces demo_router)" "1 < length (rt_interfaces demo_router)" "0 \<noteq> (1::nat)"
    "at_rest 0x0a000001 (rt_interfaces demo_router ! 0)" "at_rest 0x0a000002 (rt_interfaces demo_router ! 1)"
    using rest(1) [of 1] rest(1) [of 2] by (simp_all add: r)
  have ttl: "1 < ip_ttl (dg_header (demo_datagram 0x0b000007))" by (simp add: demo_datagram_ok(2))
  have u: "unknown 0x0b000007 (rt_interfaces demo_router ! 1)" using rest(2) by (simp add: r)
  show ?thesis
    using datagram_crosses_network [OF i rest(1) [of 5] restb empty rest(2) u ipv4_numeric_from ipv4_numeric_from route
        demo_datagram_ok(1) ttl, where inet_ntoa = dotted]
    unfolding Let_def r list_update.simps nat.case nth_Cons_0 by (elim exE conjE) (intro exI conjI; (assumption | simp))
qed

end
