(* ===== verification/Lab7.thy ===== *)
theory Lab7
  imports Sponge_Socket Simulator
begin

text \<open>
  The end-to-end program of \<^verbatim>\<open>apps/lab7.cc\<close>: a TCP socket over its own network interface, whose frames go
  through a socket pair to a thread with a router, which is joined to a router elsewhere by
  Ethernet frames in UDP datagrams. The two threads are modelled one by one; the system calls work on a
  state \<open>'k\<close> of the outside. The random generators and addresses are those of the simulator.
\<close>

section \<open>Writing frames\<close>

text \<open>
  \<^verbatim>\<open>write\<close> may call \<^verbatim>\<open>writev(2)\<close> several times: a writer gives the answers to these calls, and the
  state after the bytes that the kernel took.
\<close>

record 'k writer =
  wr_writev :: "'k \<Rightarrow> nat \<Rightarrow> bytes list \<Rightarrow> sysret"
  wr_took :: "bytes \<Rightarrow> 'k \<Rightarrow> 'k"

definition write_frame_to :: "'k writer \<Rightarrow> ethernet_frame \<Rightarrow> fd_wrapper \<Rightarrow> 'k \<Rightarrow> exn + fd_wrapper \<times> 'k" where
  "write_frame_to wr f fd k =
     bindE (FileDescriptor_write (wr_writev wr k) (BufferViewList_of_buffers (EthernetFrame_serialize f)) True fd)
       (\<lambda>(_, out, fd). Inr (fd, wr_took wr out k))"

definition read_all :: "(nat \<Rightarrow> 'k \<Rightarrow> (sysret \<times> bytes) \<times> 'k) \<Rightarrow> fd_wrapper \<Rightarrow> 'k \<Rightarrow> exn + bytes \<times> fd_wrapper \<times> 'k" where
  "read_all read fd k =
     bindE (FileDescriptor_read (\<lambda>n. fst (read n k)) size_max fd) (\<lambda>(data, fd).
       Inr (data, fd, snd (read (min BUFFER_SIZE size_max) k)))"

section \<open>The adapter\<close>

record network_interface_adapter =
  na_base :: fd_adapter_base
  na_interface :: network_interface
  na_next_hop :: address
  na_first :: fd_wrapper
  na_second :: fd_wrapper

definition NetworkInterfaceAdapter :: "libc \<Rightarrow> sysret \<times> int \<times> int \<Rightarrow> rand \<Rightarrow> address \<Rightarrow> address \<Rightarrow>
    exn + network_interface_adapter \<times> rand" where
  "NetworkInterfaceAdapter l pair rd ip_address next_hop =
     bindE (FdAdapterBase l) (\<lambda>base.
     let (eth, rd) = random_host_ethernet_address rd in
     bindE (socket_pair_helper pair) (\<lambda>(a, b).
       Inr (\<lparr>na_base = base, na_interface = NetworkInterface eth ip_address, na_next_hop = next_hop,
             na_first = a, na_second = b\<rparr>, rd)))"

fun na_send_frames :: "'k writer \<Rightarrow> ethernet_frame list \<Rightarrow> network_interface_adapter \<Rightarrow> 'k \<Rightarrow>
    exn + network_interface_adapter \<times> 'k" where
  "na_send_frames wr [] a k = Inr (a, k)"
| "na_send_frames wr (f # fs) a k =
     bindE (write_frame_to wr f (na_first a) k) (\<lambda>(fd, k).
       na_send_frames wr fs (a\<lparr>na_first := fd, na_interface := NetworkInterface_pop_frame (na_interface a)\<rparr>) k)"

definition na_send_pending :: "'k writer \<Rightarrow> network_interface_adapter \<Rightarrow> 'k \<Rightarrow> exn + network_interface_adapter \<times> 'k" where
  "na_send_pending wr a k = na_send_frames wr (ni_frames_out (na_interface a)) a k"

definition na_read :: "libc \<Rightarrow> (nat \<Rightarrow> 'k \<Rightarrow> (sysret \<times> bytes) \<times> 'k) \<Rightarrow> 'k writer \<Rightarrow> network_interface_adapter \<Rightarrow> 'k \<Rightarrow>
    exn + tcp_segment option \<times> network_interface_adapter \<times> 'k" where
  "na_read l read wr a k =
     bindE (read_all read (na_first a) k) (\<lambda>(raw, fd, k).
     let a = a\<lparr>na_first := fd\<rparr>; (r, frame) = EthernetFrame_parse (Buffer raw) EthernetFrame in
     if r \<noteq> NoError then Inr (None, a, k)
     else
       bindE (NetworkInterface_recv_frame frame (na_interface a)) (\<lambda>(ip_dgram, ni).
       bindE (na_send_pending wr (a\<lparr>na_interface := ni\<rparr>) k) (\<lambda>(a, k).
         case ip_dgram of
           Some d \<Rightarrow> bindE (unwrap_tcp_in_ip l d (na_base a)) (\<lambda>(seg, base). Inr (seg, a\<lparr>na_base := base\<rparr>, k))
         | None \<Rightarrow> Inr (None, a, k))))"

definition na_write :: "libc \<Rightarrow> 'k writer \<Rightarrow> tcp_segment \<Rightarrow> network_interface_adapter \<Rightarrow> 'k \<Rightarrow>
    exn + network_interface_adapter \<times> 'k" where
  "na_write l wr seg a k =
     bindE (wrap_tcp_in_ip l seg (na_base a)) (\<lambda>(_, ip_dgram).
     bindE (NetworkInterface_send_datagram ip_dgram (na_next_hop a) (na_interface a)) (\<lambda>ni.
       na_send_pending wr (a\<lparr>na_interface := ni\<rparr>) k))"

definition na_tick :: "'k writer \<Rightarrow> nat \<Rightarrow> network_interface_adapter \<Rightarrow> 'k \<Rightarrow> exn + network_interface_adapter \<times> 'k" where
  "na_tick wr ms_since_last_tick a k =
     na_send_pending wr (a\<lparr>na_interface := NetworkInterface_tick ms_since_last_tick (na_interface a)\<rparr>) k"

text \<open>As the adapter of a \<^verbatim>\<open>TCPSpongeSocket\<close>.\<close>

definition na_ops :: "libc \<Rightarrow> (nat \<Rightarrow> 'k \<Rightarrow> (sysret \<times> bytes) \<times> 'k) \<Rightarrow> 'k writer \<Rightarrow>
    (network_interface_adapter, 'k) adapter_ops" where
  "na_ops l read wr =
     \<lparr>ao_fd = na_first, ao_read = na_read l read wr, ao_write = na_write l wr, ao_tick = na_tick wr,
      ao_set_config = (\<lambda>cfg a. a\<lparr>na_base := (na_base a)\<lparr>fa_cfg := cfg\<rparr>\<rparr>),
      ao_set_listening = (\<lambda>l a. a\<lparr>na_base := FdAdapter_set_listening l (na_base a)\<rparr>)\<rparr>"

section \<open>The socket\<close>

text \<open>\<^verbatim>\<open>TCPSocketLab7\<close> adds the local address to the socket.\<close>

definition TCPSocketLab7_connect :: "libc \<Rightarrow> (network_interface_adapter, 'k) adapter_ops \<Rightarrow> 'k pipe_ops \<Rightarrow> u32 \<Rightarrow> u32 \<Rightarrow>
    address \<Rightarrow> turn list \<Rightarrow> nat \<Rightarrow> (network_interface_adapter, 'k) sponge rule list \<Rightarrow>
    address \<times> (network_interface_adapter, 'k) sponge \<Rightarrow>
    exn + address \<times> bool \<times> (network_interface_adapter, 'k) sponge rule list \<times> (network_interface_adapter, 'k) sponge" where
  "TCPSocketLab7_connect l ad pp random_port random address turns base_time rules s =
     (let (local_address, w) = s in
      bindE (FdAdapterConfig l) (\<lambda>multiplexer_config.
      bindE (Address_ip (lc_getnameinfo l) local_address) (\<lambda>ip.
      bindE (Address_of_ip (lc_getaddrinfo l) ip (ucast random_port)) (\<lambda>local_address.
      bindE (TCPSpongeSocket_connect ad pp random TCPConfig
          (multiplexer_config\<lparr>fc_source := local_address, fc_destination := address\<rparr>) turns base_time rules w)
        (\<lambda>(finished, rules, w). Inr (local_address, finished, rules, w))))))"

definition TCPSocketLab7_bind :: "libc \<Rightarrow> address \<Rightarrow> address \<Rightarrow> exn + address" where
  "TCPSocketLab7_bind l address local_address =
     bindE (Address_ip (lc_getnameinfo l) address) (\<lambda>ip.
     bindE (Address_ip (lc_getnameinfo l) local_address) (\<lambda>local_ip.
     if ip \<noteq> local_ip
     then bindE (Address_to_string (lc_getnameinfo l) address) (\<lambda>t. Inl (Runtime_error (''Cannot bind to '' @ t)))
     else
       bindE (port_of l address) (\<lambda>port. Address_of_ip (lc_getaddrinfo l) local_ip port)))"

definition TCPSocketLab7_listen_and_accept :: "libc \<Rightarrow> (network_interface_adapter, 'k) adapter_ops \<Rightarrow> 'k pipe_ops \<Rightarrow> u32 \<Rightarrow>
    turn list \<Rightarrow> nat \<Rightarrow> (network_interface_adapter, 'k) sponge rule list \<Rightarrow>
    address \<times> (network_interface_adapter, 'k) sponge \<Rightarrow>
    exn + bool \<times> (network_interface_adapter, 'k) sponge rule list \<times> (network_interface_adapter, 'k) sponge" where
  "TCPSocketLab7_listen_and_accept l ad pp random turns base_time rules s =
     (let (local_address, w) = s in
      bindE (FdAdapterConfig l) (\<lambda>multiplexer_config.
        TCPSpongeSocket_listen_and_accept ad pp random TCPConfig (multiplexer_config\<lparr>fc_source := local_address\<rparr>)
          turns base_time rules w))"

section \<open>The router of one side\<close>

definition add_lab7_route :: "resolver \<Rightarrow> string \<Rightarrow> byte \<Rightarrow> string option \<Rightarrow> nat \<Rightarrow> router \<Rightarrow> exn + router" where
  "add_lab7_route ga pfx len next_hop i r =
     bindE (ip ga pfx) (\<lambda>p.
     bindE (case next_hop of None \<Rightarrow> Inr None | Some h \<Rightarrow> bindE (Address_of_ip ga h 0) (\<lambda>a. Inr (Some a))) (\<lambda>hop.
       Inr (Router_add_route p len hop i r)))"

definition lab7_router :: "resolver \<Rightarrow> bool \<Rightarrow> rand \<Rightarrow> exn + nat \<times> nat \<times> router \<times> rand" where
  "lab7_router ga is_client rd =
     (if is_client then
        bindE (add_router_interface ga ''192.168.0.1'' rd Router) (\<lambda>(host_side, r, rd).
        bindE (add_router_interface ga ''10.0.0.192'' rd r) (\<lambda>(internet_side, r, rd).
        bindE (add_lab7_route ga ''192.168.0.0'' 16 None host_side r) (\<lambda>r.
        bindE (add_lab7_route ga ''10.0.0.0'' 8 None internet_side r) (\<lambda>r.
        bindE (add_lab7_route ga ''172.16.0.0'' 12 (Some ''10.0.0.172'') internet_side r) (\<lambda>r.
          Inr (host_side, internet_side, r, rd))))))
      else
        bindE (add_router_interface ga ''172.16.0.1'' rd Router) (\<lambda>(host_side, r, rd).
        bindE (add_router_interface ga ''10.0.0.172'' rd r) (\<lambda>(internet_side, r, rd).
        bindE (add_lab7_route ga ''172.16.0.0'' 12 None host_side r) (\<lambda>r.
        bindE (add_lab7_route ga ''10.0.0.0'' 8 None internet_side r) (\<lambda>r.
        bindE (add_lab7_route ga ''192.168.0.0'' 16 (Some ''10.0.0.192'') internet_side r) (\<lambda>r.
          Inr (host_side, internet_side, r, rd)))))))"

definition lab7_summary :: "(u32 \<Rightarrow> string) \<Rightarrow> ethernet_frame \<Rightarrow> exn + string" where
  "lab7_summary inet_ntoa frame =
     (let ret = EthernetHeader_to_string (ef_header frame) in
      if eth_type (ef_header frame) = TYPE_IPv4 then
        let (r, dgram) = IPv4Datagram_parse (Buffer (BufferList_concatenate (ef_payload frame))) IPv4Datagram in
        if r = NoError then
          let ret = ret @ '' '' @ IPv4Header_summary inet_ntoa (dg_header dgram) in
          if ip_proto (dg_header dgram) = PROTO_TCP then
            let (r, tcp_seg) = TCPSegment_parse (Buffer (BufferList_concatenate (dg_payload dgram)))
                  (IPv4Header_pseudo_cksum (dg_header dgram)) TCPSegment in
            Inr (if r = NoError then ret @ '' '' @ TCPHeader_summary (seg_header tcp_seg) else ret)
          else Inr ret
        else Inr (ret @ '' (bad IPv4)'')
      else if eth_type (ef_header frame) = TYPE_ARP then
        bindE (BufferList_to_buffer (ef_payload frame)) (\<lambda>b.
          let (r, arp) = ARPMessage_parse b ARPMessage
          in if r = NoError then Inr (ret @ '' '' @ ARPMessage_to_string inet_ntoa arp)
             else Inr (ret @ '' (bad ARP)''))
      else Inr ret)"

section \<open>The network thread\<close>

text \<open>\<^verbatim>\<open>read(2)\<close> and \<^verbatim>\<open>writev(2)\<close> on the second socket of the pair, \<^verbatim>\<open>read(2)\<close> and \<^verbatim>\<open>sendmsg(2)\<close> on the UDP socket.\<close>

record 'k lab7_ops =
  l7_read_host :: "nat \<Rightarrow> 'k \<Rightarrow> (sysret \<times> bytes) \<times> 'k"
  l7_write_host :: "'k writer"
  l7_read_internet :: "nat \<Rightarrow> 'k \<Rightarrow> (sysret \<times> bytes) \<times> 'k"
  l7_sendmsg :: "bytes option \<Rightarrow> bytes list \<Rightarrow> 'k \<Rightarrow> sysret \<times> 'k"

record 'k lab7_net =
  l7_router :: router
  l7_frame_fd :: fd_wrapper
  l7_internet :: fd_wrapper
  l7_kernel :: 'k

definition set_lab7_interface :: "nat \<Rightarrow> async_network_interface \<Rightarrow> 'k lab7_net \<Rightarrow> 'k lab7_net" where
  "set_lab7_interface i a w = w\<lparr>l7_router := (l7_router w)\<lparr>rt_interfaces := (rt_interfaces (l7_router w))[i := a]\<rparr>\<rparr>"

text \<open>Rules 1 and 4: a frame comes in at one side and is routed.\<close>

definition lab7_frame_in :: "(u32 \<Rightarrow> string) \<Rightarrow> bool \<Rightarrow> nat \<Rightarrow> bytes \<Rightarrow> 'k lab7_net \<Rightarrow> exn + 'k lab7_net" where
  "lab7_frame_in inet_ntoa debug side raw w =
     (let (r, frame) = EthernetFrame_parse (Buffer raw) EthernetFrame in
      if r \<noteq> NoError then Inr w
      else
        bindE (if debug then lab7_summary inet_ntoa frame else Inr []) (\<lambda>_.
        bindE (Router_interface side (l7_router w)) (\<lambda>a.
        bindE (AsyncNetworkInterface_recv_frame frame a) (\<lambda>a.
        let w = set_lab7_interface side a w in
        bindE (Router_route (l7_router w)) (\<lambda>r. Inr (w\<lparr>l7_router := r\<rparr>))))))"

definition lab7_host_in :: "(u32 \<Rightarrow> string) \<Rightarrow> bool \<Rightarrow> 'k lab7_ops \<Rightarrow> nat \<Rightarrow> 'k lab7_net \<Rightarrow> exn + 'k lab7_net" where
  "lab7_host_in inet_ntoa debug ops host_side w =
     bindE (read_all (l7_read_host ops) (l7_frame_fd w) (l7_kernel w)) (\<lambda>(raw, fd, k).
       lab7_frame_in inet_ntoa debug host_side raw (w\<lparr>l7_frame_fd := fd, l7_kernel := k\<rparr>))"

definition lab7_internet_in :: "(u32 \<Rightarrow> string) \<Rightarrow> bool \<Rightarrow> 'k lab7_ops \<Rightarrow> nat \<Rightarrow> 'k lab7_net \<Rightarrow> exn + 'k lab7_net" where
  "lab7_internet_in inet_ntoa debug ops internet_side w =
     bindE (read_all (l7_read_internet ops) (l7_internet w) (l7_kernel w)) (\<lambda>(raw, fd, k).
       lab7_frame_in inet_ntoa debug internet_side raw (w\<lparr>l7_internet := fd, l7_kernel := k\<rparr>))"

text \<open>Rules 2 and 3: the first frame of a side's queue goes out. The front of an empty queue is undefined.\<close>

definition lab7_front :: "(u32 \<Rightarrow> string) \<Rightarrow> bool \<Rightarrow> nat \<Rightarrow> 'k lab7_net \<Rightarrow> exn + async_network_interface \<times> ethernet_frame" where
  "lab7_front inet_ntoa debug side w =
     bindE (Router_interface side (l7_router w)) (\<lambda>a.
       case frames_out a of
         [] \<Rightarrow> Inl (Undefined_behaviour ''front of an empty queue'')
       | f # _ \<Rightarrow> bindE (if debug then lab7_summary inet_ntoa f else Inr []) (\<lambda>_. Inr (a, f)))"

definition lab7_pop :: "nat \<Rightarrow> async_network_interface \<Rightarrow> 'k lab7_net \<Rightarrow> 'k lab7_net" where
  "lab7_pop side a w = set_lab7_interface side (a\<lparr>an_interface := NetworkInterface_pop_frame (an_interface a)\<rparr>) w"

definition lab7_host_out :: "(u32 \<Rightarrow> string) \<Rightarrow> bool \<Rightarrow> 'k lab7_ops \<Rightarrow> nat \<Rightarrow> 'k lab7_net \<Rightarrow> exn + 'k lab7_net" where
  "lab7_host_out inet_ntoa debug ops host_side w =
     bindE (lab7_front inet_ntoa debug host_side w) (\<lambda>(a, f).
     bindE (write_frame_to (l7_write_host ops) f (l7_frame_fd w) (l7_kernel w)) (\<lambda>(fd, k).
       Inr (lab7_pop host_side a (w\<lparr>l7_frame_fd := fd, l7_kernel := k\<rparr>))))"

definition lab7_internet_out :: "(u32 \<Rightarrow> string) \<Rightarrow> bool \<Rightarrow> 'k lab7_ops \<Rightarrow> address \<Rightarrow> nat \<Rightarrow> 'k lab7_net \<Rightarrow> exn + 'k lab7_net" where
  "lab7_internet_out inet_ntoa debug ops bounce_address internet_side w =
     bindE (lab7_front inet_ntoa debug internet_side w) (\<lambda>(a, f).
     let payload = BufferViewList_of_buffers (EthernetFrame_serialize f);
         k' = snd (l7_sendmsg ops (Some (take (ad_size bounce_address) (ad_storage bounce_address)))
                (BufferViewList_as_iovecs payload) (l7_kernel w))
     in bindE (UDPSocket_sendto (\<lambda>dst iovecs. fst (l7_sendmsg ops dst iovecs (l7_kernel w))) bounce_address payload (l7_internet w))
          (\<lambda>fd. Inr (lab7_pop internet_side a (w\<lparr>l7_internet := fd, l7_kernel := k'\<rparr>))))"

definition lab7_has_frames :: "nat \<Rightarrow> 'k lab7_net \<Rightarrow> bool" where
  "lab7_has_frames side w \<longleftrightarrow> (case Router_interface side (l7_router w) of Inl _ \<Rightarrow> False | Inr a \<Rightarrow> frames_out a \<noteq> [])"

definition lab7_rules :: "(u32 \<Rightarrow> string) \<Rightarrow> bool \<Rightarrow> 'k lab7_ops \<Rightarrow> address \<Rightarrow> nat \<Rightarrow> nat \<Rightarrow> 'k lab7_net rule list" where
  "lab7_rules inet_ntoa debug ops bounce_address host_side internet_side =
     [\<lparr>ru_fd = l7_frame_fd, ru_direction = In, ru_callback = lab7_host_in inet_ntoa debug ops host_side,
       ru_interest = (\<lambda>_. True), ru_cancel = Inr\<rparr>,
      \<lparr>ru_fd = l7_frame_fd, ru_direction = Out, ru_callback = lab7_host_out inet_ntoa debug ops host_side,
       ru_interest = lab7_has_frames host_side, ru_cancel = Inr\<rparr>,
      \<lparr>ru_fd = l7_internet, ru_direction = Out,
       ru_callback = lab7_internet_out inet_ntoa debug ops bounce_address internet_side,
       ru_interest = lab7_has_frames internet_side, ru_cancel = Inr\<rparr>,
      \<lparr>ru_fd = l7_internet, ru_direction = In, ru_callback = lab7_internet_in inet_ntoa debug ops internet_side,
       ru_interest = (\<lambda>_. True), ru_cancel = Inr\<rparr>]"

definition lab7_tick :: "nat \<Rightarrow> 'k lab7_net \<Rightarrow> exn + 'k lab7_net" where
  "lab7_tick side w =
     bindE (Router_interface side (l7_router w)) (\<lambda>a.
       Inr (set_lab7_interface side (a\<lparr>an_interface := NetworkInterface_tick 50 (an_interface a)\<rparr>) w))"

text \<open>
  The loop of the thread, one turn per answer of \<^verbatim>\<open>poll\<close> and value of \<^verbatim>\<open>exit_flag\<close>; the flag of the result
  tells whether the thread has returned. An exception ends it too.
\<close>

fun lab7_loop :: "nat \<Rightarrow> nat \<Rightarrow> ((pollfd list \<Rightarrow> int \<Rightarrow> sysret \<times> u16 list) \<times> bool) list \<Rightarrow> 'k lab7_net rule list \<Rightarrow>
    'k lab7_net \<Rightarrow> exn + bool \<times> 'k lab7_net rule list \<times> 'k lab7_net" where
  "lab7_loop host_side internet_side [] rules w = Inr (False, rules, w)"
| "lab7_loop host_side internet_side ((poll, exit_flag) # turns) rules w =
     bindE (EventLoop_wait_next_event poll 50 rules w) (\<lambda>(ret, rules, w).
       if ret = Result_Exit then Inr (True, rules, w)
       else
         bindE (lab7_tick host_side w) (\<lambda>w.
         bindE (lab7_tick internet_side w) (\<lambda>w.
           if exit_flag then Inr (True, rules, w) else lab7_loop host_side internet_side turns rules w)))"

section \<open>The adapter is the Ethernet adapter over a socket\<close>

text \<open>A kernel that takes the frames it is given, over however many calls, and keeps them in order.\<close>

definition takes_frames :: "('k \<Rightarrow> bytes list) \<Rightarrow> 'k writer \<Rightarrow> bool" where
  "takes_frames sent wr \<longleftrightarrow> (\<forall>k. takes_some (wr_writev wr k) \<and> (\<forall>out. sent (wr_took wr out k) = sent k @ [out]))"

definition tap_of :: "network_interface_adapter \<Rightarrow> tap_adapter" where
  "tap_of a = \<lparr>ta_base = na_base a, ta_interface = na_interface a, ta_next_hop = na_next_hop a\<rparr>"

lemma write_frame_to_whole:
  assumes "takes_frames sent wr"
  shows "\<exists>fd' k'. write_frame_to wr f fd k = Inr (fd', k') \<and>
    sent k' = sent k @ [BufferList_concatenate (EthernetFrame_serialize f)]"
proof -
  let ?b = "BufferViewList_of_buffers (EthernetFrame_serialize f)"
  have k: "takes_some (wr_writev wr k)" "sent (wr_took wr out k) = sent k @ [out]" for out
    using assms by (auto simp: takes_frames_def)
  obtain n out fd' where w: "write_loop (wr_writev wr k) True 0 ?b 0 [] fd = Inr (n, out, fd')"
    using write_loop_total [OF k(1), of True 0 ?b 0 "[]" fd] by (auto simp: split_paired_Ex)
  have "out = views_content ?b"
    using write_loop_spec [OF w] by (auto simp: BufferViewList_size_content)
  then have "out = BufferList_concatenate (EthernetFrame_serialize f)"
    by (simp add: views_content_def BufferViewList_of_buffers_def BufferList_concatenate_def foldl_append_concat [where f = Buffer_str])
  then show ?thesis using w k(2) by (simp add: write_frame_to_def FileDescriptor_write_def)
qed

lemma na_send_frames_tap:
  assumes "takes_frames sent wr"
  shows "\<exists>a' k'. na_send_frames wr fs a k = Inr (a', k') \<and>
    TAP_send_pending fs (tap_of a) = (drop (length (sent k)) (sent k'), tap_of a') \<and> take (length (sent k)) (sent k') = sent k"
proof (induction fs arbitrary: a k)
  case (Cons f fs)
  obtain fd k1 where w: "write_frame_to wr f (na_first a) k = Inr (fd, k1)"
    "sent k1 = sent k @ [BufferList_concatenate (EthernetFrame_serialize f)]"
    using write_frame_to_whole [OF assms] by blast
  let ?a = "a\<lparr>na_first := fd, na_interface := NetworkInterface_pop_frame (na_interface a)\<rparr>"
  obtain a' k' where IH: "na_send_frames wr fs ?a k1 = Inr (a', k')"
    "TAP_send_pending fs (tap_of ?a) = (drop (length (sent k1)) (sent k'), tap_of a')" "take (length (sent k1)) (sent k') = sent k1"
    using Cons by blast
  have split: "sent k' = sent k1 @ drop (length (sent k1)) (sent k')" using IH(3) by (metis append_take_drop_id)
  have "tap_of ?a = (tap_of a)\<lparr>ta_interface := NetworkInterface_pop_frame (ta_interface (tap_of a))\<rparr>"
    by (simp add: tap_of_def)
  with IH(2) have "TAP_send_pending (f # fs) (tap_of a) =
      (BufferList_concatenate (EthernetFrame_serialize f) # drop (length (sent k1)) (sent k'), tap_of a')"
    by simp
  moreover have "drop (length (sent k)) (sent k') = BufferList_concatenate (EthernetFrame_serialize f) # drop (length (sent k1)) (sent k')"
    "take (length (sent k)) (sent k') = sent k"
    by (subst split, simp add: w(2))+
  ultimately show ?case using w(1) IH(1) by auto
qed (simp add: tap_of_def)

lemma na_send_pending_tap:
  assumes "takes_frames sent wr"
  obtains a' k' out where "na_send_pending wr a k = Inr (a', k')" "send_pending_frames (tap_of a) = (out, tap_of a')"
    "sent k' = sent k @ out"
proof -
  obtain a' k' where "na_send_frames wr (ni_frames_out (na_interface a)) a k = Inr (a', k')"
    "TAP_send_pending (ni_frames_out (na_interface a)) (tap_of a) = (drop (length (sent k)) (sent k'), tap_of a')"
    "take (length (sent k)) (sent k') = sent k"
    using na_send_frames_tap [OF assms] by blast
  then show thesis
    by (intro that [of a' k' "drop (length (sent k)) (sent k')"])
      (simp_all add: na_send_pending_def send_pending_frames_def tap_of_def, metis append_take_drop_id)
qed

lemma tap_of_simps: "ta_base (tap_of a) = na_base a" "ta_interface (tap_of a) = na_interface a" "ta_next_hop (tap_of a) = na_next_hop a"
  "(tap_of a)\<lparr>ta_interface := ni\<rparr> = tap_of (a\<lparr>na_interface := ni\<rparr>)" "(tap_of a)\<lparr>ta_base := b\<rparr> = tap_of (a\<lparr>na_base := b\<rparr>)"
  "tap_of (a\<lparr>na_first := fd\<rparr>) = tap_of a"
  by (simp_all add: tap_of_def)

lemma na_tap:
  assumes "takes_frames sent wr"
  shows "(case TCPOverIPv4OverEthernetAdapter_write l seg (tap_of a) of Inl x \<Rightarrow> na_write l wr seg a k = Inl x
      | Inr (_, out, t) \<Rightarrow> \<exists>a' k'. na_write l wr seg a k = Inr (a', k') \<and> tap_of a' = t \<and> sent k' = sent k @ out)"
    and "\<exists>a' k'. na_tick wr ms a k = Inr (a', k') \<and>
      TCPOverIPv4OverEthernetAdapter_tick ms (tap_of a) = (drop (length (sent k)) (sent k'), tap_of a')"
    and "read_all read (na_first a) k = Inr (raw, fd, k1) \<Longrightarrow>
      (case TCPOverIPv4OverEthernetAdapter_read l raw (tap_of a) of Inl x \<Rightarrow> na_read l read wr a k = Inl x
       | Inr (s, out, t) \<Rightarrow> \<exists>a' k'. na_read l read wr a k = Inr (s, a', k') \<and> tap_of a' = t \<and> sent k' = sent k1 @ out)"
proof -
  note pend = na_send_pending_tap [OF assms]
  show "case TCPOverIPv4OverEthernetAdapter_write l seg (tap_of a) of Inl x \<Rightarrow> na_write l wr seg a k = Inl x
      | Inr (_, out, t) \<Rightarrow> \<exists>a' k'. na_write l wr seg a k = Inr (a', k') \<and> tap_of a' = t \<and> sent k' = sent k @ out"
  proof (cases "wrap_tcp_in_ip l seg (na_base a)")
    case (Inr p)
    obtain s d where p: "p = (s, d)" by (cases p)
    show ?thesis
    proof (cases "NetworkInterface_send_datagram d (na_next_hop a) (na_interface a)")
      case sd: (Inr ni)
      obtain a' k' out where "na_send_pending wr (a\<lparr>na_interface := ni\<rparr>) k = Inr (a', k')"
        "send_pending_frames (tap_of (a\<lparr>na_interface := ni\<rparr>)) = (out, tap_of a')" "sent k' = sent k @ out"
        by (rule pend)
      then show ?thesis using Inr p sd
        by (simp add: TCPOverIPv4OverEthernetAdapter_write_def na_write_def tap_of_simps)
    qed (simp add: Inr p TCPOverIPv4OverEthernetAdapter_write_def na_write_def tap_of_simps)
  qed (simp add: TCPOverIPv4OverEthernetAdapter_write_def na_write_def tap_of_simps)
  show "\<exists>a' k'. na_tick wr ms a k = Inr (a', k') \<and>
      TCPOverIPv4OverEthernetAdapter_tick ms (tap_of a) = (drop (length (sent k)) (sent k'), tap_of a')"
  proof -
    let ?a = "a\<lparr>na_interface := NetworkInterface_tick ms (na_interface a)\<rparr>"
    obtain a' k' out where "na_send_pending wr ?a k = Inr (a', k')"
      "send_pending_frames (tap_of ?a) = (out, tap_of a')" "sent k' = sent k @ out" by (rule pend)
    then show ?thesis by (simp add: na_tick_def TCPOverIPv4OverEthernetAdapter_tick_def tap_of_simps)
  qed
  assume rd: "read_all read (na_first a) k = Inr (raw, fd, k1)"
  obtain r frame where parse: "EthernetFrame_parse (Buffer raw) EthernetFrame = (r, frame)" by (metis surj_pair)
  show "case TCPOverIPv4OverEthernetAdapter_read l raw (tap_of a) of Inl x \<Rightarrow> na_read l read wr a k = Inl x
       | Inr (s, out, t) \<Rightarrow> \<exists>a' k'. na_read l read wr a k = Inr (s, a', k') \<and> tap_of a' = t \<and> sent k' = sent k1 @ out"
  proof (cases "r = NoError")
    case ok: True
    show ?thesis
    proof (cases "NetworkInterface_recv_frame frame (na_interface a)")
      case (Inr p)
      obtain dg ni where p: "p = (dg, ni)" by (cases p)
      obtain a' k' out where sp: "na_send_pending wr (a\<lparr>na_first := fd, na_interface := ni\<rparr>) k1 = Inr (a', k')"
        "send_pending_frames (tap_of (a\<lparr>na_first := fd, na_interface := ni\<rparr>)) = (out, tap_of a')" "sent k' = sent k1 @ out"
        by (rule pend)
      have eq: "tap_of (a\<lparr>na_first := fd, na_interface := ni\<rparr>) = tap_of (a\<lparr>na_interface := ni\<rparr>)" by (simp add: tap_of_def)
      show ?thesis
        using rd parse ok Inr p sp [unfolded eq]
        by (cases dg; cases "unwrap_tcp_in_ip l (the dg) (na_base a')")
          (auto simp: TCPOverIPv4OverEthernetAdapter_read_def na_read_def tap_of_simps Let_def)
    qed (simp add: rd parse ok TCPOverIPv4OverEthernetAdapter_read_def na_read_def tap_of_simps Let_def)
  qed (simp add: rd parse TCPOverIPv4OverEthernetAdapter_read_def na_read_def tap_of_simps Let_def)
qed

text \<open>
  C14: The adapter of this program is the Ethernet adapter of the library, with its frames written to a socket: over a kernel
  that takes frames whole, \<^verbatim>\<open>write\<close>, \<^verbatim>\<open>tick\<close> and \<^verbatim>\<open>read\<close> (of what \<^verbatim>\<open>read(2)\<close> delivered) throw just when those of the
  TAP adapter throw, with the same exception, and otherwise leave the same state, put the same frames on the wire, in order,
  and return the same segment.
\<close>

theorem NetworkInterfaceAdapter_refines_tap:
  assumes "takes_frames sent wr"
  shows "(case TCPOverIPv4OverEthernetAdapter_write l seg (tap_of a) of Inl x \<Rightarrow> na_write l wr seg a k = Inl x
      | Inr (_, out, t) \<Rightarrow> \<exists>a' k'. na_write l wr seg a k = Inr (a', k') \<and> tap_of a' = t \<and> sent k' = sent k @ out) \<and>
    (\<exists>a' k'. na_tick wr ms a k = Inr (a', k') \<and>
      TCPOverIPv4OverEthernetAdapter_tick ms (tap_of a) = (drop (length (sent k)) (sent k'), tap_of a')) \<and>
    (\<forall>raw fd k1. read_all read (na_first a) k = Inr (raw, fd, k1) \<longrightarrow>
      (case TCPOverIPv4OverEthernetAdapter_read l raw (tap_of a) of Inl x \<Rightarrow> na_read l read wr a k = Inl x
       | Inr (s, out, t) \<Rightarrow> \<exists>a' k'. na_read l read wr a k = Inr (s, a', k') \<and> tap_of a' = t \<and> sent k' = sent k1 @ out))"
  using na_tap [OF assms] by blast

definition demo_writer :: "bytes list writer" where
  "demo_writer = \<lparr>wr_writev = (\<lambda>k i v. (int (length (concat v)), 0)), wr_took = (\<lambda>out k. k @ [out])\<rparr>"

definition demo_nia :: network_interface_adapter where
  "demo_nia = \<lparr>na_base = demo_adapter 1 2, na_interface = demo_ni 1, na_next_hop = Address_from_ipv4_numeric 2,
     na_first = demo_fd, na_second = demo_fd\<rparr>"

theorem NetworkInterfaceAdapter_refines_tap_witness:
  "case TCPOverIPv4OverEthernetAdapter_write demo_libc demo_syn (tap_of demo_nia) of
     Inl x \<Rightarrow> na_write demo_libc demo_writer demo_syn demo_nia [] = Inl x
   | Inr (_, out, t) \<Rightarrow> \<exists>a' k'. na_write demo_libc demo_writer demo_syn demo_nia [] = Inr (a', k') \<and> tap_of a' = t \<and> k' = out"
proof -
  have "takes_frames (\<lambda>k. k) demo_writer"
    by (auto simp: takes_frames_def takes_some_def demo_writer_def Suc_le_eq)
  from NetworkInterfaceAdapter_refines_tap [OF this, of demo_libc demo_syn demo_nia "[]" 0 "\<lambda>n k. (((0, 0), []), k)", THEN conjunct1]
  show ?thesis unfolding append_Nil .
qed

section \<open>The routes of both sides\<close>

definition lab7_table :: "bool \<Rightarrow> route list" where
  "lab7_table is_client =
     (if is_client then
        [((0xc0a80000, 16), (None, 0)), ((0x0a000000, 8), (None, 1)), ((0xac100000, 12), (Some (ipv4_address 0x0a0000ac 0), 1))]
      else
        [((0xac100000, 12), (None, 0)), ((0x0a000000, 8), (None, 1)), ((0xc0a80000, 16), (Some (ipv4_address 0x0a0000c0 0), 1))])"

definition lab7_ends :: "bool \<Rightarrow> rand \<Rightarrow> async_network_interface list" where
  "lab7_ends is_client rd =
     (if is_client then [router_end 0 rd 0xc0a80001, router_end 1 rd 0x0a0000c0]
      else [router_end 0 rd 0xac100001, router_end 1 rd 0x0a0000ac])"

lemma lab7_dotted:
  "''192.168.0.1'' = dotted 0xc0a80001" "''10.0.0.192'' = dotted 0x0a0000c0" "''172.16.0.1'' = dotted 0xac100001"
  "''10.0.0.172'' = dotted 0x0a0000ac" "''192.168.0.0'' = dotted 0xc0a80000" "''10.0.0.0'' = dotted 0x0a000000"
  "''172.16.0.0'' = dotted 0xac100000"
  by code_simp+

lemma lab7_router_eq:
  assumes "reads_addresses ga"
  shows "lab7_router ga c rd = Inr (0, 1, \<lparr>rt_interfaces = lab7_ends c rd, rt_routing_table = lab7_table c\<rparr>, draws 2 rd)"
proof -
  note ad = reads_dotted(1) [OF assms] and net = reads_dotted(2) [OF assms]
  note iface = add_router_interface_eq [OF assms]
  have two: "draws 2 rd = draws (Suc (Suc 0)) rd" by (simp add: numeral_2_eq_2)
  have first: "add_router_interface ga s rd Router = Inr (0, \<lparr>rt_interfaces = [router_end 0 rd a], rt_routing_table = []\<rparr>, draws (Suc 0) rd)"
    if "s = dotted a" for s a
    using iface [OF that, of 0 rd Router] by (simp add: draws_Suc(2) Router_def)
  show ?thesis
    by (simp add: lab7_router_def first [OF lab7_dotted(1)] first [OF lab7_dotted(3)] iface [OF lab7_dotted(2)]
        iface [OF lab7_dotted(4)] add_lab7_route_def net [OF lab7_dotted(5)] net [OF lab7_dotted(6)] net [OF lab7_dotted(7)]
        ad [OF lab7_dotted(2)] ad [OF lab7_dotted(4)] Router_add_route_def lab7_ends_def lab7_table_def two)
qed

text \<open>What a side does with a destination: to its own network, to the network between the sides, to the other side, or nothing.\<close>

definition lab7_hop :: "bool \<Rightarrow> u32 \<Rightarrow> (address \<times> nat) option" where
  "lab7_hop is_client dst =
     (if 0x0a000000 \<le> dst \<and> dst \<le> 0x0affffff then Some (Address_from_ipv4_numeric dst, 1)
      else if 0xc0a80000 \<le> dst \<and> dst \<le> 0xc0a8ffff
      then Some (if is_client then (Address_from_ipv4_numeric dst, 0) else (ipv4_address 0x0a0000c0 0, 1))
      else if 0xac100000 \<le> dst \<and> dst \<le> 0xac1fffff
      then Some (if is_client then (ipv4_address 0x0a0000ac 0, 1) else (Address_from_ipv4_numeric dst, 0))
      else None)"

lemma find_route_lab7: "find_route dst 0 None (lab7_table c) = Inr (lab7_hop c dst)"
proof -
  have "find_route dst 0 None (lab7_table c) = Inr
    (if 0x0a000000 \<le> unat dst \<and> unat dst < 0x0b000000 then Some (Address_from_ipv4_numeric dst, 1)
     else if 0xc0a80000 \<le> unat dst \<and> unat dst < 0xc0a90000
     then Some (if c then (Address_from_ipv4_numeric dst, 0) else (ipv4_address 0x0a0000c0 0, 1))
     else if 0xac100000 \<le> unat dst \<and> unat dst < 0xac200000
     then Some (if c then (ipv4_address 0x0a0000ac 0, 1) else (Address_from_ipv4_numeric dst, 0))
     else None)"
    by (simp add: lab7_table_def route_applies_def prefix_range)
  also have "\<dots> = Inr (lab7_hop c dst)" by (auto simp: lab7_hop_def word_le_nat_alt)
  finally show ?thesis .
qed

text \<open>
  The two sides are joined: whatever the random generator draws, each side's router is built, is well formed, so that
  routing never throws, and has the interfaces 0 to its host and 1 to the Internet; each gives the other side's network the other
  router as next hop, delivers its own network directly, and drops every other destination.
\<close>

theorem lab7_routes:
  assumes "reads_addresses ga"
  shows "\<exists>r rd'. lab7_router ga c rd = Inr (0, 1, r, rd') \<and> router_ok r \<and> length (rt_interfaces r) = 2 \<and>
    (\<forall>dst. find_route dst 0 None (rt_routing_table r) = Inr (lab7_hop c dst))"
proof -
  have "router_ok \<lparr>rt_interfaces = lab7_ends c rd, rt_routing_table = lab7_table c\<rparr>"
    by (simp add: router_ok_def lab7_table_def lab7_ends_def router_end_address)
  moreover have "length (lab7_ends c rd) = 2" by (simp add: lab7_ends_def)
  ultimately show ?thesis using lab7_router_eq [OF assms, of c rd] find_route_lab7 by auto
qed

theorem lab7_routes_witness:
  "\<exists>r rd'. lab7_router demo_getaddrinfo True (\<lambda>i. word_of_nat i) = Inr (0, 1, r, rd') \<and>
     find_route 0xac100064 0 None (rt_routing_table r) = Inr (Some (ipv4_address 0x0a0000ac 0, 1)) \<and>
     find_route 0x01020304 0 None (rt_routing_table r) = Inr None"
proof -
  have "lab7_hop True 0xac100064 = Some (ipv4_address 0x0a0000ac 0, 1)" "lab7_hop True 0x01020304 = None"
    by (simp_all add: lab7_hop_def)
  then show ?thesis using lab7_routes [OF demo_reads_addresses, of True "\<lambda>i. word_of_nat i"] by auto
qed

end
