(* ===== verification/Spec2Isabelle.thy ===== *)
theory Spec2Isabelle
  imports Lost_Answer Benchmark Router Small_Programs Stream_Copy Lab7
begin

text \<open>
  A verification library of a user-space TCP/IP stack (directory \<^verbatim>\<open>src/sponge\<close>): a TCP
  implementation with its byte streams, sender, receiver and connection, the wire formats below it, a network interface
  with ARP, an IP router, the socket that runs a connection in a thread, and the programs that put them together.

  How the program works. A \<^verbatim>\<open>TCPConnection\<close> owns a \<^verbatim>\<open>TCPSender\<close> and a
  \<^verbatim>\<open>TCPReceiver\<close>; the sender cuts its \<^verbatim>\<open>ByteStream\<close> into segments, the receiver puts segments together with
  a \<^verbatim>\<open>StreamReassembler\<close>; both number bytes with \<^verbatim>\<open>WrappingInt32\<close>. An adapter turns segments into datagrams or frames
  and back; \<^verbatim>\<open>TCPSpongeSocket\<close> runs connection and adapter in an \<^verbatim>\<open>EventLoop\<close> with four
  rules. A \<^verbatim>\<open>NetworkInterface\<close> finds Ethernet addresses by ARP; a \<^verbatim>\<open>Router\<close> moves datagrams between several of them.

  Theories and the code they model, under \<^verbatim>\<open>src/sponge\<close>; a definition has the name of its function, with the class
  in front of it (\<^verbatim>\<open>ByteStream::write\<close> is \<open>ByteStream_write\<close>), a record the fields of its class, with a
  prefix:

  \<^item> \<open>Prelude\<close>: bytes, strings, \<open>size_t\<close> with wrap-around, exceptions and undefined behaviour as values of a sum type.
  \<^item> \<open>Byte_Stream\<close> (\<^verbatim>\<open>libsponge/byte_stream\<close>), \<open>Stream_Reassembler\<close>, \<open>Wrapping_Integers\<close>, \<open>TCP_Receiver\<close>,
    \<open>TCP_Sender\<close> (with \<^verbatim>\<open>tcp_helpers/tcp_config.hh\<close>), \<open>TCP_Connection\<close> (with \<^verbatim>\<open>tcp_state\<close>): the classes of that name.
  \<^item> \<open>Buffers\<close>, \<open>Parser\<close>, \<open>Internet_Checksum\<close>, \<open>Address\<close>, \<open>File_Descriptor\<close> (with the sockets), \<open>Event_Loop\<close>:
    \<^verbatim>\<open>libsponge/util\<close>.
  \<^item> \<open>Ethernet\<close> (headers, frames, ARP messages), \<open>IPv4\<close>, \<open>TCP_Segment\<close>: the wire formats of \<^verbatim>\<open>tcp_helpers\<close>.
  \<^item> \<open>Network_Interface\<close>, \<open>Router\<close>: the classes of that name.
  \<^item> \<open>Adapters\<close>: UDP, TUN, TAP and lossy adapters (\<^verbatim>\<open>fd_adapter\<close>, \<^verbatim>\<open>tcp_over_ip\<close>, \<^verbatim>\<open>tuntap_adapter\<close>,
    \<^verbatim>\<open>lossy_fd_adapter\<close>).
  \<^item> \<open>End_To_End\<close>, \<open>Handshake\<close>, \<open>Connections\<close>, \<open>Lost_Answer\<close>: no code of their own; a sender, a network and a receiver;
    two connections that open; two connections with their applications over a network; and what a lost answer does to them.
  \<^item> \<open>Sponge_Socket\<close>, \<open>Sponge_Thread\<close>: \<^verbatim>\<open>tcp_helpers/tcp_sponge_socket\<close>, the model and what its thread keeps.
  \<^item> \<open>Simulator\<close> (\<^verbatim>\<open>apps/network_simulator.cc\<close>), \<open>Stream_Copy\<close> (\<^verbatim>\<open>apps/bidirectional_stream_copy.cc\<close>), \<open>Lab7\<close>
    (\<^verbatim>\<open>apps/lab7.cc\<close>), \<open>Tcpdump\<close> (\<^verbatim>\<open>apps/udp_tcpdump.cc\<close> and \<open>hexdump\<close> of \<^verbatim>\<open>util/util.cc\<close>), \<open>Benchmark\<close>
    (\<^verbatim>\<open>apps/tcp_benchmark.cc\<close>), \<open>Command_Lines\<close> (\<^verbatim>\<open>apps/tcp_ipv4.cc\<close>, \<^verbatim>\<open>tcp_udp.cc\<close>, \<^verbatim>\<open>tcp_ip_ethernet.cc\<close>),
    \<open>Small_Programs\<close> (\<^verbatim>\<open>apps/webget.cc\<close>, \<^verbatim>\<open>tun.cc\<close>, \<^verbatim>\<open>tcp_native.cc\<close>, and \<^verbatim>\<open>util/tun.cc\<close>).

  What the lemmas show:

  \<^item> Streams: a byte stream is a bounded queue; the reassembler outputs exactly what the pushed bytes determine, in
    whatever order they came, within its capacity; a receiver and a sender keep their invariants under every
    operation, and a network that loses, repeats and reorders between them delivers only a prefix of what was
    written (\<open>End_To_End\<close>). The receiver does lose data in three situations, each shown by a run.
  \<^item> Connections: every run of two whole connections over such a network (\<open>ends_step\<close>), with data both ways, resets,
    retransmissions and giving up, is followed step by step by one run of \<open>End_To_End\<close> per direction (\<open>tracked\<close>), so
    that both streams are delivered; the steps make an end see the SYN of its peer first, and \<open>Lost_Answer\<close>
    shows the run in which it does not and the connection falls silent. The benchmark is such a run.
  \<^item> Wire formats: serialising and parsing round trip, parsers accept what they should but for the errors they drop, and
    checksums verify.
  \<^item> Interface and router: ARP tables stay fresh, questions are rate-limited, an exchange delivers; the router follows a longest
    prefix where the order of its table allows it.
  \<^item> Socket and programs: over the contract of the event loop (locale \<open>loop_client\<close>) the four rules move every byte
    and keep the thread's invariant; the stream copier copies faithfully; the simulated networks route every destination.
  \<^item> Command lines and small programs: options are read back and never read past \<^verbatim>\<open>argv\<close> (locale \<open>option_loop\<close>);
    \<^verbatim>\<open>webget\<close> prints the answer it gets, but overflows its request buffer on long URLs; \<^verbatim>\<open>tun\<close> shows what the stack sends.

  Interfaces are locales, each interpreted on the model of the code: \<open>byte_queue\<close> (a byte stream), \<open>discardable\<close> (the
  three kinds of buffer), \<open>field_codec\<close> (the integer parsers), \<open>reassembly\<close> (the reassembler as the
  receiver uses it), \<open>segment_adapter\<close> (TUN and UDP adapters below a lossy one), \<open>loop_client\<close> (the rules of the TCP
  thread and of the stream copier), \<open>option_loop\<close> (the three loops over \<^verbatim>\<open>argv\<close>).

  Bounds and loops. \<^verbatim>\<open>size_t\<close> is \<open>nat\<close> with the wrap-around of \<open>add64\<close> and \<open>sub64\<close> written out; header fields are words.
  Every loop of the code that ends by itself is a terminating function. The loops that run until something outside
  happens (\<open>tcp_loop\<close>, \<open>copy_loop\<close>, \<open>lab7_loop\<close>) take the list of their turns, one entry with the answer of
  \<^verbatim>\<open>poll\<close> per turn, and say whether the loop had ended when the list was used up; their properties hold for lists of
  every length. \<open>loop_while\<close>, \<open>url_loop\<close> take a number of turns instead; that \<open>url_loop\<close> ends within it is part of its property.
  \<open>Network_simulate\<close> makes the 256 rounds of the code.

  The environment is a parameter: the system calls (\<^verbatim>\<open>poll\<close>, \<^verbatim>\<open>read\<close>, \<^verbatim>\<open>writev\<close>, ...), \<^verbatim>\<open>getaddrinfo\<close>,
  \<^verbatim>\<open>inet_ntop\<close>, the random generators and the clock are arguments; where a property needs something of
  them (a kernel that says how many bytes it took, a resolver that reads dotted numbers) it is a named hypothesis.

  Not modelled: debug output and the texts of usage messages; \<^verbatim>\<open>setsockopt\<close> beyond its result; the capture of packets by \<^verbatim>\<open>libpcap\<close>
  in \<^verbatim>\<open>udp_tcpdump\<close>; the start of the threads of \<^verbatim>\<open>lab7\<close>; the timing of the benchmark; floating-point numbers (the
  loss rates of the command lines are computed by parameters). Threads as such are not modelled: the thread and its owner
  are sequences of turns on their own state, joined by the sockets between them. The directory \<^verbatim>\<open>src/Labs\<close> holds copies of the
  files modelled here: all are identical but \<^verbatim>\<open>Lab1/stream_reassembler\<close> and \<^verbatim>\<open>Lab3/tcp_sender.cc\<close>, earlier states of
  the same classes that nothing builds.
\<close>

section \<open>Properties that span components\<close>

lemma carried_same_data: "carried seg seg' \<Longrightarrow> same_data seg seg'"
  by (cases "th_seqno (seg_header seg)"; cases "th_seqno (seg_header seg')")
    (simp add: carried_def same_data_def TCPHeader_eq_def wi_eq_def)



end
